(* ===== verification/Errors.thy ===== *)
theory Errors
  imports Prelude
begin

text \<open>
  The exception hierarchy of \<^verbatim>\<open>nng/_errors.pxi\<close>: the error codes the binding
  names, the exception classes with their bases, the table from codes to classes, and
  \<open>check_err\<close>, through which every return code of the C library passes.
\<close>

section \<open>Error codes\<close>

text \<open>
  The enumerators declared in \<^verbatim>\<open>nng/_decls.pxd\<close>; \<open>NNG_CODE\<close> stands for a code
  of the C library the binding has no name for. Their numbers belong to the C header
  and never matter to the binding, which only compares them.
\<close>

datatype nng_err =
    NNG_OK | NNG_EINTR | NNG_ENOMEM | NNG_EINVAL | NNG_EBUSY | NNG_ETIMEDOUT
  | NNG_ECONNREFUSED | NNG_ECLOSED | NNG_EAGAIN | NNG_ENOTSUP | NNG_EADDRINUSE
  | NNG_ESTATE | NNG_ENOENT | NNG_EPROTO | NNG_EUNREACHABLE | NNG_EADDRINVAL
  | NNG_EPERM | NNG_EMSGSIZE | NNG_ECONNABORTED | NNG_ECONNRESET | NNG_ECANCELED
  | NNG_ENOFILES | NNG_ENOSPC | NNG_EEXIST | NNG_EREADONLY | NNG_EWRITEONLY
  | NNG_ECRYPTO | NNG_EPEERAUTH | NNG_EBADTYPE | NNG_ECONNSHUT | NNG_ESTOPPED
  | NNG_EINTERNAL | NNG_ESYSERR | NNG_ETRANERR | NNG_CODE int

section \<open>Exception classes\<close>

datatype nng_class =
    NngError | NngTimeout | NngConnectionRefused | NngClosed | NngAgain
  | NngNotSupported | NngAddressInUse | NngPermission | NngCanceled
  | NngConnectionReset | NngConnectionAborted | NngNoMemory | NngInvalidArgument
  | NngState | NngAuthError | NngCryptoError

text \<open>The Python classes the hierarchy mixes in, and those the binding raises itself.\<close>

datatype builtin_class =
    BaseException | PyException | ArithmeticError | OverflowError | LookupError
  | IndexError | KeyError | MemoryError | OSError | ConnectionError
  | ConnectionRefusedError | ConnectionResetError | ConnectionAbortedError
  | PermissionError | TimeoutError | RuntimeError | NotImplementedError | TypeError
  | ValueError | UnicodeError | AttributeError | ImportError | InvalidStateError
  | CancelledError | KeyboardInterrupt

datatype py_class = NngC nng_class | BuiltinC builtin_class

fun builtin_base :: "builtin_class \<Rightarrow> builtin_class option" where
  "builtin_base BaseException = None"
| "builtin_base PyException = Some BaseException"
| "builtin_base KeyboardInterrupt = Some BaseException"
| "builtin_base CancelledError = Some BaseException"
| "builtin_base OverflowError = Some ArithmeticError"
| "builtin_base IndexError = Some LookupError"
| "builtin_base KeyError = Some LookupError"
| "builtin_base ConnectionError = Some OSError"
| "builtin_base ConnectionRefusedError = Some ConnectionError"
| "builtin_base ConnectionResetError = Some ConnectionError"
| "builtin_base ConnectionAbortedError = Some ConnectionError"
| "builtin_base PermissionError = Some OSError"
| "builtin_base TimeoutError = Some OSError"
| "builtin_base NotImplementedError = Some RuntimeError"
| "builtin_base UnicodeError = Some ValueError"
| "builtin_base _ = Some PyException"

text \<open>The second base each subclass of \<open>NngError\<close> names, if any.\<close>

fun nng_mixin :: "nng_class \<Rightarrow> builtin_class option" where
  "nng_mixin NngTimeout = Some TimeoutError"
| "nng_mixin NngConnectionRefused = Some ConnectionRefusedError"
| "nng_mixin NngNotSupported = Some NotImplementedError"
| "nng_mixin NngAddressInUse = Some OSError"
| "nng_mixin NngPermission = Some PermissionError"
| "nng_mixin NngConnectionReset = Some ConnectionResetError"
| "nng_mixin NngConnectionAborted = Some ConnectionAbortedError"
| "nng_mixin NngNoMemory = Some MemoryError"
| "nng_mixin NngInvalidArgument = Some ValueError"
| "nng_mixin _ = None"

definition bases :: "py_class \<Rightarrow> py_class list" where
  "bases c =
     (case c of
        BuiltinC b \<Rightarrow> (case builtin_base b of None \<Rightarrow> [] | Some b' \<Rightarrow> [BuiltinC b'])
      | NngC n \<Rightarrow>
          (if n = NngError then [BuiltinC PyException]
           else NngC NngError # (case nng_mixin n of None \<Rightarrow> [] | Some b \<Rightarrow> [BuiltinC b])))"

text \<open>The depth of a class below the root, which bounds the walk of \<open>issubclass\<close>.\<close>

fun builtin_depth :: "builtin_class \<Rightarrow> nat" where
  "builtin_depth BaseException = 0"
| "builtin_depth PyException = 1"
| "builtin_depth KeyboardInterrupt = 1"
| "builtin_depth CancelledError = 1"
| "builtin_depth OverflowError = 3"
| "builtin_depth IndexError = 3"
| "builtin_depth KeyError = 3"
| "builtin_depth ConnectionError = 3"
| "builtin_depth ConnectionRefusedError = 4"
| "builtin_depth ConnectionResetError = 4"
| "builtin_depth ConnectionAbortedError = 4"
| "builtin_depth PermissionError = 3"
| "builtin_depth TimeoutError = 3"
| "builtin_depth NotImplementedError = 3"
| "builtin_depth UnicodeError = 3"
| "builtin_depth _ = 2"

fun class_depth :: "py_class \<Rightarrow> nat" where
  "class_depth (BuiltinC b) = builtin_depth b"
| "class_depth (NngC n) = (if n = NngError then 5 else 6)"

lemma builtin_base_depth: "builtin_base b = Some b' \<Longrightarrow> builtin_depth b' < builtin_depth b"
  by (cases b) auto

lemma builtin_depth_less: "builtin_depth b < 5"
  by (cases b) auto

lemma bases_depth: "b \<in> set (bases c) \<Longrightarrow> class_depth b < class_depth c"
  by (auto simp: bases_def builtin_base_depth builtin_depth_less less_trans [OF builtin_depth_less]
      split: py_class.splits option.splits if_splits)

function issubclass :: "py_class \<Rightarrow> py_class \<Rightarrow> bool" where
  "issubclass c d = (c = d \<or> (\<exists>b \<in> set (bases c). issubclass b d))"
  by pat_completeness auto
termination
  by (relation "measure (\<lambda>(c, d). class_depth c)") (auto dest: bases_depth)

declare issubclass.simps [simp del]

section \<open>Raised exceptions\<close>

text \<open>
  The message of an \<open>NngError\<close> is either the C library's text for the code
  (\<open>StrError\<close>, the result of \<open>nng_strerror\<close>) or a literal of the binding.
\<close>

datatype message_text = StrError | Literal string

datatype py_exn = NngExn nng_class nng_err message_text | PyExn builtin_class

type_synonym 'a result = "py_exn + 'a"

fun exn_class :: "py_exn \<Rightarrow> py_class" where
  "exn_class (NngExn c code m) = NngC c"
| "exn_class (PyExn b) = BuiltinC b"

definition isinstance :: "py_exn \<Rightarrow> py_class \<Rightarrow> bool" where
  "isinstance e c = issubclass (exn_class e) c"

fun exn_code :: "py_exn \<Rightarrow> nng_err option" where
  "exn_code (NngExn c code m) = Some code"
| "exn_code (PyExn b) = None"

section \<open>The table and check\_err\<close>

definition ERR_MAP :: "(nng_err \<times> nng_class) list" where
  "ERR_MAP =
    [(NNG_ETIMEDOUT, NngTimeout),
     (NNG_ECONNREFUSED, NngConnectionRefused),
     (NNG_ECLOSED, NngClosed),
     (NNG_EAGAIN, NngAgain),
     (NNG_ENOTSUP, NngNotSupported),
     (NNG_EADDRINUSE, NngAddressInUse),
     (NNG_EPERM, NngPermission),
     (NNG_ECANCELED, NngCanceled),
     (NNG_ECONNRESET, NngConnectionReset),
     (NNG_ECONNABORTED, NngConnectionAborted),
     (NNG_ENOMEM, NngNoMemory),
     (NNG_EINVAL, NngInvalidArgument),
     (NNG_ESTATE, NngState),
     (NNG_EPEERAUTH, NngAuthError),
     (NNG_ECRYPTO, NngCryptoError)]"

definition err_from_code :: "nng_err \<Rightarrow> py_exn" where
  "err_from_code code =
     (case map_of ERR_MAP code of
        None \<Rightarrow> NngExn NngError code StrError
      | Some cls \<Rightarrow> NngExn cls code StrError)"

definition check_err :: "nng_err \<Rightarrow> unit result" where
  "check_err rv = (if rv \<noteq> NNG_OK then Inl (err_from_code rv) else Inr ())"

section \<open>Lemmas\<close>

lemma check_err_OK [simp]: "check_err NNG_OK = Inr ()"
  by (simp add: check_err_def)

lemma check_err_Inr_iff [simp]: "check_err rv = Inr u \<longleftrightarrow> rv = NNG_OK"
  by (simp add: check_err_def)

lemma check_err_fails: "rv \<noteq> NNG_OK \<Longrightarrow> check_err rv = Inl (err_from_code rv)"
  by (simp add: check_err_def)

lemma exn_code_err_from_code [simp]: "exn_code (err_from_code c) = Some c"
  by (auto simp: err_from_code_def split: option.splits)

lemma issubclass_refl [simp]: "issubclass c c"
  by (subst issubclass.simps) simp

lemma ERR_MAP_distinct: "distinct (map fst ERR_MAP)" "distinct (map snd ERR_MAP)"
  by (simp_all add: ERR_MAP_def)

text \<open>Every class below \<open>NngError\<close>, computed once for the lemmas that follow.\<close>

lemma issubclass_builtin_nng [simp]: "\<not> issubclass (BuiltinC b) (NngC n)"
proof (induction "builtin_depth b" arbitrary: b rule: less_induct)
  case less
  show ?case
  proof (cases "builtin_base b")
    case None
    then show ?thesis by (subst issubclass.simps) (simp add: bases_def)
  next
    case (Some b')
    with builtin_base_depth less have "\<not> issubclass (BuiltinC b') (NngC n)" by blast
    with Some show ?thesis by (subst issubclass.simps) (simp add: bases_def)
  qed
qed

lemma issubclass_nng_nng:
  "issubclass (NngC c) (NngC d) \<longleftrightarrow> c = d \<or> d = NngError"
proof -
  have root: "issubclass (NngC NngError) (NngC d) \<longleftrightarrow> d = NngError"
    by (subst issubclass.simps) (auto simp: bases_def)
  show ?thesis
    by (cases "c = NngError")
       (auto simp: root issubclass.simps [of "NngC c"] bases_def split: option.splits)
qed

lemma issubclass_nng_builtin:
  "issubclass (NngC c) (BuiltinC b) \<longleftrightarrow>
     issubclass (BuiltinC PyException) (BuiltinC b) \<or>
     (\<exists>m. nng_mixin c = Some m \<and> issubclass (BuiltinC m) (BuiltinC b))"
proof -
  have root: "issubclass (NngC NngError) (BuiltinC b)
      \<longleftrightarrow> issubclass (BuiltinC PyException) (BuiltinC b)"
    by (subst issubclass.simps) (auto simp: bases_def)
  show ?thesis
    by (cases "c = NngError")
       (auto simp: root issubclass.simps [of "NngC c"] bases_def split: option.splits)
qed

lemma mixin_under_OSError:
  "issubclass (BuiltinC PyException) (BuiltinC OSError) = False"
  "issubclass (BuiltinC TimeoutError) (BuiltinC OSError) = True"
  "issubclass (BuiltinC ConnectionRefusedError) (BuiltinC OSError) = True"
  "issubclass (BuiltinC ConnectionResetError) (BuiltinC OSError) = True"
  "issubclass (BuiltinC ConnectionAbortedError) (BuiltinC OSError) = True"
  "issubclass (BuiltinC PermissionError) (BuiltinC OSError) = True"
  "issubclass (BuiltinC NotImplementedError) (BuiltinC OSError) = False"
  "issubclass (BuiltinC MemoryError) (BuiltinC OSError) = False"
  "issubclass (BuiltinC ValueError) (BuiltinC OSError) = False"
  by code_simp+

lemma isinstance_err_from_code:
  "isinstance (err_from_code rv) (NngC c) \<longleftrightarrow> c = NngError \<or> map_of ERR_MAP rv = Some c"
  by (auto simp: isinstance_def err_from_code_def issubclass_nng_nng split: option.splits)

lemma ERR_MAP_range: "c \<noteq> NngError \<Longrightarrow> c \<in> snd ` set ERR_MAP"
  by (cases c) (auto simp: ERR_MAP_def)

lemma map_of_inj_snd:
  "distinct (map fst xs) \<Longrightarrow> distinct (map snd xs) \<Longrightarrow>
   map_of xs a = Some c \<Longrightarrow> map_of xs b = Some c \<Longrightarrow> a = b"
  by (metis distinct_map inj_on_def map_of_SomeD prod.inject snd_conv)

section \<open>Properties\<close>

text \<open>Every nonzero return code raises, the exception carries that code and is an
  \<open>NngError\<close>; each specific subclass of \<open>NngError\<close> is raised for exactly one code.\<close>

theorem check_err_classifies:
  "check_err rv = (if rv = NNG_OK then Inr () else Inl (err_from_code rv)) \<and>
   exn_code (err_from_code rv) = Some rv \<and>
   isinstance (err_from_code rv) (NngC NngError) \<and>
   (c = NngError \<or> (\<exists>!code. isinstance (err_from_code code) (NngC c)))"
proof -
  have "\<exists>!code. isinstance (err_from_code code) (NngC c)" if c: "c \<noteq> NngError"
  proof -
    from ERR_MAP_range [OF c] obtain code where "(code, c) \<in> set ERR_MAP" by auto
    then have code: "map_of ERR_MAP code = Some c"
      using ERR_MAP_distinct(1) by simp
    show ?thesis
    proof (rule ex1I [of _ code])
      show "isinstance (err_from_code code) (NngC c)"
        by (simp add: isinstance_err_from_code code)
      show "code' = code" if "isinstance (err_from_code code') (NngC c)" for code'
        using that c code map_of_inj_snd [OF ERR_MAP_distinct]
        by (auto simp: isinstance_err_from_code)
    qed
  qed
  then show ?thesis by (auto simp: check_err_def isinstance_err_from_code)
qed

text \<open>The error codes a Python \<open>except OSError\<close> clause catches are exactly the six
  transport codes whose classes mix in \<open>OSError\<close> or one of its subclasses.\<close>

theorem oserror_catches_exactly:
  "isinstance (err_from_code rv) (BuiltinC OSError) \<longleftrightarrow>
   rv \<in> {NNG_ETIMEDOUT, NNG_ECONNREFUSED, NNG_EADDRINUSE, NNG_EPERM, NNG_ECONNRESET,
         NNG_ECONNABORTED}"
  by (cases rv)
     (simp_all add: isinstance_def err_from_code_def ERR_MAP_def issubclass_nng_builtin
        mixin_under_OSError)

end
