(* ===== verification/PipeFilter.thy ===== *)
theory PipeFilter
  imports Errors
begin

text \<open>
  Connection filters: \<^verbatim>\<open>nng/cpp/pipe_filter.hpp\<close> and their Python constructors in
  \<^verbatim>\<open>nng/_pipe_filter.pxi\<close>. A filter is an immutable tree whose leaves are the
  address, port and PID lists and references to \<open>FirstWinsFilter\<close> objects; those are
  mutable and may be shared between trees and sockets, so their state lives in a store
  indexed by reference.
\<close>

section \<open>Socket addresses\<close>

text \<open>
  The union \<open>nng_sockaddr\<close>. Port and address of an IP address are kept as the octets
  in memory, which are in network byte order; a scalar read of the port depends on the
  byte order of the host.
\<close>

datatype sockaddr =
    SA_unspec
  | SA_inproc string
  | SA_ipc string
  | SA_in byte byte bytes
  | SA_in6 byte byte bytes u32
  | SA_abstract bytes

datatype sa_family = NNG_AF_UNSPEC | NNG_AF_INPROC | NNG_AF_IPC | NNG_AF_INET
  | NNG_AF_INET6 | NNG_AF_ABSTRACT

fun s_family :: "sockaddr \<Rightarrow> sa_family" where
  "s_family SA_unspec = NNG_AF_UNSPEC"
| "s_family (SA_inproc n) = NNG_AF_INPROC"
| "s_family (SA_ipc p) = NNG_AF_IPC"
| "s_family (SA_in p0 p1 a) = NNG_AF_INET"
| "s_family (SA_in6 p0 p1 a sc) = NNG_AF_INET6"
| "s_family (SA_abstract b) = NNG_AF_ABSTRACT"

fun sa_addr :: "sockaddr \<Rightarrow> bytes" where
  "sa_addr (SA_in p0 p1 a) = a"
| "sa_addr (SA_in6 p0 p1 a sc) = a"
| "sa_addr _ = []"

text \<open>An address as the C library fills it in: 4 octets for IPv4, 16 for IPv6.\<close>

fun wf_sockaddr :: "sockaddr \<Rightarrow> bool" where
  "wf_sockaddr (SA_in p0 p1 a) \<longleftrightarrow> length a = 4"
| "wf_sockaddr (SA_in6 p0 p1 a sc) \<longleftrightarrow> length a = 16"
| "wf_sockaddr _ \<longleftrightarrow> True"

definition is_ip :: "sockaddr \<Rightarrow> bool" where
  "is_ip sa \<longleftrightarrow> s_family sa = NNG_AF_INET \<or> s_family sa = NNG_AF_INET6"

datatype endian = LittleEndian | BigEndian

text \<open>The value a \<open>uint16_t\<close> read of two octets in memory gives.\<close>

fun read_u16 :: "endian \<Rightarrow> byte \<Rightarrow> byte \<Rightarrow> u16" where
  "read_u16 BigEndian b0 b1 = word_of_nat (unat b0 * 256 + unat b1)"
| "read_u16 LittleEndian b0 b1 = word_of_nat (unat b1 * 256 + unat b0)"

section \<open>PipeFilterInfo and the helpers of namespace detail\<close>

record pipe_filter_info =
  peer_addr :: sockaddr
  peer_pid :: int
  info_pipe_id :: u32
  info_dialer :: u32
  info_listener :: u32

definition addrs_equal_ip :: "sockaddr \<Rightarrow> sockaddr \<Rightarrow> bool" where
  "addrs_equal_ip a b =
     (let fa = s_family a; fb = s_family b in
      if fa \<noteq> NNG_AF_INET \<and> fa \<noteq> NNG_AF_INET6 then True
      else if fb \<noteq> NNG_AF_INET \<and> fb \<noteq> NNG_AF_INET6 then True
      else if fa \<noteq> fb then False
      else if fa = NNG_AF_INET then sa_addr a = sa_addr b
      else take 16 (sa_addr a) = take 16 (sa_addr b))"

fun sockaddr_port :: "endian \<Rightarrow> sockaddr \<Rightarrow> u16" where
  "sockaddr_port e (SA_in p0 p1 a) = read_u16 e p0 p1"
| "sockaddr_port e (SA_in6 p0 p1 a sc) = read_u16 e p0 p1"
| "sockaddr_port e _ = 0"

text \<open>
  The loop over whole octets and the masked comparison of the remaining bits. The two
  C++ functions differ only in how they reach the octets.
\<close>

definition rem_mask :: "nat \<Rightarrow> byte" where
  "rem_mask rem_bits = push_bit (8 - rem_bits) 255"

definition cidr4_match :: "bytes \<Rightarrow> bytes \<Rightarrow> byte \<Rightarrow> bool" where
  "cidr4_match a c prefix_len =
     (let num_bytes = unat prefix_len div 8; rem_bits = unat prefix_len mod 8 in
      if \<not> list_all (\<lambda>i. a ! i = c ! i) [0..<num_bytes] then False
      else if rem_bits = 0 then True
      else a ! num_bytes AND rem_mask rem_bits = c ! num_bytes AND rem_mask rem_bits)"

definition cidr6_match :: "bytes \<Rightarrow> bytes \<Rightarrow> byte \<Rightarrow> bool" where
  "cidr6_match addr cidr prefix_len =
     (let num_bytes = unat prefix_len div 8; rem_bits = unat prefix_len mod 8 in
      if \<not> list_all (\<lambda>i. addr ! i = cidr ! i) [0..<num_bytes] then False
      else if rem_bits = 0 then True
      else addr ! num_bytes AND rem_mask rem_bits = cidr ! num_bytes AND rem_mask rem_bits)"

section \<open>The filters\<close>

datatype FilterMode = ALLOW | DENY

record cidr_entry =
  entry_addr :: bytes
  entry_prefix_len :: byte

record port_range =
  range_lo :: u16
  range_hi :: u16

definition ip_matches :: "cidr_entry list \<Rightarrow> cidr_entry list \<Rightarrow> sockaddr \<Rightarrow> bool" where
  "ip_matches v4 v6 sa =
     (if s_family sa = NNG_AF_INET
      then list_ex (\<lambda>e. cidr4_match (sa_addr sa) (entry_addr e) (entry_prefix_len e)) v4
      else if s_family sa = NNG_AF_INET6
      then list_ex (\<lambda>e. cidr6_match (sa_addr sa) (entry_addr e) (entry_prefix_len e)) v6
      else False)"

definition IpFilter_allow ::
    "FilterMode \<Rightarrow> cidr_entry list \<Rightarrow> cidr_entry list \<Rightarrow> pipe_filter_info \<Rightarrow> bool" where
  "IpFilter_allow mode v4 v6 info =
     (let family = s_family (peer_addr info) in
      if family \<noteq> NNG_AF_INET \<and> family \<noteq> NNG_AF_INET6 then True
      else let matched = ip_matches v4 v6 (peer_addr info)
           in if mode = ALLOW then matched else \<not> matched)"

definition PortFilter_allow ::
    "endian \<Rightarrow> FilterMode \<Rightarrow> port_range list \<Rightarrow> pipe_filter_info \<Rightarrow> bool" where
  "PortFilter_allow e mode ranges info =
     (let port = sockaddr_port e (peer_addr info) in
      if port = 0 then True
      else let matched = list_ex (\<lambda>r. range_lo r \<le> port \<and> port \<le> range_hi r) ranges
           in if mode = ALLOW then matched else \<not> matched)"

definition PidFilter_allow :: "FilterMode \<Rightarrow> int list \<Rightarrow> pipe_filter_info \<Rightarrow> bool" where
  "PidFilter_allow mode pids info =
     (if peer_pid info = -1 then True
      else let matched = list_ex (\<lambda>p. peer_pid info = p) pids
           in if mode = ALLOW then matched else \<not> matched)"

definition KEY_PID :: int where "KEY_PID = 1"
definition KEY_IP :: int where "KEY_IP = 2"
definition KEY_PORT :: int where "KEY_PORT = 4"

record first_wins =
  key_mask :: int
  initialized :: bool
  first_pid :: int
  first_addr :: sockaddr
  first_port :: u16

definition FirstWins_new :: "int \<Rightarrow> first_wins" where
  "FirstWins_new km =
     \<lparr>key_mask = km, initialized = False, first_pid = -1, first_addr = SA_unspec,
      first_port = 0\<rparr>"

definition has_key :: "first_wins \<Rightarrow> int \<Rightarrow> bool" where
  "has_key fw k \<longleftrightarrow> key_mask fw AND k \<noteq> 0"

definition FirstWins_anchor ::
    "endian \<Rightarrow> first_wins \<Rightarrow> pipe_filter_info \<Rightarrow> first_wins" where
  "FirstWins_anchor e fw info =
     fw\<lparr>first_pid := (if has_key fw KEY_PID then peer_pid info else first_pid fw),
        first_addr := (if has_key fw KEY_IP then peer_addr info else first_addr fw),
        first_port := (if has_key fw KEY_PORT then sockaddr_port e (peer_addr info)
                       else first_port fw),
        initialized := True\<rparr>"

definition FirstWins_allow ::
    "endian \<Rightarrow> first_wins \<Rightarrow> pipe_filter_info \<Rightarrow> bool \<times> first_wins" where
  "FirstWins_allow e fw info =
     (if \<not> initialized fw then (True, FirstWins_anchor e fw info)
      else if has_key fw KEY_PID \<and> peer_pid info \<noteq> first_pid fw then (False, fw)
      else if has_key fw KEY_IP \<and> \<not> addrs_equal_ip (peer_addr info) (first_addr fw)
        then (False, fw)
      else if has_key fw KEY_PORT \<and> sockaddr_port e (peer_addr info) \<noteq> first_port fw
        then (False, fw)
      else (True, fw))"

definition FirstWins_reset :: "first_wins \<Rightarrow> first_wins" where
  "FirstWins_reset fw = fw\<lparr>initialized := False\<rparr>"

text \<open>Filter objects; the store holds the mutable state of each \<open>FirstWinsFilter\<close>.\<close>

datatype pipe_filter =
    IpFilter FilterMode "cidr_entry list" "cidr_entry list"
  | PortFilter FilterMode "port_range list"
  | PidFilter FilterMode "int list"
  | FirstWinsFilter nat
  | AllFilter "pipe_filter list"
  | AnyFilter "pipe_filter list"

type_synonym fw_store = "nat \<Rightarrow> first_wins"

fun allow :: "endian \<Rightarrow> pipe_filter \<Rightarrow> pipe_filter_info \<Rightarrow> fw_store \<Rightarrow> bool \<times> fw_store"
  and allow_all :: "endian \<Rightarrow> pipe_filter list \<Rightarrow> pipe_filter_info \<Rightarrow> fw_store \<Rightarrow> bool \<times> fw_store"
  and allow_any :: "endian \<Rightarrow> pipe_filter list \<Rightarrow> pipe_filter_info \<Rightarrow> fw_store \<Rightarrow> bool \<times> fw_store"
where
  "allow e (IpFilter mode v4 v6) info st = (IpFilter_allow mode v4 v6 info, st)"
| "allow e (PortFilter mode ranges) info st = (PortFilter_allow e mode ranges info, st)"
| "allow e (PidFilter mode pids) info st = (PidFilter_allow mode pids info, st)"
| "allow e (FirstWinsFilter r) info st =
     (let (ok, fw') = FirstWins_allow e (st r) info in (ok, st(r := fw')))"
| "allow e (AllFilter children) info st = allow_all e children info st"
| "allow e (AnyFilter children) info st = allow_any e children info st"
| "allow_all e [] info st = (True, st)"
| "allow_all e (c # cs) info st =
     (let (ok, st') = allow e c info st in
      if \<not> ok then (False, st') else allow_all e cs info st')"
| "allow_any e [] info st = (False, st)"
| "allow_any e (c # cs) info st =
     (let (ok, st') = allow e c info st in
      if ok then (True, st') else allow_any e cs info st')"

text \<open>\<open>on_added\<close> and \<open>on_removed\<close>: no filter of the hierarchy overrides the empty
  hooks but the composites, which forward to their children.\<close>

fun on_event :: "pipe_filter \<Rightarrow> pipe_filter_info \<Rightarrow> fw_store \<Rightarrow> fw_store" where
  "on_event (AllFilter children) info st = fold (\<lambda>c. on_event c info) children st"
| "on_event (AnyFilter children) info st = fold (\<lambda>c. on_event c info) children st"
| "on_event f info st = st"

section \<open>The Python constructors\<close>

definition filter_and :: "pipe_filter \<Rightarrow> pipe_filter \<Rightarrow> pipe_filter" where
  "filter_and a b = AllFilter [a, b]"

definition filter_or :: "pipe_filter \<Rightarrow> pipe_filter \<Rightarrow> pipe_filter" where
  "filter_or a b = AnyFilter [a, b]"

text \<open>
  \<open>ipaddress.ip_network(entry, strict=False)\<close> on a parsed entry: an address of 4 or 16
  octets and a prefix length within the address, with the host bits cleared. Any other
  entry is a \<open>ValueError\<close>.
\<close>

datatype ip_net = IPv4Network bytes nat | IPv6Network bytes nat

definition mask_host_bits :: "bytes \<Rightarrow> nat \<Rightarrow> bytes" where
  "mask_host_bits a n =
     take (n div 8) a @
     (if n div 8 < length a
      then (a ! (n div 8) AND rem_mask (n mod 8)) # replicate (length a - n div 8 - 1) 0
      else [])"

fun ip_network :: "bytes \<times> nat \<Rightarrow> ip_net result" where
  "ip_network (a, n) =
     (if length a = 4 \<and> n \<le> 32 then Inr (IPv4Network (mask_host_bits a n) n)
      else if length a = 16 \<and> n \<le> 128 then Inr (IPv6Network (mask_host_bits a n) n)
      else Inl (PyExn ValueError))"

fun ip_add_entry :: "ip_net \<Rightarrow> cidr_entry list \<times> cidr_entry list \<Rightarrow> cidr_entry list \<times> cidr_entry list"
where
  "ip_add_entry (IPv4Network packed n) (v4, v6) =
     (v4 @ [\<lparr>entry_addr = packed, entry_prefix_len = word_of_nat n\<rparr>], v6)"
| "ip_add_entry (IPv6Network packed n) (v4, v6) =
     (v4, v6 @ [\<lparr>entry_addr = packed, entry_prefix_len = word_of_nat n\<rparr>])"

fun ip_entries ::
    "(bytes \<times> nat) list \<Rightarrow> cidr_entry list \<times> cidr_entry list
      \<Rightarrow> (cidr_entry list \<times> cidr_entry list) result" where
  "ip_entries [] acc = Inr acc"
| "ip_entries (x # xs) acc =
     bindR (ip_network x) (\<lambda>net. ip_entries xs (ip_add_entry net acc))"

definition IpFilter_init :: "(bytes \<times> nat) list \<Rightarrow> FilterMode \<Rightarrow> pipe_filter result" where
  "IpFilter_init addresses mode =
     bindR (ip_entries addresses ([], [])) (\<lambda>(v4, v6). Inr (IpFilter mode v4 v6))"

text \<open>A port entry is an integer or a sequence, of which the first two items are read.\<close>

datatype port_entry = PortInt int | PortSeq "int list"

fun port_bounds :: "port_entry \<Rightarrow> (int \<times> int) result" where
  "port_bounds (PortInt p) = Inr (p, p)"
| "port_bounds (PortSeq xs) =
     (case xs of lo # hi # _ \<Rightarrow> Inr (lo, hi) | _ \<Rightarrow> Inl (PyExn IndexError))"

definition port_range_of :: "port_entry \<Rightarrow> port_range result" where
  "port_range_of entry =
     bindR (port_bounds entry) (\<lambda>(lo, hi).
       if \<not> (0 \<le> lo \<and> lo \<le> 65535) \<or> \<not> (0 \<le> hi \<and> hi \<le> 65535)
       then Inl (PyExn ValueError)
       else Inr \<lparr>range_lo = word_of_int lo, range_hi = word_of_int hi\<rparr>)"

definition PortFilter_init :: "port_entry list \<Rightarrow> FilterMode \<Rightarrow> pipe_filter result" where
  "PortFilter_init ports mode =
     bindR (eachR port_range_of ports) (\<lambda>ranges. Inr (PortFilter mode ranges))"

text \<open>A Python int stored in a C \<open>int\<close>.\<close>

definition to_c_int :: "int \<Rightarrow> int result" where
  "to_c_int p = (if - (2 ^ 31) \<le> p \<and> p < 2 ^ 31 then Inr p else Inl (PyExn OverflowError))"

definition PidFilter_init :: "int list \<Rightarrow> FilterMode \<Rightarrow> pipe_filter result" where
  "PidFilter_init pids mode =
     bindR (eachR to_c_int pids) (\<lambda>pid_list. Inr (PidFilter mode pid_list))"

definition FirstWinsFilter_init ::
    "int \<Rightarrow> nat \<Rightarrow> fw_store \<Rightarrow> pipe_filter result \<times> fw_store" where
  "FirstWinsFilter_init on r st =
     (case to_c_int on of
        Inl err \<Rightarrow> (Inl err, st)
      | Inr km \<Rightarrow>
          if km = 0 then (Inl (PyExn ValueError), st)
          else (Inr (FirstWinsFilter r), st(r := FirstWins_new km)))"

definition FirstWinsFilter_reset :: "nat \<Rightarrow> fw_store \<Rightarrow> fw_store" where
  "FirstWinsFilter_reset r st = st(r := FirstWins_reset (st r))"

section \<open>CIDR matching is equality of bit prefixes\<close>

definition bits8 :: "byte \<Rightarrow> bool list" where
  "bits8 b = map (\<lambda>j. bit b (7 - j)) [0..<8]"

definition addr_bits :: "bytes \<Rightarrow> bool list" where
  "addr_bits bs = concat (map bits8 bs)"

definition same_prefix :: "nat \<Rightarrow> bytes \<Rightarrow> bytes \<Rightarrow> bool" where
  "same_prefix n a c \<longleftrightarrow> take n (addr_bits a) = take n (addr_bits c)"

lemma length_bits8 [simp]: "length (bits8 b) = 8"
  by (simp add: bits8_def)

lemma addr_bits_Nil [simp]: "addr_bits [] = []"
  by (simp add: addr_bits_def)

lemma addr_bits_Cons [simp]: "addr_bits (b # bs) = bits8 b @ addr_bits bs"
  by (simp add: addr_bits_def)

lemma length_addr_bits [simp]: "length (addr_bits bs) = 8 * length bs"
  by (induction bs) auto

lemma take_bits8_eq_iff:
  assumes "r \<le> 8"
  shows "take r (bits8 x) = take r (bits8 y) \<longleftrightarrow> (\<forall>k. 8 - r \<le> k \<and> k < 8 \<longrightarrow> bit x k = bit y k)"
proof -
  have "take r (bits8 x) = take r (bits8 y) \<longleftrightarrow> (\<forall>j < r. bit x (7 - j) = bit y (7 - j))"
    using assms by (auto simp: bits8_def take_map list_eq_iff_nth_eq)
  also have "\<dots> \<longleftrightarrow> (\<forall>k. 8 - r \<le> k \<and> k < 8 \<longrightarrow> bit x k = bit y k)" (is "?L \<longleftrightarrow> ?R")
  proof
    assume L: ?L
    show ?R
    proof (intro allI impI)
      fix k assume k: "8 - r \<le> k \<and> k < 8"
      with assms have "7 - k < r" "7 - (7 - k) = k" by auto
      with L show "bit x k = bit y k" by metis
    qed
  next
    assume R: ?R
    show ?L
    proof (intro allI impI)
      fix j assume "j < r"
      with assms have "8 - r \<le> 7 - j \<and> 7 - j < 8" by auto
      with R show "bit x (7 - j) = bit y (7 - j)" by blast
    qed
  qed
  finally show ?thesis .
qed

lemma bits8_inject [simp]: "bits8 x = bits8 y \<longleftrightarrow> x = y"
proof -
  have "bits8 x = bits8 y \<longleftrightarrow> (\<forall>k < 8. bit x k = bit y k)"
    using take_bits8_eq_iff [of 8 x y] by simp
  also have "\<dots> \<longleftrightarrow> x = y"
    by (auto simp: bit_eq_iff dest: bit_imp_le_length)
  finally show ?thesis .
qed

lemma bit_rem_mask:
  assumes "r \<le> 8"
  shows "bit (rem_mask r) k \<longleftrightarrow> 8 - r \<le> k \<and> k < 8"
proof -
  have m: "(255 :: byte) = mask 8" by (simp add: mask_eq_exp_minus_1)
  show ?thesis using assms
    unfolding rem_mask_def m by (auto simp: bit_push_bit_iff bit_mask_iff)
qed

lemma masked_eq_iff:
  assumes "r \<le> 8"
  shows "x AND rem_mask r = y AND rem_mask r \<longleftrightarrow> take r (bits8 x) = take r (bits8 y)"
  using bit_rem_mask [OF assms]
  by (auto simp: take_bits8_eq_iff [OF assms] bit_eq_iff bit_and_iff)

lemma take_addr_bits:
  "k < length bs \<Longrightarrow> r \<le> 8 \<Longrightarrow>
   take (8 * k + r) (addr_bits bs) = addr_bits (take k bs) @ take r (bits8 (bs ! k))"
proof (induction bs arbitrary: k)
  case (Cons b bs)
  then show ?case by (cases k) auto
qed simp

lemma addr_bits_inject: "length xs = length ys \<Longrightarrow> addr_bits xs = addr_bits ys \<longleftrightarrow> xs = ys"
  by (induction xs ys rule: list_induct2) auto

lemma list_all_upt_nth_eq:
  "n \<le> length xs \<Longrightarrow> n \<le> length ys \<Longrightarrow>
   list_all (\<lambda>i. xs ! i = ys ! i) [0..<n] \<longleftrightarrow> take n xs = take n ys"
  by (auto simp: list_all_iff list_eq_iff_nth_eq)

lemma cidr_match_same_prefix:
  assumes len: "length a = length c" and n: "unat n \<le> 8 * length a"
  shows "cidr4_match a c n \<longleftrightarrow> same_prefix (unat n) a c"
proof -
  define k r where "k = unat n div 8" and "r = unat n mod 8"
  have nkr: "unat n = 8 * k + r" and r: "r \<le> 8" and k: "k \<le> length a"
    using n by (auto simp: k_def r_def)
  have loop: "list_all (\<lambda>i. a ! i = c ! i) [0..<k] \<longleftrightarrow> take k a = take k c"
    using k len by (simp add: list_all_upt_nth_eq)
  show ?thesis
  proof (cases "k < length a")
    case True
    then have "same_prefix (unat n) a c \<longleftrightarrow>
        take k a = take k c \<and> take r (bits8 (a ! k)) = take r (bits8 (c ! k))"
      using len r by (simp add: same_prefix_def nkr take_addr_bits addr_bits_inject)
    then show ?thesis
      using masked_eq_iff [OF r]
      by (auto simp: cidr4_match_def Let_def loop [unfolded k_def] k_def r_def)
  next
    case False
    with k n nkr have "k = length a" "r = 0" by auto
    then show ?thesis
      using len loop by (simp add: cidr4_match_def Let_def same_prefix_def nkr addr_bits_inject
          flip: k_def r_def)
  qed
qed

lemma cidr6_eq_cidr4: "cidr6_match = cidr4_match"
  by (intro ext) (simp add: cidr6_match_def cidr4_match_def)

section \<open>IpFilter: from the address list to the decision\<close>

lemma length_mask_host_bits [simp]:
  "n \<le> 8 * length a \<Longrightarrow> length (mask_host_bits a n) = length a"
  by (auto simp: mask_host_bits_def)

lemma same_prefix_mask_host_bits:
  assumes "n \<le> 8 * length a"
  shows "same_prefix n x (mask_host_bits a n) \<longleftrightarrow> same_prefix n x a"
proof -
  define k r where "k = n div 8" and "r = n mod 8"
  have n: "n = 8 * k + r" and r: "r \<le> 8" by (auto simp: k_def r_def)
  have "take n (addr_bits (mask_host_bits a n)) = take n (addr_bits a)"
  proof (cases "k < length a")
    case True
    have nth: "mask_host_bits a n ! k = a ! k AND rem_mask r"
      and tk: "take k (mask_host_bits a n) = take k a"
      using True by (auto simp: mask_host_bits_def nth_append simp flip: k_def r_def)
    have "take r (bits8 (a ! k AND rem_mask r)) = take r (bits8 (a ! k))"
      using r by (simp add: take_bits8_eq_iff bit_and_iff bit_rem_mask)
    then have "take (8 * k + r) (addr_bits (mask_host_bits a n)) = take (8 * k + r) (addr_bits a)"
      using True r nth tk assms by (simp add: take_addr_bits)
    then show ?thesis by (simp flip: n)
  next
    case False
    with assms n have "k = length a" by auto
    then show ?thesis using False by (simp add: mask_host_bits_def flip: k_def)
  qed
  then show ?thesis by (simp add: same_prefix_def)
qed

definition mk_entry :: "bytes \<times> nat \<Rightarrow> cidr_entry" where
  "mk_entry x = \<lparr>entry_addr = mask_host_bits (fst x) (snd x), entry_prefix_len = word_of_nat (snd x)\<rparr>"

definition valid_net :: "bytes \<times> nat \<Rightarrow> bool" where
  "valid_net x \<longleftrightarrow> (length (fst x) = 4 \<and> snd x \<le> 32) \<or> (length (fst x) = 16 \<and> snd x \<le> 128)"

lemma ip_entries_eq:
  "ip_entries xs (v4, v6) = Inr r \<Longrightarrow>
     list_all valid_net xs \<and>
     r = (v4 @ map mk_entry (filter (\<lambda>x. length (fst x) = 4) xs),
          v6 @ map mk_entry (filter (\<lambda>x. length (fst x) = 16) xs))"
proof (induction xs arbitrary: v4 v6)
  case (Cons x xs)
  obtain a n where x: "x = (a, n)" by (cases x)
  from Cons.prems show ?case
    by (auto simp: x valid_net_def mk_entry_def bindR_eq_Inr split: if_splits dest!: Cons.IH)
qed simp

lemma ip_entries_valid:
  "list_all valid_net xs \<Longrightarrow> \<exists>r. ip_entries xs acc = Inr r"
  by (induction xs arbitrary: acc) (auto simp: valid_net_def)

lemma mk_entry_match:
  assumes v: "valid_net x" and len: "length p = length (fst x)"
  shows "cidr4_match p (entry_addr (mk_entry x)) (entry_prefix_len (mk_entry x))
     \<longleftrightarrow> same_prefix (snd x) p (fst x)"
proof -
  have le: "snd x \<le> 8 * length (fst x)" and small: "snd x < 256"
    using v by (auto simp: valid_net_def)
  have "unat (word_of_nat (snd x) :: byte) = snd x"
    using small by (simp add: unat_of_nat)
  with le len show ?thesis
    by (simp add: mk_entry_def cidr_match_same_prefix same_prefix_mask_host_bits)
qed

lemma list_ex_mk_entry:
  assumes "list_all valid_net xs" and "length p = l"
  shows "list_ex (\<lambda>e. cidr4_match p (entry_addr e) (entry_prefix_len e))
           (map mk_entry (filter (\<lambda>x. length (fst x) = l) xs))
     \<longleftrightarrow> (\<exists>(a, n) \<in> set xs. length a = l \<and> same_prefix n p a)"
  using assms mk_entry_match
  by (fastforce simp: list_ex_iff list_all_iff)

text \<open>C3: an \<open>IpFilter\<close> built from a list of networks lets a peer pass exactly when it
  is not an IP peer, or when its address has the same leading bits as one of the networks of
  its family (whitelist), respectively as none of them (blacklist).\<close>

theorem IpFilter_semantics:
  assumes init: "IpFilter_init addresses mode = Inr f"
    and wf: "wf_sockaddr (peer_addr info)"
  shows "fst (allow e f info st) \<longleftrightarrow>
      \<not> is_ip (peer_addr info) \<or>
      (mode = ALLOW) = (\<exists>(a, n) \<in> set addresses.
         length a = length (sa_addr (peer_addr info)) \<and>
         same_prefix n (sa_addr (peer_addr info)) a)"
proof -
  from init obtain v where ent: "ip_entries addresses ([], []) = Inr v"
    and f: "f = IpFilter mode (fst v) (snd v)"
    by (auto simp: IpFilter_init_def bindR_eq_Inr)
  note v = ip_entries_eq [OF ent]
  show ?thesis
    using wf v FilterMode.exhaust [of mode]
    by (cases "peer_addr info")
       (auto simp: f IpFilter_allow_def ip_matches_def is_ip_def cidr6_eq_cidr4 list_ex_mk_entry)
qed

theorem IpFilter_semantics_witness:
  "\<exists>f. IpFilter_init [([10, 0, 0, 0], 8)] ALLOW = Inr f \<and>
     fst (allow LittleEndian f
       \<lparr>peer_addr = SA_in 31 144 [10, 1, 2, 3], peer_pid = -1, info_pipe_id = 1,
        info_dialer = 0, info_listener = 1\<rparr> (\<lambda>_. FirstWins_new 1))"
proof -
  obtain f where f: "IpFilter_init [([10, 0, 0, 0], 8)] ALLOW = Inr f"
    by (simp add: IpFilter_init_def)
  show ?thesis
    using f IpFilter_semantics [OF f, of "\<lparr>peer_addr = SA_in 31 144 [10, 1, 2, 3], peer_pid = -1,
      info_pipe_id = 1, info_dialer = 0, info_listener = 1\<rparr>" LittleEndian "\<lambda>_. FirstWins_new 1"]
    by (simp add: same_prefix_def)
qed

section \<open>PortFilter and the byte order of the port\<close>

text \<open>The port number a sockaddr carries: its two octets read in network order.\<close>

fun net_port :: "sockaddr \<Rightarrow> nat" where
  "net_port (SA_in p0 p1 a) = unat p0 * 256 + unat p1"
| "net_port (SA_in6 p0 p1 a sc) = unat p0 * 256 + unat p1"
| "net_port _ = 0"

definition swap_port :: "nat \<Rightarrow> nat" where
  "swap_port n = (n mod 256) * 256 + n div 256"

definition seen_port :: "endian \<Rightarrow> sockaddr \<Rightarrow> nat" where
  "seen_port e sa = (case e of BigEndian \<Rightarrow> net_port sa | LittleEndian \<Rightarrow> swap_port (net_port sa))"

lemma unat_read_u16_le: "unat b0 * 256 + unat b1 < 65536" for b0 b1 :: byte
  using unat_byte_less [of b0] unat_byte_less [of b1] by linarith

lemma unat_word16: "n < 65536 \<Longrightarrow> unat (word_of_nat n :: u16) = n"
  by (simp add: unat_of_nat)

lemma unat_read_u16:
  "unat (read_u16 BigEndian b0 b1) = unat b0 * 256 + unat b1"
  "unat (read_u16 LittleEndian b0 b1) = unat b1 * 256 + unat b0"
  by (simp_all only: read_u16.simps unat_word16 unat_read_u16_le)

lemma sockaddr_port_seen: "unat (sockaddr_port e sa) = seen_port e sa"
  using unat_byte_less
  by (cases sa; cases e)
     (simp_all add: seen_port_def swap_port_def unat_read_u16 del: read_u16.simps)

definition port_in_entry :: "nat \<Rightarrow> port_entry \<Rightarrow> bool" where
  "port_in_entry p entry =
     (case port_bounds entry of Inl _ \<Rightarrow> False | Inr (lo, hi) \<Rightarrow> lo \<le> int p \<and> int p \<le> hi)"

lemma unat_word_of_int16: "0 \<le> i \<Longrightarrow> i \<le> 65535 \<Longrightarrow> unat (word_of_int i :: u16) = nat i"
  by (simp add: unat_eq_nat_uint uint_word_of_int)

lemma port_range_of_match:
  assumes "port_range_of entry = Inr r"
  shows "range_lo r \<le> w \<and> w \<le> range_hi r \<longleftrightarrow> port_in_entry (unat w) entry"
proof -
  from assms obtain lo hi where b: "port_bounds entry = Inr (lo, hi)"
    and rng: "0 \<le> lo" "lo \<le> 65535" "0 \<le> hi" "hi \<le> 65535"
    and r: "r = \<lparr>range_lo = word_of_int lo, range_hi = word_of_int hi\<rparr>"
    by (auto simp: port_range_of_def bindR_eq_Inr split: if_splits)
  have "nat lo \<le> unat w \<longleftrightarrow> lo \<le> int (unat w)" "unat w \<le> nat hi \<longleftrightarrow> int (unat w) \<le> hi"
    using rng by linarith+
  with rng b show ?thesis
    by (simp add: r port_in_entry_def word_le_nat_alt unat_word_of_int16)
qed

lemma list_ex_ranges:
  "list_all2 (\<lambda>x y. port_range_of x = Inr y) ports ranges \<Longrightarrow>
   list_ex (\<lambda>r. range_lo r \<le> w \<and> w \<le> range_hi r) ranges
     \<longleftrightarrow> (\<exists>entry \<in> set ports. port_in_entry (unat w) entry)"
  by (induction rule: list_all2_induct) (auto simp: port_range_of_match)

text \<open>A \<open>PortFilter\<close> decides on the value its host reads from the two port octets,
  not on the port number: it matches the listed ports on a big-endian host and the listed
  ports with their octets exchanged on a little-endian one.\<close>

theorem PortFilter_semantics:
  assumes "PortFilter_init ports mode = Inr f"
  shows "fst (allow e f info st) \<longleftrightarrow>
      seen_port e (peer_addr info) = 0 \<or>
      (mode = ALLOW) = (\<exists>entry \<in> set ports. port_in_entry (seen_port e (peer_addr info)) entry)"
proof -
  from assms obtain ranges where r: "eachR port_range_of ports = Inr ranges"
    and f: "f = PortFilter mode ranges"
    by (auto simp: PortFilter_init_def bindR_eq_Inr)
  have zero: "sockaddr_port e (peer_addr info) = 0 \<longleftrightarrow> seen_port e (peer_addr info) = 0"
    by (simp add: unat_eq_0 flip: sockaddr_port_seen)
  show ?thesis
    using list_ex_ranges [OF r [unfolded eachR_Inr_iff]] FilterMode.exhaust [of mode]
    by (auto simp: f PortFilter_allow_def Let_def zero sockaddr_port_seen)
qed

text \<open>A host-order filter on port 8080 and a peer that really connects from port 8080.\<close>

definition peer_8080 :: pipe_filter_info where
  "peer_8080 = \<lparr>peer_addr = SA_in 31 144 [127, 0, 0, 1], peer_pid = -1, info_pipe_id = 1,
     info_dialer = 0, info_listener = 1\<rparr>"

theorem PortFilter_semantics_witness:
  "net_port (peer_addr peer_8080) = 8080 \<and>
   (\<exists>f. PortFilter_init [PortInt 8080] ALLOW = Inr f \<and>
     fst (allow BigEndian f peer_8080 (\<lambda>_. FirstWins_new 1)) \<and>
     \<not> fst (allow LittleEndian f peer_8080 (\<lambda>_. FirstWins_new 1)))"
proof -
  obtain f where f: "PortFilter_init [PortInt 8080] ALLOW = Inr f"
    by (simp add: PortFilter_init_def port_range_of_def)
  have p: "net_port (peer_addr peer_8080) = 8080"
    by (simp add: peer_8080_def)
  show ?thesis
    using p f PortFilter_semantics [OF f, of BigEndian peer_8080 "\<lambda>_. FirstWins_new 1"]
      PortFilter_semantics [OF f, of LittleEndian peer_8080 "\<lambda>_. FirstWins_new 1"]
    by (simp add: seen_port_def swap_port_def port_in_entry_def)
qed

section \<open>Composition of filters\<close>

fun fw_refs :: "pipe_filter \<Rightarrow> nat set" where
  "fw_refs (FirstWinsFilter r) = {r}"
| "fw_refs (AllFilter cs) = (\<Union>c \<in> set cs. fw_refs c)"
| "fw_refs (AnyFilter cs) = (\<Union>c \<in> set cs. fw_refs c)"
| "fw_refs _ = {}"

lemma allow_frame:
  "r \<notin> fw_refs f \<Longrightarrow> snd (allow e f info st) r = st r"
  "(\<And>c. c \<in> set cs \<Longrightarrow> r \<notin> fw_refs c) \<Longrightarrow> snd (allow_all e cs info st) r = st r"
  "(\<And>c. c \<in> set cs \<Longrightarrow> r \<notin> fw_refs c) \<Longrightarrow> snd (allow_any e cs info st) r = st r"
  by (induction e f info st and e cs info st and e cs info st
        rule: allow_allow_all_allow_any.induct)
     (auto split: prod.splits)

lemma on_event_id: "on_event f info st = st"
proof (induction f arbitrary: st)
  case (AllFilter cs)
  then have "fold (\<lambda>c. on_event c info) cs st = st" for st
    by (induction cs arbitrary: st) auto
  then show ?case by simp
next
  case (AnyFilter cs)
  then have "fold (\<lambda>c. on_event c info) cs st = st" for st
    by (induction cs arbitrary: st) auto
  then show ?case by simp
qed auto

text \<open>What a filter without \<open>FirstWinsFilter\<close> leaves accepts, as a predicate.\<close>

fun accepts :: "endian \<Rightarrow> pipe_filter_info \<Rightarrow> pipe_filter \<Rightarrow> bool" where
  "accepts e info (IpFilter mode v4 v6) = IpFilter_allow mode v4 v6 info"
| "accepts e info (PortFilter mode ranges) = PortFilter_allow e mode ranges info"
| "accepts e info (PidFilter mode pids) = PidFilter_allow mode pids info"
| "accepts e info (FirstWinsFilter r) = True"
| "accepts e info (AllFilter cs) = (\<forall>c \<in> set cs. accepts e info c)"
| "accepts e info (AnyFilter cs) = (\<exists>c \<in> set cs. accepts e info c)"

lemma allow_accepts:
  "fw_refs f = {} \<Longrightarrow> allow e f info st = (accepts e info f, st)"
  "(\<And>c. c \<in> set cs \<Longrightarrow> fw_refs c = {}) \<Longrightarrow>
     allow_all e cs info st = (\<forall>c \<in> set cs. accepts e info c, st)"
  "(\<And>c. c \<in> set cs \<Longrightarrow> fw_refs c = {}) \<Longrightarrow>
     allow_any e cs info st = (\<exists>c \<in> set cs. accepts e info c, st)"
  by (induction e f info st and e cs info st and e cs info st
        rule: allow_allow_all_allow_any.induct) auto

text \<open>For filters without a \<open>FirstWinsFilter\<close>, \<open>a & b\<close> accepts what both accept,
  \<open>a | b\<close> what either accepts, the operands may be exchanged, and no filter state
  changes; the decision does not depend on earlier connections.\<close>

theorem composition_of_stateless_filters:
  assumes "fw_refs a = {}" and "fw_refs b = {}"
  shows "allow e (filter_and a b) info st
           = (fst (allow e a info st') \<and> fst (allow e b info st'), st) \<and>
         allow e (filter_or a b) info st
           = (fst (allow e a info st') \<or> fst (allow e b info st'), st) \<and>
         allow e (filter_and a b) info st = allow e (filter_and b a) info st \<and>
         allow e (filter_or a b) info st = allow e (filter_or b a) info st"
  using assms by (auto simp: filter_and_def filter_or_def allow_accepts)

theorem composition_of_stateless_filters_witness:
  "fw_refs (PidFilter ALLOW [7]) = {} \<and>
   allow BigEndian (filter_and (PidFilter ALLOW [7]) (PidFilter DENY [9])) peer_8080
     (\<lambda>_. FirstWins_new 1)
   = (True, \<lambda>_. FirstWins_new 1)"
  using composition_of_stateless_filters [of "PidFilter ALLOW [7]" "PidFilter DENY [9]"
      BigEndian peer_8080 "\<lambda>_. FirstWins_new 1" "\<lambda>_. FirstWins_new 1"]
  by (simp add: PidFilter_allow_def peer_8080_def)

section \<open>FirstWinsFilter\<close>

definition agrees :: "endian \<Rightarrow> int \<Rightarrow> pipe_filter_info \<Rightarrow> pipe_filter_info \<Rightarrow> bool" where
  "agrees e km i j \<longleftrightarrow>
     (km AND KEY_PID \<noteq> 0 \<longrightarrow> peer_pid i = peer_pid j) \<and>
     (km AND KEY_IP \<noteq> 0 \<longrightarrow> addrs_equal_ip (peer_addr i) (peer_addr j)) \<and>
     (km AND KEY_PORT \<noteq> 0 \<longrightarrow>
        sockaddr_port e (peer_addr i) = sockaddr_port e (peer_addr j))"

text \<open>The connections a filter object accepts out of a sequence of connections.\<close>

fun fw_run :: "endian \<Rightarrow> first_wins \<Rightarrow> pipe_filter_info list \<Rightarrow> pipe_filter_info list" where
  "fw_run e fw [] = []"
| "fw_run e fw (i # is) =
     (let (ok, fw') = FirstWins_allow e fw i
      in if ok then i # fw_run e fw' is else fw_run e fw' is)"

lemma FirstWins_allow_anchored:
  "\<not> initialized fw \<Longrightarrow>
   FirstWins_allow e (FirstWins_anchor e fw j) i
     = (agrees e (key_mask fw) i j, FirstWins_anchor e fw j)"
  by (auto simp: FirstWins_allow_def FirstWins_anchor_def agrees_def has_key_def)

lemma fw_run_anchored:
  "\<not> initialized fw \<Longrightarrow>
   fw_run e (FirstWins_anchor e fw j) is = filter (\<lambda>i. agrees e (key_mask fw) i j) is"
  by (induction "is") (auto simp: FirstWins_allow_anchored)

text \<open>After creation or after \<open>reset\<close>, a \<open>FirstWinsFilter\<close> accepts the first
  connection and from then on exactly the connections that agree with it on every selected
  key, however many connections come in between.\<close>

theorem FirstWins_locks_on_first:
  assumes "fw = FirstWins_new km \<or> fw = FirstWins_reset fw0"
  shows "fw_run e fw (j # is) = j # filter (\<lambda>i. agrees e (key_mask fw) i j) is"
proof -
  have ni: "\<not> initialized fw"
    using assms by (auto simp: FirstWins_new_def FirstWins_reset_def)
  then show ?thesis
    using fw_run_anchored [OF ni] by (simp add: FirstWins_allow_def)
qed

theorem FirstWins_locks_on_first_witness:
  "fw_run LittleEndian (FirstWins_new KEY_PID)
     [peer_8080, peer_8080\<lparr>peer_pid := 5\<rparr>, peer_8080] = [peer_8080, peer_8080]"
  using FirstWins_locks_on_first [of "FirstWins_new KEY_PID" KEY_PID undefined LittleEndian
      peer_8080 "[peer_8080\<lparr>peer_pid := 5\<rparr>, peer_8080]"]
  by (simp add: agrees_def KEY_PID_def KEY_IP_def KEY_PORT_def FirstWins_new_def peer_8080_def)

text \<open>In \<open>FirstWinsFilter & g\<close> the first connection becomes the anchor even when
  \<open>g\<close> rejects it, so that a rejected peer can lock the accepted ones out; in
  \<open>g & FirstWinsFilter\<close> a connection that \<open>g\<close> rejects leaves the anchor alone.\<close>

theorem FirstWins_anchor_depends_on_order:
  assumes fresh: "\<not> initialized (st r)" and r: "r \<notin> fw_refs g"
  shows "snd (allow e (filter_and (FirstWinsFilter r) g) info st) r
           = FirstWins_anchor e (st r) info \<and>
         (\<not> fst (allow e g info st) \<longrightarrow>
            snd (allow e (filter_and g (FirstWinsFilter r)) info st) r = st r)"
  using assms
  by (simp_all add: filter_and_def FirstWins_allow_def split_beta Let_def allow_frame(1))

theorem FirstWins_anchor_depends_on_order_witness:
  "let st = (\<lambda>_. FirstWins_new KEY_PID); g = PidFilter DENY [5];
       bad = peer_8080\<lparr>peer_pid := 5\<rparr>; good = peer_8080\<lparr>peer_pid := 6\<rparr>;
       f = filter_and (FirstWinsFilter 0) g;
       (ok1, st1) = allow LittleEndian f bad st
   in \<not> ok1 \<and> first_pid (st1 0) = 5 \<and> \<not> fst (allow LittleEndian f good st1)"
proof -
  define st where "st = (\<lambda>_ :: nat. FirstWins_new KEY_PID)"
  define f where "f = filter_and (FirstWinsFilter 0) (PidFilter DENY [5])"
  define bad where "bad = peer_8080\<lparr>peer_pid := 5\<rparr>"
  define good where "good = peer_8080\<lparr>peer_pid := 6\<rparr>"
  have anchor: "snd (allow LittleEndian f bad st) 0 = FirstWins_anchor LittleEndian (st 0) bad"
    unfolding f_def
    by (rule FirstWins_anchor_depends_on_order [THEN conjunct1])
       (simp_all add: st_def FirstWins_new_def)
  have rejected: "\<not> fst (allow LittleEndian f bad st)"
    by (simp add: f_def filter_and_def st_def bad_def FirstWins_allow_def FirstWins_new_def
        PidFilter_allow_def)
  have pid: "first_pid (snd (allow LittleEndian f bad st) 0) = 5"
    unfolding anchor
    by (simp add: FirstWins_anchor_def has_key_def st_def FirstWins_new_def bad_def KEY_PID_def)
  have locked: "\<not> fst (allow LittleEndian f good st')"
    if "st' 0 = FirstWins_anchor LittleEndian (st 0) bad" for st'
    using that
    by (simp add: f_def filter_and_def st_def good_def bad_def FirstWins_allow_def
        FirstWins_anchor_def FirstWins_new_def has_key_def KEY_PID_def)
  show ?thesis
    using rejected pid locked [of "snd (allow LittleEndian f bad st)", OF anchor]
    by (simp add: Let_def split_beta st_def f_def bad_def good_def)
qed

end
