(* ===== verification/Mutex.thy ===== *)
theory Mutex
  imports Prelude
begin

text \<open>
  The re-entrant mutex of \<^verbatim>\<open>nng/_mutex.pxd\<close> and the protocol of
  \<^verbatim>\<open>lock_gil_friendly\<close> (\<^verbatim>\<open>nng/_nng.pyx\<close>), by which code that holds the
  interpreter lock takes a mutex: one attempt with the interpreter lock held, then waiting
  for the mutex only with the interpreter lock released.
\<close>

section \<open>DCGMutex\<close>

type_synonym tid = nat

record dcg_mutex =
  owner :: "tid option"
  count :: int

definition mutex_init :: dcg_mutex where
  "mutex_init = \<lparr>owner = None, count = 0\<rparr>"

definition try_lock :: "tid \<Rightarrow> dcg_mutex \<Rightarrow> bool \<times> dcg_mutex" where
  "try_lock self m =
     (if owner m = None then (True, m\<lparr>owner := Some self, count := 1\<rparr>)
      else if owner m = Some self then (True, m\<lparr>count := count m + 1\<rparr>)
      else (False, m))"

text \<open>One round of the loop of \<open>lock\<close>: it returns, or sleeps and tries again.\<close>

definition lock_round :: "tid \<Rightarrow> dcg_mutex \<Rightarrow> dcg_mutex option" where
  "lock_round self m =
     (if owner m = None then Some (m\<lparr>owner := Some self, count := 1\<rparr>)
      else if owner m = Some self then Some (m\<lparr>count := count m + 1\<rparr>)
      else None)"

definition unlock :: "tid \<Rightarrow> dcg_mutex \<Rightarrow> dcg_mutex" where
  "unlock self m =
     (if owner m \<noteq> Some self then m
      else if count m = 1 then m\<lparr>count := count m - 1, owner := None\<rparr>
      else m\<lparr>count := count m - 1\<rparr>)"

text \<open>How many times a thread holds the mutex.\<close>

definition held :: "dcg_mutex \<Rightarrow> tid \<Rightarrow> int" where
  "held m t = (if owner m = Some t then count m else 0)"

definition wf_mutex :: "dcg_mutex \<Rightarrow> bool" where
  "wf_mutex m \<longleftrightarrow> (case owner m of None \<Rightarrow> count m = 0 | Some t \<Rightarrow> 0 < count m)"

lemma wf_mutex_init [simp, invar_intros]: "wf_mutex mutex_init"
  by (simp add: wf_mutex_def mutex_init_def)

lemma try_lock_wf [invar_intros]: "wf_mutex m \<Longrightarrow> wf_mutex (snd (try_lock t m))"
  by (auto simp: wf_mutex_def try_lock_def split: option.splits)

lemma unlock_wf [invar_intros]: "wf_mutex m \<Longrightarrow> wf_mutex (unlock t m)"
  by (auto simp: wf_mutex_def unlock_def split: option.splits)

lemma try_lock_succeeds_iff: "fst (try_lock t m) \<longleftrightarrow> owner m = None \<or> owner m = Some t"
  by (simp add: try_lock_def)

lemma lock_round_try_lock:
  "lock_round t m = (if fst (try_lock t m) then Some (snd (try_lock t m)) else None)"
  by (simp add: lock_round_def try_lock_def)

lemma held_try_lock:
  "wf_mutex m \<Longrightarrow> fst (try_lock t m) \<Longrightarrow>
   held (snd (try_lock t m)) u = (if u = t then held m t + 1 else 0)"
  by (auto simp: held_def try_lock_def wf_mutex_def split: option.splits if_splits)

lemma unlock_after_try_lock:
  "wf_mutex m \<Longrightarrow> fst (try_lock t m) \<Longrightarrow> unlock t (snd (try_lock t m)) = m"
  by (auto simp: try_lock_def unlock_def wf_mutex_def split: option.splits)

lemma unlock_foreign [simp]: "owner m \<noteq> Some t \<Longrightarrow> unlock t m = m"
  by (simp add: unlock_def)

section \<open>lock\_gil\_friendly\<close>

text \<open>
  Where a thread stands. \<open>Outside\<close> runs without the interpreter lock, \<open>Running\<close>
  with it; \<open>Trying\<close> is the fast path; \<open>Waiting\<close>, \<open>Probing\<close> and \<open>Reclaiming\<close>
  are the three stages of \<open>lock_gil_friendly_block\<close> (blocked in \<open>m.lock()\<close>, holding
  \<open>m\<close> before \<open>m.unlock()\<close>, waiting for the interpreter lock), all without the
  interpreter lock; \<open>Retrying\<close> is the \<open>try_lock\<close> that ends a round. A thread in the
  critical section may let the interpreter lock go and take it again.
\<close>

datatype pc = Outside | Running | Trying | Waiting | Probing | Reclaiming | Retrying
  | Critical | CriticalNoGil

record lock_sys =
  gil :: "tid option"
  mtx :: dcg_mutex
  pcs :: "tid \<Rightarrow> pc"

definition lock_init :: lock_sys where
  "lock_init = \<lparr>gil = None, mtx = mutex_init, pcs = (\<lambda>_. Outside)\<rparr>"

inductive lock_step :: "lock_sys \<Rightarrow> lock_sys \<Rightarrow> bool" where
  take_gil: "pcs s t = Outside \<Longrightarrow> gil s = None \<Longrightarrow>
    lock_step s (s\<lparr>gil := Some t, pcs := (pcs s)(t := Running)\<rparr>)"
| drop_gil: "pcs s t = Running \<Longrightarrow>
    lock_step s (s\<lparr>gil := None, pcs := (pcs s)(t := Outside)\<rparr>)"
| call_lock: "pcs s t = Running \<Longrightarrow>
    lock_step s (s\<lparr>pcs := (pcs s)(t := Trying)\<rparr>)"
| fast_path: "pcs s t = Trying \<Longrightarrow> try_lock t (mtx s) = (True, m) \<Longrightarrow>
    lock_step s (s\<lparr>mtx := m, pcs := (pcs s)(t := Critical)\<rparr>)"
| slow_path: "pcs s t = Trying \<Longrightarrow> try_lock t (mtx s) = (False, m) \<Longrightarrow>
    lock_step s (s\<lparr>gil := None, pcs := (pcs s)(t := Waiting)\<rparr>)"
| lock_returns: "pcs s t = Waiting \<Longrightarrow> lock_round t (mtx s) = Some m \<Longrightarrow>
    lock_step s (s\<lparr>mtx := m, pcs := (pcs s)(t := Probing)\<rparr>)"
| unlock_probe: "pcs s t = Probing \<Longrightarrow>
    lock_step s (s\<lparr>mtx := unlock t (mtx s), pcs := (pcs s)(t := Reclaiming)\<rparr>)"
| regain_gil: "pcs s t = Reclaiming \<Longrightarrow> gil s = None \<Longrightarrow>
    lock_step s (s\<lparr>gil := Some t, pcs := (pcs s)(t := Retrying)\<rparr>)"
| retry_ok: "pcs s t = Retrying \<Longrightarrow> try_lock t (mtx s) = (True, m) \<Longrightarrow>
    lock_step s (s\<lparr>mtx := m, pcs := (pcs s)(t := Critical)\<rparr>)"
| retry_fail: "pcs s t = Retrying \<Longrightarrow> try_lock t (mtx s) = (False, m) \<Longrightarrow>
    lock_step s (s\<lparr>gil := None, pcs := (pcs s)(t := Waiting)\<rparr>)"
| nested_lock: "pcs s t = Critical \<Longrightarrow> try_lock t (mtx s) = (True, m) \<Longrightarrow>
    lock_step s (s\<lparr>mtx := m\<rparr>)"
| nested_unlock: "pcs s t = Critical \<Longrightarrow> 1 < count (mtx s) \<Longrightarrow>
    lock_step s (s\<lparr>mtx := unlock t (mtx s)\<rparr>)"
| last_unlock: "pcs s t = Critical \<Longrightarrow> count (mtx s) = 1 \<Longrightarrow>
    lock_step s (s\<lparr>mtx := unlock t (mtx s), pcs := (pcs s)(t := Running)\<rparr>)"
| yield_gil: "pcs s t = Critical \<Longrightarrow>
    lock_step s (s\<lparr>gil := None, pcs := (pcs s)(t := CriticalNoGil)\<rparr>)"
| resume_gil: "pcs s t = CriticalNoGil \<Longrightarrow> gil s = None \<Longrightarrow>
    lock_step s (s\<lparr>gil := Some t, pcs := (pcs s)(t := Critical)\<rparr>)"

inductive lock_reach :: "lock_sys \<Rightarrow> bool" where
  init: "lock_reach lock_init"
| step: "lock_reach s \<Longrightarrow> lock_step s s' \<Longrightarrow> lock_reach s'"

fun has_gil :: "pc \<Rightarrow> bool" where
  "has_gil Running = True"
| "has_gil Trying = True"
| "has_gil Retrying = True"
| "has_gil Critical = True"
| "has_gil _ = False"

fun has_mtx :: "pc \<Rightarrow> bool" where
  "has_mtx Probing = True"
| "has_mtx Critical = True"
| "has_mtx CriticalNoGil = True"
| "has_mtx _ = False"

text \<open>The holder of a lock is exactly the thread whose position says it holds it.\<close>

definition holder_ok :: "(pc \<Rightarrow> bool) \<Rightarrow> tid option \<Rightarrow> (tid \<Rightarrow> pc) \<Rightarrow> bool" where
  "holder_ok h g f \<longleftrightarrow> (\<forall>t. g = Some t \<longleftrightarrow> h (f t))"

definition lock_inv :: "lock_sys \<Rightarrow> bool" where
  "lock_inv s \<longleftrightarrow>
     wf_mutex (mtx s) \<and>
     holder_ok has_gil (gil s) (pcs s) \<and>
     holder_ok has_mtx (owner (mtx s)) (pcs s) \<and>
     (\<forall>t. pcs s t = Probing \<longrightarrow> count (mtx s) = 1)"

lemma holder_ok_take: "holder_ok h None f \<Longrightarrow> h p \<Longrightarrow> holder_ok h (Some t) (f(t := p))"
  by (auto simp: holder_ok_def)

lemma holder_ok_drop: "holder_ok h g f \<Longrightarrow> h (f t) \<Longrightarrow> \<not> h p \<Longrightarrow> holder_ok h None (f(t := p))"
  by (auto simp: holder_ok_def) (metis option.inject)

lemma holder_ok_keep: "holder_ok h g f \<Longrightarrow> h p = h (f t) \<Longrightarrow> holder_ok h g (f(t := p))"
  by (auto simp: holder_ok_def)

lemma holder_okD: "holder_ok h g f \<Longrightarrow> h (f t) \<Longrightarrow> g = Some t"
  by (simp add: holder_ok_def)

lemma holder_ok_unique: "holder_ok h g f \<Longrightarrow> h (f t) \<Longrightarrow> h (f u) \<Longrightarrow> t = u"
  by (auto simp: holder_ok_def) (metis option.inject)

lemma holder_ok_Some: "holder_ok h (Some t) f \<Longrightarrow> h (f t)"
  unfolding holder_ok_def by blast

lemma lock_inv_owner: "lock_inv s \<Longrightarrow> has_mtx (pcs s t) \<Longrightarrow> owner (mtx s) = Some t \<and> 0 < count (mtx s)"
  by (auto simp: lock_inv_def wf_mutex_def dest: holder_okD)

lemma lock_inv_gil: "lock_inv s \<Longrightarrow> has_gil (pcs s t) \<Longrightarrow> gil s = Some t"
  by (auto simp: lock_inv_def dest: holder_okD)

lemma lock_inv_init: "lock_inv lock_init"
  by (simp add: lock_inv_def lock_init_def mutex_init_def wf_mutex_def holder_ok_def)

text \<open>A thread that does not hold the mutex takes it when it is free.\<close>

lemma lock_inv_acquire:
  assumes "lock_inv s" and "try_lock t (mtx s) = (True, m)"
    and "\<not> has_mtx (pcs s t)" and "has_mtx p" and "has_gil p = has_gil (pcs s t)"
  shows "lock_inv (s\<lparr>mtx := m, pcs := (pcs s)(t := p)\<rparr>)"
proof -
  have "owner (mtx s) \<noteq> Some t"
    using assms(1,3) by (auto simp: lock_inv_def holder_ok_def)
  with assms(2) have free: "owner (mtx s) = None" and m: "owner m = Some t" "count m = 1"
    by (auto simp: try_lock_def split: if_splits)
  have "holder_ok has_mtx (owner m) ((pcs s)(t := p))"
    using assms free m by (auto simp: lock_inv_def intro: holder_ok_take)
  with assms m show ?thesis
    by (auto simp: lock_inv_def wf_mutex_def intro: holder_ok_keep)
qed

text \<open>The holder of the mutex releases it for good.\<close>

lemma lock_inv_release:
  assumes "lock_inv s" and "has_mtx (pcs s t)" and "count (mtx s) = 1"
    and "\<not> has_mtx p" and "has_gil p = has_gil (pcs s t)"
  shows "lock_inv (s\<lparr>mtx := unlock t (mtx s), pcs := (pcs s)(t := p)\<rparr>)"
proof -
  have "owner (mtx s) = Some t" using lock_inv_owner [OF assms(1,2)] by simp
  with assms(3) have u: "owner (unlock t (mtx s)) = None" "count (unlock t (mtx s)) = 0"
    by (auto simp: unlock_def)
  have none: "holder_ok has_mtx None ((pcs s)(t := p))"
    using assms by (auto simp: lock_inv_def intro: holder_ok_drop)
  then have "\<not> has_mtx (((pcs s)(t := p)) v)" for v by (auto simp: holder_ok_def)
  then have "((pcs s)(t := p)) v \<noteq> Probing" for v by (metis has_mtx.simps(1))
  with none u assms show ?thesis
    by (auto simp: lock_inv_def wf_mutex_def intro: holder_ok_keep simp del: fun_upd_apply)
qed

lemma lock_inv_step: "lock_step s s' \<Longrightarrow> lock_inv s \<Longrightarrow> lock_inv s'"
proof (induction rule: lock_step.induct)
  case (fast_path s t m)
  then show ?case by (intro lock_inv_acquire) auto
next
  case (retry_ok s t m)
  then show ?case by (intro lock_inv_acquire) auto
next
  case (lock_returns s t m)
  then show ?case by (intro lock_inv_acquire) (auto simp: lock_round_try_lock prod_eq_iff split: if_splits)
next
  case (unlock_probe s t)
  then show ?case by (intro lock_inv_release) (auto simp: lock_inv_def)
next
  case (last_unlock s t)
  then show ?case by (intro lock_inv_release) auto
next
  case (nested_lock s t m)
  then have own: "owner (mtx s) = Some t" and pos: "0 < count (mtx s)"
    using lock_inv_owner [of s t] by auto
  have "pcs s v \<noteq> Probing" for v
    using nested_lock own by (auto simp: lock_inv_def holder_ok_def) (metis has_mtx.simps(1) pc.distinct)
  with nested_lock own pos show ?case
    by (auto simp: lock_inv_def wf_mutex_def try_lock_def)
next
  case (nested_unlock s t)
  then have own: "owner (mtx s) = Some t"
    using lock_inv_owner [of s t] by auto
  have "pcs s v \<noteq> Probing" for v
    using nested_unlock own by (auto simp: lock_inv_def)
  with nested_unlock own show ?case
    by (auto simp: lock_inv_def wf_mutex_def unlock_def)
qed (auto simp: lock_inv_def intro: holder_ok_take holder_ok_drop holder_ok_keep)

lemma lock_inv_reach: "lock_reach s \<Longrightarrow> lock_inv s"
  by (induction rule: lock_reach.induct) (auto intro: lock_inv_init lock_inv_step)

lemma lock_inv_steps: "lock_step\<^sup>*\<^sup>* s s' \<Longrightarrow> lock_inv s \<Longrightarrow> lock_inv s'"
  by (induction rule: rtranclp_induct) (auto intro: lock_inv_step)

text \<open>Unwinding the nested locks of the thread in the critical section.\<close>

lemma unlock_all:
  assumes "lock_inv s" and "pcs s u = Critical"
  shows "\<exists>s'. lock_step\<^sup>*\<^sup>* s s' \<and> owner (mtx s') = None \<and> pcs s' = (pcs s)(u := Running)"
  using assms
proof (induction "nat (count (mtx s))" arbitrary: s rule: less_induct)
  case less
  from less.prems have own: "owner (mtx s) = Some u" and pos: "0 < count (mtx s)"
    using lock_inv_owner [of s u] by auto
  show ?case
  proof (cases "count (mtx s) = 1")
    case True
    with own lock_step.last_unlock [OF less.prems(2)] show ?thesis
      by (intro exI [of _ "s\<lparr>mtx := unlock u (mtx s), pcs := (pcs s)(u := Running)\<rparr>"])
         (auto simp: unlock_def)
  next
    case False
    define s1 where "s1 = s\<lparr>mtx := unlock u (mtx s)\<rparr>"
    from False pos have step: "lock_step s s1"
      unfolding s1_def by (intro lock_step.nested_unlock [OF less.prems(2)]) simp
    have "nat (count (mtx s1)) < nat (count (mtx s))"
      using False pos own by (simp add: s1_def unlock_def)
    moreover have "lock_inv s1" using step less.prems(1) by (rule lock_inv_step)
    moreover have "pcs s1 u = Critical" using less.prems(2) by (simp add: s1_def)
    ultimately obtain s' where "lock_step\<^sup>*\<^sup>* s1 s'" "owner (mtx s') = None"
        "pcs s' = (pcs s1)(u := Running)"
      using less.hyps by blast
    with step show ?thesis by (auto simp: s1_def intro: converse_rtranclp_into_rtranclp)
  qed
qed

lemma gil_holder_yields:
  assumes inv: "lock_inv s" and g: "gil s = Some u" and o: "owner (mtx s) = Some v" "u \<noteq> v"
  shows "\<exists>s' p. lock_step s s' \<and> gil s' = None \<and> mtx s' = mtx s \<and> pcs s' = (pcs s)(u := p)"
proof -
  have "has_gil (pcs s u)" "\<not> has_mtx (pcs s u)"
    using inv g o by (auto simp: lock_inv_def holder_ok_def)
  then consider "pcs s u = Running" | "pcs s u = Trying" | "pcs s u = Retrying"
    by (cases "pcs s u") auto
  then show ?thesis
  proof cases
    case 1 from lock_step.drop_gil [OF 1] show ?thesis by force
  next
    case 2
    with o lock_step.slow_path [of s u "mtx s"] show ?thesis by (force simp: try_lock_def)
  next
    case 3
    with o lock_step.retry_fail [of s u "mtx s"] show ?thesis by (force simp: try_lock_def)
  qed
qed

lemma critical_no_gil_resumes:
  assumes inv: "lock_inv s" and p: "pcs s v = CriticalNoGil"
  shows "\<exists>s'. lock_step\<^sup>*\<^sup>* s s' \<and> pcs s' v = Critical \<and>
     (\<forall>w. w \<noteq> v \<and> \<not> has_gil (pcs s w) \<longrightarrow> pcs s' w = pcs s w)"
proof (cases "gil s")
  case None
  from lock_step.resume_gil [OF p None] show ?thesis
    by (intro exI [of _ "s\<lparr>gil := Some v, pcs := (pcs s)(v := Critical)\<rparr>"]) auto
next
  case (Some u)
  have own: "owner (mtx s) = Some v" and ne: "u \<noteq> v"
    using inv p Some lock_inv_owner [of s v] by (auto simp: lock_inv_def dest: holder_ok_Some)
  from gil_holder_yields [OF inv Some own ne] obtain s1 q where s1: "lock_step s s1"
    "gil s1 = None" "pcs s1 = (pcs s)(u := q)" by blast
  have p1: "pcs s1 v = CriticalNoGil" using s1 p ne by simp
  have gu: "has_gil (pcs s u)" using inv Some by (auto simp: lock_inv_def dest: holder_ok_Some)
  from lock_step.resume_gil [OF p1 s1(2)] s1(1)
  have "lock_step\<^sup>*\<^sup>* s (s1\<lparr>gil := Some v, pcs := (pcs s1)(v := Critical)\<rparr>)"
    by (meson converse_rtranclp_into_rtranclp r_into_rtranclp)
  with s1 gu show ?thesis by force
qed

definition bystander :: "lock_sys \<Rightarrow> tid \<Rightarrow> bool" where
  "bystander s w \<longleftrightarrow> \<not> has_gil (pcs s w) \<and> \<not> has_mtx (pcs s w)"

lemma mutex_freed:
  assumes inv: "lock_inv s" and o: "owner (mtx s) = Some v"
  shows "\<exists>s'. lock_step\<^sup>*\<^sup>* s s' \<and> owner (mtx s') = None \<and>
     (\<forall>w. bystander s w \<longrightarrow> pcs s' w = pcs s w)"
proof -
  have hv: "has_mtx (pcs s v)" using inv o by (auto simp: lock_inv_def dest: holder_ok_Some)
  then consider "pcs s v = Probing" | "pcs s v = Critical" | "pcs s v = CriticalNoGil"
    by (cases "pcs s v") auto
  then show ?thesis
  proof cases
    case 1
    with inv o lock_step.unlock_probe [OF 1] show ?thesis
      by (intro exI [of _ "s\<lparr>mtx := unlock v (mtx s), pcs := (pcs s)(v := Reclaiming)\<rparr>"])
         (auto simp: lock_inv_def unlock_def bystander_def)
  next
    case 2
    with unlock_all [OF inv 2] hv show ?thesis by (force simp: bystander_def)
  next
    case 3
    from critical_no_gil_resumes [OF inv 3] obtain s1 where s1: "lock_step\<^sup>*\<^sup>* s s1"
      "pcs s1 v = Critical" "\<forall>w. w \<noteq> v \<and> \<not> has_gil (pcs s w) \<longrightarrow> pcs s1 w = pcs s w" by blast
    from unlock_all [OF lock_inv_steps [OF s1(1) inv] s1(2)] obtain s2 where
      "lock_step\<^sup>*\<^sup>* s1 s2" "owner (mtx s2) = None" "pcs s2 = (pcs s1)(v := Running)" by blast
    with s1 hv show ?thesis
      by (intro exI [of _ s2]) (auto simp: bystander_def)
  qed
qed

lemma gil_freed:
  assumes inv: "lock_inv s" and o: "owner (mtx s) = None"
  shows "\<exists>s'. lock_step\<^sup>*\<^sup>* s s' \<and> owner (mtx s') = None \<and> gil s' = None \<and>
     (\<forall>w. bystander s w \<longrightarrow> pcs s' w = pcs s w)"
proof (cases "gil s")
  case None
  with o show ?thesis by blast
next
  case (Some u)
  have hu: "has_gil (pcs s u)" "\<not> has_mtx (pcs s u)"
    using inv Some o by (auto simp: lock_inv_def holder_ok_def)
  have run: "\<exists>s2. lock_step\<^sup>*\<^sup>* s s2 \<and> owner (mtx s2) = None \<and> pcs s2 = (pcs s)(u := Running)"
  proof -
    have crit: ?thesis if p: "lock_step s s1" "pcs s1 = (pcs s)(u := Critical)" for s1
    proof -
      have "pcs s1 u = Critical" by (simp add: p(2))
      from unlock_all [OF lock_inv_step [OF p(1) inv] this] p show ?thesis
        by (metis converse_rtranclp_into_rtranclp fun_upd_upd)
    qed
    from hu consider "pcs s u = Running" | "pcs s u = Trying" | "pcs s u = Retrying"
      by (cases "pcs s u") auto
    then show ?thesis
    proof cases
      case 1 with o show ?thesis by (metis fun_upd_triv rtranclp.rtrancl_refl)
    next
      case 2 with o lock_step.fast_path [of s u] show ?thesis
        by (intro crit [of "s\<lparr>mtx := snd (try_lock u (mtx s)), pcs := (pcs s)(u := Critical)\<rparr>"])
           (auto simp: try_lock_def)
    next
      case 3 with o lock_step.retry_ok [of s u] show ?thesis
        by (intro crit [of "s\<lparr>mtx := snd (try_lock u (mtx s)), pcs := (pcs s)(u := Critical)\<rparr>"])
           (auto simp: try_lock_def)
    qed
  qed
  then obtain s2 where s2: "lock_step\<^sup>*\<^sup>* s s2" "owner (mtx s2) = None"
    "pcs s2 = (pcs s)(u := Running)" by blast
  have "lock_step s2 (s2\<lparr>gil := None, pcs := (pcs s2)(u := Outside)\<rparr>)"
    by (rule lock_step.drop_gil) (simp add: s2(3))
  with s2 hu show ?thesis
    by (intro exI [of _ "s2\<lparr>gil := None, pcs := (pcs s2)(u := Outside)\<rparr>"])
       (auto simp: bystander_def)
qed

lemma both_freed:
  assumes inv: "lock_inv s"
  shows "\<exists>s'. lock_step\<^sup>*\<^sup>* s s' \<and> owner (mtx s') = None \<and> gil s' = None \<and>
     (\<forall>w. bystander s w \<longrightarrow> pcs s' w = pcs s w)"
proof -
  obtain s1 where s1: "lock_step\<^sup>*\<^sup>* s s1" "owner (mtx s1) = None"
    "\<forall>w. bystander s w \<longrightarrow> pcs s1 w = pcs s w"
    using mutex_freed [OF inv] by (cases "owner (mtx s)") auto
  from gil_freed [OF lock_inv_steps [OF s1(1) inv] s1(2)] obtain s2 where
    "lock_step\<^sup>*\<^sup>* s1 s2" "owner (mtx s2) = None" "gil s2 = None"
    "\<forall>w. bystander s1 w \<longrightarrow> pcs s2 w = pcs s1 w" by blast
  with s1 show ?thesis
    by (intro exI [of _ s2]) (auto simp: bystander_def)
qed

text \<open>A thread waiting in \<open>m.lock()\<close> with both locks free enters in four steps.\<close>

lemma waiting_enters:
  assumes w: "pcs s t = Waiting" and free: "owner (mtx s) = None" "gil s = None"
  shows "\<exists>s'. lock_step\<^sup>*\<^sup>* s s' \<and> pcs s' t = Critical"
proof -
  let ?m = "(mtx s)\<lparr>owner := Some t, count := 1\<rparr>"
  let ?s1 = "s\<lparr>mtx := ?m, pcs := (pcs s)(t := Probing)\<rparr>"
  let ?s2 = "?s1\<lparr>mtx := unlock t (mtx ?s1), pcs := (pcs ?s1)(t := Reclaiming)\<rparr>"
  let ?s3 = "?s2\<lparr>gil := Some t, pcs := (pcs ?s2)(t := Retrying)\<rparr>"
  let ?s4 = "?s3\<lparr>mtx := snd (try_lock t (mtx ?s3)), pcs := (pcs ?s3)(t := Critical)\<rparr>"
  have "lock_step s ?s1" using w free by (intro lock_step.lock_returns) (auto simp: lock_round_def)
  moreover have "lock_step ?s1 ?s2" by (intro lock_step.unlock_probe) simp
  moreover have "lock_step ?s2 ?s3" using free by (intro lock_step.regain_gil) simp_all
  moreover have "lock_step ?s3 ?s4"
    by (intro lock_step.retry_ok) (simp_all add: try_lock_def unlock_def)
  ultimately have "lock_step\<^sup>*\<^sup>* s ?s4"
    by (meson converse_rtranclp_into_rtranclp rtranclp.rtrancl_refl)
  then show ?thesis by (intro exI [of _ ?s4]) simp
qed

lemma reclaiming_enters:
  assumes w: "pcs s t = Reclaiming" and free: "owner (mtx s) = None" "gil s = None"
  shows "\<exists>s'. lock_step\<^sup>*\<^sup>* s s' \<and> pcs s' t = Critical"
proof -
  let ?s1 = "s\<lparr>gil := Some t, pcs := (pcs s)(t := Retrying)\<rparr>"
  let ?s2 = "?s1\<lparr>mtx := snd (try_lock t (mtx ?s1)), pcs := (pcs ?s1)(t := Critical)\<rparr>"
  have "lock_step s ?s1" using w free by (intro lock_step.regain_gil) simp_all
  moreover have "lock_step ?s1 ?s2"
    using free by (intro lock_step.retry_ok) (simp_all add: try_lock_def)
  ultimately show ?thesis by (intro exI [of _ ?s2]) (auto intro: converse_rtranclp_into_rtranclp)
qed

lemma bystander_enters:
  assumes inv: "lock_inv s" and w: "pcs s t = Waiting \<or> pcs s t = Reclaiming"
  shows "\<exists>s'. lock_step\<^sup>*\<^sup>* s s' \<and> pcs s' t = Critical"
proof -
  from both_freed [OF inv] obtain s1 where s1: "lock_step\<^sup>*\<^sup>* s s1" "owner (mtx s1) = None"
    "gil s1 = None" "\<forall>w. bystander s w \<longrightarrow> pcs s1 w = pcs s w" by blast
  have "bystander s t" using w by (auto simp: bystander_def)
  with s1 w waiting_enters [of s1 t] reclaiming_enters [of s1 t]
  show ?thesis by (metis rtranclp_trans)
qed

lemma trier_enters:
  assumes inv: "lock_inv s" and t: "pcs s t = Trying \<or> pcs s t = Retrying"
  shows "\<exists>s'. lock_step\<^sup>*\<^sup>* s s' \<and> pcs s' t = Critical"
proof (cases "fst (try_lock t (mtx s))")
  case True
  then have "lock_step s (s\<lparr>mtx := snd (try_lock t (mtx s)), pcs := (pcs s)(t := Critical)\<rparr>)"
    using t by (metis lock_step.fast_path lock_step.retry_ok prod.collapse)
  then show ?thesis by (intro exI) (rule conjI, erule r_into_rtranclp, simp)
next
  case False
  let ?s1 = "s\<lparr>gil := None, pcs := (pcs s)(t := Waiting)\<rparr>"
  from False have step: "lock_step s ?s1"
    using t by (metis lock_step.slow_path lock_step.retry_fail prod.collapse)
  from bystander_enters [OF lock_inv_step [OF step inv], of t] obtain s' where
    "lock_step\<^sup>*\<^sup>* ?s1 s'" "pcs s' t = Critical" by auto
  with step show ?thesis by (blast intro: converse_rtranclp_into_rtranclp)
qed

section \<open>Properties\<close>


text \<open>A reachable state in which thread 1 is in the critical section without the
  interpreter lock and thread 2 waits for the mutex.\<close>

definition contended :: lock_sys where
  "contended = \<lparr>gil = None, mtx = \<lparr>owner = Some 1, count = 1\<rparr>,
     pcs = (\<lambda>_. Outside)(1 := CriticalNoGil, 2 := Waiting)\<rparr>"

lemma contended_reach: "lock_reach contended"
proof -
  let ?f = "\<lambda>_ :: tid. Outside"
  let ?m = "\<lparr>owner = Some 1, count = 1\<rparr> :: dcg_mutex"
  have "lock_reach \<lparr>gil = Some 1, mtx = mutex_init, pcs = ?f(1 := Running)\<rparr>"
    using lock_reach.step [OF lock_reach.init lock_step.take_gil [of lock_init 1]]
    by (simp add: lock_init_def)
  from lock_reach.step [OF this lock_step.call_lock [of _ 1]]
  have "lock_reach \<lparr>gil = Some 1, mtx = mutex_init, pcs = ?f(1 := Trying)\<rparr>" by simp
  from lock_reach.step [OF this lock_step.fast_path [of _ 1 ?m]]
  have "lock_reach \<lparr>gil = Some 1, mtx = ?m, pcs = ?f(1 := Critical)\<rparr>"
    by (simp add: try_lock_def mutex_init_def)
  from lock_reach.step [OF this lock_step.yield_gil [of _ 1]]
  have "lock_reach \<lparr>gil = None, mtx = ?m, pcs = ?f(1 := CriticalNoGil)\<rparr>" by simp
  from lock_reach.step [OF this lock_step.take_gil [of _ 2]]
  have "lock_reach \<lparr>gil = Some 2, mtx = ?m, pcs = ?f(1 := CriticalNoGil, 2 := Running)\<rparr>" by simp
  from lock_reach.step [OF this lock_step.call_lock [of _ 2]]
  have "lock_reach \<lparr>gil = Some 2, mtx = ?m, pcs = ?f(1 := CriticalNoGil, 2 := Trying)\<rparr>" by simp
  from lock_reach.step [OF this lock_step.slow_path [of _ 2 ?m]]
  show ?thesis by (simp add: try_lock_def contended_def)
qed


text \<open>C21: no deadlock between the interpreter lock and a mutex: from every reachable
  state, each thread that is somewhere inside \<open>lock_gil_friendly\<close> has a continuation in
  which it enters the critical section.\<close>

theorem lock_gil_friendly_no_deadlock:
  assumes "lock_reach s" and "pcs s t \<in> {Trying, Waiting, Probing, Reclaiming, Retrying}"
  shows "\<exists>s'. lock_step\<^sup>*\<^sup>* s s' \<and> pcs s' t = Critical"
proof -
  have inv: "lock_inv s" using assms(1) by (rule lock_inv_reach)
  show ?thesis
  proof (cases "pcs s t = Probing")
    case True
    then have step: "lock_step s (s\<lparr>mtx := unlock t (mtx s), pcs := (pcs s)(t := Reclaiming)\<rparr>)"
      by (rule lock_step.unlock_probe)
    from bystander_enters [OF lock_inv_step [OF step inv], of t] step show ?thesis
      by (auto intro: converse_rtranclp_into_rtranclp)
  next
    case False
    with assms(2) bystander_enters [OF inv] trier_enters [OF inv] show ?thesis by auto
  qed
qed

theorem lock_gil_friendly_no_deadlock_witness:
  "\<exists>s'. lock_step\<^sup>*\<^sup>* contended s' \<and> pcs s' 2 = Critical"
  by (rule lock_gil_friendly_no_deadlock [OF contended_reach]) (simp add: contended_def)

end
