(* ===== verification/Utf8.thy ===== *)
theory Utf8
  imports Errors
begin

text \<open>
  The UTF-8 codec the binding applies to Python strings (\<open>str.encode()\<close> and
  \<open>bytes.decode()\<close>, strict mode): a string is the list of its code points, lone
  surrogates cannot be encoded, and decoding rejects overlong and truncated forms.
\<close>

type_synonym pystr = "nat list"

definition scalar :: "nat \<Rightarrow> bool" where
  "scalar c \<longleftrightarrow> c < 0xD800 \<or> (0xE000 \<le> c \<and> c < 0x110000)"

definition b8 :: "nat \<Rightarrow> byte" where
  "b8 n = word_of_nat n"

fun utf8_char :: "nat \<Rightarrow> bytes" where
  "utf8_char c =
     (if c < 0x80 then [b8 c]
      else if c < 0x800 then [b8 (0xC0 + c div 64), b8 (0x80 + c mod 64)]
      else if c < 0x10000
        then [b8 (0xE0 + c div 4096), b8 (0x80 + c div 64 mod 64), b8 (0x80 + c mod 64)]
      else [b8 (0xF0 + c div 262144), b8 (0x80 + c div 4096 mod 64),
            b8 (0x80 + c div 64 mod 64), b8 (0x80 + c mod 64)])"

definition str_encode :: "pystr \<Rightarrow> bytes result" where
  "str_encode s =
     (if list_all scalar s then Inr (concat (map utf8_char s)) else Inl (PyExn UnicodeError))"

definition cont :: "byte \<Rightarrow> bool" where
  "cont b \<longleftrightarrow> 0x80 \<le> unat b \<and> unat b < 0xC0"

definition cval :: "byte \<Rightarrow> nat" where
  "cval b = unat b - 0x80"

text \<open>One code point off the front of a byte string, with the rest.\<close>

definition utf8_next :: "bytes \<Rightarrow> (nat \<times> bytes) option" where
  "utf8_next bs =
     (case bs of
        [] \<Rightarrow> None
      | b0 # r0 \<Rightarrow>
          if unat b0 < 0x80 then Some (unat b0, r0)
          else (case r0 of
              [] \<Rightarrow> None
            | b1 # r1 \<Rightarrow>
                if \<not> cont b1 then None
                else if 0xC2 \<le> unat b0 \<and> unat b0 < 0xE0
                  then Some ((unat b0 - 0xC0) * 64 + cval b1, r1)
                else (case r1 of
                    [] \<Rightarrow> None
                  | b2 # r2 \<Rightarrow>
                      if \<not> cont b2 then None
                      else if 0xE0 \<le> unat b0 \<and> unat b0 < 0xF0
                        then let c = (unat b0 - 0xE0) * 4096 + cval b1 * 64 + cval b2
                             in if 0x800 \<le> c \<and> scalar c then Some (c, r2) else None
                      else (case r2 of
                          [] \<Rightarrow> None
                        | b3 # r3 \<Rightarrow>
                            if \<not> cont b3 then None
                            else if 0xF0 \<le> unat b0 \<and> unat b0 < 0xF5
                              then let c = (unat b0 - 0xF0) * 262144 + cval b1 * 4096
                                           + cval b2 * 64 + cval b3
                                   in if 0x10000 \<le> c \<and> scalar c then Some (c, r3) else None
                            else None))))"

lemma utf8_next_shorter: "utf8_next bs = Some (c, r) \<Longrightarrow> length r < length bs"
  by (auto simp: utf8_next_def Let_def split: list.splits if_splits)

function utf8_decode :: "bytes \<Rightarrow> pystr option" where
  "utf8_decode bs =
     (if bs = [] then Some []
      else case utf8_next bs of
             None \<Rightarrow> None
           | Some (c, r) \<Rightarrow> map_option (Cons c) (utf8_decode r))"
  by pat_completeness auto
termination
  by (relation "measure length") (auto dest: utf8_next_shorter)

declare utf8_decode.simps [simp del]

definition bytes_decode :: "bytes \<Rightarrow> pystr result" where
  "bytes_decode bs = (case utf8_decode bs of None \<Rightarrow> Inl (PyExn UnicodeError) | Some s \<Rightarrow> Inr s)"

lemma unat_b8: "n < 256 \<Longrightarrow> unat (b8 n) = n"
  by (simp add: b8_def unat_of_nat)

lemma cont_b8: "k < 64 \<Longrightarrow> cont (b8 (0x80 + k)) \<and> cval (b8 (0x80 + k)) = k"
  by (simp add: cont_def cval_def unat_b8)

lemma radix64_step: "n div (k * 64) * (k * 64) + n div k mod 64 * k = n div k * (k :: nat)"
proof -
  have "n div k = n div (k * 64) * 64 + n div k mod 64"
    using div_mult_mod_eq [of "n div k" 64] by (simp add: div_mult2_eq)
  then have "n div k * k = (n div (k * 64) * 64 + n div k mod 64) * k" by simp
  also have "\<dots> = n div (k * 64) * (k * 64) + n div k mod 64 * k"
    by (simp add: add_mult_distrib mult.assoc mult.commute [of 64 k])
  finally show ?thesis by simp
qed

lemma radix64_three: "n div 4096 * 4096 + n div 64 mod 64 * 64 + n mod 64 = (n :: nat)"
  using radix64_step [of n 64] div_mult_mod_eq [of n 64] by simp

lemma radix64_four:
  "n div 262144 * 262144 + n div 4096 mod 64 * 4096 + n div 64 mod 64 * 64 + n mod 64 = (n :: nat)"
  using radix64_step [of n 4096] radix64_three [of n] by simp

lemma utf8_next_char:
  assumes "scalar c"
  shows "utf8_next (utf8_char c @ r) = Some (c, r)"
proof -
  have lim: "c < 0x110000" using assms by (auto simp: scalar_def)
  have k: "c mod 64 < 64" "c div 64 mod 64 < 64" "c div 4096 mod 64 < 64" by auto
  note three = radix64_three [of c] and four = radix64_four [of c]
  consider "c < 0x80" | "0x80 \<le> c" "c < 0x800" | "0x800 \<le> c" "c < 0x10000" | "0x10000 \<le> c"
    by linarith
  then show ?thesis
  proof cases
    case 1 then show ?thesis by (simp add: utf8_next_def unat_b8)
  next
    case 2
    then have "unat (b8 (0xC0 + c div 64)) = 0xC0 + c div 64" "2 \<le> c div 64" "c div 64 < 32"
      by (auto simp: unat_b8)
    with 2 cont_b8 [OF k(1)] show ?thesis
      by (simp add: utf8_next_def)
  next
    case 3
    then have "unat (b8 (0xE0 + c div 4096)) = 0xE0 + c div 4096" "c div 4096 < 16"
      by (auto simp: unat_b8)
    with 3 cont_b8 [OF k(1)] cont_b8 [OF k(2)] assms three show ?thesis
      by (simp add: utf8_next_def Let_def)
  next
    case 4
    then have "unat (b8 (0xF0 + c div 262144)) = 0xF0 + c div 262144" "c div 262144 < 5"
      using lim by (auto simp: unat_b8)
    with 4 cont_b8 [OF k(1)] cont_b8 [OF k(2)] cont_b8 [OF k(3)] assms four show ?thesis
      by (simp add: utf8_next_def Let_def)
  qed
qed

lemma utf8_char_nonempty [simp]: "utf8_char c \<noteq> []"
  by simp

lemma utf8_decode_encode: "list_all scalar s \<Longrightarrow> utf8_decode (concat (map utf8_char s)) = Some s"
proof (induction s)
  case Nil
  show ?case by (subst utf8_decode.simps) simp
next
  case (Cons c s)
  then show ?case
    by (subst utf8_decode.simps) (simp add: utf8_next_char del: utf8_char.simps)
qed

lemma str_roundtrip: "str_encode s = Inr bs \<Longrightarrow> bytes_decode bs = Inr s"
  by (auto simp: str_encode_def bytes_decode_def utf8_decode_encode split: if_splits)

text \<open>The octets of a text that can be encoded.\<close>

definition utf8 :: "pystr \<Rightarrow> bytes" where
  "utf8 s = concat (map utf8_char s)"

lemma encode_utf8: "list_all scalar s \<Longrightarrow> str_encode s = Inr (utf8 s)"
  by (simp add: str_encode_def utf8_def)

lemma decode_utf8: "list_all scalar s \<Longrightarrow> bytes_decode (utf8 s) = Inr s"
  using str_roundtrip encode_utf8 by blast

text \<open>The octet of an ASCII character appears for this character only.\<close>

lemma utf8_char_ascii:
  assumes "scalar c" "b \<in> set (utf8_char c)" "unat b < 128"
  shows "c = unat b"
proof (cases "c < 128")
  case True
  with assms(2) show ?thesis by (simp add: unat_b8)
next
  case False
  have "c < 0x110000" using assms(1) by (auto simp: scalar_def)
  then have q: "c div 262144 < 5" by (simp add: less_mult_imp_div_less)
  have r: "unat (b8 (128 + n mod 64)) \<ge> 128" for n using mod_less_divisor [of 64 n] by (subst unat_b8) auto
  have "c div 64 < 32" if "c < 0x800" using that by (simp add: less_mult_imp_div_less)
  then have a: "unat (b8 (192 + c div 64)) \<ge> 128" if "c < 0x800" using that by (subst unat_b8) auto
  have "c div 4096 < 16" if "c < 0x10000" using that by (simp add: less_mult_imp_div_less)
  then have b: "unat (b8 (224 + c div 4096)) \<ge> 128" if "c < 0x10000" using that by (subst unat_b8) auto
  have d: "unat (b8 (240 + c div 262144)) \<ge> 128" using q by (subst unat_b8) auto
  show ?thesis using assms(2,3) False a b d r by (auto simp: not_le split: if_splits) (metis linorder_not_le)+
qed

lemma utf8_ascii: "list_all scalar s \<Longrightarrow> b \<in> set (utf8 s) \<Longrightarrow> unat b < 128 \<Longrightarrow> unat b \<in> set s"
proof -
  assume s: "list_all scalar s" "unat b < 128" and "b \<in> set (utf8 s)"
  then obtain c where c: "c \<in> set s" "b \<in> set (utf8_char c)" by (auto simp: utf8_def simp del: utf8_char.simps)
  from utf8_char_ascii [OF _ c(2) s(2)] c(1) s(1) show "unat b \<in> set s" by (auto simp: list_all_iff)
qed

lemma utf8_inj: "list_all scalar s \<Longrightarrow> list_all scalar t \<Longrightarrow> utf8 s = utf8 t \<Longrightarrow> s = t"
  by (metis decode_utf8 sum.inject(2))

end
