(* ===== verification/Message.thy ===== *)
theory Message
  imports Utf8
begin

text \<open>
  \<open>Message\<close> (\<^verbatim>\<open>nng/_message.pxi\<close>) over \<open>MessageHandle\<close>
  (\<^verbatim>\<open>nng/cpp/message.hpp\<close>): a Python object that owns one \<open>nng_msg*\<close> of the C
  library. The messages live in an explicit heap, so that freeing twice, using a freed
  message and leaking one are visible; the functions of the C library on message contents
  are a parameter with the documented laws as hypotheses. Each method is one critical
  section of the object's mutex, so a method is one atomic transition.
\<close>

section \<open>The C library's messages\<close>

record nng_msg =
  hdr :: bytes
  body :: bytes
  pipe_of :: u32

record msg_heap =
  live :: "nat \<rightharpoonup> nng_msg"
  next_ptr :: nat
  corrupt :: bool

text \<open>Address 0 is \<open>NULL\<close>. \<open>corrupt\<close> records undefined behaviour of the heap.\<close>

definition heap_alloc :: "nng_msg \<Rightarrow> msg_heap \<Rightarrow> nat \<times> msg_heap" where
  "heap_alloc m h = (next_ptr h, h\<lparr>live := (live h)(next_ptr h \<mapsto> m), next_ptr := Suc (next_ptr h)\<rparr>)"

definition nng_msg_free :: "nat \<Rightarrow> msg_heap \<Rightarrow> msg_heap" where
  "nng_msg_free p h =
     (if live h p = None then h\<lparr>corrupt := True\<rparr> else h\<lparr>live := (live h)(p := None)\<rparr>)"

datatype uint_width = U16 | U32 | U64

fun octets :: "uint_width \<Rightarrow> nat" where
  "octets U16 = 2"
| "octets U32 = 4"
| "octets U64 = 8"

text \<open>What the functions of the C library do to the contents of one message.\<close>

record msg_lib =
  nng_msg_alloc :: "nat \<Rightarrow> nng_err \<times> nng_msg"
  nng_msg_dup :: "nng_msg \<Rightarrow> nng_err \<times> nng_msg"
  nng_msg_clear :: "nng_msg \<Rightarrow> nng_msg"
  nng_msg_reserve :: "nat \<Rightarrow> nng_msg \<Rightarrow> nng_err \<times> nng_msg"
  nng_msg_realloc :: "nat \<Rightarrow> nng_msg \<Rightarrow> nng_err \<times> nng_msg"
  nng_msg_append :: "bytes \<Rightarrow> nng_msg \<Rightarrow> nng_err \<times> nng_msg"
  nng_msg_insert :: "bytes \<Rightarrow> nng_msg \<Rightarrow> nng_err \<times> nng_msg"
  nng_msg_trim :: "nat \<Rightarrow> nng_msg \<Rightarrow> nng_err \<times> nng_msg"
  nng_msg_chop :: "nat \<Rightarrow> nng_msg \<Rightarrow> nng_err \<times> nng_msg"
  nng_msg_append_u :: "uint_width \<Rightarrow> nat \<Rightarrow> nng_msg \<Rightarrow> nng_err \<times> nng_msg"
  nng_msg_chop_u :: "uint_width \<Rightarrow> nng_msg \<Rightarrow> nng_err \<times> nat \<times> nng_msg"
  nng_msg_trim_u :: "uint_width \<Rightarrow> nng_msg \<Rightarrow> nng_err \<times> nat \<times> nng_msg"

section \<open>MessageHandle and the Message object\<close>

record message =
  msg_ptr :: nat
  python_buffer_count :: u64

record msg_st =
  heap :: msg_heap
  self :: message

type_synonym 'a mop = "(msg_st, py_exn, 'a) op"

definition message_new :: message where
  "message_new = \<lparr>msg_ptr = 0, python_buffer_count = 0\<rparr>"

definition free_if_owned :: "nat \<Rightarrow> msg_heap \<Rightarrow> msg_heap" where
  "free_if_owned p h = (if p \<noteq> 0 then nng_msg_free p h else h)"

text \<open>Move assignment of a freshly built handle to \<open>self._handle\<close>.\<close>

definition handle_assign :: "nat \<Rightarrow> msg_st \<Rightarrow> msg_st" where
  "handle_assign p s =
     s\<lparr>heap := free_if_owned (msg_ptr (self s)) (heap s), self := (self s)\<lparr>msg_ptr := p\<rparr>\<rparr>"

definition handle_alloc :: "msg_lib \<Rightarrow> nat \<Rightarrow> msg_heap \<Rightarrow> (nng_err \<times> nat) \<times> msg_heap" where
  "handle_alloc L n h =
     (case nng_msg_alloc L n of (err, m) \<Rightarrow>
        if err \<noteq> NNG_OK then ((err, 0), h)
        else (case heap_alloc m h of (p, h') \<Rightarrow> ((NNG_OK, p), h')))"

definition handle_dup :: "msg_lib \<Rightarrow> nng_msg \<Rightarrow> msg_heap \<Rightarrow> (nng_err \<times> nat) \<times> msg_heap" where
  "handle_dup L m h =
     (case nng_msg_dup L m of (err, m') \<Rightarrow>
        if err \<noteq> NNG_OK then ((err, 0), h)
        else (case heap_alloc m' h of (p, h') \<Rightarrow> ((NNG_OK, p), h')))"

definition handle_eq :: "msg_heap \<Rightarrow> nat \<Rightarrow> nat \<Rightarrow> bool" where
  "handle_eq h p q =
     (if p = q then True
      else if p = 0 \<or> q = 0 then False
      else (case (live h p, live h q) of
              (Some a, Some b) \<Rightarrow>
                if length (body a) \<noteq> length (body b) then False else body a = body b
            | _ \<Rightarrow> False))"

section \<open>Building a message from Python data\<close>

text \<open>
  The objects a caller passes as data: \<open>bytes\<close>, \<open>bytearray\<close>, \<open>str\<close>, any other
  object whose buffer is a contiguous row of octets, and an object that is refused when the
  view is taken, with the class of the exception.
\<close>

datatype py_data = PyBytes bytes | PyByteArray bytes | PyStr pystr | PyBuffer bytes
  | PyNoBuffer builtin_class

text \<open>\<open>memcpy\<close> over the front of a body.\<close>

definition memcpy_body :: "bytes \<Rightarrow> nng_msg \<Rightarrow> nng_msg" where
  "memcpy_body bs m = m\<lparr>body := bs @ drop (length bs) (body m)\<rparr>"

definition msg_of_bytes :: "msg_lib \<Rightarrow> bytes \<Rightarrow> msg_heap \<Rightarrow> (nng_err \<times> nat) \<times> msg_heap" where
  "msg_of_bytes L bs h =
     (case handle_alloc L (length bs) h of ((err, p), h') \<Rightarrow>
        if err = NNG_OK
        then ((err, p), h'\<lparr>live := (live h')(p := map_option (memcpy_body bs) (live h' p))\<rparr>)
        else ((err, p), h'))"

definition nng_msg_from_any_data ::
    "msg_lib \<Rightarrow> py_data \<Rightarrow> msg_heap \<Rightarrow> (py_exn + nng_err \<times> nat) \<times> msg_heap" where
  "nng_msg_from_any_data L data h =
     (case data of
        PyByteArray bs \<Rightarrow> (case msg_of_bytes L bs h of (r, h') \<Rightarrow> (Inr r, h'))
      | PyBytes bs \<Rightarrow> (case msg_of_bytes L bs h of (r, h') \<Rightarrow> (Inr r, h'))
      | PyBuffer bs \<Rightarrow> (case msg_of_bytes L bs h of (r, h') \<Rightarrow> (Inr r, h'))
      | PyStr s \<Rightarrow> (Inl (PyExn TypeError), h)
      | PyNoBuffer e \<Rightarrow> (Inl (PyExn e), h))"

definition nng_msg_from_data ::
    "msg_lib \<Rightarrow> py_data \<Rightarrow> msg_heap \<Rightarrow> (py_exn + nng_err \<times> nat) \<times> msg_heap" where
  "nng_msg_from_data L data h =
     (case data of
        PyBytes bs \<Rightarrow> (case msg_of_bytes L bs h of (r, h') \<Rightarrow> (Inr r, h'))
      | PyStr s \<Rightarrow>
          (case str_encode s of
             Inl e \<Rightarrow> (Inl e, h)
           | Inr bs \<Rightarrow> (case msg_of_bytes L bs h of (r, h') \<Rightarrow> (Inr r, h')))
      | _ \<Rightarrow> nng_msg_from_any_data L data h)"

text \<open>Conversion of a Python integer to a C unsigned type of \<open>n\<close> octets.\<close>

definition to_uint :: "nat \<Rightarrow> int \<Rightarrow> nat result" where
  "to_uint n v = (if 0 \<le> v \<and> v < 256 ^ n then Inr (nat v) else Inl (PyExn OverflowError))"

abbreviation to_size_t :: "int \<Rightarrow> nat result" where
  "to_size_t \<equiv> to_uint 8"

text \<open>
  \<open>Message.__init__\<close>: \<open>size\<close> is a \<open>size_t\<close>, so its conversion comes first and the
  branch for a negative size is never taken.
\<close>

definition message_init :: "msg_lib \<Rightarrow> py_data option \<Rightarrow> int \<Rightarrow> unit mop" where
  "message_init L data sz s =
     (case to_size_t sz of
        Inl e \<Rightarrow> (Inl e, s)
      | Inr n \<Rightarrow>
          (case data of
             Some d \<Rightarrow>
               (case nng_msg_from_data L d (heap s) of
                  (Inl e, h) \<Rightarrow> (Inl e, s\<lparr>heap := h\<rparr>)
                | (Inr (err, p), h) \<Rightarrow>
                    (case check_err err of
                       Inl e \<Rightarrow> (Inl e, s\<lparr>heap := h\<rparr>)
                     | Inr _ \<Rightarrow> (Inr (), handle_assign p (s\<lparr>heap := h\<rparr>))))
           | None \<Rightarrow>
               (if (0::int) \<le> int n then
                  (case handle_alloc L n (heap s) of ((err, p), h) \<Rightarrow>
                     (case check_err err of
                        Inl e \<Rightarrow> (Inl e, handle_assign p (s\<lparr>heap := h\<rparr>))
                      | Inr _ \<Rightarrow> (Inr (), handle_assign p (s\<lparr>heap := h\<rparr>))))
                else (Inl (PyExn ValueError), s))))"

definition from_ptr :: "nat \<Rightarrow> message" where
  "from_ptr p = message_new\<lparr>msg_ptr := p\<rparr>"

section \<open>Guards\<close>

definition closed_exn :: py_exn where
  "closed_exn = NngExn NngClosed NNG_ECLOSED (Literal ''The Message is empty.'')"

definition check_validity :: "unit mop" where
  "check_validity s = (if msg_ptr (self s) = 0 then (Inl closed_exn, s) else (Inr (), s))"

definition check_full_ownership :: "unit mop" where
  "check_full_ownership s =
     (if 0 < python_buffer_count (self s) then (Inl (PyExn PermissionError), s)
      else check_validity s)"

text \<open>
  A call of the C library on the owned message: its return code, a value and the new
  contents. On a pointer that is not live the C program has no defined behaviour; the
  model marks the heap \<open>corrupt\<close>.
\<close>

definition c_call :: "(nng_msg \<Rightarrow> nng_err \<times> 'a \<times> nng_msg) \<Rightarrow> (nng_err \<times> 'a) mop" where
  "c_call f s =
     (case live (heap s) (msg_ptr (self s)) of
        None \<Rightarrow> (Inl (PyExn RuntimeError), s\<lparr>heap := (heap s)\<lparr>corrupt := True\<rparr>\<rparr>)
      | Some m \<Rightarrow>
          (case f m of (err, v, m') \<Rightarrow>
             (Inr (err, v),
              s\<lparr>heap := (heap s)\<lparr>live := (live (heap s))(msg_ptr (self s) \<mapsto> m')\<rparr>\<rparr>)))"

definition no_value :: "(nng_msg \<Rightarrow> nng_err \<times> nng_msg) \<Rightarrow> nng_msg \<Rightarrow> nng_err \<times> unit \<times> nng_msg" where
  "no_value f m = (case f m of (err, m') \<Rightarrow> (err, (), m'))"

text \<open>\<open>check_err(self._handle.f(...))\<close>, alone and after \<open>_check_full_ownership()\<close>.\<close>

definition checked_call :: "(nng_msg \<Rightarrow> nng_err \<times> 'a \<times> nng_msg) \<Rightarrow> 'a mop" where
  "checked_call f =
     bindS (c_call f) (\<lambda>(err, v). bindS (liftS (check_err err)) (\<lambda>_. returnS v))"

definition checked :: "(nng_msg \<Rightarrow> nng_err \<times> 'a \<times> nng_msg) \<Rightarrow> 'a mop" where
  "checked f = bindS check_full_ownership (\<lambda>_. checked_call f)"

text \<open>A read of the owned message after \<open>_check_validity()\<close>.\<close>

definition reading :: "(nng_msg \<Rightarrow> 'a) \<Rightarrow> 'a mop" where
  "reading g =
     bindS check_validity (\<lambda>_.
       bindS (c_call (\<lambda>m. (NNG_OK, g m, m))) (\<lambda>(err, v). returnS v))"

section \<open>Operations\<close>

definition steal_ptr :: "nat mop" where
  "steal_ptr =
     bindS check_full_ownership (\<lambda>_ s.
       (Inr (msg_ptr (self s)), s\<lparr>self := (self s)\<lparr>msg_ptr := 0\<rparr>\<rparr>))"

definition handle_restore :: "nat \<Rightarrow> unit mop" where
  "handle_restore p s = (Inr (), s\<lparr>self := (self s)\<lparr>msg_ptr := p\<rparr>\<rparr>)"

text \<open>The exported view is the address of the body and its length.\<close>

definition getbuffer :: "(nat \<times> nat) mop" where
  "getbuffer =
     bindS (reading (\<lambda>m. length (body m))) (\<lambda>n s.
       (Inr (msg_ptr (self s), n),
        s\<lparr>self := (self s)\<lparr>python_buffer_count := python_buffer_count (self s) + 1\<rparr>\<rparr>))"

definition releasebuffer :: "unit mop" where
  "releasebuffer s =
     (if python_buffer_count (self s) = 0 then (Inl (PyExn RuntimeError), s)
      else (Inr (), s\<lparr>self := (self s)\<lparr>python_buffer_count := python_buffer_count (self s) - 1\<rparr>\<rparr>))"

definition to_bytes :: "bytes mop" where
  "to_bytes = reading body"

definition msg_clear :: "msg_lib \<Rightarrow> unit mop" where
  "msg_clear L = checked (\<lambda>m. (NNG_OK, (), nng_msg_clear L m))"

definition msg_reserve :: "msg_lib \<Rightarrow> nat \<Rightarrow> unit mop" where
  "msg_reserve L capacity = checked (no_value (nng_msg_reserve L capacity))"

text \<open>\<open>memset\<close> of the octets from \<open>old\<close> up to the new size.\<close>

definition memset_tail :: "nat \<Rightarrow> nat \<Rightarrow> nng_msg \<Rightarrow> nng_msg" where
  "memset_tail old new m = m\<lparr>body := take old (body m) @ replicate (new - old) 0 @ drop new (body m)\<rparr>"

definition msg_resize :: "msg_lib \<Rightarrow> nat \<Rightarrow> unit mop" where
  "msg_resize L new_size =
     bindS check_full_ownership (\<lambda>_.
       bindS (c_call (\<lambda>m. (NNG_OK, length (body m), m))) (\<lambda>(_, old_size).
         bindS (c_call (no_value (nng_msg_realloc L new_size))) (\<lambda>(err, _).
           bindS (liftS (check_err err)) (\<lambda>_.
             if new_size > old_size
             then bindS (c_call (\<lambda>m. (NNG_OK, (), memset_tail old_size new_size m))) (\<lambda>_. returnS ())
             else returnS ()))))"

text \<open>The typed memory view \<open>append\<close> and \<open>insert\<close> take of their argument.\<close>

definition memory_view :: "py_data \<Rightarrow> bytes result" where
  "memory_view data =
     (case data of
        PyBytes bs \<Rightarrow> Inr bs | PyByteArray bs \<Rightarrow> Inr bs | PyBuffer bs \<Rightarrow> Inr bs
      | PyStr s \<Rightarrow> Inl (PyExn TypeError) | PyNoBuffer e \<Rightarrow> Inl (PyExn e))"

definition msg_append :: "msg_lib \<Rightarrow> py_data \<Rightarrow> unit mop" where
  "msg_append L data =
     bindS check_full_ownership (\<lambda>_.
       bindS (liftS (memory_view data)) (\<lambda>mv. checked_call (no_value (nng_msg_append L mv))))"

definition msg_insert :: "msg_lib \<Rightarrow> py_data \<Rightarrow> unit mop" where
  "msg_insert L data =
     bindS check_full_ownership (\<lambda>_.
       bindS (liftS (memory_view data)) (\<lambda>mv. checked_call (no_value (nng_msg_insert L mv))))"

definition msg_trim :: "msg_lib \<Rightarrow> nat \<Rightarrow> unit mop" where
  "msg_trim L n = checked (no_value (nng_msg_trim L n))"

definition msg_chop :: "msg_lib \<Rightarrow> nat \<Rightarrow> unit mop" where
  "msg_chop L n = checked (no_value (nng_msg_chop L n))"

definition append_u :: "msg_lib \<Rightarrow> uint_width \<Rightarrow> nat \<Rightarrow> unit mop" where
  "append_u L w v = checked (no_value (nng_msg_append_u L w v))"

definition chop_u :: "msg_lib \<Rightarrow> uint_width \<Rightarrow> nat mop" where
  "chop_u L w = checked (nng_msg_chop_u L w)"

definition trim_u :: "msg_lib \<Rightarrow> uint_width \<Rightarrow> nat mop" where
  "trim_u L w = checked (nng_msg_trim_u L w)"

definition header :: "bytes mop" where
  "header = reading hdr"

definition pipe_id :: "u32 mop" where
  "pipe_id = reading pipe_of"

definition msg_len :: "nat mop" where
  "msg_len = reading (\<lambda>m. length (body m))"

definition msg_str :: "pystr mop" where
  "msg_str = bindS check_validity (\<lambda>_. bindS to_bytes (\<lambda>bs. liftS (bytes_decode bs)))"

datatype msg_repr = Transferred | Len nat

definition repr :: "msg_repr mop" where
  "repr s =
     (if msg_ptr (self s) = 0 then (Inr Transferred, s)
      else bindS (c_call (\<lambda>m. (NNG_OK, length (body m), m))) (\<lambda>(_, n). returnS (Len n)) s)"

definition dup :: "msg_lib \<Rightarrow> message mop" where
  "dup L =
     bindS check_validity (\<lambda>_ s.
       case live (heap s) (msg_ptr (self s)) of
         None \<Rightarrow> (Inl (PyExn RuntimeError), s\<lparr>heap := (heap s)\<lparr>corrupt := True\<rparr>\<rparr>)
       | Some m \<Rightarrow>
           (case handle_dup L m (heap s) of ((err, p), h) \<Rightarrow>
              (case check_err err of
                 Inl e \<Rightarrow> (Inl e, s\<lparr>heap := h\<rparr>)
               | Inr _ \<Rightarrow> (Inr (from_ptr p), s\<lparr>heap := h\<rparr>))))"

text \<open>
  A temporary \<open>memoryview(self)\<close>: the buffer is exported, used and released. Python
  hashes a memory view only when it is read-only, and the exported buffer is writable.
\<close>

definition with_view :: "(bytes \<Rightarrow> 'a result) \<Rightarrow> 'a mop" where
  "with_view g =
     bindS getbuffer (\<lambda>_.
       bindS (c_call (\<lambda>m. (NNG_OK, body m, m))) (\<lambda>(_, bs).
         bindS releasebuffer (\<lambda>_. liftS (g bs))))"

definition msg_hash :: "int mop" where
  "msg_hash = bindS check_validity (\<lambda>_. with_view (\<lambda>_. Inl (PyExn ValueError)))"

text \<open>
  \<open>__eq__\<close>. Against another \<open>Message\<close> the two \<open>unique_lock\<close> objects are default
  constructed and associated with no mutex, on which \<open>try_lock\<close> throws; the declaration
  has no \<open>except +\<close>, so the process ends (\<open>Terminates\<close>).
\<close>

datatype eq_operand = OtherMessage message | OtherData py_data

datatype eq_result = Terminates | Equal bool

record unique_lock =
  lock_mutex :: "nat option"

definition unique_lock_default :: unique_lock where
  "unique_lock_default = \<lparr>lock_mutex = None\<rparr>"

text \<open>\<open>std::unique_lock::try_lock\<close>: \<open>None\<close> is the thrown \<open>std::system_error\<close>.\<close>

definition unique_try_lock :: "(nat \<Rightarrow> bool) \<Rightarrow> unique_lock \<Rightarrow> bool option" where
  "unique_try_lock mutex_free l = map_option mutex_free (lock_mutex l)"

definition msg_eq :: "(nat \<Rightarrow> bool) \<Rightarrow> eq_operand \<Rightarrow> eq_result mop" where
  "msg_eq mutex_free other =
     (case other of
        OtherData d \<Rightarrow>
          with_view (\<lambda>bs. Inr (Equal (case memory_view d of Inr bs' \<Rightarrow> bs = bs' | Inl _ \<Rightarrow> False)))
      | OtherMessage o' \<Rightarrow>
          (case (unique_try_lock mutex_free unique_lock_default,
                 unique_try_lock mutex_free unique_lock_default) of
             (Some _, Some _) \<Rightarrow>
               bindS check_validity (\<lambda>_ s.
                 if msg_ptr o' = 0 then (Inl closed_exn, s)
                 else (Inr (Equal (handle_eq (heap s) (msg_ptr (self s)) (msg_ptr o'))), s))
           | _ \<Rightarrow> returnS Terminates))"

definition msg_ne :: "(nat \<Rightarrow> bool) \<Rightarrow> eq_operand \<Rightarrow> eq_result mop" where
  "msg_ne mutex_free other =
     bindS (msg_eq mutex_free other) (\<lambda>r.
       returnS (case r of Terminates \<Rightarrow> Terminates | Equal b \<Rightarrow> Equal (\<not> b)))"

text \<open>Deallocation runs \<open>~MessageHandle()\<close>.\<close>

definition message_dealloc :: "msg_st \<Rightarrow> msg_heap" where
  "message_dealloc s = free_if_owned (msg_ptr (self s)) (heap s)"

section \<open>The contract of a mutating method\<close>

text \<open>The state after the owned message got new contents.\<close>

definition put_msg :: "nng_msg \<Rightarrow> msg_st \<Rightarrow> msg_st" where
  "put_msg m s = s\<lparr>heap := (heap s)\<lparr>live := (live (heap s))(msg_ptr (self s) \<mapsto> m)\<rparr>\<rparr>"

definition msg_ok :: "msg_st \<Rightarrow> bool" where
  "msg_ok s \<longleftrightarrow> (msg_ptr (self s) = 0 \<or> live (heap s) (msg_ptr (self s)) \<noteq> None)"

locale owned_op =
  fixes f :: "'a mop"
    and eff :: "nng_msg \<Rightarrow> 'a result \<times> nng_msg"
  assumes locked: "0 < python_buffer_count (self s) \<Longrightarrow> f s = (Inl (PyExn PermissionError), s)"
    and transferred: "python_buffer_count (self s) = 0 \<Longrightarrow> msg_ptr (self s) = 0 \<Longrightarrow>
      f s = (Inl closed_exn, s)"
    and runs: "python_buffer_count (self s) = 0 \<Longrightarrow> msg_ptr (self s) \<noteq> 0 \<Longrightarrow>
      live (heap s) (msg_ptr (self s)) = Some m \<Longrightarrow>
      f s = (fst (eff m), put_msg (snd (eff m)) s)"
begin

lemma outcome:
  assumes "msg_ok s"
  obtains "snd (f s) = s" "fst (f s) = Inl (PyExn PermissionError)" "0 < python_buffer_count (self s)"
  | "snd (f s) = s" "fst (f s) = Inl closed_exn" "msg_ptr (self s) = 0" "python_buffer_count (self s) = 0"
  | m where "live (heap s) (msg_ptr (self s)) = Some m" "msg_ptr (self s) \<noteq> 0"
      "python_buffer_count (self s) = 0" "f s = (fst (eff m), put_msg (snd (eff m)) s)"
proof (cases "0 < python_buffer_count (self s)")
  case True
  with that(1) locked show ?thesis by simp
next
  case False
  then have c: "python_buffer_count (self s) = 0" using word_neq_0_conv by blast
  show ?thesis
  proof (cases "msg_ptr (self s) = 0")
    case True
    with that(2) transferred c show ?thesis by simp
  next
    case False
    with assms obtain m where "live (heap s) (msg_ptr (self s)) = Some m"
      by (auto simp: msg_ok_def)
    with that(3) runs c False show ?thesis by blast
  qed
qed

lemma keeps_object: "msg_ok s \<Longrightarrow> self (snd (f s)) = self s"
  by (rule outcome) (auto simp: put_msg_def)

lemma keeps_heap_shape:
  assumes "msg_ok s"
  shows "dom (live (heap (snd (f s)))) = dom (live (heap s)) \<and>
    next_ptr (heap (snd (f s))) = next_ptr (heap s) \<and> corrupt (heap (snd (f s))) = corrupt (heap s)"
  using assms by (rule outcome) (auto simp: put_msg_def)

lemma keeps_others:
  assumes "msg_ok s" "q \<noteq> msg_ptr (self s)"
  shows "live (heap (snd (f s))) q = live (heap s) q"
  using assms(1) by (rule outcome) (auto simp: put_msg_def assms(2))

lemma keeps_ok: "msg_ok s \<Longrightarrow> msg_ok (snd (f s))"
  using keeps_heap_shape [of s] keeps_object [of s] by (auto simp: msg_ok_def dom_def)

end

text \<open>Wrapping the returned value keeps the contract.\<close>

definition map_result :: "('a \<Rightarrow> 'b) \<Rightarrow> 'a mop \<Rightarrow> 'b mop" where
  "map_result g f = bindS f (\<lambda>v. returnS (g v))"

lemma map_result_app: "map_result g f s = (map_sum id g (fst (f s)), snd (f s))"
  by (auto simp: map_result_def bindS_app split: prod.splits sum.splits)

lemma owned_op_map:
  "owned_op f eff \<Longrightarrow> owned_op (map_result g f) (\<lambda>m. map_prod (map_sum id g) id (eff m))"
  by (simp add: owned_op_def map_result_app)

lemma gt0_word: "0 < (w :: 'b::len word) \<longleftrightarrow> w \<noteq> 0"
  by (simp add: word_gt_0)

lemmas guard_simps = check_full_ownership_def check_validity_def bindS_app gt0_word

text \<open>The effect of a checked call of the C library on the contents.\<close>

definition call_eff :: "(nng_msg \<Rightarrow> nng_err \<times> 'a \<times> nng_msg) \<Rightarrow> nng_msg \<Rightarrow> 'a result \<times> nng_msg" where
  "call_eff f m = (case f m of (err, v, m') \<Rightarrow> (bindR (check_err err) (\<lambda>_. Inr v), m'))"

lemma c_call_live:
  "live (heap s) (msg_ptr (self s)) = Some m \<Longrightarrow>
   c_call f s = (Inr (fst (f m), fst (snd (f m))), put_msg (snd (snd (f m))) s)"
  by (simp add: c_call_def put_msg_def split: prod.splits)

lemma checked_call_live:
  "live (heap s) (msg_ptr (self s)) = Some m \<Longrightarrow>
   checked_call f s = (fst (call_eff f m), put_msg (snd (call_eff f m)) s)"
  by (cases "check_err (fst (f m))")
     (auto simp: checked_call_def bindS_app c_call_live call_eff_def split: prod.splits)

lemma owned_op_checked: "owned_op (checked f) (call_eff f)"
  by unfold_locales (auto simp: checked_def guard_simps checked_call_live)

interpretation clear_op: owned_op "msg_clear L" "call_eff (\<lambda>m. (NNG_OK, (), nng_msg_clear L m))" for L
  unfolding msg_clear_def by (rule owned_op_checked)

interpretation reserve_op: owned_op "msg_reserve L n" "call_eff (no_value (nng_msg_reserve L n))" for L n
  unfolding msg_reserve_def by (rule owned_op_checked)

interpretation trim_op: owned_op "msg_trim L n" "call_eff (no_value (nng_msg_trim L n))" for L n
  unfolding msg_trim_def by (rule owned_op_checked)

interpretation chop_op: owned_op "msg_chop L n" "call_eff (no_value (nng_msg_chop L n))" for L n
  unfolding msg_chop_def by (rule owned_op_checked)

interpretation append_u_op: owned_op "append_u L w v" "call_eff (no_value (nng_msg_append_u L w v))"
  for L w v
  unfolding append_u_def by (rule owned_op_checked)

interpretation chop_u_op: owned_op "chop_u L w" "call_eff (nng_msg_chop_u L w)" for L w
  unfolding chop_u_def by (rule owned_op_checked)

interpretation trim_u_op: owned_op "trim_u L w" "call_eff (nng_msg_trim_u L w)" for L w
  unfolding trim_u_def by (rule owned_op_checked)

text \<open>\<open>append\<close> and \<open>insert\<close> take the view of their argument after the guards.\<close>

definition data_eff ::
    "(bytes \<Rightarrow> nng_msg \<Rightarrow> nng_err \<times> nng_msg) \<Rightarrow> py_data \<Rightarrow> nng_msg \<Rightarrow> unit result \<times> nng_msg" where
  "data_eff f data m =
     (case memory_view data of Inl e \<Rightarrow> (Inl e, m) | Inr mv \<Rightarrow> call_eff (no_value (f mv)) m)"

lemma put_msg_same: "live (heap s) (msg_ptr (self s)) = Some m \<Longrightarrow> put_msg m s = s"
  by (simp add: put_msg_def fun_upd_idem)

interpretation append_op: owned_op "msg_append L data" "data_eff (nng_msg_append L) data" for L data
  by unfold_locales
     (auto simp: msg_append_def guard_simps checked_call_live data_eff_def put_msg_same
        split: sum.splits)

interpretation insert_op: owned_op "msg_insert L data" "data_eff (nng_msg_insert L) data" for L data
  by unfold_locales
     (auto simp: msg_insert_def guard_simps checked_call_live data_eff_def put_msg_same
        split: sum.splits)

definition resize_eff :: "msg_lib \<Rightarrow> nat \<Rightarrow> nng_msg \<Rightarrow> unit result \<times> nng_msg" where
  "resize_eff L n m =
     (case nng_msg_realloc L n m of (err, m1) \<Rightarrow>
        (check_err err,
         if err = NNG_OK \<and> length (body m) < n then memset_tail (length (body m)) n m1 else m1))"

lemma put_msg_simps [simp]:
  "self (put_msg m s) = self s"
  "live (heap (put_msg m s)) (msg_ptr (self s)) = Some m"
  "put_msg m (put_msg m' s) = put_msg m s"
  by (simp_all add: put_msg_def)

interpretation resize_op: owned_op "msg_resize L n" "resize_eff L n" for L n
proof unfold_locales
  show "msg_resize L n s = (fst (resize_eff L n m), put_msg (snd (resize_eff L n m)) s)"
    if "python_buffer_count (self s) = 0" "msg_ptr (self s) \<noteq> 0"
      "live (heap s) (msg_ptr (self s)) = Some m" for s m
  proof (cases "nng_msg_realloc L n m")
    case (Pair err m1)
    with that show ?thesis
      by (cases "err = NNG_OK")
         (auto simp: msg_resize_def guard_simps c_call_live no_value_def resize_eff_def put_msg_same
            check_err_def)
  qed
qed (auto simp: msg_resize_def guard_simps)

section \<open>All mutating methods as calls\<close>

text \<open>
  A call of a mutating method with its Python arguments. Integer arguments are converted to
  the C type before the method body runs.
\<close>

datatype mutator = Clear | Reserve int | Resize int | Append py_data | Insert py_data
  | Trim int | Chop int | AppendU uint_width int | ChopU uint_width | TrimU uint_width

fun mutator_op :: "msg_lib \<Rightarrow> mutator \<Rightarrow> (nat option mop) result" where
  "mutator_op L Clear = Inr (map_result (\<lambda>_. None) (msg_clear L))"
| "mutator_op L (Reserve n) =
     bindR (to_size_t n) (\<lambda>n. Inr (map_result (\<lambda>_. None) (msg_reserve L n)))"
| "mutator_op L (Resize n) =
     bindR (to_size_t n) (\<lambda>n. Inr (map_result (\<lambda>_. None) (msg_resize L n)))"
| "mutator_op L (Append d) = Inr (map_result (\<lambda>_. None) (msg_append L d))"
| "mutator_op L (Insert d) = Inr (map_result (\<lambda>_. None) (msg_insert L d))"
| "mutator_op L (Trim n) =
     bindR (to_size_t n) (\<lambda>n. Inr (map_result (\<lambda>_. None) (msg_trim L n)))"
| "mutator_op L (Chop n) =
     bindR (to_size_t n) (\<lambda>n. Inr (map_result (\<lambda>_. None) (msg_chop L n)))"
| "mutator_op L (AppendU w v) =
     bindR (to_uint (octets w) v) (\<lambda>v. Inr (map_result (\<lambda>_. None) (append_u L w v)))"
| "mutator_op L (ChopU w) = Inr (map_result Some (chop_u L w))"
| "mutator_op L (TrimU w) = Inr (map_result Some (trim_u L w))"

definition run_mutator :: "msg_lib \<Rightarrow> mutator \<Rightarrow> nat option mop" where
  "run_mutator L c s = (case mutator_op L c of Inl e \<Rightarrow> (Inl e, s) | Inr f \<Rightarrow> f s)"

fun mutator_eff :: "msg_lib \<Rightarrow> mutator \<Rightarrow> nng_msg \<Rightarrow> nat option result \<times> nng_msg" where
  "mutator_eff L Clear = (\<lambda>m.
     map_prod (map_sum id (\<lambda>_. None)) id (call_eff (\<lambda>m. (NNG_OK, (), nng_msg_clear L m)) m))"
| "mutator_eff L (Reserve n) = (\<lambda>m.
     map_prod (map_sum id (\<lambda>_. None)) id (call_eff (no_value (nng_msg_reserve L (nat n))) m))"
| "mutator_eff L (Resize n) = (\<lambda>m.
     map_prod (map_sum id (\<lambda>_. None)) id (resize_eff L (nat n) m))"
| "mutator_eff L (Append d) = (\<lambda>m.
     map_prod (map_sum id (\<lambda>_. None)) id (data_eff (nng_msg_append L) d m))"
| "mutator_eff L (Insert d) = (\<lambda>m.
     map_prod (map_sum id (\<lambda>_. None)) id (data_eff (nng_msg_insert L) d m))"
| "mutator_eff L (Trim n) = (\<lambda>m.
     map_prod (map_sum id (\<lambda>_. None)) id (call_eff (no_value (nng_msg_trim L (nat n))) m))"
| "mutator_eff L (Chop n) = (\<lambda>m.
     map_prod (map_sum id (\<lambda>_. None)) id (call_eff (no_value (nng_msg_chop L (nat n))) m))"
| "mutator_eff L (AppendU w v) = (\<lambda>m.
     map_prod (map_sum id (\<lambda>_. None)) id (call_eff (no_value (nng_msg_append_u L w (nat v))) m))"
| "mutator_eff L (ChopU w) = (\<lambda>m.
     map_prod (map_sum id Some) id (call_eff (nng_msg_chop_u L w) m))"
| "mutator_eff L (TrimU w) = (\<lambda>m.
     map_prod (map_sum id Some) id (call_eff (nng_msg_trim_u L w) m))"

lemma to_uint_Inr: "to_uint k v = Inr n \<longleftrightarrow> 0 \<le> v \<and> v < 256 ^ k \<and> n = nat v"
  by (auto simp: to_uint_def)

lemmas owned_facts = clear_op.owned_op_axioms reserve_op.owned_op_axioms resize_op.owned_op_axioms
  append_op.owned_op_axioms insert_op.owned_op_axioms trim_op.owned_op_axioms
  chop_op.owned_op_axioms append_u_op.owned_op_axioms chop_u_op.owned_op_axioms
  trim_u_op.owned_op_axioms

text \<open>Every mutating method obeys the contract, whatever the C library does.\<close>

lemma mutator_owned: "mutator_op L c = Inr f \<Longrightarrow> owned_op f (mutator_eff L c)"
  by (cases c)
     (auto simp: bindR_eq_Inr to_uint_Inr intro!: owned_facts [THEN owned_op_map])

section \<open>Documented behaviour of the C library\<close>

text \<open>
  A failing call changes nothing; a successful one edits the body as its manual page says,
  and no call touches header or pipe. \<open>realloc\<close> does not say what a grown body holds.
\<close>

definition edits :: "(nng_msg \<Rightarrow> nng_err \<times> nng_msg) \<Rightarrow> (bytes \<Rightarrow> bytes) \<Rightarrow> bool" where
  "edits f g \<longleftrightarrow> (\<forall>m. if fst (f m) = NNG_OK then snd (f m) = m\<lparr>body := g (body m)\<rparr> else snd (f m) = m)"

definition cuts :: "(nng_msg \<Rightarrow> nng_err \<times> nng_msg) \<Rightarrow> nat \<Rightarrow> (bytes \<Rightarrow> bytes) \<Rightarrow> bool" where
  "cuts f n g \<longleftrightarrow> (\<forall>m. f m = (if n \<le> length (body m) then (NNG_OK, m\<lparr>body := g (body m)\<rparr>)
                               else (NNG_EINVAL, m)))"

definition pops :: "(nng_msg \<Rightarrow> nng_err \<times> nat \<times> nng_msg) \<Rightarrow> nat \<Rightarrow> (bytes \<Rightarrow> bytes) \<Rightarrow>
    (bytes \<Rightarrow> bytes) \<Rightarrow> bool" where
  "pops f n v g \<longleftrightarrow> (\<forall>m.
     if n \<le> length (body m) then f m = (NNG_OK, be_value (v (body m)), m\<lparr>body := g (body m)\<rparr>)
     else fst (f m) = NNG_EINVAL \<and> snd (snd (f m)) = m)"

definition msg_lib_ok :: "msg_lib \<Rightarrow> bool" where
  "msg_lib_ok L \<longleftrightarrow>
     (\<forall>n m. nng_msg_alloc L n = (NNG_OK, m) \<longrightarrow> length (body m) = n \<and> hdr m = [] \<and> pipe_of m = 0) \<and>
     (\<forall>m m'. nng_msg_dup L m = (NNG_OK, m') \<longrightarrow> m' = m) \<and>
     (\<forall>m. nng_msg_clear L m = m\<lparr>body := []\<rparr>) \<and>
     (\<forall>n. edits (nng_msg_reserve L n) (\<lambda>b. b)) \<and>
     (\<forall>n m. if fst (nng_msg_realloc L n m) = NNG_OK
            then (\<exists>new. length new = n - length (body m) \<and>
                        snd (nng_msg_realloc L n m) = m\<lparr>body := take n (body m) @ new\<rparr>)
            else snd (nng_msg_realloc L n m) = m) \<and>
     (\<forall>bs. edits (nng_msg_append L bs) (\<lambda>b. b @ bs)) \<and>
     (\<forall>bs. edits (nng_msg_insert L bs) (\<lambda>b. bs @ b)) \<and>
     (\<forall>n. cuts (nng_msg_trim L n) n (drop n)) \<and>
     (\<forall>n. cuts (nng_msg_chop L n) n (\<lambda>b. take (length b - n) b)) \<and>
     (\<forall>w v. edits (nng_msg_append_u L w v) (\<lambda>b. b @ be_bytes (octets w) v)) \<and>
     (\<forall>w. pops (nng_msg_chop_u L w) (octets w) (\<lambda>b. drop (length b - octets w) b)
                (\<lambda>b. take (length b - octets w) b)) \<and>
     (\<forall>w. pops (nng_msg_trim_u L w) (octets w) (take (octets w)) (drop (octets w)))"

text \<open>An instance of the laws, for an allocator that never fails.\<close>

definition ref_lib :: msg_lib where
  "ref_lib = \<lparr>
     nng_msg_alloc = (\<lambda>n. (NNG_OK, \<lparr>hdr = [], body = replicate n 0, pipe_of = 0\<rparr>)),
     nng_msg_dup = (\<lambda>m. (NNG_OK, m)),
     nng_msg_clear = (\<lambda>m. m\<lparr>body := []\<rparr>),
     nng_msg_reserve = (\<lambda>n m. (NNG_OK, m)),
     nng_msg_realloc = (\<lambda>n m. (NNG_OK, m\<lparr>body := take n (body m) @ replicate (n - length (body m)) 7\<rparr>)),
     nng_msg_append = (\<lambda>bs m. (NNG_OK, m\<lparr>body := body m @ bs\<rparr>)),
     nng_msg_insert = (\<lambda>bs m. (NNG_OK, m\<lparr>body := bs @ body m\<rparr>)),
     nng_msg_trim = (\<lambda>n m. if n \<le> length (body m) then (NNG_OK, m\<lparr>body := drop n (body m)\<rparr>)
                            else (NNG_EINVAL, m)),
     nng_msg_chop = (\<lambda>n m. if n \<le> length (body m)
                            then (NNG_OK, m\<lparr>body := take (length (body m) - n) (body m)\<rparr>)
                            else (NNG_EINVAL, m)),
     nng_msg_append_u = (\<lambda>w v m. (NNG_OK, m\<lparr>body := body m @ be_bytes (octets w) v\<rparr>)),
     nng_msg_chop_u = (\<lambda>w m.
       if octets w \<le> length (body m)
       then (NNG_OK, be_value (drop (length (body m) - octets w) (body m)),
             m\<lparr>body := take (length (body m) - octets w) (body m)\<rparr>)
       else (NNG_EINVAL, 0, m)),
     nng_msg_trim_u = (\<lambda>w m.
       if octets w \<le> length (body m)
       then (NNG_OK, be_value (take (octets w) (body m)), m\<lparr>body := drop (octets w) (body m)\<rparr>)
       else (NNG_EINVAL, 0, m))\<rparr>"

lemma ref_lib_ok: "msg_lib_ok ref_lib"
  by (simp add: msg_lib_ok_def ref_lib_def edits_def cuts_def pops_def)
     (metis length_replicate)

lemma ref_lib_alloc: "fst (nng_msg_alloc ref_lib n) = NNG_OK"
  by (simp add: ref_lib_def)

section \<open>Byte-string semantics of the mutators\<close>

fun spec_mutator :: "mutator \<Rightarrow> bytes \<Rightarrow> (nat option \<times> bytes) result" where
  "spec_mutator Clear b = Inr (None, [])"
| "spec_mutator (Reserve n) b = Inr (None, b)"
| "spec_mutator (Resize n) b = Inr (None, take (nat n) b @ replicate (nat n - length b) 0)"
| "spec_mutator (Append d) b = bindR (memory_view d) (\<lambda>bs. Inr (None, b @ bs))"
| "spec_mutator (Insert d) b = bindR (memory_view d) (\<lambda>bs. Inr (None, bs @ b))"
| "spec_mutator (Trim n) b =
     (if nat n \<le> length b then Inr (None, drop (nat n) b) else Inl (err_from_code NNG_EINVAL))"
| "spec_mutator (Chop n) b =
     (if nat n \<le> length b then Inr (None, take (length b - nat n) b)
      else Inl (err_from_code NNG_EINVAL))"
| "spec_mutator (AppendU w v) b = Inr (None, b @ be_bytes (octets w) (nat v))"
| "spec_mutator (ChopU w) b =
     (if octets w \<le> length b
      then Inr (Some (be_value (drop (length b - octets w) b)), take (length b - octets w) b)
      else Inl (err_from_code NNG_EINVAL))"
| "spec_mutator (TrimU w) b =
     (if octets w \<le> length b then Inr (Some (be_value (take (octets w) b)), drop (octets w) b)
      else Inl (err_from_code NNG_EINVAL))"

text \<open>The outcome of a call on contents \<open>m\<close> that the specification allows.\<close>

definition meets_spec :: "mutator \<Rightarrow> nng_msg \<Rightarrow> nat option result \<times> nng_msg \<Rightarrow> bool" where
  "meets_spec c m out \<longleftrightarrow>
     (case spec_mutator c (body m) of
        Inl e \<Rightarrow> out = (Inl e, m)
      | Inr (v, b) \<Rightarrow> out = (Inr v, m\<lparr>body := b\<rparr>) \<or>
          (\<exists>code. code \<noteq> NNG_OK \<and> out = (Inl (err_from_code code), m)))"

lemma edits_eff:
  assumes "edits f g"
  shows "call_eff (no_value f) m = (Inr (), m\<lparr>body := g (body m)\<rparr>) \<or>
    (\<exists>code. code \<noteq> NNG_OK \<and> call_eff (no_value f) m = (Inl (err_from_code code), m))"
  using assms [unfolded edits_def, rule_format, of m]
  by (cases "f m") (auto simp: call_eff_def no_value_def check_err_def split: if_splits)

lemma cuts_eff:
  "cuts f n g \<Longrightarrow> call_eff (no_value f) m =
     (if n \<le> length (body m) then (Inr (), m\<lparr>body := g (body m)\<rparr>)
      else (Inl (err_from_code NNG_EINVAL), m))"
  by (simp add: cuts_def call_eff_def no_value_def check_err_def)

lemma pops_eff:
  "pops f n v g \<Longrightarrow> call_eff f m =
     (if n \<le> length (body m) then (Inr (be_value (v (body m))), m\<lparr>body := g (body m)\<rparr>)
      else (Inl (err_from_code NNG_EINVAL), m))"
  unfolding pops_def
  by (drule spec [of _ m], cases "f m") (auto simp: call_eff_def check_err_def split: if_splits)

lemma memset_tail_grown:
  "length (body m) < n \<Longrightarrow> length new = n - length (body m) \<Longrightarrow>
   memset_tail (length (body m)) n (m\<lparr>body := take n (body m) @ new\<rparr>) =
     m\<lparr>body := body m @ replicate (n - length (body m)) 0\<rparr>"
  by (simp add: memset_tail_def)

lemma resize_eff_spec:
  assumes "msg_lib_ok L"
  shows "resize_eff L n m = (Inr (), m\<lparr>body := take n (body m) @ replicate (n - length (body m)) 0\<rparr>) \<or>
    (\<exists>code. code \<noteq> NNG_OK \<and> resize_eff L n m = (Inl (err_from_code code), m))"
proof (cases "nng_msg_realloc L n m")
  case (Pair err m1)
  show ?thesis
  proof (cases "err = NNG_OK")
    case True
    with assms Pair obtain new where new: "length new = n - length (body m)"
        "m1 = m\<lparr>body := take n (body m) @ new\<rparr>"
      unfolding msg_lib_ok_def by (metis fst_conv snd_conv)
    show ?thesis
    proof (cases "length (body m) < n")
      case grow: True
      show ?thesis using memset_tail_grown [OF grow new(1)] grow new Pair True
        by (simp add: resize_eff_def)
    next
      case False
      with new Pair True show ?thesis by (simp add: resize_eff_def)
    qed
  next
    case False
    with assms Pair have "m1 = m" unfolding msg_lib_ok_def by (metis fst_conv snd_conv)
    with False Pair show ?thesis by (auto simp: resize_eff_def check_err_def)
  qed
qed

lemma msg_lib_okD:
  assumes "msg_lib_ok L"
  shows "nng_msg_clear L m = m\<lparr>body := []\<rparr>" "edits (nng_msg_reserve L n) (\<lambda>b. b)"
    "edits (nng_msg_append L bs) (\<lambda>b. b @ bs)" "edits (nng_msg_insert L bs) (\<lambda>b. bs @ b)"
    "cuts (nng_msg_trim L n) n (drop n)" "cuts (nng_msg_chop L n) n (\<lambda>b. take (length b - n) b)"
    "edits (nng_msg_append_u L w v) (\<lambda>b. b @ be_bytes (octets w) v)"
    "pops (nng_msg_chop_u L w) (octets w) (\<lambda>b. drop (length b - octets w) b)
          (\<lambda>b. take (length b - octets w) b)"
    "pops (nng_msg_trim_u L w) (octets w) (take (octets w)) (drop (octets w))"
  using assms by (simp_all add: msg_lib_ok_def)

lemma meets_specI:
  assumes "spec_mutator c (body m) = Inr (v, b)"
    and "r = (Inr (), m\<lparr>body := b\<rparr>) \<or> (\<exists>code. code \<noteq> NNG_OK \<and> r = (Inl (err_from_code code), m))"
  shows "meets_spec c m (map_prod (map_sum id (\<lambda>_. v)) id r)"
  using assms(2)
proof (elim disjE exE conjE)
  fix code assume "code \<noteq> NNG_OK" "r = (Inl (err_from_code code), m)"
  then show ?thesis by (simp add: meets_spec_def assms(1)) blast
qed (simp add: meets_spec_def assms(1))

lemma mutator_eff_spec:
  assumes L: "msg_lib_ok L"
  shows "meets_spec c m (mutator_eff L c m)"
proof (cases c)
  case Clear
  then show ?thesis by (simp add: meets_spec_def call_eff_def msg_lib_okD(1) [OF L])
next
  case (Reserve n)
  show ?thesis unfolding Reserve mutator_eff.simps
    by (rule meets_specI) (simp, rule edits_eff [OF msg_lib_okD(2) [OF L]])
next
  case (Resize n)
  show ?thesis unfolding Resize mutator_eff.simps
    by (rule meets_specI) (simp, rule resize_eff_spec [OF L])
next
  case (Append d)
  show ?thesis
  proof (cases "memory_view d")
    case (Inr mv)
    have "data_eff (nng_msg_append L) d m = call_eff (no_value (nng_msg_append L mv)) m"
      by (simp add: data_eff_def Inr)
    then show ?thesis unfolding Append mutator_eff.simps
      by (simp only:) (rule meets_specI, simp add: Inr, rule edits_eff [OF msg_lib_okD(3) [OF L]])
  qed (simp add: Append meets_spec_def data_eff_def)
next
  case (Insert d)
  show ?thesis
  proof (cases "memory_view d")
    case (Inr mv)
    have "data_eff (nng_msg_insert L) d m = call_eff (no_value (nng_msg_insert L mv)) m"
      by (simp add: data_eff_def Inr)
    then show ?thesis unfolding Insert mutator_eff.simps
      by (simp only:) (rule meets_specI, simp add: Inr, rule edits_eff [OF msg_lib_okD(4) [OF L]])
  qed (simp add: Insert meets_spec_def data_eff_def)
next
  case (Trim n)
  then show ?thesis by (simp add: meets_spec_def cuts_eff [OF msg_lib_okD(5) [OF L]])
next
  case (Chop n)
  then show ?thesis by (simp add: meets_spec_def cuts_eff [OF msg_lib_okD(6) [OF L]])
next
  case (AppendU w v)
  show ?thesis unfolding AppendU mutator_eff.simps
    by (rule meets_specI) (simp, rule edits_eff [OF msg_lib_okD(7) [OF L]])
next
  case (ChopU w)
  then show ?thesis by (simp add: meets_spec_def pops_eff [OF msg_lib_okD(8) [OF L]])
next
  case (TrimU w)
  then show ?thesis by (simp add: meets_spec_def pops_eff [OF msg_lib_okD(9) [OF L]])
qed

section \<open>Lemmas on single operations\<close>

fun args_ok :: "mutator \<Rightarrow> bool" where
  "args_ok (Reserve n) \<longleftrightarrow> 0 \<le> n \<and> n < 256 ^ 8"
| "args_ok (Resize n) \<longleftrightarrow> 0 \<le> n \<and> n < 256 ^ 8"
| "args_ok (Trim n) \<longleftrightarrow> 0 \<le> n \<and> n < 256 ^ 8"
| "args_ok (Chop n) \<longleftrightarrow> 0 \<le> n \<and> n < 256 ^ 8"
| "args_ok (AppendU w v) \<longleftrightarrow> 0 \<le> v \<and> v < 256 ^ octets w"
| "args_ok _ \<longleftrightarrow> True"

lemma mutator_op_args:
  "(args_ok c \<longrightarrow> (\<exists>f. mutator_op L c = Inr f)) \<and>
   (\<not> args_ok c \<longrightarrow> mutator_op L c = Inl (PyExn OverflowError))"
  by (cases c) (simp_all add: to_uint_def)

lemma run_mutator_owned:
  assumes "args_ok c"
  shows "owned_op (run_mutator L c) (mutator_eff L c)"
proof -
  obtain f where f: "mutator_op L c = Inr f" using mutator_op_args assms by blast
  then have "run_mutator L c = f" by (simp add: run_mutator_def fun_eq_iff)
  with mutator_owned [OF f] show ?thesis by simp
qed

lemma run_mutator_overflow: "\<not> args_ok c \<Longrightarrow> run_mutator L c s = (Inl (PyExn OverflowError), s)"
  using mutator_op_args [of c L] by (simp add: run_mutator_def)

text \<open>When the object holds the message \<open>m\<close> and no buffer is exported.\<close>

definition owns :: "msg_st \<Rightarrow> nng_msg \<Rightarrow> bool" where
  "owns s m \<longleftrightarrow> python_buffer_count (self s) = 0 \<and> msg_ptr (self s) \<noteq> 0 \<and>
     live (heap s) (msg_ptr (self s)) = Some m"

lemma owns_put [simp]: "owns s m \<Longrightarrow> owns (put_msg m' s) m'"
  by (simp add: owns_def put_msg_def)

lemma run_mutator_owns:
  "args_ok c \<Longrightarrow> owns s m \<Longrightarrow>
   run_mutator L c s = (fst (mutator_eff L c m), put_msg (snd (mutator_eff L c m)) s)"
  using owned_op.runs [OF run_mutator_owned] by (simp add: owns_def)

lemma reading_live:
  "msg_ptr (self s) \<noteq> 0 \<Longrightarrow> live (heap s) (msg_ptr (self s)) = Some m \<Longrightarrow>
   reading g s = (Inr (g m), s)"
  by (simp add: reading_def guard_simps c_call_live put_msg_same)

lemma reading_closed: "msg_ptr (self s) = 0 \<Longrightarrow> reading g s = (Inl closed_exn, s)"
  by (simp add: reading_def guard_simps)

lemma getbuffer_live:
  "msg_ptr (self s) \<noteq> 0 \<Longrightarrow> live (heap s) (msg_ptr (self s)) = Some m \<Longrightarrow>
   getbuffer s = (Inr (msg_ptr (self s), length (body m)),
     s\<lparr>self := (self s)\<lparr>python_buffer_count := python_buffer_count (self s) + 1\<rparr>\<rparr>)"
  by (simp add: getbuffer_def bindS_app reading_live)

lemma getbuffer_Inr:
  assumes "getbuffer s = (Inr v, s')"
  shows "msg_ptr (self s) \<noteq> 0" "s' = s\<lparr>self := (self s)\<lparr>python_buffer_count := python_buffer_count (self s) + 1\<rparr>\<rparr>"
  using assms
  by (auto simp: getbuffer_def reading_def guard_simps c_call_def fun_upd_idem
      split: if_splits option.splits)

lemma add_one_nonzero: "(c :: u64) \<noteq> - 1 \<Longrightarrow> c + 1 \<noteq> 0"
  using add_eq_0_iff2 by blast

lemma releasebuffer_after:
  "python_buffer_count (self s) \<noteq> - 1 \<Longrightarrow>
   releasebuffer (s\<lparr>self := (self s)\<lparr>python_buffer_count := python_buffer_count (self s) + 1\<rparr>\<rparr>) = (Inr (), s)"
  using add_one_nonzero by (simp add: releasebuffer_def)

lemma with_view_live:
  "msg_ptr (self s) \<noteq> 0 \<Longrightarrow> live (heap s) (msg_ptr (self s)) = Some m \<Longrightarrow>
   python_buffer_count (self s) \<noteq> - 1 \<Longrightarrow> with_view g s = (g (body m), s)"
  by (simp add: with_view_def bindS_app getbuffer_live c_call_def fun_upd_idem releasebuffer_after)

lemma steal_ptr_owns: "owns s m \<Longrightarrow> steal_ptr s = (Inr (msg_ptr (self s)), s\<lparr>self := (self s)\<lparr>msg_ptr := 0\<rparr>\<rparr>)"
  by (simp add: steal_ptr_def guard_simps owns_def)

text \<open>The octets a data argument stands for.\<close>

fun data_bytes :: "py_data \<Rightarrow> bytes option" where
  "data_bytes (PyBytes bs) = Some bs"
| "data_bytes (PyByteArray bs) = Some bs"
| "data_bytes (PyBuffer bs) = Some bs"
| "data_bytes (PyStr s) = (case str_encode s of Inr bs \<Rightarrow> Some bs | Inl _ \<Rightarrow> None)"
| "data_bytes (PyNoBuffer e) = None"

lemma msg_of_bytes_ok:
  assumes "msg_lib_ok L" "msg_of_bytes L bs h = ((NNG_OK, p), h')"
  shows "p = next_ptr h \<and> h' = h\<lparr>live := (live h)(p \<mapsto> \<lparr>hdr = [], body = bs, pipe_of = 0\<rparr>), next_ptr := Suc p\<rparr>"
proof -
  obtain err m where m: "nng_msg_alloc L (length bs) = (err, m)" by fastforce
  with assms(2) have ok: "err = NNG_OK"
    by (auto simp: msg_of_bytes_def handle_alloc_def split: if_splits prod.splits)
  with m assms(1) have "length (body m) = length bs" "hdr m = []" "pipe_of m = 0"
    by (simp_all add: msg_lib_ok_def)
  then have "memcpy_body bs m = \<lparr>hdr = [], body = bs, pipe_of = 0\<rparr>"
    by (cases m) (simp add: memcpy_body_def)
  with assms(2) m ok show ?thesis
    by (auto simp: msg_of_bytes_def handle_alloc_def heap_alloc_def)
qed

lemma msg_of_bytes_err:
  "fst (fst (msg_of_bytes L bs h)) = fst (nng_msg_alloc L (length bs)) \<and>
   (fst (nng_msg_alloc L (length bs)) \<noteq> NNG_OK \<longrightarrow> snd (msg_of_bytes L bs h) = h)"
  by (simp add: msg_of_bytes_def handle_alloc_def heap_alloc_def split: prod.splits)

lemma nng_msg_from_data_bytes:
  "nng_msg_from_data L d h =
     (case data_bytes d of
        Some bs \<Rightarrow> (Inr (fst (msg_of_bytes L bs h)), snd (msg_of_bytes L bs h))
      | None \<Rightarrow> (Inl (case d of PyStr s \<Rightarrow> PyExn UnicodeError | PyNoBuffer e \<Rightarrow> PyExn e), h))"
  by (cases d)
     (auto simp: nng_msg_from_data_def nng_msg_from_any_data_def str_encode_def split: prod.splits)

section \<open>Properties\<close>

text \<open>A concrete object holding the three octets 1, 2, 3, used by the witnesses.\<close>

definition sample_msg :: nng_msg where
  "sample_msg = \<lparr>hdr = [], body = [1, 2, 3], pipe_of = 0\<rparr>"

definition sample_st :: msg_st where
  "sample_st = \<lparr>heap = \<lparr>live = [1 \<mapsto> sample_msg], next_ptr = 2, corrupt = False\<rparr>,
     self = from_ptr 1\<rparr>"

lemma sample_owns: "owns sample_st sample_msg"
  by (simp add: owns_def sample_st_def from_ptr_def message_new_def)

text \<open>C1: a mutating method of an owned message either applies exactly its byte-string
  effect to the body (\<open>resize\<close> zero-fills, \<open>trim\<close> and \<open>chop\<close> refuse to cut more than is
  there, the typed helpers use network byte order) or raises and leaves the message as it was;
  header, pipe, every other message and the object itself never change. An integer argument
  outside the range of its C type raises \<open>OverflowError\<close>.\<close>

theorem message_edits_refine_bytes:
  assumes "msg_lib_ok L" "owns s m"
  shows "if args_ok c
         then (\<exists>out. meets_spec c m out \<and> run_mutator L c s = (fst out, put_msg (snd out) s))
         else run_mutator L c s = (Inl (PyExn OverflowError), s)"
proof (cases "args_ok c")
  case True
  then show ?thesis
    using mutator_eff_spec [OF assms(1)] run_mutator_owns [OF True assms(2)] by metis
qed (simp add: run_mutator_overflow)

theorem message_edits_refine_bytes_witness:
  "\<exists>out. meets_spec (Resize 5) sample_msg out \<and>
     run_mutator ref_lib (Resize 5) sample_st = (fst out, put_msg (snd out) sample_st)"
  using message_edits_refine_bytes [OF ref_lib_ok sample_owns, of "Resize 5"] by simp

text \<open>While a buffer is exported every mutating method and the transfer to a send raise
  \<open>PermissionError\<close> and change nothing; releasing it restores the state before the export
  exactly (the counter has 64 bits and the claim excludes its wrap-around).\<close>

theorem exported_buffer_blocks_mutation:
  assumes "getbuffer s = (Inr v, s')" "python_buffer_count (self s) \<noteq> - 1" "args_ok c"
  shows "run_mutator L c s' = (Inl (PyExn PermissionError), s') \<and>
         steal_ptr s' = (Inl (PyExn PermissionError), s') \<and>
         releasebuffer s' = (Inr (), s)"
proof -
  note s' = getbuffer_Inr(2) [OF assms(1)]
  have n: "0 < python_buffer_count (self s')"
    using add_one_nonzero [OF assms(2)] by (simp add: s' gt0_word)
  show ?thesis
    using owned_op.locked [OF run_mutator_owned [OF assms(3)] n] releasebuffer_after [OF assms(2)] n
    by (simp add: steal_ptr_def guard_simps s')
qed

theorem exported_buffer_blocks_mutation_witness:
  "steal_ptr (snd (getbuffer sample_st)) = (Inl (PyExn PermissionError), snd (getbuffer sample_st))"
proof -
  have "fst (getbuffer sample_st) = Inr (1, 3)" "python_buffer_count (self sample_st) = 0"
    using getbuffer_live [of sample_st sample_msg] sample_owns
    by (auto simp: owns_def sample_st_def from_ptr_def message_new_def sample_msg_def)
  then show ?thesis
    using exported_buffer_blocks_mutation [of sample_st "(1, 3)" "snd (getbuffer sample_st)" Clear ref_lib]
    by (simp add: prod_eq_iff)
qed

text \<open>Once a message was transferred, every method raises \<open>NngClosed\<close> and changes
  nothing (only \<open>repr\<close> answers), and restoring the pointer gives back the original state.\<close>

theorem transferred_message_is_closed:
  assumes "owns s m" "steal_ptr s = (Inr p, s')" "args_ok c"
  shows "run_mutator L c s' = (Inl closed_exn, s') \<and> steal_ptr s' = (Inl closed_exn, s') \<and>
         to_bytes s' = (Inl closed_exn, s') \<and> header s' = (Inl closed_exn, s') \<and>
         pipe_id s' = (Inl closed_exn, s') \<and> msg_len s' = (Inl closed_exn, s') \<and>
         msg_str s' = (Inl closed_exn, s') \<and> dup L s' = (Inl closed_exn, s') \<and>
         getbuffer s' = (Inl closed_exn, s') \<and> msg_hash s' = (Inl closed_exn, s') \<and>
         repr s' = (Inr Transferred, s') \<and> handle_restore p s' = (Inr (), s)"
proof -
  have s': "p = msg_ptr (self s)" "s' = s\<lparr>self := (self s)\<lparr>msg_ptr := 0\<rparr>\<rparr>"
    using assms(2) steal_ptr_owns [OF assms(1)] by auto
  have z: "msg_ptr (self s') = 0" "python_buffer_count (self s') = 0"
    using assms(1) by (simp_all add: s' owns_def)
  have "handle_restore p s' = (Inr (), s)" by (simp add: handle_restore_def s')
  moreover have "run_mutator L c s' = (Inl closed_exn, s')"
    using owned_op.transferred [OF run_mutator_owned [OF assms(3)] z(2) z(1)] .
  ultimately show ?thesis using z
    by (simp add: steal_ptr_def guard_simps to_bytes_def header_def pipe_id_def msg_len_def
        msg_str_def dup_def getbuffer_def msg_hash_def repr_def reading_closed)
qed

theorem transferred_message_is_closed_witness:
  "to_bytes (snd (steal_ptr sample_st)) = (Inl closed_exn, snd (steal_ptr sample_st))"
proof -
  have "steal_ptr sample_st = (Inr 1, snd (steal_ptr sample_st))"
    using steal_ptr_owns [OF sample_owns] by (simp add: sample_st_def from_ptr_def)
  from transferred_message_is_closed [OF sample_owns this, of Clear ref_lib] show ?thesis by simp
qed

text \<open>A 16-, 32- or 64-bit integer appended to a message is returned by the chop of
  the same width, which restores the message; appended to an empty body it is also returned
  by the trim of that width.\<close>

theorem typed_integer_roundtrip:
  assumes "msg_lib_ok L" "owns s m" "args_ok (AppendU w v)"
    and "run_mutator L (AppendU w v) s = (Inr r, s1)"
  shows "run_mutator L (ChopU w) s1 = (Inr (Some (nat v)), s) \<and>
         (body m = [] \<longrightarrow> run_mutator L (TrimU w) s1 = (Inr (Some (nat v)), s))"
proof -
  note L = assms(1)
  have v: "nat v < 256 ^ octets w" using assms(3) by (simp add: nat_less_iff)
  have "snd (call_eff (no_value (nng_msg_append_u L w (nat v))) m) =
      m\<lparr>body := body m @ be_bytes (octets w) (nat v)\<rparr>"
    using assms(4) edits_eff [OF msg_lib_okD(7) [OF L], of w "nat v" m]
      run_mutator_owns [OF assms(3,2), of L] by auto
  then have s1: "s1 = put_msg (m\<lparr>body := body m @ be_bytes (octets w) (nat v)\<rparr>) s"
    using assms(4) run_mutator_owns [OF assms(3,2), of L] by simp
  then have "owns s1 (m\<lparr>body := body m @ be_bytes (octets w) (nat v)\<rparr>)"
    using assms(2) by simp
  moreover have same: "put_msg m s = s"
    using put_msg_same [of s m] assms(2) by (simp add: owns_def)
  moreover have "body m = [] \<longrightarrow> put_msg (m\<lparr>body := []\<rparr>) s = s"
    using same by (metis nng_msg.surjective nng_msg.update_convs(2))
  ultimately show ?thesis
    using v by (auto simp: run_mutator_owns pops_eff [OF msg_lib_okD(8) [OF L]]
        pops_eff [OF msg_lib_okD(9) [OF L]] be_value_be_bytes s1)
qed

theorem typed_integer_roundtrip_witness:
  "run_mutator ref_lib (ChopU U16) (snd (run_mutator ref_lib (AppendU U16 513) sample_st)) =
     (Inr (Some 513), sample_st)"
proof -
  have "run_mutator ref_lib (AppendU U16 513) sample_st =
      (Inr None, snd (run_mutator ref_lib (AppendU U16 513) sample_st))"
    using run_mutator_owns [OF _ sample_owns, of "AppendU U16 513" ref_lib]
    by (simp add: call_eff_def no_value_def ref_lib_def)
  from typed_integer_roundtrip [OF ref_lib_ok sample_owns _ this] show ?thesis by simp
qed

text \<open>A message built from data holds exactly its octets: \<open>to_bytes\<close> and \<open>len\<close> give
  them back, a string is recovered by \<open>str\<close>, and the message has no header and no pipe.
  Data without octets (a string with a lone surrogate, an object that is no buffer) or memory
  the C library does not grant raises and allocates nothing.\<close>

theorem message_init_roundtrip:
  assumes "msg_lib_ok L" "to_size_t sz = Inr n" "0 < next_ptr h"
    and "message_init L (Some d) sz \<lparr>heap = h, self = message_new\<rparr> = (r, s')"
  shows "case data_bytes d of
           Some bs \<Rightarrow>
             if fst (nng_msg_alloc L (length bs)) = NNG_OK then r = Inr () \<and>
               to_bytes s' = (Inr bs, s') \<and> msg_len s' = (Inr (length bs), s') \<and>
               header s' = (Inr [], s') \<and> pipe_id s' = (Inr 0, s') \<and>
               (\<forall>t. d = PyStr t \<longrightarrow> msg_str s' = (Inr t, s'))
             else r = Inl (err_from_code (fst (nng_msg_alloc L (length bs)))) \<and> heap s' = h
         | None \<Rightarrow> (\<exists>e. r = Inl (PyExn e)) \<and> heap s' = h"
proof (cases "data_bytes d")
  case None
  with assms(2,4) show ?thesis
    by (cases d) (auto simp: message_init_def nng_msg_from_data_bytes)
next
  case (Some bs)
  obtain err p h' where fd: "msg_of_bytes L bs h = ((err, p), h')" by (metis prod.exhaust)
  have err: "fst (nng_msg_alloc L (length bs)) = err" "err \<noteq> NNG_OK \<longrightarrow> h' = h"
    using msg_of_bytes_err [of L bs h] fd by auto
  show ?thesis
  proof (cases "err = NNG_OK")
    case True
    with fd have p: "p = next_ptr h"
        "h' = h\<lparr>live := (live h)(p \<mapsto> \<lparr>hdr = [], body = bs, pipe_of = 0\<rparr>), next_ptr := Suc p\<rparr>"
      using msg_of_bytes_ok [OF assms(1)] by blast+
    with assms Some True fd have s': "r = Inr ()" "s' = \<lparr>heap = h', self = from_ptr p\<rparr>"
      by (auto simp: message_init_def nng_msg_from_data_bytes handle_assign_def free_if_owned_def
          from_ptr_def message_new_def)
    have live: "msg_ptr (self s') \<noteq> 0"
        "live (heap s') (msg_ptr (self s')) = Some \<lparr>hdr = [], body = bs, pipe_of = 0\<rparr>"
      using p assms(3) by (simp_all add: s' from_ptr_def)
    have "bytes_decode bs = Inr t" if "d = PyStr t" for t
      using Some that str_roundtrip by (auto split: sum.splits)
    with live Some True err show ?thesis
      by (auto simp: to_bytes_def msg_len_def header_def pipe_id_def msg_str_def guard_simps
          reading_live [OF live] s'(1))
  next
    case False
    with assms Some fd err show ?thesis
      by (auto simp: message_init_def nng_msg_from_data_bytes check_err_def)
  qed
qed

definition sample_heap :: msg_heap where
  "sample_heap = \<lparr>live = Map.empty, next_ptr = 1, corrupt = False\<rparr>"

theorem message_init_roundtrip_witness:
  "msg_str (snd (message_init ref_lib (Some (PyStr [104, 233])) 0
      \<lparr>heap = sample_heap, self = message_new\<rparr>)) =
   (Inr [104, 233], snd (message_init ref_lib (Some (PyStr [104, 233])) 0
      \<lparr>heap = sample_heap, self = message_new\<rparr>))"
proof -
  let ?r = "message_init ref_lib (Some (PyStr [104, 233])) 0 \<lparr>heap = sample_heap, self = message_new\<rparr>"
  have r: "?r = (Inr (), snd ?r)"
    by (simp add: message_init_def to_uint_def nng_msg_from_data_def str_encode_def scalar_def
        msg_of_bytes_def handle_alloc_def heap_alloc_def ref_lib_def sample_heap_def)
  have "data_bytes (PyStr [104, 233]) \<noteq> None" by (simp add: str_encode_def scalar_def)
  then show ?thesis
    using message_init_roundtrip [OF ref_lib_ok _ _ r, of 0]
    by (auto simp: to_uint_def sample_heap_def ref_lib_alloc split: option.splits)
qed

text \<open>Hashing an owned message never succeeds: the exported buffer is writable, so
  the temporary view refuses with \<open>ValueError\<close>; comparing two messages ends the process,
  because the locks it tries belong to no mutex. Comparing with any other object compares
  the octets, and none of these changes the message.\<close>

theorem hash_and_equality:
  assumes "owns s m"
  shows "msg_hash s = (Inl (PyExn ValueError), s) \<and>
         msg_eq mf (OtherMessage o') s = (Inr Terminates, s) \<and>
         msg_eq mf (OtherData (PyBytes bs)) s = (Inr (Equal (body m = bs)), s) \<and>
         msg_ne mf (OtherData (PyBytes bs)) s = (Inr (Equal (body m \<noteq> bs)), s)"
proof -
  have l: "msg_ptr (self s) \<noteq> 0" "live (heap s) (msg_ptr (self s)) = Some m"
      "python_buffer_count (self s) \<noteq> - 1"
    using assms by (auto simp: owns_def)
  note view = with_view_live [OF l]
  have "msg_hash s = (Inl (PyExn ValueError), s)"
    using l(1) view by (simp add: msg_hash_def guard_simps)
  moreover have "msg_eq mf (OtherMessage o') s = (Inr Terminates, s)"
    by (simp add: msg_eq_def unique_try_lock_def unique_lock_default_def)
  moreover have "msg_eq mf (OtherData (PyBytes bs)) s = (Inr (Equal (body m = bs)), s)"
    by (simp add: msg_eq_def view memory_view_def)
  ultimately show ?thesis by (simp add: msg_ne_def bindS_app)
qed

theorem hash_and_equality_witness: "msg_hash sample_st = (Inl (PyExn ValueError), sample_st)"
  using hash_and_equality [OF sample_owns] by blast

end
