(* ===== verification/Ownership.thy ===== *)
theory Ownership
  imports Message
begin

text \<open>
  Many \<open>Message\<close> objects over one heap: who owns which \<open>nng_msg\<close> while Python code
  edits, exports, duplicates, sends and drops messages and the C library takes and
  delivers them. The C library is unconstrained here: its contents functions are arbitrary
  at every step, so allocation may fail at any time.
\<close>

section \<open>The state machine\<close>

text \<open>
  \<open>lent\<close> are the messages in the hands of the C library: stolen for a send, or received
  and not yet wrapped. A view is an exported buffer: the object and the address it points to.
\<close>

record msg_world =
  wheap :: msg_heap
  objs :: "nat \<rightharpoonup> message"
  lent :: "nat set"
  views :: "(nat \<times> nat) list"

definition world_init :: msg_world where
  "world_init = \<lparr>wheap = \<lparr>live = Map.empty, next_ptr = 1, corrupt = False\<rparr>,
     objs = Map.empty, lent = {}, views = []\<rparr>"

abbreviation st_of :: "msg_world \<Rightarrow> message \<Rightarrow> msg_st" where
  "st_of w x \<equiv> \<lparr>heap = wheap w, self = x\<rparr>"

abbreviation store :: "nat \<Rightarrow> msg_st \<Rightarrow> msg_world \<Rightarrow> msg_world" where
  "store i s w \<equiv> w\<lparr>wheap := heap s, objs := (objs w)(i \<mapsto> self s)\<rparr>"

inductive msg_step :: "msg_world \<Rightarrow> msg_world \<Rightarrow> bool" where
  create: "objs w i = None \<Longrightarrow> message_init L data sz (st_of w message_new) = (Inr (), s) \<Longrightarrow>
    msg_step w (store i s w)"
| create_fails: "objs w i = None \<Longrightarrow> message_init L data sz (st_of w message_new) = (Inl e, s) \<Longrightarrow>
    msg_step w (w\<lparr>wheap := message_dealloc s\<rparr>)"
| reinit: "objs w i = Some x \<Longrightarrow> python_buffer_count x = 0 \<Longrightarrow>
    message_init L data sz (st_of w x) = (r, s) \<Longrightarrow> msg_step w (store i s w)"
| mutate: "objs w i = Some x \<Longrightarrow> run_mutator L c (st_of w x) = (r, s) \<Longrightarrow>
    msg_step w (store i s w)"
| read: "objs w i = Some x \<Longrightarrow> to_bytes (st_of w x) = (r, s) \<Longrightarrow> msg_step w (store i s w)"
| export: "objs w i = Some x \<Longrightarrow> python_buffer_count x \<noteq> - 1 \<Longrightarrow>
    getbuffer (st_of w x) = (Inr (p, n), s) \<Longrightarrow>
    msg_step w ((store i s w)\<lparr>views := (i, p) # views w\<rparr>)"
| release: "objs w i = Some x \<Longrightarrow> (i, p) \<in> set (views w) \<Longrightarrow>
    releasebuffer (st_of w x) = (r, s) \<Longrightarrow>
    msg_step w ((store i s w)\<lparr>views := remove1 (i, p) (views w)\<rparr>)"
| duplicate: "objs w i = Some x \<Longrightarrow> objs w j = None \<Longrightarrow> dup L (st_of w x) = (Inr y, s) \<Longrightarrow>
    msg_step w ((store i s w)\<lparr>objs := (objs w)(j \<mapsto> y)\<rparr>)"
| duplicate_fails: "objs w i = Some x \<Longrightarrow> dup L (st_of w x) = (Inl e, s) \<Longrightarrow>
    msg_step w (store i s w)"
| steal: "objs w i = Some x \<Longrightarrow> steal_ptr (st_of w x) = (Inr p, s) \<Longrightarrow>
    msg_step w ((store i s w)\<lparr>lent := insert p (lent w)\<rparr>)"
| restore: "objs w i = Some x \<Longrightarrow> msg_ptr x = 0 \<Longrightarrow> p \<in> lent w \<Longrightarrow>
    handle_restore p (st_of w x) = (Inr (), s) \<Longrightarrow>
    msg_step w ((store i s w)\<lparr>lent := lent w - {p}\<rparr>)"
| receive: "objs w i = None \<Longrightarrow> p \<in> lent w \<Longrightarrow>
    msg_step w (w\<lparr>objs := (objs w)(i \<mapsto> from_ptr p), lent := lent w - {p}\<rparr>)"
| nng_allocates: "heap_alloc m (wheap w) = (p, h) \<Longrightarrow>
    msg_step w (w\<lparr>wheap := h, lent := insert p (lent w)\<rparr>)"
| nng_frees: "p \<in> lent w \<Longrightarrow>
    msg_step w (w\<lparr>wheap := nng_msg_free p (wheap w), lent := lent w - {p}\<rparr>)"
| dealloc: "objs w i = Some x \<Longrightarrow> (\<forall>p. (i, p) \<notin> set (views w)) \<Longrightarrow>
    msg_step w (w\<lparr>wheap := message_dealloc (st_of w x), objs := (objs w)(i := None)\<rparr>)"

definition msg_reachable :: "msg_world \<Rightarrow> bool" where
  "msg_reachable w \<longleftrightarrow> msg_step\<^sup>*\<^sup>* world_init w"

section \<open>The invariant\<close>

definition holds :: "msg_world \<Rightarrow> nat \<Rightarrow> nat \<Rightarrow> bool" where
  "holds w i p \<longleftrightarrow> (\<exists>x. objs w i = Some x \<and> msg_ptr x = p \<and> p \<noteq> 0)"

definition view_count :: "msg_world \<Rightarrow> nat \<Rightarrow> nat" where
  "view_count w i = length (filter (\<lambda>v. fst v = i) (views w))"

definition heap_inv :: "msg_world \<Rightarrow> bool" where
  "heap_inv w \<longleftrightarrow> \<not> corrupt (wheap w) \<and> 0 < next_ptr (wheap w) \<and>
     live (wheap w) 0 = None \<and> (\<forall>p. next_ptr (wheap w) \<le> p \<longrightarrow> live (wheap w) p = None)"

text \<open>
  A map from messages to their single owner accounts for every live message, every pointer
  held by an object and every message of the C library.
\<close>

datatype owner = Obj nat | Lib

definition owner_map :: "msg_world \<Rightarrow> (nat \<rightharpoonup> owner) \<Rightarrow> bool" where
  "owner_map w own \<longleftrightarrow>
     (\<forall>p. live (wheap w) p = None \<longleftrightarrow> own p = None) \<and>
     (\<forall>i p. holds w i p \<longleftrightarrow> own p = Some (Obj i)) \<and>
     (\<forall>p. p \<in> lent w \<longleftrightarrow> own p = Some Lib)"

definition owner_inv :: "msg_world \<Rightarrow> bool" where
  "owner_inv w \<longleftrightarrow> (\<exists>own. owner_map w own)"

definition view_inv :: "msg_world \<Rightarrow> bool" where
  "view_inv w \<longleftrightarrow>
     (\<forall>i p. (i, p) \<in> set (views w) \<longrightarrow> holds w i p) \<and>
     (\<forall>i x. objs w i = Some x \<longrightarrow> unat (python_buffer_count x) = view_count w i)"

definition world_inv :: "msg_world \<Rightarrow> bool" where
  "world_inv w \<longleftrightarrow> heap_inv w \<and> owner_inv w \<and> view_inv w"

lemma holds_simps [simp]:
  "holds (w\<lparr>wheap := h\<rparr>) = holds w" "holds (w\<lparr>lent := l\<rparr>) = holds w"
  "holds (w\<lparr>views := v\<rparr>) = holds w"
  "holds (w\<lparr>objs := (objs w)(i \<mapsto> x)\<rparr>) j p \<longleftrightarrow>
     (if j = i then msg_ptr x = p \<and> p \<noteq> 0 else holds w j p)"
  "holds (w\<lparr>objs := (objs w)(i := None)\<rparr>) j p \<longleftrightarrow> j \<noteq> i \<and> holds w j p"
  by (auto simp: holds_def fun_eq_iff)

lemma view_count_simps [simp]:
  "view_count (w\<lparr>wheap := h\<rparr>) = view_count w" "view_count (w\<lparr>lent := l\<rparr>) = view_count w"
  "view_count (w\<lparr>objs := ob\<rparr>) = view_count w"
  by (simp_all add: view_count_def fun_eq_iff)

lemma owner_mapI:
  assumes "\<And>p. live (wheap w) p = None \<longleftrightarrow> own p = None"
    and "\<And>i p. holds w i p \<longleftrightarrow> own p = Some (Obj i)" and "\<And>p. p \<in> lent w \<longleftrightarrow> own p = Some Lib"
  shows "owner_inv w"
  using assms by (auto simp: owner_inv_def owner_map_def)

lemma owner_mapE:
  assumes "world_inv w"
  obtains own where "\<And>p. live (wheap w) p = None \<longleftrightarrow> own p = None"
    "\<And>i p. holds w i p \<longleftrightarrow> own p = Some (Obj i)" "\<And>p. p \<in> lent w \<longleftrightarrow> own p = Some Lib"
  using assms that by (auto simp: world_inv_def owner_inv_def owner_map_def)

lemmas world_inv_defs = world_inv_def heap_inv_def view_inv_def

lemma world_init_inv: "world_inv world_init"
proof -
  have "owner_inv world_init"
    by (rule owner_mapI [where own = Map.empty]) (auto simp: world_init_def holds_def)
  then show ?thesis by (simp add: world_inv_defs world_init_def)
qed

text \<open>A step that only rewrites contents of live messages.\<close>

lemma contents_step:
  assumes "world_inv w" "objs w i = Some x"
    and "self s = x" "dom (live (heap s)) = dom (live (wheap w))"
      "next_ptr (heap s) = next_ptr (wheap w)" "corrupt (heap s) = corrupt (wheap w)"
  shows "world_inv (store i s w)"
proof -
  have l: "live (heap s) p = None \<longleftrightarrow> live (wheap w) p = None" for p
    using assms(4) by (metis domIff)
  have o: "(objs w)(i \<mapsto> x) = objs w" using assms(2) by auto
  show ?thesis using assms(1)
    by (simp add: world_inv_defs owner_inv_def owner_map_def holds_def view_count_def l o assms(3,5,6))
qed

lemma held_live: "world_inv w \<Longrightarrow> holds w i p \<Longrightarrow> live (wheap w) p \<noteq> None"
  by (erule owner_mapE) simp

lemma msg_ok_obj:
  assumes "world_inv w" "objs w i = Some x"
  shows "msg_ok (st_of w x)"
  using held_live [OF assms(1), of i "msg_ptr x"] assms(2) by (auto simp: msg_ok_def holds_def)

lemma no_views:
  assumes "world_inv w" "objs w i = Some x" "\<forall>q. (i, q) \<notin> set (views w)"
  shows "python_buffer_count x = 0"
proof -
  have "filter (\<lambda>v. fst v = i) (views w) = []" using assms(3) by (auto simp: filter_empty_conv)
  then have "unat (python_buffer_count x) = 0"
    using assms(1,2) by (simp add: world_inv_defs view_count_def)
  then show ?thesis by (simp add: unat_eq_zero)
qed

lemma count_zero_views:
  assumes "world_inv w" "objs w i = Some x" "python_buffer_count x = 0"
  shows "(i, q) \<notin> set (views w)"
proof -
  have "view_count w i = 0" using assms unfolding world_inv_defs by (metis unat_0)
  then show ?thesis by (auto simp: view_count_def filter_empty_conv)
qed

lemma live_fresh: "world_inv w \<Longrightarrow> live (wheap w) (next_ptr (wheap w)) = None"
  by (simp add: world_inv_defs)

lemma lent_facts:
  assumes "world_inv w" "p \<in> lent w"
  shows "p \<noteq> 0" "live (wheap w) p \<noteq> None" "\<not> holds w i p"
proof -
  obtain own where own: "\<And>p. live (wheap w) p = None \<longleftrightarrow> own p = None"
    "\<And>i p. holds w i p \<longleftrightarrow> own p = Some (Obj i)" "\<And>p. p \<in> lent w \<longleftrightarrow> own p = Some Lib"
    using owner_mapE [OF assms(1)] by blast
  with assms(2) show "live (wheap w) p \<noteq> None" "\<not> holds w i p" by auto
  with assms(1) show "p \<noteq> 0" by (cases "p = 0") (auto simp: world_inv_defs)
qed

section \<open>Elementary moves\<close>

text \<open>
  Every step is one of these moves of ownership: a new message to an object or to the C
  library, a hand-over between the two, a free, and the counting of views.
\<close>

abbreviation alloc_at :: "nng_msg \<Rightarrow> msg_heap \<Rightarrow> msg_heap" where
  "alloc_at m h \<equiv> h\<lparr>live := (live h)(next_ptr h \<mapsto> m), next_ptr := Suc (next_ptr h)\<rparr>"

lemma lend_fresh:
  assumes "world_inv w"
  shows "world_inv (w\<lparr>wheap := alloc_at m (wheap w), lent := insert (next_ptr (wheap w)) (lent w)\<rparr>)"
proof -
  obtain own where own: "\<And>p. live (wheap w) p = None \<longleftrightarrow> own p = None"
    "\<And>i p. holds w i p \<longleftrightarrow> own p = Some (Obj i)" "\<And>p. p \<in> lent w \<longleftrightarrow> own p = Some Lib"
    using owner_mapE [OF assms] by blast
  have "owner_inv (w\<lparr>wheap := alloc_at m (wheap w), lent := insert (next_ptr (wheap w)) (lent w)\<rparr>)"
    using live_fresh [OF assms] own
    by (intro owner_mapI [where own = "own(next_ptr (wheap w) \<mapsto> Lib)"]) auto
  then show ?thesis using assms by (simp add: world_inv_defs)
qed

lemma free_lent:
  assumes "world_inv w" "p \<in> lent w"
  shows "world_inv (w\<lparr>wheap := nng_msg_free p (wheap w), lent := lent w - {p}\<rparr>)"
proof -
  obtain own where own: "\<And>p. live (wheap w) p = None \<longleftrightarrow> own p = None"
    "\<And>i p. holds w i p \<longleftrightarrow> own p = Some (Obj i)" "\<And>p. p \<in> lent w \<longleftrightarrow> own p = Some Lib"
    using owner_mapE [OF assms(1)] by blast
  have "owner_inv (w\<lparr>wheap := nng_msg_free p (wheap w), lent := lent w - {p}\<rparr>)"
    using own assms(2) by (intro owner_mapI [where own = "own(p := None)"]) (auto simp: nng_msg_free_def)
  then show ?thesis
    using assms lent_facts(2) [OF assms] by (simp add: world_inv_defs nng_msg_free_def)
qed

lemma take_lent:
  assumes "world_inv w" "p \<in> lent w" "\<And>q. \<not> holds w i q"
    and "msg_ptr x' = p" "python_buffer_count x' = 0"
  shows "world_inv (w\<lparr>objs := (objs w)(i \<mapsto> x'), lent := lent w - {p}\<rparr>)"
proof -
  obtain own where own: "\<And>p. live (wheap w) p = None \<longleftrightarrow> own p = None"
    "\<And>i p. holds w i p \<longleftrightarrow> own p = Some (Obj i)" "\<And>p. p \<in> lent w \<longleftrightarrow> own p = Some Lib"
    using owner_mapE [OF assms(1)] by blast
  have no_view: "(i, q) \<notin> set (views w)" for q
    using assms(1,3) unfolding world_inv_defs by blast
  then have cnt: "view_count w i = 0" by (auto simp: view_count_def filter_empty_conv)
  have "owner_inv (w\<lparr>objs := (objs w)(i \<mapsto> x'), lent := lent w - {p}\<rparr>)"
    using own assms lent_facts(1) [OF assms(1,2)]
    by (intro owner_mapI [where own = "own(p \<mapsto> Obj i)"]) auto
  moreover have "view_inv (w\<lparr>objs := (objs w)(i \<mapsto> x'), lent := lent w - {p}\<rparr>)"
    using assms no_view cnt unfolding world_inv_def view_inv_def by auto
  ultimately show ?thesis using assms(1) by (simp add: world_inv_def heap_inv_def)
qed

text \<open>An object without views gives its message to the C library.\<close>

lemma lend_held:
  assumes "world_inv w" "objs w i = Some x" "python_buffer_count x = 0" "msg_ptr x \<noteq> 0"
  shows "world_inv (w\<lparr>objs := (objs w)(i \<mapsto> x\<lparr>msg_ptr := 0\<rparr>), lent := insert (msg_ptr x) (lent w)\<rparr>)"
proof -
  obtain own where own: "\<And>p. live (wheap w) p = None \<longleftrightarrow> own p = None"
    "\<And>i p. holds w i p \<longleftrightarrow> own p = Some (Obj i)" "\<And>p. p \<in> lent w \<longleftrightarrow> own p = Some Lib"
    using owner_mapE [OF assms(1)] by blast
  have h: "holds w i q \<longleftrightarrow> q = msg_ptr x" for q using assms(2,4) by (auto simp: holds_def)
  then have own_x: "own (msg_ptr x) = Some (Obj i)"
    and own_i: "q \<noteq> msg_ptr x \<Longrightarrow> own q \<noteq> Some (Obj i)" for q by (simp_all flip: own(2))
  note no_view = count_zero_views [OF assms(1-3)]
  have "owner_inv (w\<lparr>objs := (objs w)(i \<mapsto> x\<lparr>msg_ptr := 0\<rparr>), lent := insert (msg_ptr x) (lent w)\<rparr>)"
    using own own_i own_x
    by (intro owner_mapI [where own = "own(msg_ptr x \<mapsto> Lib)"]) auto
  moreover have "view_count w i = 0" using no_view by (auto simp: view_count_def filter_empty_conv)
  then have "view_inv (w\<lparr>objs := (objs w)(i \<mapsto> x\<lparr>msg_ptr := 0\<rparr>), lent := insert (msg_ptr x) (lent w)\<rparr>)"
    using assms no_view unfolding world_inv_def view_inv_def by auto
  ultimately show ?thesis using assms(1) by (simp add: world_inv_def heap_inv_def)
qed

lemma drop_empty:
  assumes "world_inv w" "\<And>q. \<not> holds w i q"
  shows "world_inv (w\<lparr>objs := (objs w)(i := None)\<rparr>)"
proof -
  obtain own where own: "\<And>p. live (wheap w) p = None \<longleftrightarrow> own p = None"
    "\<And>i p. holds w i p \<longleftrightarrow> own p = Some (Obj i)" "\<And>p. p \<in> lent w \<longleftrightarrow> own p = Some Lib"
    using owner_mapE [OF assms(1)] by blast
  have "(i, q) \<notin> set (views w)" for q using assms unfolding world_inv_defs by blast
  then have "view_inv (w\<lparr>objs := (objs w)(i := None)\<rparr>)"
    using assms unfolding world_inv_def view_inv_def by auto
  moreover have "owner_inv (w\<lparr>objs := (objs w)(i := None)\<rparr>)"
    using own assms(2) by (intro owner_mapI [where own = own]) auto
  ultimately show ?thesis using assms(1) by (simp add: world_inv_def heap_inv_def)
qed

text \<open>Assigning an empty handle frees the message the object held.\<close>

lemma release_old:
  assumes "world_inv w" "objs w i = Some x" "python_buffer_count x = 0"
  shows "world_inv (w\<lparr>wheap := free_if_owned (msg_ptr x) (wheap w), objs := (objs w)(i \<mapsto> x\<lparr>msg_ptr := 0\<rparr>)\<rparr>)"
proof (cases "msg_ptr x = 0")
  case True
  then have "x\<lparr>msg_ptr := 0\<rparr> = x" by (cases x) simp
  with True assms show ?thesis by (simp add: free_if_owned_def fun_upd_idem)
next
  case False
  let ?w = "w\<lparr>objs := (objs w)(i \<mapsto> x\<lparr>msg_ptr := 0\<rparr>), lent := insert (msg_ptr x) (lent w)\<rparr>"
  have "msg_ptr x \<notin> lent w"
    using lent_facts(3) [OF assms(1), of "msg_ptr x" i] assms(2) False by (auto simp: holds_def)
  then have l: "insert (msg_ptr x) (lent w) - {msg_ptr x} = lent w" by simp
  have "world_inv (?w\<lparr>wheap := nng_msg_free (msg_ptr x) (wheap ?w), lent := lent ?w - {msg_ptr x}\<rparr>)"
    by (rule free_lent [OF lend_held [OF assms False]]) simp
  with False l show ?thesis by (cases w) (simp add: free_if_owned_def)
qed

lemma message_init_cases:
  assumes "message_init L data sz s = (r, s')"
  obtains (same) e where "r = Inl e" "s' = s"
  | (dropped) e where "r = Inl e" "s' = handle_assign 0 s"
  | (fresh) m where "r = Inr ()"
      "s' = handle_assign (next_ptr (heap s)) (s\<lparr>heap := alloc_at m (heap s)\<rparr>)"
proof (cases "to_size_t sz")
  case (Inl e)
  with assms same show ?thesis by (auto simp: message_init_def)
next
  case (Inr n)
  show ?thesis
  proof (cases data)
    case None
    with assms Inr show ?thesis
      by (cases "nng_msg_alloc L n")
         (auto simp: message_init_def handle_alloc_def heap_alloc_def check_err_def
           split: if_splits intro: fresh dropped)
  next
    case (Some d)
    show ?thesis
    proof (cases "data_bytes d")
      case None
      with assms Inr Some same show ?thesis
        by (auto simp: message_init_def nng_msg_from_data_bytes)
    next
      case (Some bs)
      with assms Inr \<open>data = Some d\<close> show ?thesis
        by (cases "nng_msg_alloc L (length bs)", cases "heap s")
           (auto simp: message_init_def nng_msg_from_data_bytes msg_of_bytes_def handle_alloc_def
             heap_alloc_def check_err_def split: if_splits intro: fresh same)
    qed
  qed
qed

lemma reinit_step:
  assumes w: "world_inv w" "objs w i = Some x" "python_buffer_count x = 0"
    and init: "message_init L data sz (st_of w x) = (r, s)"
  shows "world_inv (store i s w)"
  using init
proof (cases rule: message_init_cases)
  case same
  with w show ?thesis by (simp add: fun_upd_idem)
next
  case dropped
  with release_old [OF w] show ?thesis by (simp add: handle_assign_def)
next
  case (fresh m)
  let ?p = "next_ptr (wheap w)"
  let ?w1 = "w\<lparr>wheap := alloc_at m (wheap w), lent := insert ?p (lent w)\<rparr>"
  let ?w2 = "?w1\<lparr>wheap := free_if_owned (msg_ptr x) (wheap ?w1), objs := (objs w)(i \<mapsto> x\<lparr>msg_ptr := 0\<rparr>)\<rparr>"
  have "world_inv ?w2" using release_old [OF lend_fresh [OF w(1)], of m i x] w by simp
  then have "world_inv (?w2\<lparr>objs := (objs ?w2)(i \<mapsto> x\<lparr>msg_ptr := ?p\<rparr>), lent := lent ?w2 - {?p}\<rparr>)"
    by (rule take_lent) (auto simp: holds_def w(3))
  moreover have "?p \<notin> lent w" using lent_facts(2) [OF w(1)] live_fresh [OF w(1)] by metis
  ultimately show ?thesis using fresh by (simp add: handle_assign_def)
qed

lemma take_fresh:
  assumes "world_inv w" "objs w i = None" "msg_ptr x = next_ptr (wheap w)" "python_buffer_count x = 0"
  shows "world_inv (w\<lparr>wheap := alloc_at m (wheap w), objs := (objs w)(i \<mapsto> x)\<rparr>)"
proof -
  let ?p = "next_ptr (wheap w)"
  let ?w1 = "w\<lparr>wheap := alloc_at m (wheap w), lent := insert ?p (lent w)\<rparr>"
  have "world_inv (?w1\<lparr>objs := (objs ?w1)(i \<mapsto> x), lent := lent ?w1 - {?p}\<rparr>)"
    by (rule take_lent [OF lend_fresh [OF assms(1)]]) (auto simp: holds_def assms)
  moreover have "?p \<notin> lent w" using lent_facts(2) [OF assms(1)] live_fresh [OF assms(1)] by metis
  ultimately show ?thesis by simp
qed

lemma view_steps:
  assumes "world_inv w" "objs w i = Some x"
  shows "python_buffer_count x \<noteq> - 1 \<Longrightarrow> msg_ptr x = p \<Longrightarrow> p \<noteq> 0 \<Longrightarrow>
      world_inv (w\<lparr>objs := (objs w)(i \<mapsto> x\<lparr>python_buffer_count := python_buffer_count x + 1\<rparr>),
                   views := (i, p) # views w\<rparr>)" (is "_ \<Longrightarrow> _ \<Longrightarrow> _ \<Longrightarrow> world_inv ?e")
    and "(i, p) \<in> set (views w) \<Longrightarrow>
      world_inv (w\<lparr>objs := (objs w)(i \<mapsto> x\<lparr>python_buffer_count := python_buffer_count x - 1\<rparr>),
                   views := remove1 (i, p) (views w)\<rparr>)" (is "_ \<Longrightarrow> world_inv ?r")
proof -
  obtain own where own: "\<And>p. live (wheap w) p = None \<longleftrightarrow> own p = None"
    "\<And>i p. holds w i p \<longleftrightarrow> own p = Some (Obj i)" "\<And>p. p \<in> lent w \<longleftrightarrow> own p = Some Lib"
    using owner_mapE [OF assms(1)] by blast
  have h: "holds ?e = holds w" "holds ?r = holds w" using assms(2) by (auto simp: holds_def fun_eq_iff)
  have o: "owner_inv ?e" "owner_inv ?r"
    using own h by (auto intro!: owner_mapI [where own = own])
  have cnt: "unat (python_buffer_count x) = view_count w i"
    using assms by (simp add: world_inv_defs)
  show "world_inv ?e" if "python_buffer_count x \<noteq> - 1" "msg_ptr x = p" "p \<noteq> 0"
  proof -
    have "unat (python_buffer_count x + 1) = Suc (unat (python_buffer_count x))"
      using that(1) add_one_nonzero by (metis add.commute unatSuc)
    with that assms h(1) cnt o(1) show ?thesis
      by (auto simp: world_inv_defs view_count_def) (auto simp: holds_def)
  qed
  show "world_inv ?r" if v: "(i, p) \<in> set (views w)"
  proof -
    have "filter (\<lambda>v. fst v = i) (views w) \<noteq> []" using v by (force simp: filter_empty_conv)
    then have "python_buffer_count x \<noteq> 0" using cnt by (auto simp: view_count_def)
    then have "unat (python_buffer_count x - 1) = unat (python_buffer_count x) - 1"
      by (simp add: unat_minus_one)
    moreover have "filter (\<lambda>v. fst v = i) (remove1 (i, p) (views w)) =
        remove1 (i, p) (filter (\<lambda>v. fst v = i) (views w))"
      by (simp add: filter_remove1)
    moreover have "filter (\<lambda>v. fst v = j) (remove1 (i, p) (views w)) = filter (\<lambda>v. fst v = j) (views w)"
      if "j \<noteq> i" for j using that by (simp add: filter_remove1 remove1_idem)
    ultimately show ?thesis using v assms cnt o(2) h(2)
      by (auto simp: world_inv_defs view_count_def length_remove1
          dest: subsetD [OF set_remove1_subset])
  qed
qed

section \<open>Every step keeps the invariant\<close>

lemma dealloc_step:
  assumes "world_inv w" "objs w i = Some x" "\<forall>p. (i, p) \<notin> set (views w)"
  shows "world_inv (w\<lparr>wheap := message_dealloc (st_of w x), objs := (objs w)(i := None)\<rparr>)"
proof -
  let ?w = "w\<lparr>wheap := free_if_owned (msg_ptr x) (wheap w), objs := (objs w)(i \<mapsto> x\<lparr>msg_ptr := 0\<rparr>)\<rparr>"
  have "world_inv ?w" by (rule release_old [OF assms(1,2) no_views [OF assms]])
  then have "world_inv (?w\<lparr>objs := (objs ?w)(i := None)\<rparr>)"
    by (rule drop_empty) (auto simp: holds_def)
  then show ?thesis by (simp add: message_dealloc_def)
qed

lemma dup_cases:
  assumes "dup L s = (r, s')" "msg_ok s"
  obtains (fails) e where "r = Inl e" "s' = s"
  | (copies) m where "r = Inr (from_ptr (next_ptr (heap s)))" "s' = s\<lparr>heap := alloc_at m (heap s)\<rparr>"
proof (cases "msg_ptr (self s) = 0")
  case True
  with assms(1) have "r = Inl closed_exn" "s' = s" by (auto simp: dup_def guard_simps)
  then show ?thesis by (rule fails)
next
  case False
  with assms(2) obtain m where m: "live (heap s) (msg_ptr (self s)) = Some m"
    by (auto simp: msg_ok_def)
  obtain err m' where d: "nng_msg_dup L m = (err, m')" by fastforce
  show ?thesis
  proof (cases "err = NNG_OK")
    case True
    with assms(1) False m d have "r = Inr (from_ptr (next_ptr (heap s)))"
        "s' = s\<lparr>heap := alloc_at m' (heap s)\<rparr>"
      by (auto simp: dup_def guard_simps handle_dup_def heap_alloc_def)
    then show ?thesis by (rule copies)
  next
    case err: False
    with assms(1) False m d have "r = Inl (err_from_code err)" "s' = s"
      by (auto simp: dup_def guard_simps handle_dup_def check_err_def)
    then show ?thesis by (rule fails)
  qed
qed

lemma duplicate_step:
  assumes w: "world_inv w" "objs w i = Some x" "objs w j = None"
    and d: "dup L (st_of w x) = (Inr y, s)"
  shows "world_inv ((store i s w)\<lparr>objs := (objs w)(j \<mapsto> y)\<rparr>)"
  using d msg_ok_obj [OF w(1,2)]
proof (cases rule: dup_cases)
  case (copies m)
  have "world_inv (w\<lparr>wheap := alloc_at m (wheap w), objs := (objs w)(j \<mapsto> y)\<rparr>)"
    by (rule take_fresh [OF w(1,3)]) (use copies in \<open>simp_all add: from_ptr_def message_new_def\<close>)
  with copies show ?thesis by simp
qed simp

lemma steal_step:
  assumes w: "world_inv w" "objs w i = Some x" and s: "steal_ptr (st_of w x) = (Inr p, s)"
  shows "world_inv ((store i s w)\<lparr>lent := insert p (lent w)\<rparr>)"
proof -
  have x: "python_buffer_count x = 0" "msg_ptr x \<noteq> 0" "p = msg_ptr x"
      "s = (st_of w x)\<lparr>self := x\<lparr>msg_ptr := 0\<rparr>\<rparr>"
    using s by (auto simp: steal_ptr_def guard_simps split: if_splits)
  have "w\<lparr>wheap := wheap w\<rparr> = w" by simp
  with lend_held [OF w x(1,2)] x(3,4) show ?thesis by simp
qed

lemma create_step:
  assumes w: "world_inv w" "objs w i = None"
    and init: "message_init L data sz (st_of w message_new) = (r, s)"
  shows "if r = Inr () then world_inv (store i s w) else world_inv (w\<lparr>wheap := message_dealloc s\<rparr>)"
  using init
proof (cases rule: message_init_cases)
  case (fresh m)
  have "world_inv (w\<lparr>wheap := alloc_at m (wheap w), objs := (objs w)(i \<mapsto> from_ptr (next_ptr (wheap w)))\<rparr>)"
    by (rule take_fresh [OF w]) (simp_all add: from_ptr_def message_new_def)
  with fresh show ?thesis by (simp add: handle_assign_def message_new_def free_if_owned_def from_ptr_def)
qed (use w in \<open>simp_all add: message_dealloc_def handle_assign_def message_new_def free_if_owned_def\<close>)

lemma mutate_step:
  assumes w: "world_inv w" "objs w i = Some x" and m: "run_mutator L c (st_of w x) = (r, s)"
  shows "world_inv (store i s w)"
proof (cases "args_ok c")
  case True
  note ok = msg_ok_obj [OF w] and op = run_mutator_owned [OF True, of L]
  show ?thesis
    using owned_op.keeps_object [OF op ok] owned_op.keeps_heap_shape [OF op ok] m
    by (intro contents_step [OF w]) auto
next
  case False
  with m have "s = st_of w x" by (simp add: run_mutator_overflow)
  with w show ?thesis by (simp add: fun_upd_idem)
qed

lemma read_step:
  assumes w: "world_inv w" "objs w i = Some x" and m: "to_bytes (st_of w x) = (r, s)"
  shows "world_inv (store i s w)"
proof -
  have "s = st_of w x"
  proof (cases "msg_ptr x = 0")
    case True
    with m show ?thesis by (simp add: to_bytes_def reading_closed)
  next
    case False
    with msg_ok_obj [OF w] obtain y where "live (wheap w) (msg_ptr x) = Some y"
      by (auto simp: msg_ok_def)
    with False m show ?thesis by (simp add: to_bytes_def reading_live)
  qed
  with w show ?thesis by (simp add: fun_upd_idem)
qed

lemma world_eq: "w\<lparr>wheap := wheap w\<rparr> = (w :: msg_world)" by simp

lemma msg_step_inv: "msg_step w w' \<Longrightarrow> world_inv w \<Longrightarrow> world_inv w'"
proof (induction rule: msg_step.induct)
  case (create w i L data sz s)
  then show ?case using create_step by fastforce
next
  case (create_fails w i L data sz e s)
  then show ?case using create_step by fastforce
next
  case (export w i x p n s)
  then have "msg_ptr x \<noteq> 0" "s = (st_of w x)\<lparr>self := x\<lparr>python_buffer_count := python_buffer_count x + 1\<rparr>\<rparr>"
    using getbuffer_Inr [OF export(3)] by auto
  moreover have "p = msg_ptr x"
    using export(3) by (auto simp: getbuffer_def bindS_app reading_def guard_simps c_call_def
        split: if_splits option.splits)
  ultimately show ?case using view_steps(1) [OF export(4,1,2)] by simp
next
  case (release w i x p r s)
  have "(i, p) \<in> set (views w)" "view_count w i \<noteq> 0"
    using release(2) by (force simp: view_count_def filter_empty_conv)+
  then have "python_buffer_count x \<noteq> 0" using release(1,4) unfolding world_inv_defs by (metis unat_0)
  with release(3) have "s = (st_of w x)\<lparr>self := x\<lparr>python_buffer_count := python_buffer_count x - 1\<rparr>\<rparr>"
    by (simp add: releasebuffer_def split: if_splits)
  then show ?case using view_steps(2) [OF release(4,1,2)] by simp
next
  case (duplicate_fails w i x L e s)
  from duplicate_fails(2) msg_ok_obj [OF duplicate_fails(3,1)] have "s = st_of w x"
    by (cases rule: dup_cases) auto
  with duplicate_fails show ?case by (simp add: fun_upd_idem)
next
  case (restore w i x p s)
  then have s: "s = (st_of w x)\<lparr>self := x\<lparr>msg_ptr := p\<rparr>\<rparr>" by (auto simp: handle_restore_def)
  have "\<not> holds w i q" for q using restore(1,2) by (auto simp: holds_def)
  moreover from this have "python_buffer_count x = 0"
    using no_views [OF restore(5,1)] restore(5) unfolding world_inv_defs by blast
  ultimately show ?case using take_lent [OF restore(5,3), of i "x\<lparr>msg_ptr := p\<rparr>"] s by simp
next
  case (receive w i p)
  then show ?case
    by (intro take_lent) (auto simp: holds_def from_ptr_def message_new_def)
next
  case (nng_allocates m w p h)
  then show ?case using lend_fresh by (auto simp: heap_alloc_def)
qed (blast intro: reinit_step mutate_step read_step duplicate_step steal_step free_lent dealloc_step)+

lemma reachable_inv: "msg_reachable w \<Longrightarrow> world_inv w"
  unfolding msg_reachable_def
  by (induction rule: rtranclp_induct) (auto intro: world_init_inv msg_step_inv)

section \<open>Properties\<close>


definition sample_world :: msg_world where
  "sample_world = \<lparr>wheap = alloc_at \<lparr>hdr = [], body = [0, 0], pipe_of = 0\<rparr> (wheap world_init),
     objs = [0 \<mapsto> from_ptr 1], lent = {}, views = []\<rparr>"


end
