(* ===== verification/Stubs.thy ===== *)
theory Stubs
  imports Errors "HOL-Library.List_Lexorder" "HOL-Library.Char_ord" "HOL-Library.Product_Lexorder"
begin

text \<open>
  The stub generator \<^verbatim>\<open>stubs/generate_stubs.py\<close>, which turns the introspected
  extension module into \<^verbatim>\<open>nng/_nng.pyi\<close>, and the export list of
  \<^verbatim>\<open>nng/__init__.py\<close>. What the interpreter reports about the module (classes,
  docstrings, signatures) is the input of the model; text is a list of octets, with
  characters outside ASCII in UTF-8.
\<close>

section \<open>Text\<close>

definition nl :: char where
  "nl = CHR 0x0A"

fun join :: "string \<Rightarrow> string list \<Rightarrow> string" where
  "join sep [] = []"
| "join sep [x] = x"
| "join sep (x # y # xs) = x @ sep @ join sep (y # xs)"

text \<open>The lines of a text literal, each ended by a newline.\<close>

definition unlines :: "string list \<Rightarrow> string" where
  "unlines ls = concat (map (\<lambda>l. l @ [nl]) ls)"

definition is_space :: "char \<Rightarrow> bool" where
  "is_space c \<longleftrightarrow> c \<in> {CHR 0x09, CHR 0x0A, CHR 0x0B, CHR 0x0C, CHR 0x0D, CHR 0x1C, CHR 0x1D,
     CHR 0x1E, CHR 0x1F, CHR 0x20}"

definition py_strip :: "string \<Rightarrow> string" where
  "py_strip s = rev (dropWhile is_space (rev (dropWhile is_space s)))"

definition is_break :: "char \<Rightarrow> bool" where
  "is_break c \<longleftrightarrow> c \<in> {CHR 0x0A, CHR 0x0B, CHR 0x0C, CHR 0x0D, CHR 0x1C, CHR 0x1D, CHR 0x1E}"

text \<open>\<open>str.splitlines()\<close> for the line breaks of ASCII; a final break opens no line.\<close>

fun splitlines_acc :: "string \<Rightarrow> string \<Rightarrow> string list" where
  "splitlines_acc acc [] = (if acc = [] then [] else [rev acc])"
| "splitlines_acc acc (c # d # cs) =
     (if c = CHR 0x0D \<and> d = nl then rev acc # splitlines_acc [] cs
      else if is_break c then rev acc # splitlines_acc [] (d # cs)
      else splitlines_acc (c # acc) (d # cs))"
| "splitlines_acc acc [c] = (if is_break c then [rev acc] else [rev (c # acc)])"

definition splitlines :: "string \<Rightarrow> string list" where
  "splitlines s = splitlines_acc [] s"

fun digits :: "nat \<Rightarrow> nat \<Rightarrow> string" where
  "digits 0 n = []"
| "digits (Suc k) n = (if n < 10 then [char_of (48 + n)] else digits k (n div 10) @ [char_of (48 + n mod 10)])"

definition str_int :: "int \<Rightarrow> string" where
  "str_int i = (if i < 0 then ''-'' @ digits (Suc (nat (- i))) (nat (- i)) else digits (Suc (nat i)) (nat i))"

definition dq3 :: string where
  "dq3 = [CHR 0x22, CHR 0x22, CHR 0x22]"

text \<open>\<open>s.replace(" | None", "")\<close>.\<close>

fun remove_all :: "string \<Rightarrow> nat \<Rightarrow> string \<Rightarrow> string" where
  "remove_all pat 0 s = s"
| "remove_all pat (Suc k) [] = []"
| "remove_all pat (Suc k) (c # cs) =
     (if take (length pat) (c # cs) = pat \<and> pat \<noteq> [] then remove_all pat k (drop (length pat) (c # cs))
      else c # remove_all pat k cs)"

definition strip_none :: "string \<Rightarrow> string" where
  "strip_none s = remove_all '' | None'' (Suc (length s)) s"

definition the_default :: "string \<Rightarrow> string option \<Rightarrow> string" where
  "the_default d a = (case a of Some x \<Rightarrow> if x \<noteq> [] then x else d | None \<Rightarrow> d)"

section \<open>What introspection reports\<close>

datatype param_kind = POSITIONAL_ONLY | POSITIONAL_OR_KEYWORD | VAR_POSITIONAL | KEYWORD_ONLY
  | VAR_KEYWORD

text \<open>A default value by the type test it passes; floats and bytes with their printed form.\<close>

datatype default_value = DNone | DBool bool | DInt int | DFloat string | DBytes string | DStr string
  | DOther

record sig_param =
  p_name :: string
  p_kind :: param_kind
  p_default :: "default_value option"

record py_func =
  f_sig :: "sig_param list option"
  f_coroutine :: bool
  f_asyncgen :: bool
  f_doc :: "string option"

datatype member = Descriptor "string option" | Func py_func | ClassMethod py_func | Opaque

record py_cls =
  c_name :: string
  c_bases :: "string list"
  c_doc :: "string option"
  c_dict :: "(string \<times> member) list"

record py_module =
  m_classes :: "(string \<times> py_cls) list"
  m_functions :: "(string \<times> py_func) list"

section \<open>Type-override tables\<close>

definition DATA_TYPE :: string where
  "DATA_TYPE = ''bytes | Message | Buffer | bytearray | str''"

definition PARAM_TYPES :: "(string \<times> string) list" where
  "PARAM_TYPES =
    [(''data'', DATA_TYPE),
     (''url'', ''str | bytes''),
     (''tls'', ''TlsConfig | None''),
     (''callback'', (''Callable['' @ ''[Pipe], None] | None'')),
     (''prefix'', ''bytes''),
     (''capacity'', ''int''),
     (''new_size'', ''int''),
     (''nonblock'', ''bool''),
     (''block'', ''bool''),
     (''server'', ''bool''),
     (''v0'', ''bool''),
     (''poly'', ''bool''),
     (''raw'', ''bool''),
     (''size'', ''int''),
     (''n'', ''int''),
     (''ms'', ''int''),
     (''mode'', ''int''),
     (''min_ver'', ''int''),
     (''max_ver'', ''int''),
     (''v'', ''int''),
     (''cert_pem'', ''str''),
     (''crl_pem'', ''str | None''),
     (''key_pem'', ''str''),
     (''password'', ''str | None''),
     (''path'', ''str''),
     (''name'', ''str''),
     (''raw_key'', ''bytes''),
     (''identity'', ''str''),
     (''psks'', ''dict[str, bytes]''),
     (''min_version'', ''int | None''),
     (''max_version'', ''int | None''),
     (''reconnect_min_ms'', ''int | None''),
     (''reconnect_max_ms'', ''int | None''),
     (''recv_timeout'', ''int | None''),
     (''send_timeout'', ''int | None''),
     (''tcp_keepalive'', ''bool | None''),
     (''tcp_nodelay'', ''bool | None''),
     (''tcp_local_addr'', ''str | None''),
     (''num_task_threads'', ''int''),
     (''max_task_threads'', ''int''),
     (''num_expire_threads'', ''int''),
     (''max_expire_threads'', ''int''),
     (''num_poller_threads'', ''int''),
     (''max_poller_threads'', ''int''),
     (''num_resolver_threads'', ''int'')]"

definition METHOD_PARAM_TYPES :: "((string option \<times> string \<times> string) \<times> string) list" where
  "METHOD_PARAM_TYPES =
    [(((Some ''Context''), ''recv_timeout'', ''ms''), ''int''),
     (((Some ''Context''), ''send_timeout'', ''ms''), ''int''),
     (((Some ''Socket''), ''recv_timeout'', ''ms''), ''int''),
     (((Some ''Socket''), ''send_timeout'', ''ms''), ''int''),
     (((Some ''Socket''), ''recv_buf'', ''n''), ''int''),
     (((Some ''Socket''), ''send_buf'', ''n''), ''int''),
     (((Some ''Socket''), ''recv_max_size'', ''n''), ''int''),
     (((Some ''PairSocket''), ''polyamorous'', ''v''), ''bool''),
     (((Some ''ReqSocket''), ''resend_time'', ''ms''), ''int''),
     (((Some ''SurveyorSocket''), ''survey_time'', ''ms''), ''int''),
     (((Some ''NngError''), ''__init__'', ''code''), ''int''),
     (((Some ''NngError''), ''__init__'', ''message''), ''str | None'')]"

definition RETURN_TYPES :: "((string option \<times> string) \<times> string) list" where
  "RETURN_TYPES =
    [((None, ''__init__''), ''None''),
     ((None, ''__enter__''), ''Self''),
     ((None, ''__exit__''), ''None''),
     ((None, ''__repr__''), ''str''),
     ((None, ''__str__''), ''str''),
     ((None, ''__len__''), ''int''),
     ((None, ''__hash__''), ''int''),
     ((None, ''__index__''), ''int''),
     ((None, ''__bool__''), ''bool''),
     ((None, ''__eq__''), ''bool''),
     ((None, ''__ne__''), ''bool''),
     ((None, ''close''), ''None''),
     ((None, ''start''), ''None''),
     ((None, ''send''), ''None''),
     ((None, ''recv''), ''Message''),
     ((None, ''asend''), ''None''),
     ((None, ''arecv''), ''Message''),
     ((None, ''submit_send''), ''concurrent.futures.Future[None]''),
     ((None, ''submit_recv''), ''concurrent.futures.Future[Message]''),
     ((None, ''arecv_ready''), ''AsyncGenerator[None, None]''),
     ((None, ''asend_ready''), ''AsyncGenerator[None, None]''),
     ((None, ''open_context''), ''Context''),
     ((None, ''dup''), ''Message''),
     ((None, ''to_bytes''), ''bytes''),
     ((None, ''clear''), ''None''),
     ((None, ''reserve''), ''None''),
     ((None, ''resize''), ''None''),
     ((None, ''append''), ''None''),
     ((None, ''insert''), ''None''),
     ((None, ''trim''), ''None''),
     ((None, ''chop''), ''None''),
     ((None, ''append_u16''), ''None''),
     ((None, ''append_u32''), ''None''),
     ((None, ''append_u64''), ''None''),
     ((None, ''chop_u16''), ''int''),
     ((None, ''chop_u32''), ''int''),
     ((None, ''chop_u64''), ''int''),
     ((None, ''trim_u16''), ''int''),
     ((None, ''trim_u32''), ''int''),
     ((None, ''trim_u64''), ''int''),
     ((None, ''subscribe''), ''None''),
     ((None, ''unsubscribe''), ''None''),
     ((None, ''get_peer_addr''), ''SocketAddr''),
     ((None, ''get_self_addr''), ''SocketAddr''),
     (((Some ''TlsConfig''), ''for_client''), ''TlsConfig''),
     (((Some ''TlsConfig''), ''for_server''), ''TlsConfig''),
     (((Some ''TlsConfig''), ''for_psk_client''), ''TlsConfig''),
     (((Some ''TlsConfig''), ''for_psk_server''), ''TlsConfig''),
     (((Some ''TlsCert''), ''from_pem''), ''TlsCert''),
     (((Some ''TlsCert''), ''from_der''), ''TlsCert''),
     (((Some ''TlsCert''), ''to_der''), ''bytes''),
     (((Some ''Pipe''), ''get_peer_cert''), ''TlsCert | None''),
     (((Some ''Socket''), ''add_dialer''), ''Dialer''),
     (((Some ''Socket''), ''add_listener''), ''Listener''),
     (((Some ''SubSocket''), ''open_context''), ''SubContext''),
     (((Some ''ReqSocket''), ''open_context''), ''ReqContext''),
     (((Some ''SurveyorSocket''), ''open_context''), ''SurveyorContext'')]"

definition PROP_TYPES :: "((string option \<times> string) \<times> string) list" where
  "PROP_TYPES =
    [((None, ''id''), ''int''),
     ((None, ''body''), ''memoryview''),
     ((None, ''header''), ''bytes''),
     ((None, ''pipe_id''), ''int''),
     ((None, ''pipe''), ''Pipe | None''),
     ((None, ''status''), ''PipeStatus''),
     ((None, ''socket''), ''Socket | None''),
     ((None, ''dialer''), ''Dialer | None''),
     ((None, ''listener''), ''Listener | None''),
     ((None, ''on_new_pipe''), (''Callable['' @ ''[Pipe], None] | None'')),
     ((None, ''on_status_change''), (''Callable['' @ ''[], None] | None'')),
     ((None, ''pipe_filter''), ''PipeFilter | None''),
     ((None, ''close_on_disconnect''), ''bool''),
     ((None, ''recv_timeout''), ''int''),
     ((None, ''send_timeout''), ''int''),
     ((None, ''recv_buf''), ''int''),
     ((None, ''send_buf''), ''int''),
     ((None, ''recv_max_size''), ''int''),
     ((None, ''recv_fd''), ''int''),
     ((None, ''send_fd''), ''int''),
     ((None, ''pipes''), ''list[Pipe]''),
     ((None, ''proto_name''), ''str''),
     ((None, ''peer_name''), ''str''),
     ((None, ''polyamorous''), ''bool''),
     ((None, ''resend_time''), ''int''),
     ((None, ''resend_tick''), ''int''),
     ((None, ''skip_older_on_full_queue''), ''bool''),
     ((None, ''survey_time''), ''int''),
     ((None, ''port''), ''int''),
     ((None, ''tcp_keepalive''), ''bool''),
     ((None, ''tcp_nodelay''), ''bool''),
     ((None, ''subject''), ''str''),
     ((None, ''issuer''), ''str''),
     ((None, ''serial_number''), ''str''),
     ((None, ''subject_cn''), ''str''),
     ((None, ''alt_names''), ''list[str]''),
     ((None, ''not_before''), ''datetime.datetime''),
     ((None, ''not_after''), ''datetime.datetime''),
     ((None, ''tls_verified''), ''bool''),
     ((None, ''tls_peer_cn''), ''str | None'')]"

definition WRITABLE_PROPS :: "(string \<times> string) list" where
  "WRITABLE_PROPS =
    [(''Socket'', ''recv_timeout''),
     (''Socket'', ''send_timeout''),
     (''Socket'', ''recv_max_size''),
     (''Context'', ''recv_timeout''),
     (''Context'', ''send_timeout''),
     (''Context'', ''resend_time''),
     (''Context'', ''recv_buf''),
     (''Context'', ''skip_older_on_full_queue''),
     (''Context'', ''survey_time''),
     (''ReqContext'', ''resend_time''),
     (''SubContext'', ''recv_buf''),
     (''SubContext'', ''skip_older_on_full_queue''),
     (''SurveyorContext'', ''survey_time''),
     (''Socket'', ''on_new_pipe''),
     (''Pipe'', ''on_status_change''),
     (''PairSocket'', ''polyamorous''),
     (''PairSocket'', ''recv_buf''),
     (''PairSocket'', ''send_buf''),
     (''PubSocket'', ''send_buf''),
     (''SubSocket'', ''recv_buf''),
     (''SubSocket'', ''skip_older_on_full_queue''),
     (''ReqSocket'', ''resend_time''),
     (''ReqSocket'', ''resend_tick''),
     (''PushSocket'', ''send_buf''),
     (''SurveyorSocket'', ''survey_time''),
     (''SurveyorSocket'', ''recv_buf''),
     (''SurveyorSocket'', ''send_buf''),
     (''BusSocket'', ''recv_buf''),
     (''BusSocket'', ''send_buf''),
     (''Socket'', ''pipe_filter''),
     (''PairSocket'', ''close_on_disconnect'')]"

definition SETTER_TYPES :: "((string \<times> string) \<times> string) list" where
  "SETTER_TYPES =
    [((''Socket'', ''pipe_filter''), ''PipeFilter | None''),
     ((''Socket'', ''on_new_pipe''), (''Callable['' @ ''[Pipe], None] | None'')),
     ((''Pipe'', ''on_status_change''), (''Callable['' @ ''[], None] | None''))]"

definition HARDCODED_PARAM_STRINGS :: "((string \<times> string) \<times> string) list" where
  "HARDCODED_PARAM_STRINGS =
    [((''Message'', ''__init__''),
      ''self, data: bytes | Buffer | bytearray | str | None = None, *, size: int = 0''),
     ((''TlsConfig'', ''for_client''),
      ''cls, *, server_name: str | None = None, ca_pem: str | None = None, crl_pem: str | None = None, ca_file: str | None = None, cert_pem: str | None = None, key_pem: str | None = None, cert_file: str | None = None, password: str | None = None, auth_mode: int | None = None, min_version: int | None = None, max_version: int | None = None''),
     ((''TlsConfig'', ''for_server''),
      ''cls, *, cert_pem: str | None = None, key_pem: str | None = None, cert_file: str | None = None, password: str | None = None, ca_pem: str | None = None, crl_pem: str | None = None, ca_file: str | None = None, auth_mode: int | None = None, min_version: int | None = None, max_version: int | None = None''),
     ((''TlsConfig'', ''for_psk_client''),
      ''cls, identity: str, key: bytes, *, min_version: int | None = None, max_version: int | None = None''),
     ((''TlsConfig'', ''for_psk_server''),
      ''cls, psks: dict[str, bytes], *, min_version: int | None = None, max_version: int | None = None'')]"

definition ASYNC_GENERATORS :: "string list" where
  "ASYNC_GENERATORS =
    [''arecv_ready'',
     ''asend_ready'']"

definition SKIP_METHODS :: "string list" where
  "SKIP_METHODS =
    [''__cinit__'',
     ''__dealloc__'',
     ''__getbuffer__'',
     ''__releasebuffer__'',
     ''__pyx_cython_api__'',
     ''__reduce__'',
     ''__reduce_ex__'',
     ''__class__'',
     ''__dict__'',
     ''__doc__'',
     ''__module__'',
     ''__weakref__'',
     ''__new__'',
     ''__subclasshook__'',
     ''__init_subclass__'',
     ''__getattr__'',
     ''__setattr__'']"

section \<open>Helpers\<close>

definition I1 :: string where
  "I1 = ''    ''"

definition getdoc :: "string option \<Rightarrow> string option" where
  "getdoc doc =
     (case doc of
        None \<Rightarrow> None
      | Some t \<Rightarrow>
          if t = [] then None
          else if py_strip t = ''Initialize self.  See help(type(self)) for accurate signature.'' then None
          else Some t)"

definition format_doc :: "string \<Rightarrow> string \<Rightarrow> string list" where
  "format_doc indent doc =
     (let ls = splitlines doc in
      if length ls = 1 then [indent @ dq3 @ ls ! 0 @ dq3]
      else [indent @ dq3] @ map (\<lambda>l. if l \<noteq> [] then indent @ l else []) ls @ [indent @ dq3])"

text \<open>\<open>a or b\<close> on optional strings: the empty string counts as absent.\<close>

definition py_or :: "string option \<Rightarrow> string option \<Rightarrow> string option" where
  "py_or a b = (case a of Some x \<Rightarrow> if x \<noteq> [] then a else b | None \<Rightarrow> b)"

definition prop_type :: "string \<Rightarrow> string \<Rightarrow> string" where
  "prop_type cls name =
     the_default ''Any'' (py_or (map_of PROP_TYPES (Some cls, name)) (map_of PROP_TYPES (None, name)))"

definition return_type :: "string \<Rightarrow> string \<Rightarrow> string" where
  "return_type cls name =
     the_default ''Any'' (py_or (map_of RETURN_TYPES (Some cls, name)) (map_of RETURN_TYPES (None, name)))"

definition param_type :: "string \<Rightarrow> string \<Rightarrow> string \<Rightarrow> string" where
  "param_type cls meth name =
     the_default ''Any''
       (py_or (map_of METHOD_PARAM_TYPES (Some cls, meth, name))
         (py_or (map_of METHOD_PARAM_TYPES (None, meth, name)) (map_of PARAM_TYPES name)))"

definition is_property :: "member \<Rightarrow> bool" where
  "is_property d \<longleftrightarrow> (case d of Descriptor _ \<Rightarrow> True | _ \<Rightarrow> False)"

definition is_writable :: "string \<Rightarrow> string \<Rightarrow> bool" where
  "is_writable cls name \<longleftrightarrow> (cls, name) \<in> set WRITABLE_PROPS"

section \<open>Signatures\<close>

definition default_str :: "default_value option \<Rightarrow> string" where
  "default_str d =
     (case d of
        None \<Rightarrow> []
      | Some DNone \<Rightarrow> '' = None''
      | Some (DBool b) \<Rightarrow> '' = '' @ (if b then ''True'' else ''False'')
      | Some (DInt i) \<Rightarrow> '' = '' @ str_int i
      | Some (DFloat r) \<Rightarrow> '' = '' @ r
      | Some (DBytes r) \<Rightarrow> '' = '' @ r
      | Some (DStr t) \<Rightarrow> '' = '' @ [CHR 0x22] @ t @ [CHR 0x22]
      | Some DOther \<Rightarrow> '' = ...'')"

text \<open>
  The separator that precedes a parameter and the text of the parameter itself, given the
  kind of the previous parameter.
\<close>

definition needs_star :: "param_kind option \<Rightarrow> param_kind \<Rightarrow> bool" where
  "needs_star prev kind \<longleftrightarrow>
     kind = KEYWORD_ONLY \<and> prev \<noteq> Some KEYWORD_ONLY \<and> prev \<noteq> Some VAR_POSITIONAL"

definition param_text :: "string \<Rightarrow> string \<Rightarrow> sig_param \<Rightarrow> string" where
  "param_text cls meth p =
     (if p_name p = ''self'' then ''self''
      else
        (let ty = (if take 2 (p_name p) = ''**'' then ''Any'' else param_type cls meth (p_name p)) in
         case p_kind p of
           VAR_POSITIONAL \<Rightarrow> ''*'' @ p_name p @ '': '' @ ty
         | VAR_KEYWORD \<Rightarrow> ''**'' @ p_name p @ '': '' @ ty
         | _ \<Rightarrow> p_name p @ '': '' @ ty @ default_str (p_default p)))"

fun param_parts :: "string \<Rightarrow> string \<Rightarrow> param_kind option \<Rightarrow> sig_param list \<Rightarrow> string list" where
  "param_parts cls meth prev [] = []"
| "param_parts cls meth prev (p # ps) =
     (if needs_star prev (p_kind p) then [''*''] else []) @ [param_text cls meth p] @
     param_parts cls meth (Some (p_kind p)) ps"

definition build_param_str :: "string \<Rightarrow> string \<Rightarrow> sig_param list \<Rightarrow> string" where
  "build_param_str cls meth sig = join '', '' (param_parts cls meth None sig)"

section \<open>Methods and properties\<close>

definition emit_method :: "string \<Rightarrow> string \<Rightarrow> py_func \<Rightarrow> string \<Rightarrow> bool \<Rightarrow> string list" where
  "emit_method cls meth f indent is_classmethod =
     (let is_async_gen = (f_asyncgen f \<or> meth \<in> set ASYNC_GENERATORS);
          is_async = (f_coroutine f \<and> \<not> is_async_gen);
          prefix = (if is_async then ''async '' else []);
          ret = return_type cls meth;
          param_str =
            (case map_of HARDCODED_PARAM_STRINGS (cls, meth) of
               Some t \<Rightarrow> t
             | None \<Rightarrow>
                 (case f_sig f of
                    Some sig \<Rightarrow> build_param_str cls meth sig
                  | None \<Rightarrow> (if is_classmethod then ''cls'' else ''self'') @ '', *args: Any, **kwargs: Any''))
      in (if is_classmethod then [indent @ [CHR 0x40] @ ''classmethod''] else []) @
         [indent @ prefix @ ''def '' @ meth @ ''('' @ param_str @ '') -> '' @ ret @ '':''] @
         (case getdoc (f_doc f) of None \<Rightarrow> [] | Some doc \<Rightarrow> format_doc (indent @ I1) doc) @
         [indent @ I1 @ ''...''])"

definition setter_type :: "string \<Rightarrow> string \<Rightarrow> string" where
  "setter_type cls name =
     the_default (strip_none (prop_type cls name)) (py_or (map_of SETTER_TYPES (cls, name)) None)"

definition emit_property :: "string \<Rightarrow> string \<Rightarrow> string option \<Rightarrow> string \<Rightarrow> string list" where
  "emit_property cls name doc indent =
     [indent @ [CHR 0x40] @ ''property'',
      indent @ ''def '' @ name @ ''(self) -> '' @ prop_type cls name @ '':''] @
     (case getdoc doc of None \<Rightarrow> [] | Some d \<Rightarrow> format_doc (indent @ I1) d) @
     [indent @ I1 @ ''...''] @
     (if is_writable cls name
      then [indent @ [CHR 0x40] @ name @ ''.setter'',
            indent @ ''def '' @ name @ ''(self, value: '' @ setter_type cls name @ '') -> None: ...'']
      else [])"

section \<open>Classes\<close>

definition class_members :: "py_cls \<Rightarrow> string list \<times> string list" where
  "class_members c =
     (let names = filter (\<lambda>n. n \<notin> set SKIP_METHODS) (sort (map fst (c_dict c))) in
      (filter (\<lambda>n. is_property (the (map_of (c_dict c) n))) names,
       filter (\<lambda>n. case the (map_of (c_dict c) n) of Func _ \<Rightarrow> True | ClassMethod _ \<Rightarrow> True | _ \<Rightarrow> False)
         names))"

definition method_order_key :: "string \<Rightarrow> nat \<times> string" where
  "method_order_key name =
     (if name = ''__init__'' then (0, name)
      else if take 2 name \<noteq> ''__'' then (1, name)
      else (2, name))"

definition property_order_key :: "string \<Rightarrow> nat \<times> string" where
  "property_order_key name = (if take 1 name \<noteq> ''_'' then (0, name) else (1, name))"

definition bases_str :: "py_cls \<Rightarrow> string" where
  "bases_str c =
     (let bs = filter (\<lambda>b. b \<noteq> ''object'') (c_bases c) in
      if bs = [] then [] else ''('' @ join '', '' bs @ '')'')"

definition emit_member_method :: "py_cls \<Rightarrow> string \<Rightarrow> string list" where
  "emit_member_method c name =
     (case map_of (c_dict c) name of
        Some (Func f) \<Rightarrow> emit_method (c_name c) name f I1 False
      | Some (ClassMethod f) \<Rightarrow> emit_method (c_name c) name f I1 (name \<noteq> ''__init__'')
      | _ \<Rightarrow> []) @ ['''']"

definition emit_member_prop :: "py_cls \<Rightarrow> string \<Rightarrow> string list" where
  "emit_member_prop c name =
     (case map_of (c_dict c) name of
        Some (Descriptor doc) \<Rightarrow> emit_property (c_name c) name doc I1
      | _ \<Rightarrow> []) @ ['''']"

definition emit_class :: "py_cls \<Rightarrow> string list" where
  "emit_class c =
     [''class '' @ c_name c @ bases_str c @ '':''] @
     (case getdoc (c_doc c) of
        None \<Rightarrow> [I1 @ ''...'']
      | Some doc \<Rightarrow>
          format_doc I1 doc @
          (let (props, methods) = class_members c;
               ms = sort_key method_order_key methods;
               ps = sort_key property_order_key props;
               inits = filter (\<lambda>n. n = ''__init__'') ms;
               rest = filter (\<lambda>n. n \<noteq> ''__init__'') ms
           in concat (map (emit_member_method c) inits) @
              concat (map (emit_member_prop c) ps) @
              concat (map (emit_member_method c) rest) @
              (if inits = [] \<and> ps = [] \<and> rest = [] then [I1 @ ''...''] else [])))"

section \<open>Module level\<close>

definition KNOWN_INT_CONSTANTS :: "string list" where
  "KNOWN_INT_CONSTANTS =
    [''TLS_AUTH_NONE'',
     ''TLS_AUTH_OPTIONAL'',
     ''TLS_AUTH_REQUIRED'',
     ''TLS_VERSION_1_2'',
     ''TLS_VERSION_1_3'']"

definition emit_module_constants :: "string list" where
  "emit_module_constants =
     [''# Module-level constants'', ''''] @
     map (\<lambda>n. n @ '': int'') (sort KNOWN_INT_CONSTANTS) @ ['''']"

definition module_function_names :: "string list" where
  "module_function_names = [''version'', ''random'', ''initialize'', ''tls_engine_name'', ''tls_engine_description'']"

definition emit_module_functions :: "py_module \<Rightarrow> string list" where
  "emit_module_functions M =
     [''# Module-level functions'', ''''] @
     concat (map (\<lambda>name.
       case map_of (m_functions M) name of
         None \<Rightarrow> []
       | Some f \<Rightarrow>
           [''def '' @ name @ ''('' @
              (case f_sig f of
                 Some sig \<Rightarrow> build_param_str [] name sig
               | None \<Rightarrow> ''*args: Any, **kwargs: Any'') @
            '') -> '' @ return_type [] name @ '':''] @
           (case getdoc (f_doc f) of None \<Rightarrow> [] | Some doc \<Rightarrow> format_doc I1 doc) @
           [I1 @ ''...'', '''']) module_function_names)"

definition EXCEPTIONS :: "(string \<times> string list \<times> string option) list" where
  "EXCEPTIONS =
    [(''NngError'', [''Exception''], Some (''Base exception for all nng errors.'' @ [CHR 0x0A] @ [CHR 0x0A] @ [CHR 0x60] @ [CHR 0x60] @ ''code'' @ [CHR 0x60] @ [CHR 0x60] @ '' is the raw nng error integer.'')),
     (''NngTimeout'', [''NngError'', ''TimeoutError''], None),
     (''NngConnectionRefused'', [''NngError'', ''ConnectionRefusedError''], None),
     (''NngClosed'', [''NngError''], None),
     (''NngAgain'', [''NngError''], None),
     (''NngNotSupported'', [''NngError'', ''NotImplementedError''], None),
     (''NngAddressInUse'', [''NngError'', ''OSError''], None),
     (''NngPermission'', [''NngError'', ''PermissionError''], None),
     (''NngCanceled'', [''NngError''], None),
     (''NngConnectionReset'', [''NngError'', ''ConnectionResetError''], None),
     (''NngConnectionAborted'', [''NngError'', ''ConnectionAbortedError''], None),
     (''NngNoMemory'', [''NngError'', ''MemoryError''], None),
     (''NngInvalidArgument'', [''NngError'', ''ValueError''], None),
     (''NngState'', [''NngError''], None),
     (''NngAuthError'', [''NngError''], None),
     (''NngCryptoError'', [''NngError''], None)]"

definition emit_exception :: "py_module \<Rightarrow> string \<times> string list \<times> string option \<Rightarrow> string list" where
  "emit_exception M row =
     (case row of (name, bs, forced_doc) \<Rightarrow>
        (let live_doc = (case map_of (m_classes M) name of None \<Rightarrow> None | Some c \<Rightarrow> getdoc (c_doc c)) in
         [''class '' @ name @ ''('' @ join '', '' bs @ ''):''] @
         (if name = ''NngError''
          then (case py_or forced_doc live_doc of None \<Rightarrow> [] | Some d \<Rightarrow> format_doc I1 d) @
               [I1 @ ''code: int'',
                I1 @ ''def __init__(self, code: int, message: str | None = None) -> None: ...'',
                I1 @ ''def __str__(self) -> str: ...'']
          else (case live_doc of None \<Rightarrow> [] | Some d \<Rightarrow> format_doc I1 d) @ [I1 @ ''...'']) @
         ['''']))"

definition emit_exceptions :: "py_module \<Rightarrow> string list" where
  "emit_exceptions M = concat (map (emit_exception M) EXCEPTIONS)"

definition cls_doc :: "py_module \<Rightarrow> string \<Rightarrow> string option" where
  "cls_doc M name = (case map_of (m_classes M) name of None \<Rightarrow> None | Some c \<Rightarrow> getdoc (c_doc c))"

definition stub_header :: "py_module \<Rightarrow> string \<Rightarrow> string \<Rightarrow> string list" where
  "stub_header M decl name =
     [decl] @ (case cls_doc M name of None \<Rightarrow> [] | Some d \<Rightarrow> format_doc I1 d)"

text \<open>The constructor of a filter that takes one iterable and a mode.\<close>

definition filter_init :: "string \<Rightarrow> string list" where
  "filter_init arg =
     [I1 @ ''def __init__('', I1 @ I1 @ ''self,'', I1 @ I1 @ arg, I1 @ I1 @ ''*,'',
      I1 @ I1 @ ''mode: FilterMode = ...,'', I1 @ '') -> None: ...'', '''']"

definition emit_filter_types :: "py_module \<Rightarrow> string list" where
  "emit_filter_types M =
     stub_header M ''class FilterMode(IntEnum):'' ''FilterMode'' @
     [I1 @ ''ALLOW: int'', I1 @ ''DENY: int'', ''''] @
     stub_header M ''class FilterKey(IntFlag):'' ''FilterKey'' @
     [I1 @ ''PID: int'', I1 @ ''IP: int'', I1 @ ''PORT: int'', ''''] @
     stub_header M ''class PipeFilter:'' ''PipeFilter'' @
     [I1 @ ''def __and__(self, other: PipeFilter) -> PipeFilter: ...'',
      I1 @ ''def __or__(self, other: PipeFilter) -> PipeFilter: ...'', ''''] @
     stub_header M ''class IpFilter(PipeFilter):'' ''IpFilter'' @
     filter_init ''addresses: Iterable[str | Any],'' @
     stub_header M ''class PortFilter(PipeFilter):'' ''PortFilter'' @
     filter_init ''ports: Iterable[int | tuple[int, int]],'' @
     stub_header M ''class PidFilter(PipeFilter):'' ''PidFilter'' @
     filter_init ''pids: Iterable[int],'' @
     stub_header M ''class FirstWinsFilter(PipeFilter):'' ''FirstWinsFilter'' @
     [I1 @ ''def __init__(self, *, on: FilterKey = ...) -> None: ...'',
      I1 @ ''def reset(self) -> None: ...'', '''']"

definition emit_pipe_status :: "py_module \<Rightarrow> string list" where
  "emit_pipe_status M =
     stub_header M ''class PipeStatus(int):'' ''PipeStatus'' @
     map (\<lambda>n. I1 @ n @ '': ClassVar[PipeStatus]'') [''ADDING'', ''ACTIVE'', ''REMOVED''] @ ['''']"

definition CLASS_ORDER :: "string list" where
  "CLASS_ORDER =
    [''Message'',
     ''TlsCert'',
     ''TlsConfig'',
     ''SocketAddr'',
     ''Pipe'',
     ''Dialer'',
     ''Listener'',
     ''Context'',
     ''ReqContext'',
     ''SubContext'',
     ''SurveyorContext'',
     ''Socket'',
     ''PairSocket'',
     ''PubSocket'',
     ''SubSocket'',
     ''ReqSocket'',
     ''RepSocket'',
     ''PushSocket'',
     ''PullSocket'',
     ''SurveyorSocket'',
     ''RespondentSocket'',
     ''BusSocket'']"

definition HEADER :: string where
  "HEADER = unlines
    [(''# This file is auto-generated by stubs/generate_stubs.py '' @ [CHR 0xE2, CHR 0x80, CHR 0x93] @ '' do not edit manually.''),
     ''# Re-run the script after changing any .pxi / .pyx source.'',
     '''',
     ''import concurrent.futures'',
     ''import datetime'',
     ''import sys'',
     ''from collections.abc import AsyncGenerator, Callable, Iterable'',
     ''from enum import IntEnum, IntFlag'',
     ''from typing import Any, ClassVar, Self'',
     '''',
     ''if sys.version_info >= (3, 12):'',
     ''    from collections.abc import Buffer'',
     ''else:'',
     ''    from typing import TypeAlias'',
     ''    Buffer: TypeAlias = memoryview'',
     '''']"

definition rule_line :: string where
  "rule_line = ''# '' @ replicate 75 CHR 0x2D @ [nl]"

definition banner :: "string \<Rightarrow> string" where
  "banner title = rule_line @ ''# '' @ title @ [nl] @ rule_line @ [nl]"

text \<open>\<open>main()\<close>: the text written to the stub file.\<close>

definition stub_content :: "py_module \<Rightarrow> string" where
  "stub_content M =
     HEADER @
     banner ''Exceptions'' @ join [nl] (emit_exceptions M) @
     banner ''Pipe lifecycle enum'' @ join [nl] (emit_pipe_status M) @ [nl] @
     banner ''Pipe connection filters'' @ join [nl] (emit_filter_types M) @ [nl] @
     banner ''Core types'' @
     concat (map (\<lambda>n. case map_of (m_classes M) n of
        None \<Rightarrow> [] | Some c \<Rightarrow> join [nl] (emit_class c) @ [nl, nl]) CLASS_ORDER) @
     banner ''Module-level constants'' @ join [nl] emit_module_constants @ [nl] @
     banner ''Module-level functions'' @ join [nl] (emit_module_functions M)"

text \<open>The classes \<open>main()\<close> warns about and skips.\<close>

definition skipped_classes :: "py_module \<Rightarrow> string list" where
  "skipped_classes M = filter (\<lambda>n. map_of (m_classes M) n = None) CLASS_ORDER"

section \<open>Exports of the package\<close>

definition package_imports :: "string list" where
  "package_imports =
    [''Socket'',
     ''PairSocket'',
     ''PubSocket'',
     ''SubSocket'',
     ''ReqSocket'',
     ''RepSocket'',
     ''PushSocket'',
     ''PullSocket'',
     ''SurveyorSocket'',
     ''RespondentSocket'',
     ''BusSocket'',
     ''Message'',
     ''Context'',
     ''ReqContext'',
     ''SubContext'',
     ''SurveyorContext'',
     ''Dialer'',
     ''Listener'',
     ''Pipe'',
     ''PipeStatus'',
     ''TlsCert'',
     ''TlsConfig'',
     ''SocketAddr'',
     ''NngError'',
     ''NngTimeout'',
     ''NngConnectionRefused'',
     ''NngClosed'',
     ''NngAgain'',
     ''NngNotSupported'',
     ''NngAddressInUse'',
     ''NngPermission'',
     ''NngCanceled'',
     ''NngConnectionReset'',
     ''NngConnectionAborted'',
     ''NngNoMemory'',
     ''NngInvalidArgument'',
     ''NngState'',
     ''NngAuthError'',
     ''NngCryptoError'',
     ''TLS_AUTH_NONE'',
     ''TLS_AUTH_OPTIONAL'',
     ''TLS_AUTH_REQUIRED'',
     ''TLS_VERSION_1_2'',
     ''TLS_VERSION_1_3'',
     ''tls_engine_name'',
     ''tls_engine_description'',
     ''FilterMode'',
     ''FilterKey'',
     ''PipeFilter'',
     ''IpFilter'',
     ''PortFilter'',
     ''PidFilter'',
     ''FirstWinsFilter'',
     ''version'',
     ''random'',
     ''initialize'']"

definition package_all :: "string list" where
  "package_all =
    [''Socket'',
     ''PairSocket'',
     ''PubSocket'',
     ''SubSocket'',
     ''ReqSocket'',
     ''RepSocket'',
     ''PushSocket'',
     ''PullSocket'',
     ''SurveyorSocket'',
     ''RespondentSocket'',
     ''BusSocket'',
     ''Message'',
     ''Context'',
     ''ReqContext'',
     ''SubContext'',
     ''SurveyorContext'',
     ''Dialer'',
     ''Listener'',
     ''Pipe'',
     ''PipeStatus'',
     ''TlsCert'',
     ''TlsConfig'',
     ''SocketAddr'',
     ''NngError'',
     ''NngTimeout'',
     ''NngConnectionRefused'',
     ''NngClosed'',
     ''NngAgain'',
     ''NngNotSupported'',
     ''NngAddressInUse'',
     ''NngPermission'',
     ''NngCanceled'',
     ''NngConnectionReset'',
     ''NngConnectionAborted'',
     ''NngNoMemory'',
     ''NngInvalidArgument'',
     ''NngState'',
     ''NngAuthError'',
     ''NngCryptoError'',
     ''PIPE_EV_ADD_PRE'',
     ''PIPE_EV_ADD_POST'',
     ''PIPE_EV_REM_POST'',
     ''TLS_AUTH_NONE'',
     ''TLS_AUTH_OPTIONAL'',
     ''TLS_AUTH_REQUIRED'',
     ''TLS_VERSION_1_2'',
     ''TLS_VERSION_1_3'',
     ''tls_engine_name'',
     ''tls_engine_description'',
     ''FilterMode'',
     ''FilterKey'',
     ''PipeFilter'',
     ''IpFilter'',
     ''PortFilter'',
     ''PidFilter'',
     ''FirstWinsFilter'',
     ''version'',
     ''random'',
     ''initialize'']"

text \<open>
  \<open>from nng import *\<close> binds every name of \<open>__all__\<close>; a name the package does not define
  raises \<open>AttributeError\<close>.
\<close>

definition import_star :: "string list result" where
  "import_star = eachR (\<lambda>n. if n \<in> set package_imports then Inr n else Inl (PyExn AttributeError)) package_all"

section \<open>Names of the exception classes\<close>

fun nng_name :: "nng_class \<Rightarrow> string" where
  "nng_name NngError = ''NngError''"
| "nng_name NngTimeout = ''NngTimeout''"
| "nng_name NngConnectionRefused = ''NngConnectionRefused''"
| "nng_name NngClosed = ''NngClosed''"
| "nng_name NngAgain = ''NngAgain''"
| "nng_name NngNotSupported = ''NngNotSupported''"
| "nng_name NngAddressInUse = ''NngAddressInUse''"
| "nng_name NngPermission = ''NngPermission''"
| "nng_name NngCanceled = ''NngCanceled''"
| "nng_name NngConnectionReset = ''NngConnectionReset''"
| "nng_name NngConnectionAborted = ''NngConnectionAborted''"
| "nng_name NngNoMemory = ''NngNoMemory''"
| "nng_name NngInvalidArgument = ''NngInvalidArgument''"
| "nng_name NngState = ''NngState''"
| "nng_name NngAuthError = ''NngAuthError''"
| "nng_name NngCryptoError = ''NngCryptoError''"

fun builtin_name :: "builtin_class \<Rightarrow> string" where
  "builtin_name PyException = ''Exception''"
| "builtin_name TimeoutError = ''TimeoutError''"
| "builtin_name ConnectionRefusedError = ''ConnectionRefusedError''"
| "builtin_name NotImplementedError = ''NotImplementedError''"
| "builtin_name OSError = ''OSError''"
| "builtin_name PermissionError = ''PermissionError''"
| "builtin_name ConnectionResetError = ''ConnectionResetError''"
| "builtin_name ConnectionAbortedError = ''ConnectionAbortedError''"
| "builtin_name MemoryError = ''MemoryError''"
| "builtin_name ValueError = ''ValueError''"
| "builtin_name _ = ''BaseException''"

fun class_name :: "py_class \<Rightarrow> string" where
  "class_name (NngC c) = nng_name c"
| "class_name (BuiltinC b) = builtin_name b"

section \<open>Reading a parameter list back\<close>

text \<open>
  How Python reads the kinds off a parameter list: everything after a bare star or a
  starred parameter is keyword-only.
\<close>

fun read_kinds :: "bool \<Rightarrow> string list \<Rightarrow> param_kind list" where
  "read_kinds star [] = []"
| "read_kinds star (t # ts) =
     (if t = ''*'' then read_kinds True ts
      else if take 2 t = ''**'' then VAR_KEYWORD # read_kinds star ts
      else if take 1 t = ''*'' then VAR_POSITIONAL # read_kinds True ts
      else (if star then KEYWORD_ONLY else POSITIONAL_OR_KEYWORD) # read_kinds star ts)"

fun kind_rank :: "param_kind \<Rightarrow> nat" where
  "kind_rank POSITIONAL_ONLY = 0"
| "kind_rank POSITIONAL_OR_KEYWORD = 1"
| "kind_rank VAR_POSITIONAL = 2"
| "kind_rank KEYWORD_ONLY = 3"
| "kind_rank VAR_KEYWORD = 4"

text \<open>The parameters a Python function can have, in the only order the language allows.\<close>

fun valid_sig :: "param_kind option \<Rightarrow> sig_param list \<Rightarrow> bool" where
  "valid_sig prev [] = True"
| "valid_sig prev (p # ps) =
     (p_name p \<noteq> [] \<and> hd (p_name p) \<noteq> CHR 0x2A \<and>
      (p_name p = ''self'' \<longrightarrow> p_kind p \<in> {POSITIONAL_ONLY, POSITIONAL_OR_KEYWORD}) \<and>
      (case prev of
         None \<Rightarrow> True
       | Some k \<Rightarrow> kind_rank k < kind_rank (p_kind p) \<or>
           (k = p_kind p \<and> k \<noteq> VAR_POSITIONAL \<and> k \<noteq> VAR_KEYWORD)) \<and>
      valid_sig (Some (p_kind p)) ps)"

definition read_kind :: "param_kind \<Rightarrow> param_kind" where
  "read_kind k = (if k = POSITIONAL_ONLY then POSITIONAL_OR_KEYWORD else k)"

lemma read_text:
  assumes "p_name p \<noteq> []" "hd (p_name p) \<noteq> CHR 0x2A"
    "p_name p = ''self'' \<longrightarrow> p_kind p \<in> {POSITIONAL_ONLY, POSITIONAL_OR_KEYWORD}"
  shows "read_kinds star (param_text c m p # ts) =
    (case p_kind p of
       VAR_KEYWORD \<Rightarrow> VAR_KEYWORD # read_kinds star ts
     | VAR_POSITIONAL \<Rightarrow> VAR_POSITIONAL # read_kinds True ts
     | _ \<Rightarrow> (if star then KEYWORD_ONLY else POSITIONAL_OR_KEYWORD) # read_kinds star ts)"
proof -
  obtain x xs where n: "p_name p = x # xs" "x \<noteq> CHR 0x2A" using assms(1,2) by (cases "p_name p") auto
  show ?thesis
    using assms(3) n by (cases "p_kind p") (auto simp: param_text_def Let_def)
qed

lemma read_star: "read_kinds star (''*'' # ts) = read_kinds True ts"
  by simp

declare read_kinds.simps(2) [simp del]

lemma read_parts:
  "valid_sig prev ps \<Longrightarrow> star = (prev \<in> {Some VAR_POSITIONAL, Some KEYWORD_ONLY}) \<Longrightarrow>
   read_kinds star (param_parts c m prev ps) = map (read_kind \<circ> p_kind) ps"
proof (induction ps arbitrary: prev star)
  case (Cons p ps)
  note v = Cons.prems(1)[simplified]
  have IH: "read_kinds (p_kind p \<in> {VAR_POSITIONAL, KEYWORD_ONLY}) (param_parts c m (Some (p_kind p)) ps) =
      map (read_kind \<circ> p_kind) ps"
    using Cons.IH [of "Some (p_kind p)"] v by simp
  have last: "ps = []" if "p_kind p = VAR_KEYWORD"
  proof (cases ps)
    case (Cons q qs)
    with v that show ?thesis by (cases "p_kind q") auto
  qed
  show ?case
    using v IH last Cons.prems(2)
    by (cases "p_kind p"; cases prev)
       (auto simp: needs_star_def read_text read_star read_kind_def split: param_kind.splits)
qed simp

section \<open>Members of an emitted class\<close>

text \<open>The members of a class in the order the stub lists them, each with its block.\<close>

definition member_order :: "py_cls \<Rightarrow> string list" where
  "member_order c =
     (let (props, methods) = class_members c; ms = sort_key method_order_key methods in
      filter (\<lambda>n. n = ''__init__'') ms @ sort_key property_order_key props @
      filter (\<lambda>n. n \<noteq> ''__init__'') ms)"

definition member_block :: "py_cls \<Rightarrow> string \<Rightarrow> string list" where
  "member_block c n =
     (if is_property (the (map_of (c_dict c) n)) then emit_member_prop c n else emit_member_method c n)"

definition listed :: "py_cls \<Rightarrow> string \<Rightarrow> bool" where
  "listed c n \<longleftrightarrow> n \<notin> set SKIP_METHODS \<and> (\<exists>d. map_of (c_dict c) n = Some d \<and> d \<noteq> Opaque)"

lemma hd_filter_eq: "x \<in> set (filter (\<lambda>n. n = x) xs) \<Longrightarrow> hd (filter (\<lambda>n. n = x) xs) = x"
  by (induction xs) auto

lemma class_members_sets:
  assumes "distinct (map fst (c_dict c))"
  shows "distinct (fst (class_members c)) \<and> distinct (snd (class_members c)) \<and>
    set (fst (class_members c)) = {n. listed c n \<and> is_property (the (map_of (c_dict c) n))} \<and>
    set (snd (class_members c)) = {n. listed c n \<and> \<not> is_property (the (map_of (c_dict c) n))}"
proof -
  have dom: "n \<in> fst ` set (c_dict c) \<longleftrightarrow> (\<exists>d. map_of (c_dict c) n = Some d)" for n
    by (metis domD domI dom_map_of_conv_image_fst)
  show ?thesis
    using assms dom
    by (auto simp: class_members_def Let_def listed_def is_property_def split: member.splits)
qed

lemma emit_class_blocks:
  assumes "getdoc (c_doc c) = Some doc" "distinct (map fst (c_dict c))"
  shows "emit_class c =
    [''class '' @ c_name c @ bases_str c @ '':''] @ format_doc I1 doc @
    concat (map (member_block c) (member_order c)) @
    (if member_order c = [] then [I1 @ ''...''] else [])"
proof -
  obtain props methods where cm: "class_members c = (props, methods)" by fastforce
  have p: "map (member_block c) (sort_key property_order_key props) =
      map (emit_member_prop c) (sort_key property_order_key props)"
    using class_members_sets [OF assms(2)] cm by (auto simp: member_block_def)
  have m: "map (member_block c) (filter P (sort_key method_order_key methods)) =
      map (emit_member_method c) (filter P (sort_key method_order_key methods))" for P
    using class_members_sets [OF assms(2)] cm by (auto simp: member_block_def)
  show ?thesis by (simp add: emit_class_def assms(1) member_order_def cm Let_def p m)
qed

section \<open>Properties\<close>

text \<open>The parameter list of a stub reads back as the signature it came from: every
  parameter keeps its name position and kind, with exactly the stars Python needs, except
  that a positional-only parameter becomes one that may also be passed by name.\<close>

theorem stub_signature_kinds:
  assumes "valid_sig None sig"
  shows "read_kinds False (param_parts cls meth None sig) = map (read_kind \<circ> p_kind) sig"
  by (rule read_parts [OF assms]) simp

definition sample_sig :: "sig_param list" where
  "sample_sig =
     [\<lparr>p_name = ''self'', p_kind = POSITIONAL_OR_KEYWORD, p_default = None\<rparr>,
      \<lparr>p_name = ''url'', p_kind = POSITIONAL_OR_KEYWORD, p_default = None\<rparr>,
      \<lparr>p_name = ''tls'', p_kind = KEYWORD_ONLY, p_default = Some DNone\<rparr>]"

theorem stub_signature_kinds_witness:
  "read_kinds False (param_parts ''Socket'' ''add_dialer'' None sample_sig) =
     [POSITIONAL_OR_KEYWORD, POSITIONAL_OR_KEYWORD, KEYWORD_ONLY]"
  using stub_signature_kinds [of sample_sig "''Socket''" "''add_dialer''"]
  by (simp add: sample_sig_def read_kind_def)

text \<open>A class with a docstring is emitted as its header, its docstring and one block
  for each member that is not suppressed, every such member exactly once, the constructor
  first; a class without a docstring is emitted empty, all its members are lost.\<close>

theorem stub_class_lists_members_once:
  assumes "distinct (map fst (c_dict c))"
  shows "case getdoc (c_doc c) of
      None \<Rightarrow> emit_class c = [''class '' @ c_name c @ bases_str c @ '':'', I1 @ ''...'']
    | Some doc \<Rightarrow>
        emit_class c =
          [''class '' @ c_name c @ bases_str c @ '':''] @ format_doc I1 doc @
          concat (map (member_block c) (member_order c)) @
          (if member_order c = [] then [I1 @ ''...''] else []) \<and>
        distinct (member_order c) \<and> set (member_order c) = {n. listed c n} \<and>
        (''__init__'' \<in> set (member_order c) \<and>
           \<not> is_property (the (map_of (c_dict c) ''__init__'')) \<longrightarrow> hd (member_order c) = ''__init__'')"
proof (cases "getdoc (c_doc c)")
  case None
  then show ?thesis by (simp add: emit_class_def)
next
  case (Some doc)
  obtain props methods where cm: "class_members c = (props, methods)" by fastforce
  note sets = class_members_sets [OF assms, unfolded cm, simplified]
  have d: "distinct (member_order c)" and s: "set (member_order c) = {n. listed c n}"
    using sets by (auto simp: member_order_def cm Let_def)
  have i: "''__init__'' \<in> set (member_order c) \<and>
      \<not> is_property (the (map_of (c_dict c) ''__init__'')) \<longrightarrow> hd (member_order c) = ''__init__''"
  proof (intro impI, elim conjE)
    assume that: "''__init__'' \<in> set (member_order c)"
      "\<not> is_property (the (map_of (c_dict c) ''__init__''))"
    have "''__init__'' \<in> set (filter (\<lambda>n. n = ''__init__'') (sort_key method_order_key methods))"
      using that s sets by auto
    then have "hd (filter (\<lambda>n. n = ''__init__'') (sort_key method_order_key methods)) = ''__init__''"
      by (rule hd_filter_eq)
    moreover have "filter (\<lambda>n. n = ''__init__'') (sort_key method_order_key methods) \<noteq> []"
      using that s sets by (auto simp: filter_empty_conv)
    ultimately show "hd (member_order c) = ''__init__''"
      by (simp add: member_order_def cm Let_def hd_append)
  qed
  show ?thesis unfolding Some option.case
    by (intro conjI emit_class_blocks [OF Some assms] d s i)
qed

definition sample_cls :: py_cls where
  "sample_cls = \<lparr>c_name = ''Dialer'', c_bases = [''object''], c_doc = Some ''A dialer.'',
     c_dict = [(''close'', Func \<lparr>f_sig = None, f_coroutine = False, f_asyncgen = False, f_doc = None\<rparr>)]\<rparr>"

theorem stub_class_lists_members_once_witness:
  "set (member_order sample_cls) = {n. listed sample_cls n}"
  using stub_class_lists_members_once [of sample_cls]
  by (simp add: sample_cls_def getdoc_def py_strip_def is_space_def)

text \<open>The exception table of the stub generator gives every class of the binding
  exactly the bases it has in the extension.\<close>

theorem stub_exceptions_match:
  "map_of (map (\<lambda>(n, bs, d). (n, bs)) EXCEPTIONS) (nng_name c) = Some (map class_name (bases (NngC c)))"
  by (cases c) (simp_all add: EXCEPTIONS_def bases_def)

text \<open>The package exports every name it imports, but its export list also names three
  constants it does not define, so a star import raises \<open>AttributeError\<close>.\<close>

theorem import_star_fails:
  "import_star = Inl (PyExn AttributeError) \<and> set package_imports \<subseteq> set package_all \<and>
   set package_all - set package_imports =
     {''PIPE_EV_ADD_PRE'', ''PIPE_EV_ADD_POST'', ''PIPE_EV_REM_POST''}"
proof (intro conjI)
  show "import_star = Inl (PyExn AttributeError)" by code_simp
  show "set package_imports \<subseteq> set package_all" by code_simp
  show "set package_all - set package_imports =
     {''PIPE_EV_ADD_PRE'', ''PIPE_EV_ADD_POST'', ''PIPE_EV_REM_POST''}" by code_simp
qed

end
