(* ===== verification/Dispatch.thy ===== *)
theory Dispatch
  imports Errors
begin

text \<open>
  Completion dispatch: the queue of \<^verbatim>\<open>nng/cpp/dispatch.hpp\<close>, the wakeup queue of
  \<^verbatim>\<open>nng/cpp/platform.hpp\<close> with its two-step push, the per-operation skip point, and the
  dispatcher thread with library initialisation and shutdown of \<^verbatim>\<open>nng/_nng.pyx\<close>.
\<close>

section \<open>First-in first-out queues\<close>

text \<open>
  What the consumers rely on: pushing appends, getting removes the oldest entry, and both
  queue classes promise it.
\<close>

locale fifo =
  fixes push :: "'id \<Rightarrow> 'q \<Rightarrow> 'q"
    and get_ready :: "'q \<Rightarrow> 'id option \<times> 'q"
    and items :: "'q \<Rightarrow> 'id list"
  assumes push_items: "items (push x q) = items q @ [x]"
    and get_empty: "items q = [] \<Longrightarrow> get_ready q = (None, q)"
    and get_items: "items q = x # xs \<Longrightarrow> fst (get_ready q) = Some x \<and> items (snd (get_ready q)) = xs"
begin

text \<open>A client's run: \<open>Some x\<close> pushes, \<open>None\<close> polls; the result lists what the polls returned.\<close>

fun run :: "'id option list \<Rightarrow> 'q \<Rightarrow> 'id list \<times> 'q" where
  "run [] q = ([], q)"
| "run (Some x # as) q = run as (push x q)"
| "run (None # as) q =
     (case get_ready q of
        (None, q') \<Rightarrow> run as q'
      | (Some x, q') \<Rightarrow> (case run as q' of (out, q'') \<Rightarrow> (x # out, q'')))"

definition pushed :: "'id option list \<Rightarrow> 'id list" where
  "pushed as = concat (map (\<lambda>a. case a of None \<Rightarrow> [] | Some x \<Rightarrow> [x]) as)"

lemma run_fifo: "run as q = (out, q') \<Longrightarrow> out @ items q' = items q @ pushed as"
proof (induction as q arbitrary: out q' rule: run.induct)
  case (2 x as q)
  then show ?case by (simp add: push_items pushed_def)
next
  case (3 as q)
  show ?case
  proof (cases "items q")
    case Nil
    then have g: "get_ready q = (None, q)" by (rule get_empty)
    from 3 Nil g show ?thesis by (simp add: pushed_def)
  next
    case (Cons x xs)
    obtain q1 where g: "get_ready q = (Some x, q1)" "items q1 = xs"
      using get_items [OF Cons] by (metis prod.collapse)
    obtain out' q2 where r: "run as q1 = (out', q2)" by fastforce
    with 3(2) [OF g(1) [symmetric], of x out' q2] 3(3) g Cons show ?thesis by (auto simp: pushed_def)
  qed
qed (auto simp: pushed_def)

end

section \<open>DispatchQueue\<close>

record dispatch_queue =
  queue :: "u64 list"
  stopped :: bool

definition dq_init :: dispatch_queue where
  "dq_init = \<lparr>queue = [], stopped = False\<rparr>"

definition dq_push :: "u64 \<Rightarrow> dispatch_queue \<Rightarrow> dispatch_queue" where
  "dq_push i q = q\<lparr>queue := queue q @ [i]\<rparr>"

definition dq_get_ready :: "dispatch_queue \<Rightarrow> u64 option \<times> dispatch_queue" where
  "dq_get_ready q =
     (case queue q of
        [] \<Rightarrow> (None, q)
      | i # is \<Rightarrow> (Some i, q\<lparr>queue := is\<rparr>))"

text \<open>
  \<open>wait_for\<close> at the moment it returns: the predicate holds (\<open>woken\<close>) or the timeout passed.
\<close>

definition dq_wait_for :: "bool \<Rightarrow> dispatch_queue \<Rightarrow> u64 option \<times> dispatch_queue" where
  "dq_wait_for timed_out q =
     (let woken = (queue q \<noteq> [] \<or> stopped q) in
      if woken \<and> queue q \<noteq> [] then (Some (hd (queue q)), q\<lparr>queue := tl (queue q)\<rparr>) else (None, q))"

text \<open>Whether \<open>wait_for\<close> may return now.\<close>

definition dq_wait_ends :: "bool \<Rightarrow> dispatch_queue \<Rightarrow> bool" where
  "dq_wait_ends timed_out q \<longleftrightarrow> queue q \<noteq> [] \<or> stopped q \<or> timed_out"

definition dq_stop :: "dispatch_queue \<Rightarrow> dispatch_queue" where
  "dq_stop q = q\<lparr>stopped := True\<rparr>"

definition dq_is_stopped :: "dispatch_queue \<Rightarrow> bool" where
  "dq_is_stopped q = stopped q"

interpretation dq: fifo dq_push dq_get_ready queue
  by unfold_locales (simp_all add: dq_push_def dq_get_ready_def)

section \<open>SockDispatchQueue\<close>

text \<open>
  \<open>bytes_in\<close> is the number of wakeup bytes waiting in the socket pair, whose buffer holds
  \<open>cap\<close>; \<open>fd_ok\<close> is false when \<open>socketpair\<close> failed in the constructor.
\<close>

record sock_queue =
  items_of :: "u64 list"
  bytes_in :: nat
  fd_ok :: bool

definition sq_init :: "bool \<Rightarrow> sock_queue" where
  "sq_init ok = \<lparr>items_of = [], bytes_in = 0, fd_ok = ok\<rparr>"

text \<open>The two halves of \<open>push\<close>: under the lock, and after it when the queue was empty.\<close>

definition sq_enqueue :: "u64 \<Rightarrow> sock_queue \<Rightarrow> bool \<times> sock_queue" where
  "sq_enqueue i q = (items_of q = [], q\<lparr>items_of := items_of q @ [i]\<rparr>)"

definition sq_send :: "nat \<Rightarrow> sock_queue \<Rightarrow> sock_queue" where
  "sq_send cap q = (if fd_ok q \<and> bytes_in q < cap then q\<lparr>bytes_in := bytes_in q + 1\<rparr> else q)"

definition sq_push :: "nat \<Rightarrow> u64 \<Rightarrow> sock_queue \<Rightarrow> sock_queue" where
  "sq_push cap i q = (case sq_enqueue i q of (was_empty, q') \<Rightarrow> if was_empty then sq_send cap q' else q')"

definition sq_get_ready :: "sock_queue \<Rightarrow> u64 option \<times> sock_queue" where
  "sq_get_ready q =
     (case items_of q of
        [] \<Rightarrow> (None, q)
      | i # is \<Rightarrow> (Some i, q\<lparr>items_of := is\<rparr>))"

definition sq_drain_ready :: "u64 list \<Rightarrow> sock_queue \<Rightarrow> u64 list \<times> sock_queue" where
  "sq_drain_ready out q =
     ((if items_of q \<noteq> [] then out @ items_of q else out), q\<lparr>items_of := []\<rparr>)"

text \<open>\<open>while (recv(...) > 0)\<close>, at most 32 bytes a round: the loop ends with an empty socket.\<close>

function recv_loop :: "nat \<Rightarrow> nat" where
  "recv_loop n = (let got = min n 32 in if got > 0 then recv_loop (n - got) else n)"
  by pat_completeness auto
termination
  by (relation "measure id") auto

declare recv_loop.simps [simp del]

definition sq_drain_wakeup :: "sock_queue \<Rightarrow> sock_queue" where
  "sq_drain_wakeup q = q\<lparr>bytes_in := recv_loop (bytes_in q)\<rparr>"

definition sq_readable :: "sock_queue \<Rightarrow> bool" where
  "sq_readable q \<longleftrightarrow> 0 < bytes_in q"

lemma recv_loop_zero [simp]: "recv_loop n = 0"
proof (induction n rule: less_induct)
  case (less n)
  then show ?case by (subst recv_loop.simps) (simp add: Let_def)
qed

interpretation sq: fifo "sq_push cap" sq_get_ready items_of for cap
  by unfold_locales (simp_all add: sq_push_def sq_enqueue_def sq_send_def sq_get_ready_def)

subsection \<open>Producers and the event loop\<close>

text \<open>
  Any number of completion threads push while one event loop waits for the socket to be
  readable. \<open>in_push\<close> counts threads between the two halves of a push that saw an empty
  queue; the loop is between \<open>drain_wakeup\<close> and \<open>drain_ready\<close> while \<open>draining\<close>.
\<close>

record wake_sys =
  sockq :: sock_queue
  in_push :: nat
  draining :: bool
  arrived :: "u64 list"
  delivered :: "u64 list"

definition wake_init :: wake_sys where
  "wake_init = \<lparr>sockq = sq_init True, in_push = 0, draining = False, arrived = [], delivered = []\<rparr>"

inductive wake_step :: "nat \<Rightarrow> wake_sys \<Rightarrow> wake_sys \<Rightarrow> bool" for cap :: nat where
  enqueue: "sq_enqueue i (sockq s) = (was_empty, q) \<Longrightarrow>
    wake_step cap s (s\<lparr>sockq := q, in_push := in_push s + (if was_empty then 1 else 0),
                       arrived := arrived s @ [i]\<rparr>)"
| send: "0 < in_push s \<Longrightarrow>
    wake_step cap s (s\<lparr>sockq := sq_send cap (sockq s), in_push := in_push s - 1\<rparr>)"
| drain_wakeup: "\<not> draining s \<Longrightarrow> sq_readable (sockq s) \<Longrightarrow>
    wake_step cap s (s\<lparr>sockq := sq_drain_wakeup (sockq s), draining := True\<rparr>)"
| drain_ready: "draining s \<Longrightarrow> sq_drain_ready [] (sockq s) = (out, q) \<Longrightarrow>
    wake_step cap s (s\<lparr>sockq := q, draining := False, delivered := delivered s @ out\<rparr>)"

inductive_cases wake_stepE: "wake_step cap s s'"

definition wake_inv :: "wake_sys \<Rightarrow> bool" where
  "wake_inv s \<longleftrightarrow>
     fd_ok (sockq s) \<and>
     (items_of (sockq s) \<noteq> [] \<longrightarrow> 0 < in_push s \<or> sq_readable (sockq s) \<or> draining s) \<and>
     delivered s @ items_of (sockq s) = arrived s"

lemma wake_step_inv: "wake_step cap s s' \<Longrightarrow> 0 < cap \<Longrightarrow> wake_inv s \<Longrightarrow> wake_inv s'"
  by (induction rule: wake_step.induct)
     (auto simp: wake_inv_def sq_enqueue_def sq_send_def sq_readable_def sq_drain_wakeup_def
        sq_drain_ready_def split: if_splits)

lemma wake_init_inv: "wake_inv wake_init"
  by (simp add: wake_inv_def wake_init_def sq_init_def)

lemma wake_reach_inv: "(wake_step cap)\<^sup>*\<^sup>* wake_init s \<Longrightarrow> 0 < cap \<Longrightarrow> wake_inv s"
  by (induction rule: rtranclp_induct) (blast intro: wake_step_inv wake_init_inv)+

text \<open>The steps of the threads already at work, without a new push.\<close>

definition quiet_step :: "nat \<Rightarrow> wake_sys \<Rightarrow> wake_sys \<Rightarrow> bool" where
  "quiet_step cap s s' \<longleftrightarrow> wake_step cap s s' \<and> arrived s' = arrived s"

lemma drain_ready_delivers:
  assumes "draining s"
  shows "\<exists>s'. quiet_step cap s s' \<and> delivered s' = delivered s @ items_of (sockq s) \<and> arrived s' = arrived s"
proof -
  obtain out q where o: "sq_drain_ready [] (sockq s) = (out, q)" by fastforce
  then have "out = items_of (sockq s)" by (auto simp: sq_drain_ready_def split: if_splits)
  with wake_step.drain_ready [OF assms o, of cap] show ?thesis
    by (auto simp: quiet_step_def)
qed

lemma readable_delivers:
  assumes "sq_readable (sockq s)"
  shows "\<exists>s'. (quiet_step cap)\<^sup>*\<^sup>* s s' \<and> delivered s' = delivered s @ items_of (sockq s) \<and> arrived s' = arrived s"
proof (cases "draining s")
  case True
  with drain_ready_delivers show ?thesis by blast
next
  case False
  let ?t = "s\<lparr>sockq := sq_drain_wakeup (sockq s), draining := True\<rparr>"
  have "quiet_step cap s ?t"
    using wake_step.drain_wakeup [OF False assms] by (simp add: quiet_step_def)
  moreover obtain s' where "quiet_step cap ?t s'"
      "delivered s' = delivered ?t @ items_of (sockq ?t)" "arrived s' = arrived ?t"
    using drain_ready_delivers [of ?t cap] by auto
  ultimately show ?thesis
    by (intro exI [of _ s']) (auto simp: sq_drain_wakeup_def)
qed

lemma quiet_delivers:
  assumes "wake_inv s" "0 < cap"
  shows "\<exists>s'. (quiet_step cap)\<^sup>*\<^sup>* s s' \<and> delivered s' = arrived s"
proof (cases "items_of (sockq s) = []")
  case True
  then show ?thesis using assms(1) by (auto simp: wake_inv_def)
next
  case ne: False
  have all: "delivered s @ items_of (sockq s) = arrived s" using assms(1) by (simp add: wake_inv_def)
  consider "sq_readable (sockq s)" | "draining s" | "0 < in_push s" "\<not> sq_readable (sockq s)"
    using assms(1) ne by (auto simp: wake_inv_def)
  then show ?thesis
  proof cases
    case 1
    with readable_delivers [OF 1, of cap] all show ?thesis by auto
  next
    case 2
    with drain_ready_delivers [OF 2, of cap] all show ?thesis by auto
  next
    case 3
    let ?t = "s\<lparr>sockq := sq_send cap (sockq s), in_push := in_push s - 1\<rparr>"
    have "quiet_step cap s ?t" using wake_step.send [OF 3(1)] by (simp add: quiet_step_def)
    moreover have "sq_readable (sockq ?t)"
      using 3 assms by (simp add: sq_readable_def sq_send_def wake_inv_def)
    moreover have "items_of (sockq ?t) = items_of (sockq s)" by (simp add: sq_send_def)
    ultimately show ?thesis
      using readable_delivers [of ?t cap] all by (auto intro: converse_rtranclp_into_rtranclp)
  qed
qed

section \<open>The skip point of an operation\<close>

text \<open>
  \<open>fire\<close> runs on the completion thread and \<open>reach_skip_point\<close> on the submitting one, each
  once; both compare and exchange the same flag.
\<close>

record container =
  skip_point_reached :: u32
  op_id :: u64

definition container_new :: "u64 \<Rightarrow> container" where
  "container_new i = \<lparr>skip_point_reached = 0, op_id = i\<rparr>"

definition fire :: "container \<Rightarrow> u64 option \<times> container" where
  "fire c =
     (if skip_point_reached c = 0 then (None, c\<lparr>skip_point_reached := 1\<rparr>)
      else (Some (op_id c), c))"

definition reach_skip_point :: "container \<Rightarrow> bool \<times> container" where
  "reach_skip_point c =
     (if skip_point_reached c = 0 then (False, c\<lparr>skip_point_reached := 1\<rparr>) else (True, c))"

text \<open>The two calls in either order.\<close>

definition race :: "bool \<Rightarrow> u64 \<Rightarrow> u64 option \<times> bool" where
  "race fire_first i =
     (if fire_first
      then (case fire (container_new i) of (p, c) \<Rightarrow> (p, fst (reach_skip_point c)))
      else (case reach_skip_point (container_new i) of (skipped, c) \<Rightarrow> (fst (fire c), skipped)))"

section \<open>The dispatcher thread\<close>

text \<open>
  Completion callables are kept under the address of their operation. A callable is named
  by a number; \<open>raises\<close> tells which of them raise, \<open>called\<close> records the calls and
  \<open>printed\<close> the tracebacks.
\<close>

record dispatcher =
  dispq :: dispatch_queue
  callables :: "u64 \<rightharpoonup> nat"
  called :: "nat list"
  printed :: "nat list"
  pipe_drains :: nat

definition dispatch_one :: "(nat \<Rightarrow> bool) \<Rightarrow> u64 \<Rightarrow> dispatcher \<Rightarrow> dispatcher" where
  "dispatch_one raises i d =
     (if i = 0 then d\<lparr>pipe_drains := pipe_drains d + 1\<rparr>
      else (case callables d i of
              None \<Rightarrow> d
            | Some cb \<Rightarrow>
                d\<lparr>callables := (callables d)(i := None), called := called d @ [cb],
                  printed := printed d @ (if raises cb then [cb] else [])\<rparr>))"

text \<open>The inner loop: non-blocking drain of the queue.\<close>

lemma dispq_dispatch_one [simp]: "dispq (dispatch_one raises i d) = dispq d"
  by (simp add: dispatch_one_def split: option.splits)

function drain_queue :: "(nat \<Rightarrow> bool) \<Rightarrow> dispatcher \<Rightarrow> dispatcher" where
  "drain_queue raises d =
     (case dq_get_ready (dispq d) of
        (None, q) \<Rightarrow> d\<lparr>dispq := q\<rparr>
      | (Some i, q) \<Rightarrow> drain_queue raises (dispatch_one raises i (d\<lparr>dispq := q\<rparr>)))"
  by pat_completeness auto
termination
  by (relation "measure (\<lambda>(raises, d). length (queue (dispq d)))")
     (auto simp: dq_get_ready_def split: list.splits)

declare drain_queue.simps [simp del]

text \<open>One pass of \<open>while True\<close>: whether the loop ends, and the state.\<close>

definition loop_pass :: "(nat \<Rightarrow> bool) \<Rightarrow> dispatcher \<Rightarrow> bool \<times> dispatcher" where
  "loop_pass raises d =
     (let d1 = drain_queue raises d in
      if dq_is_stopped (dispq d1) then (True, d1)
      else (case dq_wait_for True (dispq d1) of
              (None, q) \<Rightarrow> (False, d1\<lparr>dispq := q\<rparr>)
            | (Some i, q) \<Rightarrow> (False, dispatch_one raises i (d1\<lparr>dispq := q\<rparr>))))"

text \<open>The same loop with other threads pushing, registering and stopping between its steps.\<close>

datatype loop_pc = Draining | Checking | Blocking | Exited

record loop_sys =
  disp :: dispatcher
  lpc :: loop_pc
  sent :: "u64 list"
  handled :: "u64 list"

definition loop_init :: loop_sys where
  "loop_init = \<lparr>disp = \<lparr>dispq = dq_init, callables = Map.empty, called = [], printed = [], pipe_drains = 0\<rparr>,
     lpc = Draining, sent = [], handled = []\<rparr>"

inductive loop_step :: "(nat \<Rightarrow> bool) \<Rightarrow> loop_sys \<Rightarrow> loop_sys \<Rightarrow> bool" for raises :: "nat \<Rightarrow> bool" where
  env_push: "loop_step raises s
    (s\<lparr>disp := (disp s)\<lparr>dispq := dq_push i (dispq (disp s))\<rparr>, sent := sent s @ [i]\<rparr>)"
| env_stop: "loop_step raises s (s\<lparr>disp := (disp s)\<lparr>dispq := dq_stop (dispq (disp s))\<rparr>\<rparr>)"
| env_register: "loop_step raises s
    (s\<lparr>disp := (disp s)\<lparr>callables := (callables (disp s))(i \<mapsto> cb)\<rparr>\<rparr>)"
| get_some: "lpc s = Draining \<Longrightarrow> dq_get_ready (dispq (disp s)) = (Some i, q) \<Longrightarrow>
    loop_step raises s (s\<lparr>disp := dispatch_one raises i ((disp s)\<lparr>dispq := q\<rparr>), handled := handled s @ [i]\<rparr>)"
| get_none: "lpc s = Draining \<Longrightarrow> dq_get_ready (dispq (disp s)) = (None, q) \<Longrightarrow>
    loop_step raises s (s\<lparr>lpc := Checking\<rparr>)"
| check_stop: "lpc s = Checking \<Longrightarrow> dq_is_stopped (dispq (disp s)) \<Longrightarrow>
    loop_step raises s (s\<lparr>lpc := Exited\<rparr>)"
| check_go: "lpc s = Checking \<Longrightarrow> \<not> dq_is_stopped (dispq (disp s)) \<Longrightarrow>
    loop_step raises s (s\<lparr>lpc := Blocking\<rparr>)"
| wait_some: "lpc s = Blocking \<Longrightarrow> dq_wait_ends t (dispq (disp s)) \<Longrightarrow>
    dq_wait_for t (dispq (disp s)) = (Some i, q) \<Longrightarrow>
    loop_step raises s (s\<lparr>disp := dispatch_one raises i ((disp s)\<lparr>dispq := q\<rparr>),
                          handled := handled s @ [i], lpc := Draining\<rparr>)"
| wait_none: "lpc s = Blocking \<Longrightarrow> dq_wait_ends t (dispq (disp s)) \<Longrightarrow>
    dq_wait_for t (dispq (disp s)) = (None, q) \<Longrightarrow>
    loop_step raises s (s\<lparr>lpc := Draining\<rparr>)"

definition loop_inv :: "loop_sys \<Rightarrow> bool" where
  "loop_inv s \<longleftrightarrow>
     handled s @ queue (dispq (disp s)) = sent s \<and>
     (lpc s = Exited \<longrightarrow> stopped (dispq (disp s)))"

lemma dq_wait_for_Some: "dq_wait_for t q = (Some i, q') \<Longrightarrow> queue q = i # queue q' \<and> stopped q' = stopped q"
  by (auto simp: dq_wait_for_def Let_def split: if_splits)

lemma dq_get_ready_Some: "dq_get_ready q = (Some i, q') \<Longrightarrow> queue q = i # queue q' \<and> stopped q' = stopped q"
  by (auto simp: dq_get_ready_def split: list.splits)

lemma loop_step_inv: "loop_step raises s s' \<Longrightarrow> loop_inv s \<Longrightarrow> loop_inv s'"
proof (induction rule: loop_step.induct)
  case (get_some s i q)
  with dq_get_ready_Some [OF get_some(2)] show ?case by (simp add: loop_inv_def)
next
  case (wait_some s t i q)
  with dq_wait_for_Some [OF wait_some(3)] show ?case by (simp add: loop_inv_def)
qed (auto simp: loop_inv_def dq_push_def dq_stop_def dq_is_stopped_def)

lemma loop_reach_inv: "(loop_step raises)\<^sup>*\<^sup>* loop_init s \<Longrightarrow> loop_inv s"
proof (induction rule: rtranclp_induct)
  case base
  show ?case by (simp add: loop_inv_def loop_init_def dq_init_def)
next
  case (step y z)
  then show ?case using loop_step_inv by blast
qed

text \<open>What a drain does: the queued operations in order, each callable once.\<close>

fun dispatch_list :: "(nat \<Rightarrow> bool) \<Rightarrow> u64 list \<Rightarrow> dispatcher \<Rightarrow> dispatcher" where
  "dispatch_list raises [] d = d"
| "dispatch_list raises (i # is) d = dispatch_list raises is (dispatch_one raises i d)"

lemma dispatch_one_queue:
  "dispatch_one raises i (d\<lparr>dispq := q\<rparr>) = (dispatch_one raises i d)\<lparr>dispq := q\<rparr>"
  by (cases d) (simp add: dispatch_one_def split: option.splits)

lemma dispatch_list_queue:
  "dispatch_list raises is (d\<lparr>dispq := q\<rparr>) = (dispatch_list raises is d)\<lparr>dispq := q\<rparr>"
  by (induction "is" arbitrary: d) (simp_all add: dispatch_one_queue)

lemma drain_queue_list:
  "drain_queue raises d =
     (dispatch_list raises (queue (dispq d)) d)\<lparr>dispq := (dispq d)\<lparr>queue := []\<rparr>\<rparr>"
proof (induction "queue (dispq d)" arbitrary: d)
  case Nil
  then show ?case
    by (subst drain_queue.simps) (cases "dispq d", simp add: dq_get_ready_def)
next
  case (Cons i "is")
  let ?q = "(dispq d)\<lparr>queue := is\<rparr>"
  have g: "dq_get_ready (dispq d) = (Some i, ?q)"
    using Cons.hyps(2) [symmetric] by (simp add: dq_get_ready_def)
  have "drain_queue raises d = drain_queue raises (dispatch_one raises i (d\<lparr>dispq := ?q\<rparr>))"
    by (subst drain_queue.simps) (simp add: g)
  also have "\<dots> = (dispatch_list raises is (dispatch_one raises i (d\<lparr>dispq := ?q\<rparr>)))
      \<lparr>dispq := ?q\<lparr>queue := []\<rparr>\<rparr>"
    using Cons.hyps(1) [of "dispatch_one raises i (d\<lparr>dispq := ?q\<rparr>)"] by simp
  finally show ?case
    using Cons.hyps(2) [symmetric] by (simp add: dispatch_one_queue dispatch_list_queue)
qed

definition registered_calls :: "(u64 \<rightharpoonup> nat) \<Rightarrow> u64 list \<Rightarrow> nat list" where
  "registered_calls m is = concat (map (\<lambda>i. case m i of None \<Rightarrow> [] | Some cb \<Rightarrow> [cb]) (filter (\<lambda>i. i \<noteq> 0) is))"

lemma registered_calls_other: "i \<notin> set is \<Longrightarrow> registered_calls (m(i := v)) is = registered_calls m is"
  by (induction "is") (auto simp: registered_calls_def)

lemma dispatch_list_called:
  assumes "distinct (filter (\<lambda>i. i \<noteq> 0) is)"
  shows "called (dispatch_list raises is d) = called d @ registered_calls (callables d) is \<and>
    printed (dispatch_list raises is d) = printed d @ filter raises (registered_calls (callables d) is) \<and>
    pipe_drains (dispatch_list raises is d) = pipe_drains d + length (filter (\<lambda>i. i = 0) is) \<and>
    callables (dispatch_list raises is d) = callables d |` (- (set is - {0}))"
  using assms
proof (induction "is" arbitrary: d)
  case Nil
  show ?case by (simp add: registered_calls_def)
next
  case (Cons i "is")
  show ?case
  proof (cases "i = 0 \<or> callables d i = None")
    case True
    then have "called (dispatch_one raises i d) = called d" "callables (dispatch_one raises i d) = callables d"
        "printed (dispatch_one raises i d) = printed d"
        "pipe_drains (dispatch_one raises i d) = pipe_drains d + (if i = 0 then 1 else 0)"
      by (auto simp: dispatch_one_def)
    moreover have "registered_calls (callables d) (i # is) = registered_calls (callables d) is"
      using True by (auto simp: registered_calls_def)
    moreover have "callables d |` (- (set is - {0})) = callables d |` (- (set (i # is) - {0}))"
      using True by (auto simp: restrict_map_def fun_eq_iff)
    ultimately show ?thesis using Cons by (cases "i = 0") auto
  next
    case False
    then obtain cb where cb: "callables d i = Some cb" and nz: "i \<noteq> 0" by auto
    then have ni: "i \<notin> set is" using Cons.prems by auto
    have "registered_calls (callables d) (i # is) = cb # registered_calls (callables d) is"
      using cb nz by (simp add: registered_calls_def)
    moreover have "((callables d)(i := None)) |` (- (set is - {0})) = callables d |` (- (set (i # is) - {0}))"
      using nz by (auto simp: restrict_map_def fun_eq_iff)
    moreover have "dispatch_one raises i d = d\<lparr>callables := (callables d)(i := None), called := called d @ [cb],
        printed := printed d @ (if raises cb then [cb] else [])\<rparr>"
      using cb nz by (simp add: dispatch_one_def)
    ultimately show ?thesis
      using Cons ni nz by (auto simp: registered_calls_other)
  qed
qed

section \<open>Initialisation and shutdown\<close>

text \<open>
  The seven threading parameters are C integers cast to 16 bits. \<open>rv\<close> is the return code of
  the C library's \<open>nng_init\<close>; \<open>init_calls\<close> records its arguments (\<open>None\<close> for \<open>NULL\<close>).
\<close>

record init_params =
  num_task_threads :: "16 word"
  max_task_threads :: "16 word"
  num_expire_threads :: "16 word"
  max_expire_threads :: "16 word"
  num_poller_threads :: "16 word"
  max_poller_threads :: "16 word"
  num_resolver_threads :: "16 word"

record init_args =
  a_num_task :: int
  a_max_task :: int
  a_num_expire :: int
  a_max_expire :: int
  a_num_poller :: int
  a_max_poller :: int
  a_num_resolver :: int

record nng_lib =
  nng_initialized :: bool
  dispatch_thread :: "bool option"
  lib_disp :: dispatcher
  init_calls :: "init_params option list"

text \<open>\<open>dispatch_thread\<close> is \<open>None\<close>, or whether the thread is alive.\<close>

definition start_DISPATCH_THREAD :: "nng_lib \<Rightarrow> nng_lib" where
  "start_DISPATCH_THREAD s =
     (if dispatch_thread s = Some True then s else s\<lparr>dispatch_thread := Some True\<rparr>)"

definition check_nng_init :: "nng_err \<Rightarrow> nng_lib \<Rightarrow> unit result \<times> nng_lib" where
  "check_nng_init rv s =
     (if nng_initialized s then (Inr (), s)
      else
        (let s1 = s\<lparr>init_calls := init_calls s @ [None]\<rparr> in
         if rv \<noteq> NNG_OK then (Inl (PyExn RuntimeError), s1)
         else (Inr (), start_DISPATCH_THREAD (s1\<lparr>nng_initialized := True\<rparr>))))"

text \<open>Conversion of a keyword argument to a C \<open>int\<close>, and the cast to \<open>int16_t\<close>.\<close>

definition to_c_int32 :: "int \<Rightarrow> (32 word) result" where
  "to_c_int32 v = (if - (2 ^ 31) \<le> v \<and> v < 2 ^ 31 then Inr (word_of_int v) else Inl (PyExn OverflowError))"

definition int16 :: "32 word \<Rightarrow> 16 word" where
  "int16 v = ucast v"

definition make_params :: "init_args \<Rightarrow> init_params result" where
  "make_params a =
     bindR (to_c_int32 (a_num_task a)) (\<lambda>nt. bindR (to_c_int32 (a_max_task a)) (\<lambda>mt.
     bindR (to_c_int32 (a_num_expire a)) (\<lambda>ne. bindR (to_c_int32 (a_max_expire a)) (\<lambda>me.
     bindR (to_c_int32 (a_num_poller a)) (\<lambda>np. bindR (to_c_int32 (a_max_poller a)) (\<lambda>mp.
     bindR (to_c_int32 (a_num_resolver a)) (\<lambda>nr.
       Inr \<lparr>num_task_threads = int16 nt, max_task_threads = int16 mt, num_expire_threads = int16 ne,
            max_expire_threads = int16 me, num_poller_threads = int16 np,
            max_poller_threads = int16 mp, num_resolver_threads = int16 nr\<rparr>)))))))"

definition initialize :: "nng_err \<Rightarrow> init_args \<Rightarrow> nng_lib \<Rightarrow> unit result \<times> nng_lib" where
  "initialize rv a s =
     (case make_params a of
        Inl e \<Rightarrow> (Inl e, s)
      | Inr p \<Rightarrow>
          if nng_initialized s then (Inl (PyExn RuntimeError), s)
          else
            (let s1 = s\<lparr>init_calls := init_calls s @ [Some p]\<rparr> in
             if rv \<noteq> NNG_OK then (Inl (PyExn RuntimeError), s1)
             else (Inr (), start_DISPATCH_THREAD (s1\<lparr>nng_initialized := True\<rparr>))))"

definition nng_fini :: "nng_lib \<Rightarrow> nng_lib" where
  "nng_fini s =
     (if nng_initialized s
      then s\<lparr>lib_disp := (lib_disp s)\<lparr>dispq := dq_stop (dispq (lib_disp s)), callables := Map.empty\<rparr>,
             dispatch_thread := None, nng_initialized := False\<rparr>
      else s)"

definition lib_init :: nng_lib where
  "lib_init = \<lparr>nng_initialized = False, dispatch_thread = None,
     lib_disp = \<lparr>dispq = dq_init, callables = Map.empty, called = [], printed = [], pipe_drains = 0\<rparr>,
     init_calls = []\<rparr>"

datatype lib_call = AutoInit nng_err | Initialize nng_err init_args | Fini

fun lib_exec :: "lib_call \<Rightarrow> nng_lib \<Rightarrow> nng_lib" where
  "lib_exec (AutoInit rv) s = snd (check_nng_init rv s)"
| "lib_exec (Initialize rv a) s = snd (initialize rv a s)"
| "lib_exec Fini s = nng_fini s"

lemma fold_lib_inv:
  "(nng_initialized s \<longrightarrow> dispatch_thread s = Some True) \<Longrightarrow>
   nng_initialized (fold lib_exec cs s) \<longrightarrow> dispatch_thread (fold lib_exec cs s) = Some True"
proof (induction cs arbitrary: s)
  case (Cons c cs)
  have "nng_initialized (lib_exec c s) \<longrightarrow> dispatch_thread (lib_exec c s) = Some True"
    using Cons.prems
    by (cases c) (auto simp: check_nng_init_def initialize_def nng_fini_def start_DISPATCH_THREAD_def
        Let_def split: sum.splits)
  with Cons.IH show ?case by simp
qed simp

lemma int16_wraps: "sint (int16 (word_of_int v)) = (v + 2 ^ 15) mod 2 ^ 16 - 2 ^ 15"
proof -
  have "int16 (word_of_int v) = word_of_int v"
    unfolding int16_def by transfer simp
  then show ?thesis
    by (simp add: signed_of_int signed_take_bit_eq_take_bit_shift take_bit_eq_mod)
qed

lemma make_params_ok:
  "make_params a = Inr p \<Longrightarrow>
   sint (num_task_threads p) = (a_num_task a + 2 ^ 15) mod 2 ^ 16 - 2 ^ 15 \<and>
   sint (max_task_threads p) = (a_max_task a + 2 ^ 15) mod 2 ^ 16 - 2 ^ 15 \<and>
   sint (num_expire_threads p) = (a_num_expire a + 2 ^ 15) mod 2 ^ 16 - 2 ^ 15 \<and>
   sint (max_expire_threads p) = (a_max_expire a + 2 ^ 15) mod 2 ^ 16 - 2 ^ 15 \<and>
   sint (num_poller_threads p) = (a_num_poller a + 2 ^ 15) mod 2 ^ 16 - 2 ^ 15 \<and>
   sint (max_poller_threads p) = (a_max_poller a + 2 ^ 15) mod 2 ^ 16 - 2 ^ 15 \<and>
   sint (num_resolver_threads p) = (a_num_resolver a + 2 ^ 15) mod 2 ^ 16 - 2 ^ 15"
  by (auto simp: make_params_def bindR_eq_Inr to_c_int32_def int16_wraps split: if_splits)

lemma loop_pass_stopped:
  "stopped (dispq d) \<Longrightarrow> loop_pass raises d = (True, drain_queue raises d)"
  by (simp add: loop_pass_def drain_queue_list dq_is_stopped_def Let_def)

section \<open>Properties\<close>

text \<open>C10: no wakeup is lost: in every reachable state of any number of completion threads
  and the event loop, operations are delivered once each in the order they arrived, and
  while one is undelivered the loop is draining, the socket is readable or a thread is about
  to write its byte; from there the threads at work deliver everything.\<close>

theorem no_lost_wakeup:
  assumes "(wake_step cap)\<^sup>*\<^sup>* wake_init s" "0 < cap"
  shows "delivered s @ items_of (sockq s) = arrived s \<and>
    (items_of (sockq s) \<noteq> [] \<longrightarrow> 0 < in_push s \<or> sq_readable (sockq s) \<or> draining s) \<and>
    (\<exists>s'. (quiet_step cap)\<^sup>*\<^sup>* s s' \<and> delivered s' = arrived s)"
  using wake_reach_inv [OF assms] quiet_delivers [OF wake_reach_inv [OF assms] assms(2)]
  by (simp add: wake_inv_def)

theorem no_lost_wakeup_witness:
  "\<exists>s. (wake_step 1)\<^sup>*\<^sup>* wake_init s \<and> arrived s = [7] \<and> items_of (sockq s) = [7] \<and>
     (\<exists>s'. (quiet_step 1)\<^sup>*\<^sup>* s s' \<and> delivered s' = [7])"
proof -
  let ?s = "wake_init\<lparr>sockq := (sq_init True)\<lparr>items_of := [7]\<rparr>, in_push := 1, arrived := [7]\<rparr>"
  have "sq_enqueue 7 (sockq wake_init) = (True, (sq_init True)\<lparr>items_of := [7]\<rparr>)"
    by (simp add: sq_enqueue_def wake_init_def sq_init_def)
  from wake_step.enqueue [OF this, of 1] have "wake_step 1 wake_init ?s" by (simp add: wake_init_def)
  then have r: "(wake_step 1)\<^sup>*\<^sup>* wake_init ?s" by blast
  from no_lost_wakeup [OF r] r show ?thesis by (intro exI [of _ ?s]) simp
qed

text \<open>C2: the completion callback and the submitting call agree: in either order, the
  operation is put on the queue exactly when the submitting call does not report it as
  already complete, so it is completed once and never twice.\<close>

theorem completed_exactly_once:
  "(fst (race fire_first i) = Some i \<and> \<not> snd (race fire_first i)) \<or>
   (fst (race fire_first i) = None \<and> snd (race fire_first i))"
  by (cases fire_first) (simp_all add: race_def fire_def reach_skip_point_def container_new_def)

text \<open>The dispatcher thread handles operations exactly once each in the order they were
  pushed, whatever the other threads do between its steps, and it only exits after a stop;
  but a push between its last look at the queue and the stop check is left behind.\<close>

theorem dispatcher_handles_in_order:
  "((loop_step raises)\<^sup>*\<^sup>* loop_init s \<longrightarrow>
      handled s @ queue (dispq (disp s)) = sent s \<and> (lpc s = Exited \<longrightarrow> stopped (dispq (disp s)))) \<and>
   (\<exists>s'. (loop_step raises)\<^sup>*\<^sup>* loop_init s' \<and> lpc s' = Exited \<and> queue (dispq (disp s')) \<noteq> [])"
proof -
  let ?s1 = "loop_init\<lparr>lpc := Checking\<rparr>"
  let ?s2 = "?s1\<lparr>disp := (disp ?s1)\<lparr>dispq := dq_push 1 (dispq (disp ?s1))\<rparr>, sent := sent ?s1 @ [1]\<rparr>"
  let ?s3 = "?s2\<lparr>disp := (disp ?s2)\<lparr>dispq := dq_stop (dispq (disp ?s2))\<rparr>\<rparr>"
  have "loop_step raises loop_init ?s1"
    by (rule loop_step.get_none) (simp_all add: loop_init_def dq_init_def dq_get_ready_def)
  moreover have "loop_step raises ?s1 ?s2" by (rule loop_step.env_push)
  moreover have "loop_step raises ?s2 ?s3" by (rule loop_step.env_stop)
  moreover have "loop_step raises ?s3 (?s3\<lparr>lpc := Exited\<rparr>)"
    by (rule loop_step.check_stop) (simp_all add: dq_is_stopped_def dq_stop_def)
  ultimately have "(loop_step raises)\<^sup>*\<^sup>* loop_init (?s3\<lparr>lpc := Exited\<rparr>)"
    by (meson rtranclp.rtrancl_into_rtrancl rtranclp.rtrancl_refl)
  moreover have "queue (dispq (disp (?s3\<lparr>lpc := Exited\<rparr>))) \<noteq> []"
    by (simp add: dq_push_def dq_stop_def)
  ultimately show ?thesis
    using loop_reach_inv [of raises s] by (fastforce simp: loop_inv_def)
qed

theorem dispatcher_handles_in_order_witness:
  "\<exists>s. (loop_step (\<lambda>_. False))\<^sup>*\<^sup>* loop_init s \<and> sent s = [3] \<and> handled s = [3] \<and>
     handled s @ queue (dispq (disp s)) = sent s"
proof -
  let ?s1 = "loop_init\<lparr>disp := (disp loop_init)\<lparr>dispq := dq_push 3 (dispq (disp loop_init))\<rparr>,
    sent := sent loop_init @ [3]\<rparr>"
  let ?s2 = "?s1\<lparr>disp := dispatch_one (\<lambda>_. False) 3 ((disp ?s1)\<lparr>dispq := dq_init\<rparr>),
    handled := handled ?s1 @ [3]\<rparr>"
  have "loop_step (\<lambda>_. False) loop_init ?s1" by (rule loop_step.env_push)
  moreover have "loop_step (\<lambda>_. False) ?s1 ?s2"
    by (rule loop_step.get_some) (simp_all add: loop_init_def dq_push_def dq_init_def dq_get_ready_def)
  ultimately have r: "(loop_step (\<lambda>_. False))\<^sup>*\<^sup>* loop_init ?s2"
    by (meson rtranclp.rtrancl_into_rtrancl rtranclp.rtrancl_refl)
  have "sent ?s2 = [3]" "handled ?s2 = [3]" by (simp_all add: loop_init_def)
  with r dispatcher_handles_in_order [of "\<lambda>_. False" ?s2] show ?thesis
    by (intro exI [of _ ?s2]) simp
qed

text \<open>Draining the queue calls the callable of every queued operation that is still
  registered, once and in order, forgets it, prints the traceback of each one that raises
  without stopping, and refreshes the pipes once for every sentinel.\<close>

theorem drain_dispatches_all:
  assumes "distinct (filter (\<lambda>i. i \<noteq> 0) (queue (dispq d)))"
  shows "let d' = drain_queue raises d; is = queue (dispq d); calls = registered_calls (callables d) is in
    queue (dispq d') = [] \<and> called d' = called d @ calls \<and> printed d' = printed d @ filter raises calls \<and>
    pipe_drains d' = pipe_drains d + length (filter (\<lambda>i. i = 0) is) \<and>
    callables d' = callables d |` (- (set is - {0}))"
  using dispatch_list_called [OF assms, of raises d] by (simp add: Let_def drain_queue_list)

definition sample_disp :: dispatcher where
  "sample_disp = \<lparr>dispq = \<lparr>queue = [5, 0, 6], stopped = False\<rparr>, callables = [5 \<mapsto> 50], called = [],
     printed = [], pipe_drains = 0\<rparr>"

theorem drain_dispatches_all_witness:
  "called (drain_queue (\<lambda>_. True) sample_disp) = [50] \<and> pipe_drains (drain_queue (\<lambda>_. True) sample_disp) = 1"
  using drain_dispatches_all [of sample_disp "\<lambda>_. True"]
  by (simp add: sample_disp_def registered_calls_def Let_def)

text \<open>Whatever sequence of automatic and explicit initialisations and shutdowns runs,
  an initialised library has its dispatcher thread; a second explicit initialisation raises
  \<open>RuntimeError\<close> and changes nothing; the thread counts reach the C library cut to 16 bits;
  and after a shutdown the queue stays stopped, so the thread of a later initialisation
  drains once and ends.\<close>

theorem initialisation_lifecycle:
  assumes "make_params a = Inr p"
  shows "(nng_initialized (fold lib_exec cs lib_init) \<longrightarrow>
           dispatch_thread (fold lib_exec cs lib_init) = Some True) \<and>
    (nng_initialized s \<longrightarrow> initialize rv a s = (Inl (PyExn RuntimeError), s)) \<and>
    (\<not> nng_initialized s \<longrightarrow>
       init_calls (snd (initialize NNG_OK a s)) = init_calls s @ [Some p] \<and>
       nng_initialized (snd (initialize NNG_OK a s)) \<and>
       map sint [num_task_threads p, max_task_threads p, num_expire_threads p, max_expire_threads p,
                 num_poller_threads p, max_poller_threads p, num_resolver_threads p] =
       map (\<lambda>v. (v + 2 ^ 15) mod 2 ^ 16 - 2 ^ 15)
         [a_num_task a, a_max_task a, a_num_expire a, a_max_expire a, a_num_poller a, a_max_poller a,
          a_num_resolver a]) \<and>
    (nng_initialized s \<longrightarrow>
       (let s' = snd (initialize NNG_OK a (nng_fini s)) in
        nng_initialized s' \<and> dispatch_thread s' = Some True \<and> fst (loop_pass raises (lib_disp s'))))"
proof (intro conjI)
  show "nng_initialized (fold lib_exec cs lib_init) \<longrightarrow>
      dispatch_thread (fold lib_exec cs lib_init) = Some True"
    by (rule fold_lib_inv) (simp add: lib_init_def)
  show "nng_initialized s \<longrightarrow> initialize rv a s = (Inl (PyExn RuntimeError), s)"
    by (simp add: initialize_def assms)
  show "\<not> nng_initialized s \<longrightarrow>
       init_calls (snd (initialize NNG_OK a s)) = init_calls s @ [Some p] \<and>
       nng_initialized (snd (initialize NNG_OK a s)) \<and>
       map sint [num_task_threads p, max_task_threads p, num_expire_threads p, max_expire_threads p,
                 num_poller_threads p, max_poller_threads p, num_resolver_threads p] =
       map (\<lambda>v. (v + 2 ^ 15) mod 2 ^ 16 - 2 ^ 15)
         [a_num_task a, a_max_task a, a_num_expire a, a_max_expire a, a_num_poller a, a_max_poller a,
          a_num_resolver a]"
    using make_params_ok [OF assms] by (simp add: initialize_def assms Let_def start_DISPATCH_THREAD_def)
  have "initialize NNG_OK a (nng_fini s) =
      (Inr (), (nng_fini s)\<lparr>init_calls := init_calls s @ [Some p], nng_initialized := True,
         dispatch_thread := Some True\<rparr>)" if "nng_initialized s"
    using that by (simp add: initialize_def assms Let_def start_DISPATCH_THREAD_def nng_fini_def)
  then show "nng_initialized s \<longrightarrow>
       (let s' = snd (initialize NNG_OK a (nng_fini s)) in
        nng_initialized s' \<and> dispatch_thread s' = Some True \<and> fst (loop_pass raises (lib_disp s')))"
    by (simp add: loop_pass_stopped nng_fini_def dq_stop_def Let_def)
qed

definition sample_args :: init_args where
  "sample_args = \<lparr>a_num_task = 65536, a_max_task = -1, a_num_expire = 0, a_max_expire = -1,
     a_num_poller = 0, a_max_poller = -1, a_num_resolver = 0\<rparr>"

theorem initialisation_lifecycle_witness:
  "\<exists>p. make_params sample_args = Inr p \<and> sint (num_task_threads p) = 0 \<and>
     nng_initialized (snd (initialize NNG_OK sample_args lib_init))"
proof -
  obtain p where p: "make_params sample_args = Inr p"
    by (simp add: make_params_def sample_args_def to_c_int32_def)
  from initialisation_lifecycle [OF p, of "[]" lib_init NNG_OK "\<lambda>_. False"] p show ?thesis
    by (intro exI [of _ p]) (simp add: lib_init_def sample_args_def)
qed

end
