(* ===== verification/Aio.thy ===== *)
theory Aio
  imports Dispatch
begin

text \<open>
  In-flight operations: \<open>_AioCbSync\<close> with its concurrent future
  (\<^verbatim>\<open>nng/_aio_cb_sync.pxi\<close>), \<open>_AioSockASync\<close> and \<open>_AioCbASync\<close> with their asyncio
  futures, and the per-loop \<open>_AioAsyncManager\<close> (\<^verbatim>\<open>nng/_aio_async.pxi\<close>). The result code
  and the message of a finished C operation, the running loop and what the loop refuses are
  parameters.
\<close>

section \<open>Futures\<close>

datatype fut_state = Pending | Cancelled | Resolved "nat option" | Failed py_exn

definition fut_done :: "fut_state \<Rightarrow> bool" where
  "fut_done f \<longleftrightarrow> f \<noteq> Pending"

text \<open>\<open>set_result\<close> and \<open>set_exception\<close> raise \<open>InvalidStateError\<close> on a future that is done.\<close>

definition set_result :: "nat option \<Rightarrow> fut_state \<Rightarrow> unit result \<times> fut_state" where
  "set_result v f = (if fut_done f then (Inl (PyExn InvalidStateError), f) else (Inr (), Resolved v))"

definition set_exception :: "py_exn \<Rightarrow> fut_state \<Rightarrow> unit result \<times> fut_state" where
  "set_exception e f = (if fut_done f then (Inl (PyExn InvalidStateError), f) else (Inr (), Failed e))"

definition fut_cancel :: "fut_state \<Rightarrow> fut_state" where
  "fut_cancel f = (if fut_done f then f else Cancelled)"

text \<open>
  What a completion handler promises: it acts only while the operation is armed, disarms
  it, and never changes a future that is done.
\<close>

locale completion =
  fixes complete :: "'op \<Rightarrow> unit result \<times> 'op"
    and armed :: "'op \<Rightarrow> bool"
    and state :: "'op \<Rightarrow> fut_state"
  assumes unarmed: "\<not> armed x \<Longrightarrow> complete x = (Inr (), x)"
    and disarms: "\<not> armed (snd (complete x))"
    and keeps_done: "fut_done (state x) \<Longrightarrow> state (snd (complete x)) = state x"
begin

text \<open>However often the handler runs, the first run decides.\<close>

lemma again: "complete (snd (complete x)) = (Inr (), snd (complete x))"
  by (rule unarmed [OF disarms])

lemma many: "((snd \<circ> complete) ^^ Suc n) x = snd (complete x)"
  by (induction n) (simp_all add: again)

end

section \<open>Concurrent operations\<close>

text \<open>
  \<open>has_future\<close>: the operation still references its future. \<open>err\<close> and \<open>msg\<close> are what the
  C library reports for the finished operation, \<open>msg\<close> 0 for \<open>NULL\<close>.
\<close>

record sync_op =
  has_future :: bool
  fut :: fut_state
  has_result :: bool
  err :: nng_err
  msg :: nat

definition no_message :: py_exn where
  "no_message = NngExn NngError NNG_EINTERNAL (Literal ''No message in AIO after recv'')"

definition sync_dispatch_complete :: "sync_op \<Rightarrow> unit result \<times> sync_op" where
  "sync_dispatch_complete x =
     (if \<not> has_future x then (Inr (), x)
      else
        (let y = x\<lparr>has_future := False\<rparr> in
         if fut_done (fut y) then (Inr (), y)
         else if err y \<noteq> NNG_OK
           then (case set_exception (err_from_code (err y)) (fut y) of (r, f) \<Rightarrow> (r, y\<lparr>fut := f\<rparr>))
         else if \<not> has_result y
           then (case set_result None (fut y) of (r, f) \<Rightarrow> (r, y\<lparr>fut := f\<rparr>))
         else
           (let f1 = (if msg y = 0 then snd (set_exception no_message (fut y)) else fut y) in
            case set_result (Some (msg y)) f1 of (r, f) \<Rightarrow> (r, y\<lparr>fut := f\<rparr>))))"

text \<open>\<open>_on_cancel\<close> cancels the C operation when the future was cancelled.\<close>

definition on_cancel :: "sync_op \<Rightarrow> bool" where
  "on_cancel x \<longleftrightarrow> fut x = Cancelled"

interpretation sync: completion sync_dispatch_complete has_future fut
  by unfold_locales
     (auto simp: sync_dispatch_complete_def Let_def set_result_def set_exception_def split: prod.splits)

section \<open>Asyncio operations\<close>

text \<open>
  \<open>scheduled\<close> are the callbacks handed to \<open>call_soon_threadsafe\<close> that the loop has not run
  yet; they run on the loop thread and check the future again.
\<close>

datatype loop_cb = SetDone | SetExc py_exn

record async_op =
  a_future :: bool
  a_loop :: "nat option"
  afut :: fut_state
  scheduled :: "loop_cb list"
  a_err :: nng_err

definition set_future_done :: "fut_state \<Rightarrow> fut_state" where
  "set_future_done f = (if \<not> fut_done f then snd (set_result None f) else f)"

definition set_future_exception :: "py_exn \<Rightarrow> fut_state \<Rightarrow> fut_state" where
  "set_future_exception e f = (if \<not> fut_done f then snd (set_exception e f) else f)"

definition run_loop_cb :: "loop_cb \<Rightarrow> fut_state \<Rightarrow> fut_state" where
  "run_loop_cb c f = (case c of SetDone \<Rightarrow> set_future_done f | SetExc e \<Rightarrow> set_future_exception e f)"

text \<open>A closed loop refuses \<open>call_soon_threadsafe\<close> with \<open>RuntimeError\<close>.\<close>

definition dispatch_complete_safe :: "bool \<Rightarrow> async_op \<Rightarrow> unit result \<times> async_op" where
  "dispatch_complete_safe loop_closed x =
     (let y = x\<lparr>a_future := False, a_loop := None\<rparr> in
      if \<not> a_future x \<or> a_loop x = None then (Inr (), y)
      else if loop_closed then (Inl (PyExn RuntimeError), y)
      else if a_err y = NNG_OK then (Inr (), y\<lparr>scheduled := scheduled y @ [SetDone]\<rparr>)
      else (Inr (), y\<lparr>scheduled := scheduled y @ [SetExc (err_from_code (a_err y))]\<rparr>))"

definition dispatch_complete :: "nat option \<Rightarrow> bool \<Rightarrow> async_op \<Rightarrow> unit result \<times> async_op" where
  "dispatch_complete running_loop loop_closed x =
     (let y = x\<lparr>a_future := False, a_loop := None\<rparr> in
      if \<not> a_future x \<or> a_loop x = None then (Inr (), y)
      else if a_loop x \<noteq> running_loop
        then dispatch_complete_safe loop_closed (y\<lparr>a_future := a_future x, a_loop := a_loop x\<rparr>)
      else if a_err y = NNG_OK
        then (if \<not> fut_done (afut y) then (Inr (), y\<lparr>afut := snd (set_result None (afut y))\<rparr>) else (Inr (), y))
      else (if \<not> fut_done (afut y)
            then (Inr (), y\<lparr>afut := snd (set_exception (err_from_code (a_err y)) (afut y))\<rparr>)
            else (Inr (), y)))"

definition run_scheduled :: "async_op \<Rightarrow> async_op" where
  "run_scheduled x = x\<lparr>afut := fold run_loop_cb (scheduled x) (afut x), scheduled := []\<rparr>"

lemma run_loop_cb_done: "fut_done f \<Longrightarrow> run_loop_cb c f = f"
  by (simp add: run_loop_cb_def set_future_done_def set_future_exception_def split: loop_cb.splits)

lemma fold_run_loop_cb_done: "fut_done f \<Longrightarrow> fold run_loop_cb cs f = f"
  by (induction cs) (simp_all add: run_loop_cb_done)

text \<open>An operation is armed while it references both its future and its loop.\<close>

definition async_armed :: "async_op \<Rightarrow> bool" where
  "async_armed x \<longleftrightarrow> a_future x \<or> a_loop x \<noteq> None"

interpretation direct: completion "dispatch_complete running closed" async_armed afut for running closed
  by unfold_locales
     (auto simp: dispatch_complete_def dispatch_complete_safe_def Let_def async_armed_def)

interpretation safe: completion "dispatch_complete_safe closed" async_armed afut for closed
  by unfold_locales
     (auto simp: dispatch_complete_safe_def Let_def async_armed_def)

section \<open>The manager of one event loop\<close>

datatype aio_mode = POLL | PROACTOR | FALLBACK

text \<open>
  \<open>m_callables\<close> is the dictionary from operation ids to completion callables, of which only
  the keys matter here, in insertion order; \<open>m_calls\<close> records the callables invoked and
  \<open>on_loop\<close> what was handed to the event loop for clean-up.
\<close>

datatype loop_request = RemoveReader int | CancelTask

record aio_mgr =
  m_mode :: aio_mode
  m_loop :: bool
  m_callables :: "u64 list option"
  m_queue :: "sock_queue option"
  m_read_fd :: int
  m_task :: "bool option"
  m_sock :: bool
  m_releasing :: bool
  m_user_cancelled :: bool
  m_calls :: "u64 list"
  on_loop :: "loop_request list"

definition mgr_cinit :: aio_mgr where
  "mgr_cinit = \<lparr>m_mode = FALLBACK, m_loop = False, m_callables = None, m_queue = None, m_read_fd = -1,
     m_task = None, m_sock = False, m_releasing = False, m_user_cancelled = False, m_calls = [], on_loop = []\<rparr>"

text \<open>
  What the platform grants: the read descriptor of a new queue (negative when the socket pair
  failed), whether the loop accepts the reader or the task, whether the loop is a proactor.
\<close>

record aio_env =
  e_proactor :: bool
  e_fd :: int
  e_accepts :: bool

definition try_init_poll :: "aio_env \<Rightarrow> aio_mgr \<Rightarrow> bool \<times> aio_mgr" where
  "try_init_poll e m =
     (if e_fd e < 0 then (False, m\<lparr>m_queue := None\<rparr>)
      else
        (let m1 = m\<lparr>m_queue := Some (sq_init True), m_callables := Some [], m_read_fd := e_fd e, m_mode := POLL\<rparr> in
         if e_accepts e then (True, m1) else (False, m1\<lparr>m_queue := None, m_callables := None\<rparr>)))"

definition try_init_proactor :: "aio_env \<Rightarrow> aio_mgr \<Rightarrow> bool \<times> aio_mgr" where
  "try_init_proactor e m =
     (if e_fd e < 0 then (False, m\<lparr>m_queue := None\<rparr>)
      else
        (let m1 = m\<lparr>m_queue := Some (sq_init True), m_sock := True, m_callables := Some [], m_mode := PROACTOR\<rparr> in
         if e_accepts e then (True, m1\<lparr>m_task := Some True\<rparr>)
         else (False, m1\<lparr>m_queue := None, m_sock := False, m_callables := None\<rparr>)))"

definition select_mode :: "aio_env \<Rightarrow> aio_mgr \<Rightarrow> aio_mgr" where
  "select_mode e m =
     (case (if e_proactor e then try_init_proactor e m else try_init_poll e m) of
        (True, m1) \<Rightarrow> m1
      | (False, m1) \<Rightarrow> m1\<lparr>m_mode := FALLBACK\<rparr>)"

definition mgr_create :: "aio_env \<Rightarrow> aio_mgr" where
  "mgr_create e = select_mode e (mgr_cinit\<lparr>m_loop := True\<rparr>)"

datatype aio_kind = SockASync | CbASync

definition create_aio :: "aio_mgr \<Rightarrow> aio_kind" where
  "create_aio m =
     (if m_mode m = POLL then SockASync
      else if m_mode m = PROACTOR \<and> \<not> m_user_cancelled m then SockASync
      else CbASync)"

text \<open>
  \<open>_prepare_submit\<close> of an operation of the manager: item assignment into the dictionary
  it was created with, which is \<open>None\<close> when that was after a release.
\<close>

definition prepare_submit :: "u64 \<Rightarrow> aio_mgr \<Rightarrow> unit result \<times> aio_mgr" where
  "prepare_submit i m =
     (case m_callables m of
        None \<Rightarrow> (Inl (PyExn TypeError), m)
      | Some d \<Rightarrow> (Inr (), m\<lparr>m_callables := Some (if i \<in> set d then d else d @ [i])\<rparr>))"

definition cancel_dispatch :: "u64 \<Rightarrow> aio_mgr \<Rightarrow> aio_mgr" where
  "cancel_dispatch i m = m\<lparr>m_callables := map_option (filter (\<lambda>j. j \<noteq> i)) (m_callables m)\<rparr>"

text \<open>Submission: register, start the C operation, then look at the skip point.\<close>

definition submit :: "bool \<Rightarrow> u64 \<Rightarrow> aio_mgr \<Rightarrow> bool result \<times> aio_mgr" where
  "submit fired_first i m =
     (case prepare_submit i m of
        (Inl e, m1) \<Rightarrow> (Inl e, m1)
      | (Inr _, m1) \<Rightarrow>
          (let skipped = snd (race fired_first i) in
           (Inr skipped, if skipped then cancel_dispatch i m1 else m1)))"

text \<open>The loop \<open>for op_id in ready\<close>, which pops the callables that are still registered.\<close>

fun pop_callbacks :: "u64 list \<Rightarrow> u64 list \<Rightarrow> u64 list \<times> u64 list" where
  "pop_callbacks [] d = ([], d)"
| "pop_callbacks (i # is) d =
     (case pop_callbacks is (filter (\<lambda>j. j \<noteq> i) d) of (cbs, d') \<Rightarrow> (if i \<in> set d then i # cbs else cbs, d'))"

definition drain_and_dispatch :: "aio_mgr \<Rightarrow> aio_mgr" where
  "drain_and_dispatch m =
     (case m_queue m of
        None \<Rightarrow> m
      | Some q \<Rightarrow>
          (case sq_drain_ready [] (sq_drain_wakeup q) of (ready, q') \<Rightarrow>
             (let m1 = m\<lparr>m_queue := Some q'\<rparr> in
              case m_callables m of
                None \<Rightarrow> m1
              | Some d \<Rightarrow>
                  (case pop_callbacks ready d of (cbs, d') \<Rightarrow>
                     m1\<lparr>m_callables := Some d', m_calls := m_calls m @ cbs\<rparr>))))"

definition poll_readable_callback :: "aio_mgr \<Rightarrow> aio_mgr" where
  "poll_readable_callback m = drain_and_dispatch m"

text \<open>One round of the drain task: after the \<open>await\<close>, whether the loop goes on.\<close>

definition proactor_drain_round :: "aio_mgr \<Rightarrow> bool \<times> aio_mgr" where
  "proactor_drain_round m = (m_callables m \<noteq> None, drain_and_dispatch m)"

definition proactor_cancelled :: "aio_mgr \<Rightarrow> aio_mgr" where
  "proactor_cancelled m =
     (if \<not> m_releasing m then m\<lparr>m_user_cancelled := True, m_task := Some False\<rparr> else m\<lparr>m_task := Some False\<rparr>)"

definition mgr_release :: "bool \<Rightarrow> aio_mgr \<Rightarrow> aio_mgr" where
  "mgr_release loop_closed m =
     (let m1 =
        (if m_loop m \<and> \<not> loop_closed
         then (if m_mode m = POLL \<and> 0 \<le> m_read_fd m
               then m\<lparr>on_loop := on_loop m @ [RemoveReader (m_read_fd m)]\<rparr>
               else if m_mode m = PROACTOR \<and> m_task m = Some True
                 then m\<lparr>m_releasing := True, on_loop := on_loop m @ [CancelTask]\<rparr>
               else m)
         else m);
          cbs = (case m_callables m1 of None \<Rightarrow> [] | Some d \<Rightarrow> d)
      in m1\<lparr>m_loop := False, m_task := None, m_callables := None, m_calls := m_calls m1 @ cbs\<rparr>)"

text \<open>The completion thread of operation \<open>i\<close>, which pushes it when the skip point is passed.\<close>

definition mgr_fire :: "nat \<Rightarrow> u64 \<Rightarrow> aio_mgr \<Rightarrow> aio_mgr" where
  "mgr_fire cap i m = m\<lparr>m_queue := map_option (sq_push cap i) (m_queue m)\<rparr>"

section \<open>Runs of a manager\<close>

datatype mgr_event = Submit bool u64 | Fire nat u64 | Readable | TaskCancelled | Release bool

text \<open>
  One event, with the operations it registers for later completion: those whose submission
  neither raised nor found the operation already complete.
\<close>

fun mgr_exec :: "mgr_event \<Rightarrow> aio_mgr \<Rightarrow> u64 list \<times> aio_mgr" where
  "mgr_exec (Submit fired_first i) m =
     (case submit fired_first i m of (r, m') \<Rightarrow> (if r = Inr False then [i] else [], m'))"
| "mgr_exec (Fire cap i) m = ([], mgr_fire cap i m)"
| "mgr_exec Readable m = ([], drain_and_dispatch m)"
| "mgr_exec TaskCancelled m = ([], proactor_cancelled m)"
| "mgr_exec (Release closed) m = ([], mgr_release closed m)"

fun mgr_run :: "mgr_event list \<Rightarrow> aio_mgr \<Rightarrow> u64 list \<times> aio_mgr" where
  "mgr_run [] m = ([], m)"
| "mgr_run (e # es) m =
     (case mgr_exec e m of (r, m') \<Rightarrow> (case mgr_run es m' of (rs, m'') \<Rightarrow> (r @ rs, m'')))"

definition submitted :: "mgr_event list \<Rightarrow> u64 list" where
  "submitted es = concat (map (\<lambda>e. case e of Submit b i \<Rightarrow> [i] | _ \<Rightarrow> []) es)"

definition pending :: "aio_mgr \<Rightarrow> u64 list" where
  "pending m = (case m_callables m of None \<Rightarrow> [] | Some d \<Rightarrow> d)"

text \<open>Called and pending operations are distinct and together are the registered ones.\<close>

definition mgr_inv :: "u64 set \<Rightarrow> aio_mgr \<Rightarrow> bool" where
  "mgr_inv R m \<longleftrightarrow> distinct (m_calls m @ pending m) \<and> set (m_calls m) \<union> set (pending m) = R"

lemma pop_callbacks_spec:
  "pop_callbacks is d = (cbs, d') \<Longrightarrow>
   distinct cbs \<and> set cbs = set is \<inter> set d \<and> d' = filter (\<lambda>j. j \<notin> set is) d"
proof (induction "is" arbitrary: d cbs d')
  case (Cons i "is")
  obtain c1 d1 where r: "pop_callbacks is (filter (\<lambda>j. j \<noteq> i) d) = (c1, d1)" by fastforce
  note IH = Cons.IH [OF r]
  have "cbs = (if i \<in> set d then i # c1 else c1)" "d' = d1" using Cons.prems r by auto
  moreover have "filter (\<lambda>j. j \<notin> set is) (filter (\<lambda>j. j \<noteq> i) d) = filter (\<lambda>j. j \<notin> set (i # is)) d"
    by (induction d) auto
  ultimately show ?case using IH by auto
qed simp

lemma race_skipped [simp]: "snd (race fired_first i) = fired_first"
  by (simp add: race_def fire_def reach_skip_point_def container_new_def)

lemma submit_inv:
  assumes "mgr_inv R m" "i \<notin> R" "submit b i m = (r, m')"
  shows "mgr_inv (R \<union> (if r = Inr False then {i} else {})) m'"
proof (cases "m_callables m")
  case None
  with assms show ?thesis by (auto simp: submit_def prepare_submit_def)
next
  case (Some d)
  then have ni: "i \<notin> set d" "i \<notin> set (m_calls m)" using assms(1,2) by (auto simp: mgr_inv_def pending_def)
  then have f: "filter (\<lambda>j. j \<noteq> i) (d @ [i]) = d" by (auto simp: filter_id_conv)
  show ?thesis
  proof (cases b)
    case True
    have "m' = m" "r = Inr True"
      using assms(3) Some ni f True
      by (auto simp: submit_def prepare_submit_def cancel_dispatch_def Let_def)
    then show ?thesis using assms(1) by simp
  next
    case False
    have "m' = m\<lparr>m_callables := Some (d @ [i])\<rparr>" "r = Inr False"
      using assms(3) Some ni False by (auto simp: submit_def prepare_submit_def Let_def)
    then show ?thesis using assms(1) ni Some by (auto simp: mgr_inv_def pending_def)
  qed
qed

lemma drain_inv: "mgr_inv R m \<Longrightarrow> mgr_inv R (drain_and_dispatch m)"
proof (cases "m_queue m")
  case (Some q)
  assume inv: "mgr_inv R m"
  obtain ready q' where dr: "sq_drain_ready [] (sq_drain_wakeup q) = (ready, q')" by fastforce
  show ?thesis
  proof (cases "m_callables m")
    case None
    with inv Some dr show ?thesis by (simp add: drain_and_dispatch_def mgr_inv_def pending_def)
  next
    case d: (Some d)
    obtain cbs d' where p: "pop_callbacks ready d = (cbs, d')" by fastforce
    from pop_callbacks_spec [OF p] inv d Some dr p show ?thesis
      by (auto simp: drain_and_dispatch_def mgr_inv_def pending_def)
  qed
qed (simp add: drain_and_dispatch_def)

lemma release_inv: "mgr_inv R m \<Longrightarrow> mgr_inv R (mgr_release closed m)"
  by (auto simp: mgr_release_def mgr_inv_def pending_def Let_def split: option.splits)

lemma mgr_inv_cong:
  "m_calls m' = m_calls m \<Longrightarrow> m_callables m' = m_callables m \<Longrightarrow> mgr_inv R m' = mgr_inv R m"
  by (simp add: mgr_inv_def pending_def)

lemma mgr_exec_inv:
  assumes "mgr_inv R m" "mgr_exec e m = (r, m')" "\<forall>b i. e = Submit b i \<longrightarrow> i \<notin> R"
  shows "mgr_inv (R \<union> set r) m'"
proof (cases e)
  case (Submit b i)
  obtain q m1 where s: "submit b i m = (q, m1)" by fastforce
  with assms(2) Submit have "r = (if q = Inr False then [i] else [])" "m' = m1" by auto
  with submit_inv [OF assms(1) _ s] assms(3) Submit show ?thesis by (simp split: if_splits)
next
  case (Fire cap i)
  with assms(2) have "m' = mgr_fire cap i m" "r = []" by auto
  with assms(1) show ?thesis using mgr_inv_cong [of "mgr_fire cap i m" m] by (simp add: mgr_fire_def)
next
  case TaskCancelled
  with assms(2) have "m' = proactor_cancelled m" "r = []" by auto
  with assms(1) show ?thesis using mgr_inv_cong [of "proactor_cancelled m" m] by (simp add: proactor_cancelled_def)
qed (use assms drain_inv release_inv in auto)

lemma mgr_exec_registers: "mgr_exec e m = (r, m') \<Longrightarrow> set r \<subseteq> set (submitted [e])"
  by (cases e) (auto simp: submitted_def split: prod.splits if_splits)

lemma mgr_run_inv:
  "mgr_run es m = (rs, m') \<Longrightarrow> mgr_inv R m \<Longrightarrow> distinct (submitted es) \<Longrightarrow> set (submitted es) \<inter> R = {} \<Longrightarrow>
   mgr_inv (R \<union> set rs) m'"
proof (induction es arbitrary: m R rs)
  case (Cons e es)
  obtain r m1 where e: "mgr_exec e m = (r, m1)" by fastforce
  obtain rs' where es: "mgr_run es m1 = (rs', m')" "rs = r @ rs'" using Cons.prems(1) e by (auto split: prod.splits)
  have sub: "submitted (e # es) = submitted [e] @ submitted es" by (simp add: submitted_def)
  have "mgr_inv (R \<union> set r) m1"
    by (rule mgr_exec_inv [OF Cons.prems(2) e]) (use Cons.prems(4) in \<open>auto simp: submitted_def\<close>)
  moreover have "set (submitted es) \<inter> (R \<union> set r) = {}"
    using Cons.prems(3,4) mgr_exec_registers [OF e] by (auto simp: sub)
  moreover have "distinct (submitted es)" using Cons.prems(3) by (simp add: sub)
  ultimately have "mgr_inv ((R \<union> set r) \<union> set rs') m'" by (intro Cons.IH [OF es(1)])
  then show ?case by (simp add: es(2) Un_assoc)
qed simp

lemma released_stays: "m_callables m = None \<Longrightarrow> mgr_run es m = (rs, m') \<Longrightarrow> m_callables m' = None \<and> rs = []"
proof (induction es arbitrary: m rs)
  case (Cons e es)
  obtain r m1 where e: "mgr_exec e m = (r, m1)" by fastforce
  have "m_callables m1 = None \<and> r = []"
    using Cons.prems(1) e
    by (cases e) (auto simp: submit_def prepare_submit_def mgr_fire_def drain_and_dispatch_def
        proactor_cancelled_def mgr_release_def Let_def split: option.splits prod.splits)
  with Cons e show ?case by (fastforce split: prod.splits)
qed simp

lemma mgr_run_append:
  "mgr_run (es @ fs) m = (case mgr_run es m of (r, m1) \<Rightarrow> (case mgr_run fs m1 of (r', m2) \<Rightarrow> (r @ r', m2)))"
  by (induction es arbitrary: m) (simp_all split: prod.splits)

lemma mgr_create_cases:
  "mgr_create e =
     (if 0 \<le> e_fd e \<and> e_accepts e
      then (if e_proactor e
            then mgr_cinit\<lparr>m_loop := True, m_queue := Some (sq_init True), m_sock := True, m_callables := Some [],
                   m_mode := PROACTOR, m_task := Some True\<rparr>
            else mgr_cinit\<lparr>m_loop := True, m_queue := Some (sq_init True), m_callables := Some [],
                   m_read_fd := e_fd e, m_mode := POLL\<rparr>)
      else mgr_cinit\<lparr>m_loop := True,
             m_read_fd := (if 0 \<le> e_fd e \<and> \<not> e_proactor e then e_fd e else -1)\<rparr>)"
  by (auto simp: mgr_create_def select_mode_def try_init_poll_def try_init_proactor_def mgr_cinit_def Let_def)

section \<open>Properties\<close>

text \<open>C24: a concurrent operation resolves its future exactly once: by the error of the
  operation, with no value for a send, with the received message for a receive; a future
  the caller cancelled stays cancelled; running the handler again does nothing. A receive
  that reports success without a message fails the future with an internal error and the
  handler itself raises \<open>InvalidStateError\<close>.\<close>

theorem sync_future_resolved_once:
  assumes "has_future x"
  shows "(let (r, y) = sync_dispatch_complete x in
      fut y =
        (if fut x \<noteq> Pending then fut x
         else if err x \<noteq> NNG_OK then Failed (err_from_code (err x))
         else if \<not> has_result x then Resolved None
         else if msg x \<noteq> 0 then Resolved (Some (msg x))
         else Failed no_message) \<and>
      (r = Inr () \<longleftrightarrow> \<not> (fut x = Pending \<and> err x = NNG_OK \<and> has_result x \<and> msg x = 0)) \<and>
      ((snd \<circ> sync_dispatch_complete) ^^ Suc n) x = y)"
proof -
  have "fst (sync_dispatch_complete x) = Inr () \<longleftrightarrow>
      \<not> (fut x = Pending \<and> err x = NNG_OK \<and> has_result x \<and> msg x = 0)"
    using assms by (simp add: sync_dispatch_complete_def Let_def set_result_def set_exception_def fut_done_def)
  moreover have "fut (snd (sync_dispatch_complete x)) =
        (if fut x \<noteq> Pending then fut x
         else if err x \<noteq> NNG_OK then Failed (err_from_code (err x))
         else if \<not> has_result x then Resolved None
         else if msg x \<noteq> 0 then Resolved (Some (msg x))
         else Failed no_message)"
    using assms by (simp add: sync_dispatch_complete_def Let_def set_result_def set_exception_def fut_done_def)
  ultimately show ?thesis using sync.many [of n x] by (simp add: case_prod_beta Let_def)
qed

definition sample_recv :: sync_op where
  "sample_recv = \<lparr>has_future = True, fut = Pending, has_result = True, err = NNG_OK, msg = 7\<rparr>"

theorem sync_future_resolved_once_witness:
  "fut (snd (sync_dispatch_complete sample_recv)) = Resolved (Some 7)"
  using sync_future_resolved_once [of sample_recv 0]
  by (simp add: sample_recv_def case_prod_beta Let_def)

text \<open>C25: completing an asyncio operation on its own loop and completing it from another
  thread through the loop's queue leave the future in the same state, success or the error
  of the operation; a future that is done is never touched, and a second completion by
  either path does nothing.\<close>

theorem async_paths_agree:
  assumes "a_future x" "a_loop x = Some l" "scheduled x = []"
  shows "afut (snd (dispatch_complete (Some l) closed x)) =
      afut (run_scheduled (snd (dispatch_complete_safe False x))) \<and>
    (running \<noteq> Some l \<longrightarrow> dispatch_complete running closed x = dispatch_complete_safe closed x) \<and>
    (fut_done (afut x) \<longrightarrow> afut (snd (dispatch_complete running closed x)) = afut x) \<and>
    (afut x = Pending \<longrightarrow> afut (snd (dispatch_complete (Some l) closed x)) =
       (if a_err x = NNG_OK then Resolved None else Failed (err_from_code (a_err x)))) \<and>
    dispatch_complete running' closed' (snd (dispatch_complete running closed x)) =
      (Inr (), snd (dispatch_complete running closed x))"
proof (intro conjI)
  show "fut_done (afut x) \<longrightarrow> afut (snd (dispatch_complete running closed x)) = afut x"
    using direct.keeps_done by blast
  show "dispatch_complete running' closed' (snd (dispatch_complete running closed x)) =
      (Inr (), snd (dispatch_complete running closed x))"
    by (rule direct.unarmed [OF direct.disarms])
  show "running \<noteq> Some l \<longrightarrow> dispatch_complete running closed x = dispatch_complete_safe closed x"
    using assms(1,2) by (auto simp: dispatch_complete_def dispatch_complete_safe_def Let_def)
  show "afut (snd (dispatch_complete (Some l) closed x)) =
      afut (run_scheduled (snd (dispatch_complete_safe False x)))"
    using assms by (simp add: dispatch_complete_def dispatch_complete_safe_def Let_def run_scheduled_def
        run_loop_cb_def set_future_done_def set_future_exception_def)
  show "afut x = Pending \<longrightarrow> afut (snd (dispatch_complete (Some l) closed x)) =
       (if a_err x = NNG_OK then Resolved None else Failed (err_from_code (a_err x)))"
    using assms by (simp add: dispatch_complete_def Let_def set_result_def set_exception_def fut_done_def)
qed

definition sample_async :: async_op where
  "sample_async = \<lparr>a_future = True, a_loop = Some 1, afut = Pending, scheduled = [], a_err = NNG_ECLOSED\<rparr>"

theorem async_paths_agree_witness:
  "afut (snd (dispatch_complete (Some 1) False sample_async)) = Failed (err_from_code NNG_ECLOSED)"
proof -
  have "a_future sample_async" "a_loop sample_async = Some 1" "scheduled sample_async = []"
      "afut sample_async = Pending" "a_err sample_async = NNG_ECLOSED"
    by (simp_all add: sample_async_def)
  with async_paths_agree [of sample_async 1 False None None False] show ?thesis
    by (metis nng_err.distinct(13))
qed


definition posix_env :: aio_env where
  "posix_env = \<lparr>e_proactor = False, e_fd = 9, e_accepts = True\<rparr>"


text \<open>The manager picks its mode from what the loop offers: polling or the drain task
  when the wakeup descriptor exists and the loop accepts it, the dispatcher thread otherwise;
  before its release exactly the operations of the first two modes go through its own queue,
  and a drain task cancelled by the user moves later operations to the dispatcher thread.\<close>

theorem manager_mode_selection:
  "m_mode (mgr_create e) =
     (if 0 \<le> e_fd e \<and> e_accepts e then (if e_proactor e then PROACTOR else POLL) else FALLBACK) \<and>
   (create_aio (mgr_create e) = SockASync \<longleftrightarrow> m_callables (mgr_create e) \<noteq> None) \<and>
   (create_aio (mgr_create e) = SockASync \<longleftrightarrow> m_queue (mgr_create e) \<noteq> None) \<and>
   create_aio (proactor_cancelled (mgr_create e)) = (if m_mode (mgr_create e) = POLL then SockASync else CbASync) \<and>
   on_loop (mgr_release False (mgr_create e)) =
     (case m_mode (mgr_create e) of
        POLL \<Rightarrow> [RemoveReader (e_fd e)] | PROACTOR \<Rightarrow> [CancelTask] | FALLBACK \<Rightarrow> [])"
  by (simp add: mgr_create_cases create_aio_def proactor_cancelled_def mgr_release_def mgr_cinit_def Let_def)

end
