(* ===== verification/Pipe.thy ===== *)
theory Pipe
  imports PipeFilter
begin

text \<open>
  Connections: the metadata snapshot \<open>PipeHandle\<close> and the \<open>PipeCollection\<close> that the
  completion threads update (\<^verbatim>\<open>nng/cpp/pipe.hpp\<close>), the Python \<open>Pipe\<close> objects over the
  shared handles, and how a socket keeps its list of pipes in step with the collection
  (\<open>update_pipes\<close> and \<open>close\<close> of \<^verbatim>\<open>nng/_socket.pxi\<close>).
\<close>

section \<open>Life cycle of a pipe\<close>

datatype pipe_ev = EV_NONE | ADD_PRE | ADD_POST | REM_POST

fun ev_code :: "pipe_ev \<Rightarrow> nat" where
  "ev_code EV_NONE = 0"
| "ev_code ADD_PRE = 1"
| "ev_code ADD_POST = 2"
| "ev_code REM_POST = 3"

instantiation pipe_ev :: linorder
begin

definition less_eq_pipe_ev :: "pipe_ev \<Rightarrow> pipe_ev \<Rightarrow> bool" where
  "less_eq_pipe_ev a b \<longleftrightarrow> ev_code a \<le> ev_code b"

definition less_pipe_ev :: "pipe_ev \<Rightarrow> pipe_ev \<Rightarrow> bool" where
  "less_pipe_ev a b \<longleftrightarrow> ev_code a < ev_code b"

instance
proof
  fix a b :: pipe_ev
  show "a \<le> b \<Longrightarrow> b \<le> a \<Longrightarrow> a = b"
    by (cases a; cases b) (simp_all add: less_eq_pipe_ev_def)
qed (auto simp: less_eq_pipe_ev_def less_pipe_ev_def)

end

section \<open>What the C library reports of a pipe\<close>

record nng_pipe =
  np_id :: int
  np_dialer :: u32
  np_listener :: u32
  np_peer_addr :: "nng_err \<times> sockaddr"
  np_self_addr :: "nng_err \<times> sockaddr"
  np_nodelay :: "bool option"
  np_keepalive :: "bool option"
  np_tls_verified :: "bool option"
  np_peer_cn :: "string option"
  np_cert_der :: "bytes option"
  np_pid :: "int option"

record pipe_handle =
  h_id :: int
  h_dialer :: u32
  h_listener :: u32
  h_peer_addr :: "nng_err \<times> sockaddr"
  h_self_addr :: "nng_err \<times> sockaddr"
  h_nodelay :: bool
  h_keepalive :: bool
  h_tls_verified :: bool
  h_tls_peer_cn :: string
  h_peer_cert_der :: bytes
  h_peer_pid :: int
  h_status :: pipe_ev

text \<open>An option that cannot be read leaves the member's default.\<close>

definition PipeHandle_new :: "nng_pipe \<Rightarrow> pipe_handle" where
  "PipeHandle_new p =
     \<lparr>h_id = np_id p, h_dialer = np_dialer p, h_listener = np_listener p,
      h_peer_addr = np_peer_addr p, h_self_addr = np_self_addr p,
      h_nodelay = case_option True id (np_nodelay p),
      h_keepalive = case_option False id (np_keepalive p),
      h_tls_verified = case_option False id (np_tls_verified p),
      h_tls_peer_cn = case_option [] id (np_peer_cn p),
      h_peer_cert_der = case_option [] id (np_cert_der p),
      h_peer_pid = case_option (-1) id (np_pid p),
      h_status = EV_NONE\<rparr>"

definition get_tls_peer_cn :: "pipe_handle \<Rightarrow> string option" where
  "get_tls_peer_cn h = (if h_tls_peer_cn h = [] then None else Some (h_tls_peer_cn h))"

definition get_peer_cert_der :: "pipe_handle \<Rightarrow> bytes option" where
  "get_peer_cert_der h = (if h_peer_cert_der h = [] then None else Some (h_peer_cert_der h))"

definition info_of_pipe :: "nng_pipe \<Rightarrow> pipe_filter_info" where
  "info_of_pipe p =
     \<lparr>peer_addr = snd (np_peer_addr p), peer_pid = case_option (-1) id (np_pid p),
      info_pipe_id = word_of_int (np_id p), info_dialer = np_dialer p, info_listener = np_listener p\<rparr>"

definition info_of_handle :: "pipe_handle \<Rightarrow> pipe_filter_info" where
  "info_of_handle h =
     \<lparr>peer_addr = snd (h_peer_addr h), peer_pid = h_peer_pid h,
      info_pipe_id = word_of_int (h_id h), info_dialer = h_dialer h, info_listener = h_listener h\<rparr>"

section \<open>PipeCollection\<close>

text \<open>
  Handles are shared with the Python objects, so they live in a store and the collection
  holds their addresses in insertion order. \<open>closed\<close> records the calls of
  \<open>nng_pipe_close\<close>, \<open>fws\<close> is the state of the filters.
\<close>

record pipe_coll =
  handles :: "nat \<Rightarrow> pipe_handle"
  next_h :: nat
  members :: "nat list"
  had :: bool
  cfilter :: "pipe_filter option"
  fws :: fw_store
  closed :: "int list"

definition set_status :: "nat \<Rightarrow> pipe_ev \<Rightarrow> pipe_coll \<Rightarrow> pipe_coll" where
  "set_status h s c = c\<lparr>handles := (handles c)(h := (handles c h)\<lparr>h_status := s\<rparr>)\<rparr>"

definition find_handle :: "int \<Rightarrow> pipe_coll \<Rightarrow> nat option" where
  "find_handle i c = find (\<lambda>h. h_id (handles c h) = i) (members c)"

definition add_handle :: "nng_pipe \<Rightarrow> pipe_coll \<Rightarrow> nat \<times> pipe_coll" where
  "add_handle p c =
     (next_h c, c\<lparr>handles := (handles c)(next_h c := PipeHandle_new p), next_h := Suc (next_h c),
                  members := members c @ [next_h c]\<rparr>)"

text \<open>\<open>remove\<close> erases the first entry with the id.\<close>

definition remove_handle :: "nng_pipe \<Rightarrow> pipe_coll \<Rightarrow> pipe_coll" where
  "remove_handle p c =
     (case find_handle (np_id p) c of
        None \<Rightarrow> c
      | Some h \<Rightarrow> (set_status h REM_POST c)\<lparr>members := remove1 h (members c)\<rparr>)"

definition handle_event :: "endian \<Rightarrow> nng_pipe \<Rightarrow> pipe_ev \<Rightarrow> pipe_coll \<Rightarrow> pipe_coll" where
  "handle_event e p ev c =
     (case ev of
        ADD_PRE \<Rightarrow>
          (let (ok, st) = (case cfilter c of None \<Rightarrow> (True, fws c) | Some f \<Rightarrow> allow e f (info_of_pipe p) (fws c));
               c1 = c\<lparr>fws := st\<rparr>
           in if \<not> ok then c1\<lparr>closed := closed c1 @ [np_id p]\<rparr>
              else (case add_handle p c1 of (h, c2) \<Rightarrow> (set_status h ADD_PRE c2)\<lparr>had := True\<rparr>))
      | ADD_POST \<Rightarrow>
          (case find_handle (np_id p) c of
             Some h \<Rightarrow>
               (let c1 = set_status h ADD_POST c in
                (case cfilter c1 of
                   None \<Rightarrow> c1
                 | Some f \<Rightarrow> c1\<lparr>fws := on_event f (info_of_pipe p) (fws c1)\<rparr>)\<lparr>had := True\<rparr>)
           | None \<Rightarrow> (case add_handle p c of (h, c1) \<Rightarrow> (set_status h ADD_POST c1)\<lparr>had := True\<rparr>))
      | REM_POST \<Rightarrow>
          (let c1 =
             (case cfilter c of
                None \<Rightarrow> c
              | Some f \<Rightarrow>
                  (case find_handle (np_id p) c of
                     None \<Rightarrow> c
                   | Some h \<Rightarrow> c\<lparr>fws := on_event f (info_of_handle (handles c h)) (fws c)\<rparr>))
           in (remove_handle p c1)\<lparr>had := True\<rparr>)
      | EV_NONE \<Rightarrow> c\<lparr>had := True\<rparr>)"

definition set_filter :: "pipe_filter option \<Rightarrow> pipe_coll \<Rightarrow> pipe_coll" where
  "set_filter f c = c\<lparr>cfilter := f\<rparr>"

definition coll_clear :: "pipe_coll \<Rightarrow> pipe_coll" where
  "coll_clear c = (fold (\<lambda>h. set_status h REM_POST) (members c) c)\<lparr>members := [], had := True\<rparr>"

definition had_events :: "pipe_coll \<Rightarrow> bool \<times> pipe_coll" where
  "had_events c = (if \<not> had c then (False, c) else (True, c\<lparr>had := False\<rparr>))"

section \<open>Pipe objects\<close>

text \<open>Callbacks are numbers; a pipe may refer to the dialer and listener it came from.\<close>

record pipe_obj =
  p_handle :: nat
  last_known_status :: pipe_ev
  change_callback :: "nat option"
  p_dialer :: "nat option"
  p_listener :: "nat option"

definition pipe_create :: "pipe_coll \<Rightarrow> nat \<Rightarrow> nat option \<Rightarrow> nat option \<Rightarrow> pipe_obj" where
  "pipe_create c h d l =
     \<lparr>p_handle = h, last_known_status = h_status (handles c h), change_callback = None,
      p_dialer = d, p_listener = l\<rparr>"

definition pipe_status :: "pipe_coll \<Rightarrow> pipe_obj \<Rightarrow> pipe_ev result" where
  "pipe_status c x =
     (if last_known_status x = REM_POST then Inr REM_POST
      else let s = h_status (handles c (p_handle x)) in
           if s = EV_NONE then Inl (PyExn ValueError) else Inr s)"

text \<open>The setter accepts \<open>None\<close> (no callback) or a callable; anything else raises.\<close>

datatype cb_arg = CbNone | Callable nat | NotCallable

definition set_on_status_change :: "cb_arg \<Rightarrow> pipe_obj \<Rightarrow> unit result \<times> pipe_obj" where
  "set_on_status_change a x =
     (case a of
        NotCallable \<Rightarrow> (Inl (PyExn ValueError), x)
      | CbNone \<Rightarrow> (Inr (), x\<lparr>change_callback := None\<rparr>)
      | Callable k \<Rightarrow> (Inr (), x\<lparr>change_callback := Some k\<rparr>))"

definition handle_status_change_internal :: "pipe_ev \<Rightarrow> pipe_obj \<Rightarrow> nat option \<times> pipe_obj" where
  "handle_status_change_internal new_status x =
     (if new_status \<noteq> last_known_status x \<and> last_known_status x \<noteq> REM_POST
      then (change_callback x, x\<lparr>last_known_status := new_status\<rparr>)
      else (None, x))"

definition handle_status_change :: "pipe_coll \<Rightarrow> pipe_obj \<Rightarrow> nat option \<times> pipe_obj" where
  "handle_status_change c x = handle_status_change_internal (h_status (handles c (p_handle x))) x"

text \<open>\<open>err\<close> is the return code of \<open>nng_pipe_close\<close>; the callback to call is returned.\<close>

definition pipe_close :: "nng_err \<Rightarrow> pipe_obj \<Rightarrow> (nat option) result \<times> pipe_obj" where
  "pipe_close err x =
     (if err \<notin> {NNG_OK, NNG_ECLOSED, NNG_ENOENT} then (Inl (err_from_code err), x)
      else (case handle_status_change_internal REM_POST x of (cb, x') \<Rightarrow> (Inr cb, x')))"

definition get_peer_addr :: "pipe_coll \<Rightarrow> pipe_obj \<Rightarrow> (sockaddr \<times> int) result" where
  "get_peer_addr c x =
     (let h = handles c (p_handle x) in
      bindR (check_err (fst (h_peer_addr h))) (\<lambda>_. Inr (snd (h_peer_addr h), h_peer_pid h)))"

definition get_self_addr :: "int \<Rightarrow> pipe_coll \<Rightarrow> pipe_obj \<Rightarrow> (sockaddr \<times> int) result" where
  "get_self_addr own_pid c x =
     (let h = handles c (p_handle x) in
      bindR (check_err (fst (h_self_addr h))) (\<lambda>_. Inr (snd (h_self_addr h), own_pid)))"

section \<open>The pipes of a socket\<close>

text \<open>
  \<open>pipes\<close> lists pipe objects by address in the store \<open>pobjs\<close>; \<open>log\<close> records the callbacks
  run by the socket, in order. Dialers and listeners are known by the ids of their handles.
\<close>

datatype cb_call = StatusCb nat | PipeRemoved nat | NewPipeCb nat nat

record sock_pipes =
  coll :: pipe_coll
  pobjs :: "nat \<Rightarrow> pipe_obj"
  next_p :: nat
  pipes :: "nat list"
  on_new_pipe_cb :: "nat option"
  dialers :: "(nat \<times> u32) list"
  listeners :: "(nat \<times> u32) list"
  sp_open :: bool
  log :: "cb_call list"

text \<open>The matching loop of \<open>update_pipes\<close>: the pipes kept and the handles left over.\<close>

fun match_pipes :: "('p \<Rightarrow> 'i) \<Rightarrow> ('h \<Rightarrow> 'i) \<Rightarrow> 'p list \<Rightarrow> 'h list \<Rightarrow> 'p list \<times> 'h list" where
  "match_pipes pid hid [] hs = ([], hs)"
| "match_pipes pid hid (p # ps) [] = ([], [])"
| "match_pipes pid hid (p # ps) (h # hs) =
     (if pid p = hid h then (case match_pipes pid hid ps hs of (kept, rest) \<Rightarrow> (p # kept, rest))
      else match_pipes pid hid ps (h # hs))"

definition find_creator :: "u32 \<Rightarrow> (nat \<times> u32) list \<Rightarrow> nat option" where
  "find_creator i xs = (if i = 0 then None else map_option fst (find (\<lambda>x. snd x = i) xs))"

definition create_pipe :: "nat \<Rightarrow> sock_pipes \<Rightarrow> nat \<times> sock_pipes" where
  "create_pipe h s =
     (let hd = handles (coll s) h;
          x = pipe_create (coll s) h (find_creator (h_dialer hd) (dialers s))
                (find_creator (h_listener hd) (listeners s))
      in (next_p s, s\<lparr>pobjs := (pobjs s)(next_p s := x), next_p := Suc (next_p s)\<rparr>))"

fun create_pipes :: "nat list \<Rightarrow> sock_pipes \<Rightarrow> nat list \<times> sock_pipes" where
  "create_pipes [] s = ([], s)"
| "create_pipes (h # hs) s =
     (case create_pipe h s of (p, s1) \<Rightarrow> (case create_pipes hs s1 of (ps, s2) \<Rightarrow> (p # ps, s2)))"

text \<open>The status pass over the previous pipes, collecting the callbacks to call.\<close>

fun status_pass :: "nat list \<Rightarrow> sock_pipes \<Rightarrow> nat list \<times> sock_pipes" where
  "status_pass [] s = ([], s)"
| "status_pass (p # ps) s =
     (case handle_status_change (coll s) (pobjs s p) of (cb, x) \<Rightarrow>
        (case status_pass ps (s\<lparr>pobjs := (pobjs s)(p := x)\<rparr>) of (cbs, s') \<Rightarrow>
           ((case cb of None \<Rightarrow> cbs | Some k \<Rightarrow> k # cbs), s')))"

definition pipe_ident :: "sock_pipes \<Rightarrow> nat \<Rightarrow> int" where
  "pipe_ident s p = h_id (handles (coll s) (p_handle (pobjs s p)))"

definition update_pipes :: "sock_pipes \<Rightarrow> sock_pipes" where
  "update_pipes s =
     (case had_events (coll s) of (ev, c) \<Rightarrow>
        if \<not> ev then s
        else
          (let s0 = s\<lparr>coll := c\<rparr>;
               previous = pipes s0;
               (still_active, rest) = match_pipes (pipe_ident s0) (\<lambda>h. h_id (handles c h)) previous (members c);
               (new_pipes, s1) = create_pipes rest s0;
               s2 = s1\<lparr>pipes := still_active @ new_pipes\<rparr>;
               removed = filter (\<lambda>p. p \<notin> set still_active) previous;
               cb = on_new_pipe_cb s2;
               (status_cbs, s3) = status_pass previous s2
           in s3\<lparr>log := log s3 @ map StatusCb status_cbs @ map PipeRemoved removed @
                   (case cb of None \<Rightarrow> [] | Some k \<Rightarrow> map (NewPipeCb k) new_pipes)\<rparr>))"

text \<open>The pipe part of \<open>Socket.close\<close>.\<close>

definition close_pipes :: "sock_pipes \<Rightarrow> sock_pipes" where
  "close_pipes s =
     (if \<not> sp_open s then s
      else
        (let ps = pipes s;
             s1 = s\<lparr>on_new_pipe_cb := None, pipes := [], coll := set_filter None (coll_clear (coll s)), sp_open := False\<rparr>
         in snd (status_pass ps s1)))"

section \<open>Lemmas on the loops\<close>

lemma match_pipes_spec:
  assumes "distinct (map pid ps)" "map hid ks = map pid (filter P ps)"
    "\<And>h. h \<in> set new \<Longrightarrow> hid h \<notin> pid ` set ps"
  shows "match_pipes pid hid ps (ks @ new) = (filter P ps, new)"
  using assms
proof (induction ps arbitrary: ks)
  case Nil
  then show ?case by simp
next
  case (Cons p ps)
  show ?case
  proof (cases "P p")
    case True
    then obtain h ks' where "ks = h # ks'" "hid h = pid p" "map hid ks' = map pid (filter P ps)"
      using Cons.prems(2) by (cases ks) auto
    with Cons.IH [of ks'] Cons.prems(1,3) True show ?thesis by simp
  next
    case False
    have step: "match_pipes pid hid (p # ps) (ks @ new) = match_pipes pid hid ps (ks @ new)"
    proof (cases "ks @ new")
      case Nil
      then show ?thesis by (cases ps) simp_all
    next
      case (Cons h hs)
      have "hid h \<noteq> pid p"
      proof (cases ks)
        case Nil
        with Cons Cons.prems(3) show ?thesis by auto
      next
        case (Cons k ks')
        then have "hid h \<in> set (map pid (filter P ps))"
          using \<open>ks @ new = h # hs\<close> Cons.prems(2) False by (metis append_Cons filter.simps(2) list.inject list.set_intros(1) list.simps(9))
        with Cons.prems(1) show ?thesis by auto
      qed
      with Cons show ?thesis by simp
    qed
    with Cons.IH [of ks] Cons.prems False show ?thesis by simp
  qed
qed

lemma create_pipe_simps:
  "fst (create_pipe h s) = next_p s"
  "coll (snd (create_pipe h s)) = coll s" "pipes (snd (create_pipe h s)) = pipes s"
  "next_p (snd (create_pipe h s)) = Suc (next_p s)" "log (snd (create_pipe h s)) = log s"
  "on_new_pipe_cb (snd (create_pipe h s)) = on_new_pipe_cb s" "sp_open (snd (create_pipe h s)) = sp_open s"
  "p_handle (pobjs (snd (create_pipe h s)) (next_p s)) = h"
  "q \<noteq> next_p s \<Longrightarrow> pobjs (snd (create_pipe h s)) q = pobjs s q"
  by (simp_all add: create_pipe_def Let_def pipe_create_def)

lemma create_pipes_spec:
  "create_pipes hs s = (ps, s') \<Longrightarrow>
   ps = [next_p s ..< next_p s + length hs] \<and> next_p s' = next_p s + length hs \<and>
   coll s' = coll s \<and> pipes s' = pipes s \<and> log s' = log s \<and> on_new_pipe_cb s' = on_new_pipe_cb s \<and>
   sp_open s' = sp_open s \<and> (\<forall>q < next_p s. pobjs s' q = pobjs s q) \<and>
   map (\<lambda>q. p_handle (pobjs s' q)) ps = hs"
proof (induction hs arbitrary: s ps s')
  case (Cons h hs)
  obtain p s1 where c: "create_pipe h s = (p, s1)" by fastforce
  obtain ps' where r: "create_pipes hs s1 = (ps', s')" "ps = p # ps'"
    using Cons.prems c by (auto split: prod.splits)
  have s1: "p = next_p s" "coll s1 = coll s" "pipes s1 = pipes s" "next_p s1 = Suc (next_p s)"
      "log s1 = log s" "on_new_pipe_cb s1 = on_new_pipe_cb s" "sp_open s1 = sp_open s"
      "p_handle (pobjs s1 (next_p s)) = h" "\<And>q. q \<noteq> next_p s \<Longrightarrow> pobjs s1 q = pobjs s q"
    using create_pipe_simps(1-8) [of h s] create_pipe_simps(9) [where h = h and s = s] c by auto
  note IH = Cons.IH [OF r(1)]
  have "ps = p # [Suc (next_p s) ..< Suc (next_p s) + length hs]" using IH r(2) s1(4) by simp
  also have "\<dots> = [next_p s ..< next_p s + length (h # hs)]"
    unfolding s1(1) by (subst (2) upt_conv_Cons) simp_all
  finally have range: "ps = [next_p s ..< next_p s + length (h # hs)]" .
  have old: "\<forall>q < next_p s. pobjs s' q = pobjs s q" using IH s1(4,9) by (metis less_SucI nat_less_le)
  have "p_handle (pobjs s' p) = h" using IH s1(1,4,8) by (metis lessI)
  moreover have "map (\<lambda>q. p_handle (pobjs s' q)) ps' = hs" using IH by blast
  ultimately have "map (\<lambda>q. p_handle (pobjs s' q)) (p # ps') = h # hs" by (simp only: list.map)
  then have "map (\<lambda>q. p_handle (pobjs s' q)) ps = h # hs" by (simp only: r(2))
  moreover have "next_p s' = next_p s + length (h # hs)" "coll s' = coll s" "pipes s' = pipes s"
      "log s' = log s" "on_new_pipe_cb s' = on_new_pipe_cb s" "sp_open s' = sp_open s"
    using IH s1(2-7) by simp_all
  ultimately show ?case using range old by blast
qed simp

lemma handle_status_change_keeps [simp]:
  "p_handle (snd (handle_status_change c x)) = p_handle x"
  "change_callback (snd (handle_status_change c x)) = change_callback x"
  by (simp_all add: handle_status_change_def handle_status_change_internal_def)

lemma status_pass_spec:
  "status_pass ps s = (cbs, s') \<Longrightarrow> distinct ps \<Longrightarrow>
   coll s' = coll s \<and> pipes s' = pipes s \<and> next_p s' = next_p s \<and> log s' = log s \<and>
   on_new_pipe_cb s' = on_new_pipe_cb s \<and> sp_open s' = sp_open s \<and>
   (\<forall>q. pobjs s' q = (if q \<in> set ps then snd (handle_status_change (coll s) (pobjs s q)) else pobjs s q)) \<and>
   cbs = concat (map (\<lambda>q. case fst (handle_status_change (coll s) (pobjs s q)) of None \<Rightarrow> [] | Some k \<Rightarrow> [k]) ps)"
proof (induction ps arbitrary: s cbs s')
  case (Cons p ps)
  obtain cb x where h: "handle_status_change (coll s) (pobjs s p) = (cb, x)" by fastforce
  let ?s = "s\<lparr>pobjs := (pobjs s)(p := x)\<rparr>"
  obtain cbs' where r: "status_pass ps ?s = (cbs', s')"
      "cbs = (case cb of None \<Rightarrow> cbs' | Some k \<Rightarrow> k # cbs')"
    using Cons.prems(1) h by (auto split: prod.splits)
  have p: "p \<notin> set ps" using Cons.prems(2) by simp
  have d: "distinct ps" using Cons.prems(2) by simp
  note IH = Cons.IH [OF r(1) d]
  have m: "map (\<lambda>q. case fst (handle_status_change (coll ?s) (pobjs ?s q)) of None \<Rightarrow> [] | Some k \<Rightarrow> [k]) ps =
      map (\<lambda>q. case fst (handle_status_change (coll s) (pobjs s q)) of None \<Rightarrow> [] | Some k \<Rightarrow> [k]) ps"
    using p by (intro map_cong) auto
  have cbs: "cbs = (case cb of None \<Rightarrow> [] | Some k \<Rightarrow> [k]) @ cbs'" using r(2) by (cases cb) simp_all
  have objs: "pobjs s' q = (if q \<in> set (p # ps) then snd (handle_status_change (coll s) (pobjs s q)) else pobjs s q)" for q
    using IH h p by (cases "q = p") simp_all
  have "cbs' = concat (map (\<lambda>q. case fst (handle_status_change (coll s) (pobjs s q)) of
      None \<Rightarrow> [] | Some k \<Rightarrow> [k]) ps)"
    using IH m by metis
  then have "cbs = concat (map (\<lambda>q. case fst (handle_status_change (coll s) (pobjs s q)) of
      None \<Rightarrow> [] | Some k \<Rightarrow> [k]) (p # ps))"
    using cbs h by simp
  with IH objs show ?case by (intro conjI allI) simp_all
qed simp

section \<open>Tracking invariant\<close>

abbreviation ph :: "sock_pipes \<Rightarrow> nat \<Rightarrow> nat" where
  "ph s p \<equiv> p_handle (pobjs s p)"

definition coll_inv :: "pipe_coll \<Rightarrow> bool" where
  "coll_inv c \<longleftrightarrow>
     distinct (members c) \<and> (\<forall>h \<in> set (members c). h < next_h c) \<and>
     inj_on (\<lambda>h. h_id (handles c h)) {..<next_h c} \<and>
     (\<forall>h < next_h c. h_status (handles c h) = REM_POST \<longleftrightarrow> h \<notin> set (members c))"

text \<open>
  The handles of the known pipes that are still members come first, in order, followed by
  handles no known pipe has.
\<close>

definition aligned :: "nat list \<Rightarrow> nat list \<Rightarrow> bool" where
  "aligned known ms \<longleftrightarrow>
     (\<exists>new. ms = filter (\<lambda>h. h \<in> set ms) known @ new \<and> set new \<inter> set known = {})"

definition track_inv :: "sock_pipes \<Rightarrow> bool" where
  "track_inv s \<longleftrightarrow>
     coll_inv (coll s) \<and> distinct (pipes s) \<and> (\<forall>p \<in> set (pipes s). p < next_p s) \<and>
     distinct (map (ph s) (pipes s)) \<and> (\<forall>p \<in> set (pipes s). ph s p < next_h (coll s)) \<and>
     aligned (map (ph s) (pipes s)) (members (coll s)) \<and>
     (\<not> had (coll s) \<longrightarrow> map (ph s) (pipes s) = members (coll s))"

lemma aligned_refl: "aligned ms ms"
  by (auto simp: aligned_def intro: exI [of _ "[]"])

lemma aligned_snoc:
  assumes "aligned known ms" "h \<notin> set known"
  shows "aligned known (ms @ [h])"
proof -
  obtain new where n: "ms = filter (\<lambda>h. h \<in> set ms) known @ new" "set new \<inter> set known = {}"
    using assms(1) by (auto simp: aligned_def)
  have "filter (\<lambda>x. x \<in> set (ms @ [h])) known = filter (\<lambda>x. x \<in> set ms) known"
    using assms(2) by (intro filter_cong) auto
  with n assms(2) show ?thesis unfolding aligned_def
    by (intro exI [of _ "new @ [h]"]) auto
qed

lemma remove1_filter_distinct: "distinct xs \<Longrightarrow> remove1 h xs = filter (\<lambda>x. x \<noteq> h) xs"
  by (rule distinct_remove1_removeAll [THEN trans]) (simp_all add: removeAll_filter_not_eq fun_eq_iff eq_commute)

lemma aligned_remove:
  assumes "aligned known ms" "distinct ms"
  shows "aligned known (remove1 h ms)"
proof -
  obtain new where n: "ms = filter (\<lambda>h. h \<in> set ms) known @ new" "set new \<inter> set known = {}"
    using assms(1) by (auto simp: aligned_def)
  have r: "remove1 h ms = filter (\<lambda>x. x \<noteq> h) ms" using assms(2) by (rule remove1_filter_distinct)
  have "filter (\<lambda>x. x \<noteq> h) ms = filter (\<lambda>x. x \<noteq> h) (filter (\<lambda>h. h \<in> set ms) known) @ filter (\<lambda>x. x \<noteq> h) new"
    using n(1) by (metis filter_append)
  also have "filter (\<lambda>x. x \<noteq> h) (filter (\<lambda>h. h \<in> set ms) known) =
      filter (\<lambda>x. x \<in> set (filter (\<lambda>x. x \<noteq> h) ms)) known"
    by (auto simp: filter_filter intro!: filter_cong)
  finally have e: "filter (\<lambda>x. x \<noteq> h) ms =
      filter (\<lambda>x. x \<in> set (filter (\<lambda>x. x \<noteq> h) ms)) known @ filter (\<lambda>x. x \<noteq> h) new" .
  have "set (filter (\<lambda>x. x \<noteq> h) new) \<inter> set known = {}" using n(2) by auto
  with e show ?thesis unfolding aligned_def r by blast
qed

lemma aligned_nil: "aligned known []"
  by (auto simp: aligned_def)

lemma set_status_simps [simp]:
  "members (set_status h s c) = members c" "next_h (set_status h s c) = next_h c"
  "had (set_status h s c) = had c" "cfilter (set_status h s c) = cfilter c"
  "fws (set_status h s c) = fws c" "closed (set_status h s c) = closed c"
  "h_id (handles (set_status h s c) k) = h_id (handles c k)"
  "h_status (handles (set_status h s c) k) = (if k = h then s else h_status (handles c k))"
  by (simp_all add: set_status_def)

lemma find_handle_Some:
  "find_handle i c = Some h \<Longrightarrow> h \<in> set (members c) \<and> h_id (handles c h) = i"
  by (auto simp: find_handle_def find_Some_iff)

text \<open>The guard on events of the C library: a new pipe has an id no handle has had.\<close>

definition fresh_pipe :: "nng_pipe \<Rightarrow> pipe_coll \<Rightarrow> bool" where
  "fresh_pipe p c \<longleftrightarrow> (\<forall>h < next_h c. h_id (handles c h) \<noteq> np_id p)"

definition event_ok :: "nng_pipe \<Rightarrow> pipe_ev \<Rightarrow> pipe_coll \<Rightarrow> bool" where
  "event_ok p ev c \<longleftrightarrow>
     (ev = ADD_PRE \<longrightarrow> fresh_pipe p c) \<and>
     (ev = ADD_POST \<longrightarrow> find_handle (np_id p) c \<noteq> None \<or> fresh_pipe p c)"

lemma add_handle_inv:
  assumes "coll_inv c" "fresh_pipe p c" "add_handle p c = (h, c')" "st \<noteq> REM_POST"
  shows "coll_inv (set_status h st c') \<and> h = next_h c \<and> members c' = members c @ [h] \<and>
    next_h c' = Suc (next_h c)"
proof -
  have c': "h = next_h c" "c' = c\<lparr>handles := (handles c)(h := PipeHandle_new p), next_h := Suc h, members := members c @ [h]\<rparr>"
    using assms(3) by (auto simp: add_handle_def)
  have "inj_on (\<lambda>k. h_id (handles c' k)) {..<Suc h}"
    using assms(1,2) by (auto simp: c' coll_inv_def inj_on_def fresh_pipe_def PipeHandle_new_def less_Suc_eq)
  moreover have "h \<notin> set (members c)" using assms(1) c'(1) by (auto simp: coll_inv_def)
  ultimately show ?thesis
    using assms(1,4) by (auto simp: c' coll_inv_def less_Suc_eq)
qed

lemma remove_handle_inv:
  assumes "coll_inv c"
  shows "coll_inv (remove_handle p c) \<and> next_h (remove_handle p c) = next_h c \<and>
    (\<exists>h. members (remove_handle p c) = remove1 h (members c) \<or> members (remove_handle p c) = members c)"
proof (cases "find_handle (np_id p) c")
  case None
  with assms show ?thesis by (simp add: remove_handle_def)
next
  case (Some h)
  then have "h \<in> set (members c)" by (blast dest: find_handle_Some)
  with assms Some show ?thesis
    by (auto simp: remove_handle_def coll_inv_def set_remove1_eq inj_on_def dest: notin_set_remove1)
qed

lemma coll_inv_cong:
  "members c' = members c \<Longrightarrow> next_h c' = next_h c \<Longrightarrow> handles c' = handles c \<Longrightarrow> coll_inv c' = coll_inv c"
  by (simp add: coll_inv_def)

text \<open>What an event may do to the members: nothing, append a fresh handle, remove one.\<close>

lemma handle_event_effect:
  assumes "coll_inv c" "event_ok p ev c"
  shows "coll_inv (handle_event e p ev c) \<and> next_h c \<le> next_h (handle_event e p ev c) \<and>
    (members (handle_event e p ev c) = members c \<or>
     members (handle_event e p ev c) = members c @ [next_h c] \<or>
     (\<exists>h. members (handle_event e p ev c) = remove1 h (members c))) \<and>
    (had (handle_event e p ev c) \<or> (had (handle_event e p ev c) = had c \<and> members (handle_event e p ev c) = members c))"
proof (cases ev)
  case EV_NONE
  then show ?thesis using assms coll_inv_cong [of "c\<lparr>had := True\<rparr>" c] by (simp add: handle_event_def)
next
  case ADD_PRE
  obtain ok st where f: "(case cfilter c of None \<Rightarrow> (True, fws c) | Some f \<Rightarrow> allow e f (info_of_pipe p) (fws c)) = (ok, st)"
    by fastforce
  let ?c1 = "c\<lparr>fws := st\<rparr>"
  have c1: "coll_inv ?c1" "fresh_pipe p ?c1"
    using assms ADD_PRE coll_inv_cong [of ?c1 c] by (simp_all add: event_ok_def fresh_pipe_def)
  show ?thesis
  proof (cases ok)
    case True
    obtain h c2 where a: "add_handle p ?c1 = (h, c2)" by fastforce
    from add_handle_inv [OF c1 a, of ADD_PRE]
    have i: "coll_inv (set_status h ADD_PRE c2)" "h = next_h c" "members c2 = members c @ [h]" "next_h c2 = Suc (next_h c)"
      by auto
    have "handle_event e p ev c = (set_status h ADD_PRE c2)\<lparr>had := True\<rparr>"
      using ADD_PRE f True a by (simp add: handle_event_def)
    with i coll_inv_cong [of "(set_status h ADD_PRE c2)\<lparr>had := True\<rparr>" "set_status h ADD_PRE c2"] show ?thesis by simp
  next
    case False
    then have "handle_event e p ev c = ?c1\<lparr>closed := closed ?c1 @ [np_id p]\<rparr>"
      using ADD_PRE f by (simp add: handle_event_def)
    with assms coll_inv_cong [of "?c1\<lparr>closed := closed ?c1 @ [np_id p]\<rparr>" c] show ?thesis by simp
  qed
next
  case ADD_POST
  show ?thesis
  proof (cases "find_handle (np_id p) c")
    case None
    obtain h c2 where a: "add_handle p c = (h, c2)" by fastforce
    have fr: "fresh_pipe p c" using assms(2) ADD_POST None by (simp add: event_ok_def)
    from add_handle_inv [OF assms(1) fr a, of ADD_POST]
    have i: "coll_inv (set_status h ADD_POST c2)" "h = next_h c" "members c2 = members c @ [h]" "next_h c2 = Suc (next_h c)"
      by auto
    have "handle_event e p ev c = (set_status h ADD_POST c2)\<lparr>had := True\<rparr>"
      using ADD_POST None a by (simp add: handle_event_def)
    with i coll_inv_cong [of "(set_status h ADD_POST c2)\<lparr>had := True\<rparr>" "set_status h ADD_POST c2"] show ?thesis by simp
  next
    case (Some h)
    let ?c1 = "set_status h ADD_POST c"
    have h: "h \<in> set (members c)" using find_handle_Some [OF Some] by simp
    have "coll_inv ?c1" using assms(1) h by (auto simp: coll_inv_def)
    moreover have "?c1\<lparr>fws := fws c, had := True\<rparr> = ?c1\<lparr>had := True\<rparr>" by (simp add: set_status_def)
    then have "handle_event e p ev c = ?c1\<lparr>fws := (case cfilter c of None \<Rightarrow> fws c
        | Some f \<Rightarrow> on_event f (info_of_pipe p) (fws c)), had := True\<rparr>"
      using ADD_POST Some by (cases "cfilter c") (simp_all add: handle_event_def Let_def)
    then obtain st where "handle_event e p ev c = ?c1\<lparr>fws := st, had := True\<rparr>" by blast
    ultimately show ?thesis using coll_inv_cong [of "?c1\<lparr>fws := st, had := True\<rparr>" ?c1] by simp
  qed
next
  case REM_POST
  have "handle_event e p ev c = (remove_handle p (c\<lparr>fws := (case cfilter c of None \<Rightarrow> fws c
      | Some f \<Rightarrow> (case find_handle (np_id p) c of None \<Rightarrow> fws c
          | Some h \<Rightarrow> on_event f (info_of_handle (handles c h)) (fws c)))\<rparr>))\<lparr>had := True\<rparr>"
    using REM_POST by (cases "cfilter c"; cases "find_handle (np_id p) c")
      (simp_all add: handle_event_def Let_def)
  then obtain st where e: "handle_event e p ev c = (remove_handle p (c\<lparr>fws := st\<rparr>))\<lparr>had := True\<rparr>"
    by blast
  have "coll_inv (c\<lparr>fws := st\<rparr>)" using assms(1) coll_inv_cong [of "c\<lparr>fws := st\<rparr>" c] by simp
  from remove_handle_inv [OF this, of p] e
    coll_inv_cong [of "(remove_handle p (c\<lparr>fws := st\<rparr>))\<lparr>had := True\<rparr>" "remove_handle p (c\<lparr>fws := st\<rparr>)"]
  show ?thesis by auto
qed

lemma event_track_inv:
  assumes "track_inv s" "event_ok p ev (coll s)"
  shows "track_inv (s\<lparr>coll := handle_event e p ev (coll s)\<rparr>)"
proof -
  let ?c = "coll s" and ?c' = "handle_event e p ev (coll s)" and ?k = "map (ph s) (pipes s)"
  have inv: "coll_inv ?c" and al: "aligned ?k (members ?c)"
    and rest: "\<not> had ?c \<longrightarrow> ?k = members ?c" and lt: "\<forall>q \<in> set (pipes s). ph s q < next_h ?c"
    using assms(1) by (simp_all add: track_inv_def)
  note eff = handle_event_effect [OF inv assms(2), of e]
  have "next_h ?c \<notin> set ?k" using lt by auto
  then have al': "aligned ?k (members ?c')"
    using eff al aligned_snoc [OF al] aligned_remove [OF al] inv by (auto simp: coll_inv_def)
  have "\<not> had ?c' \<longrightarrow> ?k = members ?c'" using eff rest by auto
  moreover have "\<forall>q \<in> set (pipes s). ph s q < next_h ?c'" using eff lt by (meson less_le_trans)
  ultimately show ?thesis using assms(1) eff al' by (simp add: track_inv_def)
qed

lemma update_pipes_spec:
  assumes "track_inv s" "had (coll s)"
  defines "c \<equiv> (coll s)\<lparr>had := False\<rparr>"
    and "kept \<equiv> filter (\<lambda>p. ph s p \<in> set (members (coll s))) (pipes s)"
    and "k \<equiv> length (filter (\<lambda>p. ph s p \<in> set (members (coll s))) (pipes s))"
  defines "fresh \<equiv> [next_p s ..< next_p s + (length (members (coll s)) - k)]"
  shows "coll (update_pipes s) = c \<and> pipes (update_pipes s) = kept @ fresh \<and>
    map (ph (update_pipes s)) (pipes (update_pipes s)) = members c \<and>
    next_p (update_pipes s) = next_p s + (length (members (coll s)) - k) \<and>
    sp_open (update_pipes s) = sp_open s \<and>
    (\<forall>p \<in> set (pipes s). pobjs (update_pipes s) p = snd (handle_status_change c (pobjs s p))) \<and>
    log (update_pipes s) = log s @
      map StatusCb (concat (map (\<lambda>p. case fst (handle_status_change c (pobjs s p)) of None \<Rightarrow> [] | Some k \<Rightarrow> [k]) (pipes s))) @
      map PipeRemoved (filter (\<lambda>p. ph s p \<notin> set (members (coll s))) (pipes s)) @
      (case on_new_pipe_cb s of None \<Rightarrow> [] | Some b \<Rightarrow> map (NewPipeCb b) fresh)"
proof -
  let ?s0 = "s\<lparr>coll := c\<rparr>" and ?ms = "members (coll s)"
  have inv: "coll_inv (coll s)" and dp: "distinct (pipes s)" and lp: "\<forall>p \<in> set (pipes s). p < next_p s"
    and dk: "distinct (map (ph s) (pipes s))" and lt: "\<forall>p \<in> set (pipes s). ph s p < next_h (coll s)"
    and al: "aligned (map (ph s) (pipes s)) ?ms"
    using assms(1) by (simp_all add: track_inv_def)
  obtain new where new: "?ms = filter (\<lambda>h. h \<in> set ?ms) (map (ph s) (pipes s)) @ new"
      "set new \<inter> set (map (ph s) (pipes s)) = {}"
    using al by (auto simp: aligned_def)
  have fm: "filter (\<lambda>h. h \<in> set ?ms) (map (ph s) (pipes s)) = map (ph s) kept"
    by (simp add: kept_def filter_map comp_def)
  have inj: "inj_on (\<lambda>h. h_id (handles c h)) {..<next_h (coll s)}"
    using inv by (simp add: coll_inv_def c_def)
  have mc: "members c = ?ms" by (simp add: c_def)
  have ms_lt: "\<forall>h \<in> set ?ms. h < next_h (coll s)" using inv by (simp add: coll_inv_def)
  let ?pid = "pipe_ident ?s0" and ?hid = "\<lambda>h. h_id (handles c h)"
  have pid: "?pid p = ?hid (ph s p)" for p by (simp add: pipe_ident_def)
  have "match_pipes ?pid ?hid (pipes s) (map (ph s) kept @ new) = (kept, new)"
    unfolding kept_def
  proof (rule match_pipes_spec)
    have "inj_on ?hid (set (map (ph s) (pipes s)))"
      by (rule inj_on_subset [OF inj]) (use lt in auto)
    then have "distinct (map ?hid (map (ph s) (pipes s)))" using dk by (subst distinct_map) blast
    moreover have "?pid = (\<lambda>p. ?hid (ph s p))" by (rule ext) (rule pid)
    ultimately show "distinct (map ?pid (pipes s))" by (simp add: comp_def)
    show "map ?hid (map (ph s) (filter (\<lambda>p. ph s p \<in> set ?ms) (pipes s))) =
        map ?pid (filter (\<lambda>p. ph s p \<in> set ?ms) (pipes s))" by (simp add: pid)
    fix h assume h: "h \<in> set new"
    then have "h \<in> set ?ms" using new(1) by (metis Un_iff set_append)
    then have "h < next_h (coll s)" using ms_lt by blast
    show "?hid h \<notin> ?pid ` set (pipes s)"
    proof
      assume "?hid h \<in> ?pid ` set (pipes s)"
      then obtain p where "p \<in> set (pipes s)" "?hid h = ?hid (ph s p)" by (auto simp: pid)
      with inj lt \<open>h < next_h (coll s)\<close> have "h = ph s p" by (auto simp: inj_on_def)
      with new(2) h \<open>p \<in> set (pipes s)\<close> show False by auto
    qed
  qed
  then have mt: "match_pipes ?pid ?hid (pipes s) ?ms = (kept, new)" using new(1) fm by simp
  have ln: "length new = length ?ms - k"
    using arg_cong [OF new(1), of length] fm by (simp add: k_def kept_def)
  obtain ps s1 where cp: "create_pipes new ?s0 = (ps, s1)" by fastforce
  note s1 = create_pipes_spec [OF cp]
  have ps: "ps = fresh" using s1 ln by (simp add: fresh_def)
  let ?s2 = "s1\<lparr>pipes := kept @ ps\<rparr>"
  obtain cbs s3 where sp: "status_pass (pipes s) ?s2 = (cbs, s3)" by fastforce
  note s3 = status_pass_spec [OF sp dp]
  have old: "pobjs ?s2 p = pobjs s p" if "p \<in> set (pipes s)" for p using s1 lp that by simp
  have rem: "filter (\<lambda>p. p \<notin> set kept) (pipes s) = filter (\<lambda>p. ph s p \<notin> set ?ms) (pipes s)"
    by (rule filter_cong) (auto simp: kept_def)
  have up: "update_pipes s = s3\<lparr>log := log s3 @ map StatusCb cbs @ map PipeRemoved (filter (\<lambda>p. ph s p \<notin> set ?ms) (pipes s)) @
      (case on_new_pipe_cb ?s2 of None \<Rightarrow> [] | Some b \<Rightarrow> map (NewPipeCb b) ps)\<rparr>"
    using assms(2) mt cp sp rem mc by (simp add: update_pipes_def had_events_def Let_def c_def [symmetric])
  have ph3: "ph s3 q = ph s1 q" for q using s3 by simp
  have "map (ph s3) (kept @ ps) = map (ph s) kept @ new"
    using s1 lp by (auto simp: ph3 kept_def cong: map_cong)
  also have "\<dots> = ?ms" using new(1) fm by simp
  finally have m: "map (ph s3) (kept @ ps) = members c" by (simp add: c_def)
  have cbs: "cbs = concat (map (\<lambda>p. case fst (handle_status_change c (pobjs s p)) of None \<Rightarrow> [] | Some k \<Rightarrow> [k]) (pipes s))"
    using s3 s1 old by (auto simp: cong: map_cong)
  show ?thesis using s3 s1 up m cbs old ps ln by auto
qed

lemma update_track_inv:
  assumes "track_inv s"
  shows "track_inv (update_pipes s)"
proof (cases "had (coll s)")
  case False
  then show ?thesis using assms by (simp add: update_pipes_def had_events_def)
next
  case True
  let ?kept = "filter (\<lambda>p. ph s p \<in> set (members (coll s))) (pipes s)"
  let ?n = "length (members (coll s)) - length ?kept"
  note u = update_pipes_spec [OF assms True]
  have inv: "coll_inv (coll s)" and dp: "distinct (pipes s)" and lp: "\<forall>p \<in> set (pipes s). p < next_p s"
    using assms by (simp_all add: track_inv_def)
  have c: "coll (update_pipes s) = (coll s)\<lparr>had := False\<rparr>" using u by blast
  have p: "pipes (update_pipes s) = ?kept @ [next_p s ..< next_p s + ?n]" using u by blast
  have n: "next_p (update_pipes s) = next_p s + ?n" using u by blast
  have "map (ph (update_pipes s)) (pipes (update_pipes s)) = members ((coll s)\<lparr>had := False\<rparr>)"
    using u by blast
  then have m: "map (ph (update_pipes s)) (pipes (update_pipes s)) = members (coll s)" by simp
  have ci: "coll_inv (coll (update_pipes s))" using inv coll_inv_cong [of "coll (update_pipes s)" "coll s"] by (simp add: c)
  have "distinct (pipes (update_pipes s))" using dp lp by (auto simp: p)
  moreover have "\<forall>q \<in> set (pipes (update_pipes s)). q < next_p (update_pipes s)" using lp by (auto simp: p n)
  moreover have "\<forall>q \<in> set (pipes (update_pipes s)). ph (update_pipes s) q < next_h (coll s)"
  proof
    fix q assume "q \<in> set (pipes (update_pipes s))"
    then have "ph (update_pipes s) q \<in> set (members (coll s))" using m by (metis image_eqI set_map)
    then show "ph (update_pipes s) q < next_h (coll s)" using inv by (simp add: coll_inv_def)
  qed
  ultimately show ?thesis
    using ci inv aligned_refl [of "members (coll s)"] unfolding track_inv_def m
    by (simp add: c coll_inv_def)
qed

section \<open>All interleavings\<close>

text \<open>
  Completion threads deliver events, the dispatcher updates, the user sets callbacks and the
  filter, adds dialers and listeners and closes pipes; closing the socket ends the tracking.
\<close>

inductive pipe_step :: "endian \<Rightarrow> sock_pipes \<Rightarrow> sock_pipes \<Rightarrow> bool" for e :: endian where
  nng_event: "event_ok p ev (coll s) \<Longrightarrow> pipe_step e s (s\<lparr>coll := handle_event e p ev (coll s)\<rparr>)"
| update: "pipe_step e s (update_pipes s)"
| set_cb: "set_on_status_change a (pobjs s q) = (r, x) \<Longrightarrow> pipe_step e s (s\<lparr>pobjs := (pobjs s)(q := x)\<rparr>)"
| user_close: "pipe_close err (pobjs s q) = (r, x) \<Longrightarrow> pipe_step e s (s\<lparr>pobjs := (pobjs s)(q := x)\<rparr>)"
| set_new_pipe_cb: "pipe_step e s (s\<lparr>on_new_pipe_cb := cb\<rparr>)"
| set_pipe_filter: "pipe_step e s (s\<lparr>coll := set_filter f (coll s)\<rparr>)"
| new_endpoint: "pipe_step e s (s\<lparr>dialers := ds, listeners := ls\<rparr>)"

definition pipes_init :: sock_pipes where
  "pipes_init = \<lparr>coll = \<lparr>handles = undefined, next_h = 0, members = [], had = False, cfilter = None,
      fws = undefined, closed = []\<rparr>,
     pobjs = undefined, next_p = 0, pipes = [], on_new_pipe_cb = None, dialers = [], listeners = [],
     sp_open = True, log = []\<rparr>"

lemma obj_track_inv:
  assumes "track_inv s" "p_handle x = ph s q"
  shows "track_inv (s\<lparr>pobjs := (pobjs s)(q := x)\<rparr>)"
proof -
  have e: "(\<lambda>p. p_handle (if p = q then x else pobjs s p)) = ph s" using assms(2) by (auto simp: fun_eq_iff)
  then have "p_handle (if p = q then x else pobjs s p) = ph s p" for p by (rule fun_cong)
  with e show ?thesis using assms(1) unfolding track_inv_def by simp
qed

lemma pipe_step_inv: "pipe_step e s s' \<Longrightarrow> track_inv s \<Longrightarrow> track_inv s'"
proof (induction rule: pipe_step.induct)
  case (nng_event p ev s)
  then show ?case by (simp add: event_track_inv)
next
  case (update s)
  then show ?case by (simp add: update_track_inv)
next
  case (set_cb a s q r x)
  then show ?case
    by (intro obj_track_inv) (auto simp: set_on_status_change_def split: cb_arg.splits)
next
  case (user_close err s q r x)
  then show ?case
    by (intro obj_track_inv)
       (auto simp: pipe_close_def handle_status_change_internal_def split: if_splits)
next
  case (set_new_pipe_cb s cb)
  then show ?case by (simp add: track_inv_def)
next
  case (set_pipe_filter s f)
  then show ?case by (simp add: track_inv_def set_filter_def coll_inv_def)
next
  case (new_endpoint s ds ls)
  then show ?case by (simp add: track_inv_def)
qed

lemma pipe_reach_inv: "(pipe_step e)\<^sup>*\<^sup>* pipes_init s \<Longrightarrow> track_inv s"
proof (induction rule: rtranclp_induct)
  case base
  show ?case by (simp add: pipes_init_def track_inv_def coll_inv_def aligned_nil)
next
  case (step y z)
  then show ?case using pipe_step_inv by blast
qed

text \<open>What one pipe object does with the statuses it is told, in order.\<close>

fun feed :: "pipe_ev list \<Rightarrow> pipe_obj \<Rightarrow> nat list \<times> pipe_obj" where
  "feed [] x = ([], x)"
| "feed (st # sts) x =
     (case handle_status_change_internal st x of (cb, x1) \<Rightarrow>
        (case feed sts x1 of (cbs, x2) \<Rightarrow> ((case cb of None \<Rightarrow> cbs | Some k \<Rightarrow> k # cbs), x2)))"

fun changes :: "pipe_ev \<Rightarrow> pipe_ev list \<Rightarrow> nat" where
  "changes cur [] = 0"
| "changes cur (st # sts) = (if st \<noteq> cur \<and> cur \<noteq> REM_POST then 1 + changes st sts else changes cur sts)"

lemma feed_changes:
  "change_callback x = Some k \<Longrightarrow> fst (feed sts x) = replicate (changes (last_known_status x) sts) k"
proof (induction sts arbitrary: x)
  case (Cons st sts)
  have "fst (feed sts (x\<lparr>last_known_status := st\<rparr>)) = replicate (changes st sts) k"
    using Cons.IH [of "x\<lparr>last_known_status := st\<rparr>"] Cons.prems by simp
  moreover have "fst (feed sts x) = replicate (changes (last_known_status x) sts) k"
    using Cons by blast
  ultimately show ?case using Cons.prems
    by (auto simp: handle_status_change_internal_def split: prod.splits)
qed simp

lemma feed_removed: "last_known_status x = REM_POST \<Longrightarrow> feed sts x = ([], x)"
  by (induction sts) (simp_all add: handle_status_change_internal_def)

lemma feed_append:
  "feed (as @ bs) x = (case feed as x of (c1, x1) \<Rightarrow> (case feed bs x1 of (c2, x2) \<Rightarrow> (c1 @ c2, x2)))"
  by (induction as arbitrary: x) (auto split: prod.splits option.splits)

lemma feed_removed_after:
  assumes "REM_POST \<in> set sts" "last_known_status x \<noteq> REM_POST"
  shows "last_known_status (snd (feed sts x)) = REM_POST"
  using assms
proof (induction sts arbitrary: x)
  case (Cons st sts)
  show ?case
  proof (cases "st = REM_POST")
    case True
    with Cons.prems(2) show ?thesis
      by (simp add: handle_status_change_internal_def feed_removed split: option.splits)
  next
    case False
    then have "REM_POST \<in> set sts" using Cons.prems(1) by simp
    moreover have "last_known_status (snd (handle_status_change_internal st x)) \<noteq> REM_POST"
      using False Cons.prems(2) by (simp add: handle_status_change_internal_def)
    ultimately show ?thesis using Cons.IH by (simp split: prod.splits) (metis snd_conv)
  qed
qed simp

lemma feed_no_callback: "change_callback x = None \<Longrightarrow> fst (feed sts x) = []"
proof (induction sts arbitrary: x)
  case (Cons st sts)
  have "fst (feed sts (x\<lparr>last_known_status := st\<rparr>)) = []" "fst (feed sts x) = []"
    using Cons.IH [of "x\<lparr>last_known_status := st\<rparr>"] Cons by simp_all
  with Cons.prems show ?case by (auto simp: handle_status_change_internal_def split: prod.splits)
qed simp

lemma coll_clear_simps:
  "members (coll_clear c) = []" "next_h (coll_clear c) = next_h c"
  "h_status (handles (coll_clear c) h) = (if h \<in> set (members c) then REM_POST else h_status (handles c h))"
proof -
  have f: "members (fold (\<lambda>h. set_status h REM_POST) hs c) = members c \<and>
      next_h (fold (\<lambda>h. set_status h REM_POST) hs c) = next_h c \<and>
      h_status (handles (fold (\<lambda>h. set_status h REM_POST) hs c) h) =
        (if h \<in> set hs then REM_POST else h_status (handles c h))" for hs
    by (induction hs arbitrary: c) auto
  show "members (coll_clear c) = []" "next_h (coll_clear c) = next_h c"
    "h_status (handles (coll_clear c) h) = (if h \<in> set (members c) then REM_POST else h_status (handles c h))"
    using f [of "members c"] by (simp_all add: coll_clear_def)
qed

lemma coll_clear_ids: "h_id (handles (coll_clear c) h) = h_id (handles c h)"
proof -
  have "h_id (handles (fold (\<lambda>h. set_status h REM_POST) hs c) h) = h_id (handles c h)" for hs
    by (induction hs arbitrary: c) (auto simp: set_status_def)
  then show ?thesis by (simp add: coll_clear_def)
qed

lemma cleared_status:
  assumes "coll_inv c" "h < next_h c"
  shows "h_status (handles (set_filter None (coll_clear c)) h) = REM_POST"
  using assms by (auto simp: set_filter_def coll_clear_simps coll_inv_def)

text \<open>C16: in every state reachable by any interleaving of NNG's pipe events, dispatcher
  updates and user calls, a dispatcher update leaves the socket with exactly one pipe object
  per handle of the collection, in the collection's order; pipes that are still members keep
  their object and come first; the callbacks run are, in this order, the status callbacks of
  the previous pipes, the removal hook once for every pipe that left, and the new-pipe
  callback once for every new object.\<close>

theorem update_pipes_mirrors:
  assumes "(pipe_step e)\<^sup>*\<^sup>* pipes_init s" and "had (coll s)"
  shows "\<exists>fresh. map (ph (update_pipes s)) (pipes (update_pipes s)) = members (coll s) \<and>
    pipes (update_pipes s) = filter (\<lambda>p. ph s p \<in> set (members (coll s))) (pipes s) @ fresh \<and>
    set fresh \<inter> set (pipes s) = {} \<and> distinct (pipes (update_pipes s)) \<and>
    \<not> had (coll (update_pipes s)) \<and> update_pipes (update_pipes s) = update_pipes s \<and>
    (\<exists>cbs. log (update_pipes s) = log s @ map StatusCb cbs @
      map PipeRemoved (filter (\<lambda>p. ph s p \<notin> set (members (coll s))) (pipes s)) @
      (case on_new_pipe_cb s of None \<Rightarrow> [] | Some b \<Rightarrow> map (NewPipeCb b) fresh))"
proof -
  have inv: "track_inv s" using assms(1) by (rule pipe_reach_inv)
  let ?n = "length (members (coll s)) - length (filter (\<lambda>p. ph s p \<in> set (members (coll s))) (pipes s))"
  let ?fresh = "[next_p s ..< next_p s + ?n]"
  note u = update_pipes_spec [OF inv assms(2)]
  have c: "coll (update_pipes s) = (coll s)\<lparr>had := False\<rparr>" using u by blast
  then have "\<not> had (coll (update_pipes s))" by simp
  moreover from this have "update_pipes (update_pipes s) = update_pipes s"
    by (simp add: update_pipes_def [of "update_pipes s"] had_events_def)
  moreover have "set ?fresh \<inter> set (pipes s) = {}" using inv by (auto simp: track_inv_def)
  moreover have "distinct (pipes (update_pipes s))" using update_track_inv [OF inv] by (simp add: track_inv_def)
  moreover have "map (ph (update_pipes s)) (pipes (update_pipes s)) = members ((coll s)\<lparr>had := False\<rparr>)"
    using u by blast
  then have "map (ph (update_pipes s)) (pipes (update_pipes s)) = members (coll s)" by simp
  ultimately show ?thesis using u by (intro exI [of _ ?fresh]) blast
qed

definition demo_pipe :: "int \<Rightarrow> nng_pipe" where
  "demo_pipe i = \<lparr>np_id = i, np_dialer = 0, np_listener = 1,
     np_peer_addr = (NNG_OK, SA_unspec), np_self_addr = (NNG_OK, SA_unspec), np_nodelay = None,
     np_keepalive = None, np_tls_verified = None, np_peer_cn = None, np_cert_der = None, np_pid = Some 42\<rparr>"

definition demo_state :: sock_pipes where
  "demo_state = pipes_init\<lparr>coll := handle_event LittleEndian (demo_pipe 7) ADD_PRE (coll pipes_init)\<rparr>"

lemma demo_reachable: "(pipe_step LittleEndian)\<^sup>*\<^sup>* pipes_init demo_state"
proof -
  have ok: "event_ok (demo_pipe 7) ADD_PRE (coll pipes_init)"
    by (simp add: event_ok_def fresh_pipe_def pipes_init_def)
  show ?thesis unfolding demo_state_def by (rule r_into_rtranclp) (rule pipe_step.nng_event [OF ok])
qed

theorem update_pipes_mirrors_witness:
  "(pipe_step LittleEndian)\<^sup>*\<^sup>* pipes_init demo_state \<and> had (coll demo_state) \<and>
   length (pipes (update_pipes demo_state)) = 1"
proof -
  note r = demo_reachable
  have h: "had (coll demo_state)" "members (coll demo_state) = [0]"
    by (simp_all add: demo_state_def pipes_init_def handle_event_def add_handle_def)
  from update_pipes_mirrors [OF r h(1)] h(2)
  have "map (ph (update_pipes demo_state)) (pipes (update_pipes demo_state)) = [0]" by auto
  then have "length (pipes (update_pipes demo_state)) = 1" by (metis length_map length_Cons list.size(3) One_nat_def)
  with r h show ?thesis by blast
qed

text \<open>A pipe object told a sequence of statuses calls its callback once for each
  change of status it sees, with no call once it has seen \<open>REMOVED\<close>; having been told of the
  removal it stays removed and reports so, and a later \<open>close\<close> calls nothing.\<close>

theorem status_callbacks:
  "(change_callback x = Some k \<longrightarrow> fst (feed sts x) = replicate (changes (last_known_status x) sts) k) \<and>
   (change_callback x = None \<longrightarrow> fst (feed sts x) = []) \<and>
   (REM_POST \<in> set sts \<longrightarrow>
      fst (feed (sts @ later) x) = fst (feed sts x) \<and> pipe_status c (snd (feed (sts @ later) x)) = Inr REM_POST \<and>
      (err \<in> {NNG_OK, NNG_ECLOSED, NNG_ENOENT} \<longrightarrow>
         pipe_close err (snd (feed sts x)) = (Inr None, snd (feed sts x))))"
proof (intro conjI impI)
  assume "REM_POST \<in> set sts"
  then have r: "last_known_status (snd (feed sts x)) = REM_POST"
    using feed_removed_after [of sts x] feed_removed [of x sts] by (cases "last_known_status x = REM_POST") auto
  have f: "feed (sts @ later) x = feed sts x"
    using feed_removed [OF r, of later] by (simp add: feed_append split_def)
  show "fst (feed (sts @ later) x) = fst (feed sts x)" by (simp only: f)
  show "pipe_status c (snd (feed (sts @ later) x)) = Inr REM_POST" using r by (simp add: f pipe_status_def)
  show "pipe_close err (snd (feed sts x)) = (Inr None, snd (feed sts x))" if "err \<in> {NNG_OK, NNG_ECLOSED, NNG_ENOENT}"
    using that r by (auto simp: pipe_close_def handle_status_change_internal_def)
qed (simp_all add: feed_changes feed_no_callback)

theorem status_callbacks_witness:
  "let x = \<lparr>p_handle = 0, last_known_status = ADD_PRE, change_callback = Some 9, p_dialer = None, p_listener = None\<rparr>
   in fst (feed [ADD_POST, ADD_POST, REM_POST] x) = [9, 9]"
proof -
  let ?x = "\<lparr>p_handle = 0, last_known_status = ADD_PRE, change_callback = Some 9, p_dialer = None, p_listener = None\<rparr>"
  have cb: "change_callback ?x = Some 9" by simp
  have two: "replicate (changes (last_known_status ?x) [ADD_POST, ADD_POST, REM_POST]) (9::nat) = [9, 9]"
    by (simp add: numeral_2_eq_2)
  show ?thesis unfolding Let_def
    by (rule trans [OF mp [OF conjunct1 [OF status_callbacks] cb] two])
qed

text \<open>A pipe the installed filter refuses is closed and leaves no trace: nothing but
  the filter's own state and the record of the close changes, so a socket that was up to date
  creates no object and runs no callback for it, and its removal event later finds nothing
  to remove; a pipe that passes becomes the last member, with status \<open>ADD_PRE\<close>.\<close>

theorem rejected_pipe_invisible:
  assumes "cfilter (coll s) = Some f" "allow e f (info_of_pipe p) (fws (coll s)) = (ok, st)"
    and "fresh_pipe p (coll s)" "coll_inv (coll s)" "\<not> had (coll s)"
  shows "let s' = s\<lparr>coll := handle_event e p ADD_PRE (coll s)\<rparr> in
    if ok then
      members (coll s') = members (coll s) @ [next_h (coll s)] \<and> closed (coll s') = closed (coll s) \<and>
      h_status (handles (coll s') (next_h (coll s))) = ADD_PRE \<and>
      h_id (handles (coll s') (next_h (coll s))) = np_id p \<and> had (coll s')
    else
      coll s' = (coll s)\<lparr>fws := st, closed := closed (coll s) @ [np_id p]\<rparr> \<and> update_pipes s' = s' \<and>
      members (handle_event e p REM_POST (coll s')) = members (coll s) \<and>
      handles (handle_event e p REM_POST (coll s')) = handles (coll s) \<and>
      fws (handle_event e p REM_POST (coll s')) = st"
proof -
  have "find_handle (np_id p) (coll s) = None"
    using assms(3,4) find_handle_Some [of "np_id p" "coll s"]
    by (cases "find_handle (np_id p) (coll s)") (auto simp: fresh_pipe_def coll_inv_def)
  then have "find_handle (np_id p) ((coll s)\<lparr>fws := st, closed := closed (coll s) @ [np_id p]\<rparr>) = None"
    by (simp add: find_handle_def)
  then show ?thesis using assms(1,2,5)
    by (simp add: Let_def handle_event_def update_pipes_def had_events_def remove_handle_def
        add_handle_def PipeHandle_new_def set_status_def)
qed

theorem rejected_pipe_invisible_witness:
  "let s = pipes_init\<lparr>coll := (coll pipes_init)\<lparr>cfilter := Some (AnyFilter [])\<rparr>\<rparr>;
       s' = s\<lparr>coll := handle_event LittleEndian (demo_pipe 7) ADD_PRE (coll s)\<rparr>
   in update_pipes s' = s' \<and> closed (coll s') = [7]"
proof -
  let ?s = "pipes_init\<lparr>coll := (coll pipes_init)\<lparr>cfilter := Some (AnyFilter [])\<rparr>\<rparr>"
  have "cfilter (coll ?s) = Some (AnyFilter [])"
      "allow LittleEndian (AnyFilter []) (info_of_pipe (demo_pipe 7)) (fws (coll ?s)) = (False, fws (coll ?s))"
      "fresh_pipe (demo_pipe 7) (coll ?s)" "coll_inv (coll ?s)" "\<not> had (coll ?s)"
    by (simp_all add: pipes_init_def fresh_pipe_def coll_inv_def)
  note r = rejected_pipe_invisible [OF this]
  have "np_id (demo_pipe 7) = 7" "closed (coll pipes_init) = []" by (simp_all add: demo_pipe_def pipes_init_def)
  then show ?thesis using r unfolding Let_def by auto
qed

text \<open>What \<open>close\<close> does to the pipes; it keeps the tracking invariant.\<close>

lemma close_pipes_spec:
  assumes inv: "track_inv s" and "sp_open s"
  shows "pipes (close_pipes s) = []" "members (coll (close_pipes s)) = []" "log (close_pipes s) = log s"
    "\<And>p. p \<in> set (pipes s) \<Longrightarrow> pipe_status (coll (close_pipes s)) (pobjs (close_pipes s) p) = Inr REM_POST"
    "log (update_pipes (close_pipes s)) = log s" "\<not> sp_open (close_pipes s)" "track_inv (close_pipes s)"
proof -
  let ?c = "set_filter None (coll_clear (coll s))"
  let ?s1 = "s\<lparr>on_new_pipe_cb := None, pipes := [], coll := ?c, sp_open := False\<rparr>"
  obtain cbs s3 where sp: "status_pass (pipes s) ?s1 = (cbs, s3)" by fastforce
  have cl: "close_pipes s = s3" using assms(2) sp by (simp add: close_pipes_def Let_def)
  have dp: "distinct (pipes s)" using inv by (simp add: track_inv_def)
  from status_pass_spec [OF sp dp]
  have s3: "coll s3 = ?c" "pipes s3 = []" "log s3 = log s" "on_new_pipe_cb s3 = None" "\<not> sp_open s3"
      "\<And>p. p \<in> set (pipes s) \<Longrightarrow> pobjs s3 p = snd (handle_status_change ?c (pobjs s p))"
    by simp_all
  have m: "members ?c = []" by (simp add: set_filter_def coll_clear_simps)
  show "pipe_status (coll (close_pipes s)) (pobjs (close_pipes s) p) = Inr REM_POST" if "p \<in> set (pipes s)" for p
  proof -
    have "h_status (handles ?c (ph s p)) = REM_POST"
      using inv that by (intro cleared_status) (simp_all add: track_inv_def)
    then show ?thesis using s3(1) s3(6) [OF that]
      by (simp add: cl pipe_status_def handle_status_change_def handle_status_change_internal_def)
  qed
  show "log (update_pipes (close_pipes s)) = log s"
    using s3(1-4) m by (simp add: cl update_pipes_def had_events_def Let_def)
  have "h_id (handles ?c h) = h_id (handles (coll s) h)" for h
    by (simp add: set_filter_def coll_clear_ids)
  moreover have "h_status (handles ?c h) = REM_POST" if "h < next_h (coll s)" for h
    using inv that by (intro cleared_status) (simp_all add: track_inv_def)
  ultimately have "coll_inv ?c" using inv m by (auto simp: track_inv_def coll_inv_def set_filter_def coll_clear_simps inj_on_def)
  then show "track_inv (close_pipes s)" using m s3(1,2) by (simp add: cl track_inv_def aligned_nil)
  show "pipes (close_pipes s) = []" "members (coll (close_pipes s)) = []" "log (close_pipes s) = log s" "\<not> sp_open (close_pipes s)"
    using s3 m by (simp_all add: cl)
qed

text \<open>Closing a socket empties its list of pipes and every pipe object reports
  \<open>REMOVED\<close>, in every reachable state; no status callback, removal hook or new-pipe callback
  runs then or in any dispatcher update that follows, and a second close changes nothing.\<close>

theorem close_pipes_silent:
  assumes "(pipe_step e)\<^sup>*\<^sup>* pipes_init s" and "sp_open s"
  shows "pipes (close_pipes s) = [] \<and> members (coll (close_pipes s)) = [] \<and>
    (\<forall>p \<in> set (pipes s). pipe_status (coll (close_pipes s)) (pobjs (close_pipes s) p) = Inr REM_POST) \<and>
    log (close_pipes s) = log s \<and> log (update_pipes (close_pipes s)) = log s \<and>
    close_pipes (close_pipes s) = close_pipes s"
  using close_pipes_spec [OF pipe_reach_inv [OF assms(1)] assms(2)] by (simp add: close_pipes_def [of "close_pipes s"])

theorem close_pipes_silent_witness:
  "(pipe_step LittleEndian)\<^sup>*\<^sup>* pipes_init demo_state \<and> sp_open demo_state \<and>
   members (coll (close_pipes demo_state)) = []"
proof -
  have o: "sp_open demo_state" by (simp add: demo_state_def pipes_init_def)
  from close_pipes_silent [OF demo_reachable o] o demo_reachable show ?thesis by blast
qed

end
