(* ===== verification/Transfers.thy ===== *)
theory Transfers
  imports Ownership Aio
begin

text \<open>
  Sending and receiving on a \<open>Socket\<close> (\<^verbatim>\<open>nng/_socket.pxi\<close>) and on a \<open>Context\<close>
  (\<^verbatim>\<open>nng/_context.pxi\<close>): who owns the message on every path of the synchronous, asyncio and
  concurrent-future methods, and whether the \<open>nng_aio\<close> is freed. The C library's answers
  (return codes, how often a wait times out, when a signal arrives) are arguments of each call.
\<close>

section \<open>State of a call\<close>

text \<open>
  \<open>arg\<close> is the \<open>Message\<close> the caller passes, \<open>nng_owned\<close> the messages the C library owns,
  \<open>aios\<close> counts the \<open>nng_aio\<close> objects that exist.
\<close>

record xfer_st =
  xheap :: msg_heap
  arg :: message
  nng_owned :: "nat set"
  aios :: nat

datatype send_data = AsMessage | AsData py_data

datatype end_kind = OnSocket | OnContext

fun closed_text :: "end_kind \<Rightarrow> string" where
  "closed_text OnSocket = ''Socket is closed''"
| "closed_text OnContext = ''Context is closed''"

definition check_open :: "end_kind \<Rightarrow> bool \<Rightarrow> unit result" where
  "check_open k is_open =
     (if \<not> is_open then Inl (NngExn NngClosed NNG_ECLOSED (Literal (closed_text k))) else Inr ())"

text \<open>One turn of the polling loop: a signal handler raises, or the wait of 100 ms ends.\<close>

datatype poll_round = SignalRaises py_exn bool | Waited bool

datatype poll_end = Completed | Interrupted py_exn bool

text \<open>\<open>None\<close>: still polling after all the turns given.\<close>

fun poll :: "poll_round list \<Rightarrow> poll_end option" where
  "poll [] = None"
| "poll (SignalRaises e busy # rs) = Some (Interrupted e busy)"
| "poll (Waited still_busy # rs) = (if still_busy then poll rs else Some Completed)"

text \<open>
  What the C library answers: the code of the non-blocking call, of \<open>nng_aio_alloc\<close>, whether
  the first wait finds the operation busy, the turns of the loop, the code of an operation that
  ends by itself, and of one that was cancelled while busy.
\<close>

record xfer_env =
  e_open :: bool
  e_nonblock_rv :: nng_err
  e_aio_alloc :: nng_err
  e_first_busy :: bool
  e_rounds :: "poll_round list"
  e_result :: nng_err
  e_cancel_result :: nng_err

section \<open>Blocking and non-blocking calls\<close>

definition build_msg :: "msg_lib \<Rightarrow> send_data \<Rightarrow> xfer_st \<Rightarrow> nat result \<times> xfer_st" where
  "build_msg L data s =
     (case data of
        AsData d \<Rightarrow>
          (case nng_msg_from_data L d (xheap s) of
             (Inl e, h) \<Rightarrow> (Inl e, s\<lparr>xheap := h\<rparr>)
           | (Inr (rv, p), h) \<Rightarrow>
               (case check_err rv of Inl e \<Rightarrow> (Inl e, s\<lparr>xheap := h\<rparr>) | Inr _ \<Rightarrow> (Inr p, s\<lparr>xheap := h\<rparr>)))
      | AsMessage \<Rightarrow>
          (case steal_ptr \<lparr>heap = xheap s, self = arg s\<rparr> of
             (r, t) \<Rightarrow> (r, s\<lparr>xheap := heap t, arg := self t\<rparr>)))"

text \<open>
  After the result code is known: the C library has the message on success; otherwise the
  copy is freed or the pointer is put back.
\<close>

definition settle :: "send_data \<Rightarrow> nat \<Rightarrow> nng_err \<Rightarrow> xfer_st \<Rightarrow> xfer_st" where
  "settle data p rv s =
     (if rv = NNG_OK then s\<lparr>nng_owned := insert p (nng_owned s)\<rparr>
      else (case data of
              AsData _ \<Rightarrow> s\<lparr>xheap := nng_msg_free p (xheap s)\<rparr>
            | AsMessage \<Rightarrow>
                (case handle_restore p \<lparr>heap = xheap s, self = arg s\<rparr> of
                   (_, t) \<Rightarrow> s\<lparr>xheap := heap t, arg := self t\<rparr>)))"

definition aio_alloc :: "xfer_st \<Rightarrow> xfer_st" where
  "aio_alloc s = s\<lparr>aios := Suc (aios s)\<rparr>"

definition aio_free :: "xfer_st \<Rightarrow> xfer_st" where
  "aio_free s = s\<lparr>aios := aios s - 1\<rparr>"

definition send_msg ::
    "end_kind \<Rightarrow> msg_lib \<Rightarrow> xfer_env \<Rightarrow> send_data \<Rightarrow> bool \<Rightarrow> xfer_st \<Rightarrow> (unit result \<times> xfer_st) option" where
  "send_msg k L env data nonblock s =
     (case check_open k (e_open env) of
        Inl e \<Rightarrow> Some (Inl e, s)
      | Inr _ \<Rightarrow>
          (case build_msg L data s of
             (Inl e, s1) \<Rightarrow> Some (Inl e, s1)
           | (Inr p, s1) \<Rightarrow>
               if nonblock then
                 Some (check_err (e_nonblock_rv env), settle data p (e_nonblock_rv env) s1)
               else
                 (case check_err (e_aio_alloc env) of
                    Inl e \<Rightarrow> Some (Inl e, s1)
                  | Inr _ \<Rightarrow>
                      (let s2 = aio_alloc s1 in
                       if \<not> e_first_busy env then
                         Some (check_err (e_result env), aio_free (settle data p (e_result env) s2))
                       else
                         (case poll (e_rounds env) of
                            None \<Rightarrow> None
                          | Some Completed \<Rightarrow>
                              Some (check_err (e_result env), aio_free (settle data p (e_result env) s2))
                          | Some (Interrupted e busy) \<Rightarrow>
                              (let rv = (if busy then e_cancel_result env else e_result env) in
                               Some (Inl e, aio_free (settle data p rv s2))))))))"

text \<open>The message \<open>p\<close> is the one the C library delivers when the code is \<open>NNG_OK\<close>.\<close>

definition take_msg :: "nat \<Rightarrow> nng_err \<Rightarrow> xfer_st \<Rightarrow> message result \<times> xfer_st" where
  "take_msg p rv s =
     (case check_err rv of
        Inl e \<Rightarrow> (Inl e, s)
      | Inr _ \<Rightarrow> (Inr (from_ptr p), s\<lparr>nng_owned := nng_owned s - {p}\<rparr>))"

definition drop_msg :: "nat \<Rightarrow> nng_err \<Rightarrow> xfer_st \<Rightarrow> xfer_st" where
  "drop_msg p rv s =
     (if rv = NNG_OK then s\<lparr>xheap := nng_msg_free p (xheap s), nng_owned := nng_owned s - {p}\<rparr> else s)"

definition recv_msg ::
    "end_kind \<Rightarrow> xfer_env \<Rightarrow> nat \<Rightarrow> bool \<Rightarrow> xfer_st \<Rightarrow> (message result \<times> xfer_st) option" where
  "recv_msg k env p nonblock s =
     (case check_open k (e_open env) of
        Inl e \<Rightarrow> Some (Inl e, s)
      | Inr _ \<Rightarrow>
          if nonblock then Some (take_msg p (e_nonblock_rv env) s)
          else
            (case check_err (e_aio_alloc env) of
               Inl e \<Rightarrow> Some (Inl e, s)
             | Inr _ \<Rightarrow>
                 (let s2 = aio_alloc s in
                  if \<not> e_first_busy env then
                    Some (apsnd aio_free (take_msg p (e_result env) s2))
                  else
                    (case poll (e_rounds env) of
                       None \<Rightarrow> None
                     | Some Completed \<Rightarrow> Some (apsnd aio_free (take_msg p (e_result env) s2))
                     | Some (Interrupted e busy) \<Rightarrow>
                         (let rv = (if busy then e_cancel_result env else e_result env) in
                          Some (Inl e, aio_free (drop_msg p rv s2)))))))"

text \<open>The two classes differ in the C functions called and the text of the closed error.\<close>

definition Socket_send :: "msg_lib \<Rightarrow> xfer_env \<Rightarrow> send_data \<Rightarrow> bool \<Rightarrow> xfer_st \<Rightarrow> (unit result \<times> xfer_st) option" where
  "Socket_send = send_msg OnSocket"

definition Context_send :: "msg_lib \<Rightarrow> xfer_env \<Rightarrow> send_data \<Rightarrow> bool \<Rightarrow> xfer_st \<Rightarrow> (unit result \<times> xfer_st) option" where
  "Context_send = send_msg OnContext"

definition Socket_recv :: "xfer_env \<Rightarrow> nat \<Rightarrow> bool \<Rightarrow> xfer_st \<Rightarrow> (message result \<times> xfer_st) option" where
  "Socket_recv = recv_msg OnSocket"

definition Context_recv :: "xfer_env \<Rightarrow> nat \<Rightarrow> bool \<Rightarrow> xfer_st \<Rightarrow> (message result \<times> xfer_st) option" where
  "Context_recv = recv_msg OnContext"

section \<open>Futures\<close>

text \<open>
  What happens to an asynchronous operation after its creation: whether creating it fails,
  whether it had completed at submission, its result code, and whether the awaiting task is
  cancelled (then the code is that after \<open>nng_aio_cancel\<close>).
\<close>

record async_env =
  a_open :: bool
  a_create :: "unit result"
  a_skipped :: bool
  a_result :: nng_err
  a_task_cancelled :: bool

fun no_msg_text :: "end_kind \<Rightarrow> string" where
  "no_msg_text OnSocket = ''No message in AIO after async recv''"
| "no_msg_text OnContext = ''No message in AIO after recv''"

text \<open>
  The operation object owns its \<open>nng_aio\<close>, and \<open>AioHandle::destroy\<close> frees it when the
  object dies. The message stays attached to the \<open>nng_aio\<close>, which does not own it.
\<close>

definition asend_msg :: "end_kind \<Rightarrow> msg_lib \<Rightarrow> async_env \<Rightarrow> send_data \<Rightarrow> xfer_st \<Rightarrow> unit result \<times> xfer_st" where
  "asend_msg k L env data s =
     (case check_open k (a_open env) of
        Inl e \<Rightarrow> (Inl e, s)
      | Inr _ \<Rightarrow>
          (case a_create env of
             Inl e \<Rightarrow> (Inl e, s)
           | Inr _ \<Rightarrow>
               (case build_msg L data (aio_alloc s) of
                  (Inl e, s1) \<Rightarrow> (Inl e, aio_free s1)
                | (Inr p, s1) \<Rightarrow>
                    (let s2 = (if a_result env = NNG_OK then s1\<lparr>nng_owned := insert p (nng_owned s1)\<rparr> else s1)
                     in if a_skipped env then (check_err (a_result env), aio_free s2)
                        else if a_task_cancelled env then (Inl (PyExn CancelledError), aio_free s2)
                        else (check_err (a_result env), aio_free s2)))))"

definition arecv_msg :: "end_kind \<Rightarrow> async_env \<Rightarrow> nat \<Rightarrow> xfer_st \<Rightarrow> message result \<times> xfer_st" where
  "arecv_msg k env p s =
     (case check_open k (a_open env) of
        Inl e \<Rightarrow> (Inl e, s)
      | Inr _ \<Rightarrow>
          (case a_create env of
             Inl e \<Rightarrow> (Inl e, s)
           | Inr _ \<Rightarrow>
               (let s1 = aio_alloc s;
                    s2 = (if a_result env = NNG_OK then s1\<lparr>nng_owned := nng_owned s1 - {p}\<rparr> else s1)
                in if \<not> a_skipped env \<and> a_task_cancelled env then (Inl (PyExn CancelledError), aio_free s2)
                   else (case check_err (a_result env) of
                           Inl e \<Rightarrow> (Inl e, aio_free s2)
                         | Inr _ \<Rightarrow>
                             if p = 0 then (Inl (NngExn NngError NNG_EINTERNAL (Literal (no_msg_text k))), aio_free s2)
                             else (Inr (from_ptr p), aio_free s2)))))"

text \<open>
  The concurrent forms return at once; these give the final state of the future they return,
  after the dispatcher ran the completion handler (\<open>a_task_cancelled\<close>: the caller cancelled
  the future first, and \<open>_on_cancel\<close> cancelled the operation).
\<close>

definition sync_op_for :: "async_env \<Rightarrow> bool \<Rightarrow> nat \<Rightarrow> sync_op" where
  "sync_op_for env wants_msg p =
     \<lparr>has_future = True, fut = (if a_task_cancelled env then Cancelled else Pending),
      has_result = wants_msg, err = a_result env, msg = p\<rparr>"

definition submit_send_msg :: "end_kind \<Rightarrow> msg_lib \<Rightarrow> async_env \<Rightarrow> send_data \<Rightarrow> xfer_st \<Rightarrow> fut_state result \<times> xfer_st" where
  "submit_send_msg k L env data s =
     (case check_open k (a_open env) of
        Inl e \<Rightarrow> (Inl e, s)
      | Inr _ \<Rightarrow>
          (case a_create env of
             Inl e \<Rightarrow> (Inl e, s)
           | Inr _ \<Rightarrow>
               (case build_msg L data (aio_alloc s) of
                  (Inl e, s1) \<Rightarrow> (Inl e, aio_free s1)
                | (Inr p, s1) \<Rightarrow>
                    (let s2 = (if a_result env = NNG_OK then s1\<lparr>nng_owned := insert p (nng_owned s1)\<rparr> else s1)
                     in (Inr (fut (snd (sync_dispatch_complete (sync_op_for env False p)))), aio_free s2)))))"

definition submit_recv_msg :: "end_kind \<Rightarrow> async_env \<Rightarrow> nat \<Rightarrow> xfer_st \<Rightarrow> fut_state result \<times> xfer_st" where
  "submit_recv_msg k env p s =
     (case check_open k (a_open env) of
        Inl e \<Rightarrow> (Inl e, s)
      | Inr _ \<Rightarrow>
          (case a_create env of
             Inl e \<Rightarrow> (Inl e, s)
           | Inr _ \<Rightarrow>
               (let s1 = aio_alloc s;
                    s2 = (if a_result env = NNG_OK then s1\<lparr>nng_owned := nng_owned s1 - {p}\<rparr> else s1)
                in (Inr (fut (snd (sync_dispatch_complete (sync_op_for env True p)))), aio_free s2))))"

text \<open>The same methods of a context.\<close>

definition Context_asend :: "msg_lib \<Rightarrow> async_env \<Rightarrow> send_data \<Rightarrow> xfer_st \<Rightarrow> unit result \<times> xfer_st" where
  "Context_asend = asend_msg OnContext"

definition Context_arecv :: "async_env \<Rightarrow> nat \<Rightarrow> xfer_st \<Rightarrow> message result \<times> xfer_st" where
  "Context_arecv = arecv_msg OnContext"

definition Context_submit_send :: "msg_lib \<Rightarrow> async_env \<Rightarrow> send_data \<Rightarrow> xfer_st \<Rightarrow> fut_state result \<times> xfer_st" where
  "Context_submit_send = submit_send_msg OnContext"

definition Context_submit_recv :: "async_env \<Rightarrow> nat \<Rightarrow> xfer_st \<Rightarrow> fut_state result \<times> xfer_st" where
  "Context_submit_recv = submit_recv_msg OnContext"

section \<open>Accounting\<close>

text \<open>Messages that exist and have no owner.\<close>

definition leaked :: "xfer_st \<Rightarrow> nat set" where
  "leaked s = dom (live (xheap s)) - nng_owned s - {msg_ptr (arg s)}"

definition xfer_ok :: "xfer_st \<Rightarrow> bool" where
  "xfer_ok s \<longleftrightarrow>
     \<not> corrupt (xheap s) \<and> 0 < next_ptr (xheap s) \<and> live (xheap s) 0 = None \<and>
     (\<forall>p. next_ptr (xheap s) \<le> p \<longrightarrow> live (xheap s) p = None) \<and>
     nng_owned s \<subseteq> dom (live (xheap s)) \<and>
     (msg_ptr (arg s) \<noteq> 0 \<longrightarrow> live (xheap s) (msg_ptr (arg s)) \<noteq> None \<and> msg_ptr (arg s) \<notin> nng_owned s)"

lemma poll_returns: "poll rs \<noteq> None \<longleftrightarrow> (\<exists>r \<in> set rs. r \<noteq> Waited True)"
proof (induction rs)
  case (Cons r rs)
  then show ?case by (cases r) auto
qed simp

lemma check_err_cases: "check_err rv = (if rv = NNG_OK then Inr () else Inl (err_from_code rv))"
  by (simp add: check_err_def)

text \<open>The body of the message that a send hands over.\<close>

definition payload :: "send_data \<Rightarrow> xfer_st \<Rightarrow> bytes option" where
  "payload data s =
     (case data of
        AsData d \<Rightarrow> data_bytes d
      | AsMessage \<Rightarrow> map_option body (live (xheap s) (msg_ptr (arg s))))"

lemma build_msg_cases:
  assumes "xfer_ok s" "build_msg L data s = (r, s1)"
  obtains (fails) e where "r = Inl e" "s1 = s"
  | (stolen) "data = AsMessage" "r = Inr (msg_ptr (arg s))" "msg_ptr (arg s) \<noteq> 0"
      "s1 = s\<lparr>arg := (arg s)\<lparr>msg_ptr := 0\<rparr>\<rparr>"
  | (copied) d m where "data = AsData d" "r = Inr (next_ptr (xheap s))"
      "s1 = s\<lparr>xheap := alloc_at m (xheap s)\<rparr>" "msg_lib_ok L \<Longrightarrow> Some (body m) = data_bytes d"
proof (cases data)
  case AsMessage
  show ?thesis
  proof (cases "0 < python_buffer_count (arg s) \<or> msg_ptr (arg s) = 0")
    case True
    with assms(2) AsMessage fails show ?thesis
      by (auto simp: build_msg_def steal_ptr_def bindS_def check_full_ownership_def check_validity_def split: if_splits)
  next
    case False
    with assms(2) AsMessage stolen show ?thesis
      by (auto simp: build_msg_def steal_ptr_def bindS_def check_full_ownership_def check_validity_def)
  qed
next
  case (AsData d)
  show ?thesis
  proof (cases "data_bytes d")
    case None
    with assms(2) AsData fails show ?thesis by (auto simp: build_msg_def nng_msg_from_data_bytes)
  next
    case (Some bs)
    obtain rv m where a: "nng_msg_alloc L (length bs) = (rv, m)" by fastforce
    show ?thesis
    proof (cases "rv = NNG_OK")
      case False
      with assms(2) AsData Some a fails show ?thesis
        by (auto simp: build_msg_def nng_msg_from_data_bytes msg_of_bytes_def handle_alloc_def check_err_def)
    next
      case True
      let ?m = "memcpy_body bs m"
      have "r = Inr (next_ptr (xheap s)) \<and> s1 = s\<lparr>xheap := alloc_at ?m (xheap s)\<rparr>"
        using assms(2) AsData Some a True
        by (auto simp: build_msg_def nng_msg_from_data_bytes msg_of_bytes_def handle_alloc_def heap_alloc_def)
      moreover have "Some (body ?m) = data_bytes d" if "msg_lib_ok L"
        using that a True Some by (auto simp: msg_lib_ok_def memcpy_body_def)
      ultimately show ?thesis using copied AsData by blast
    qed
  qed
qed

text \<open>What settling leaves behind after a message was built.\<close>

definition sent :: "send_data \<Rightarrow> xfer_st \<Rightarrow> xfer_st \<Rightarrow> bool" where
  "sent data s s' \<longleftrightarrow>
     (\<exists>p. p \<notin> nng_owned s \<and> nng_owned s' = insert p (nng_owned s) \<and>
          map_option body (live (xheap s') p) = payload data s \<and>
          (data = AsMessage \<longrightarrow> p = msg_ptr (arg s) \<and> msg_ptr (arg s') = 0) \<and>
          (data \<noteq> AsMessage \<longrightarrow> arg s' = arg s))"

definition unsent :: "xfer_st \<Rightarrow> xfer_st \<Rightarrow> bool" where
  "unsent s s' \<longleftrightarrow> nng_owned s' = nng_owned s \<and> arg s' = arg s \<and> live (xheap s') = live (xheap s)"

lemma settle_effect:
  assumes "xfer_ok s" "build_msg L data s = (Inr p, s1)" "msg_lib_ok L"
  shows "leaked (settle data p rv s1) = leaked s \<and> \<not> corrupt (xheap (settle data p rv s1)) \<and>
    (if rv = NNG_OK then sent data s (settle data p rv s1) else unsent s (settle data p rv s1))"
  using assms(1,2)
proof (cases rule: build_msg_cases)
  case (fails e)
  then show ?thesis by simp
next
  case stolen
  with assms(1) show ?thesis
    by (auto simp: settle_def handle_restore_def leaked_def sent_def unsent_def payload_def xfer_ok_def)
next
  case (copied d m)
  let ?p = "next_ptr (xheap s)"
  have fresh: "live (xheap s) ?p = None" "?p \<notin> nng_owned s" "?p \<noteq> msg_ptr (arg s)"
    using assms(1) by (auto simp: xfer_ok_def)
  then have "(live (xheap s))(?p := None) = live (xheap s)" by (simp add: fun_upd_idem)
  with copied fresh assms(1,3) show ?thesis
    by (auto simp: settle_def nng_msg_free_def leaked_def sent_def unsent_def payload_def xfer_ok_def)
qed

lemma aio_simps [simp]:
  "xheap (aio_alloc s) = xheap s" "arg (aio_alloc s) = arg s" "nng_owned (aio_alloc s) = nng_owned s"
  "xheap (aio_free s) = xheap s" "arg (aio_free s) = arg s" "nng_owned (aio_free s) = nng_owned s"
  "aios (aio_alloc s) = Suc (aios s)" "aios (aio_free s) = aios s - 1"
  "leaked (aio_alloc s) = leaked s" "leaked (aio_free s) = leaked s"
  "unsent s (aio_free t) = unsent s t" "sent data s (aio_free t) = sent data s t"
  by (simp_all add: aio_alloc_def aio_free_def leaked_def unsent_def sent_def)

lemma settle_aios [simp]:
  "aios (settle data p rv s) = aios s" "settle data p rv (aio_alloc s) = aio_alloc (settle data p rv s)"
  by (simp_all add: settle_def aio_alloc_def handle_restore_def split: send_data.splits)

lemma sent_alloc [simp]:
  "unsent s (aio_alloc t) = unsent s t" "sent data s (aio_alloc t) = sent data s t"
  by (simp_all add: aio_alloc_def unsent_def sent_def)

lemma unsent_refl [simp]: "unsent s s"
  by (simp add: unsent_def)

text \<open>
  The code with which a send ends, once a message was built: \<open>None\<close> if it never got to the
  C library.
\<close>

definition send_code :: "xfer_env \<Rightarrow> bool \<Rightarrow> nng_err" where
  "send_code env nonblock =
     (if nonblock then e_nonblock_rv env
      else if \<not> e_first_busy env then e_result env
      else (case poll (e_rounds env) of
              Some (Interrupted e True) \<Rightarrow> e_cancel_result env
            | _ \<Rightarrow> e_result env))"

definition interrupt :: "xfer_env \<Rightarrow> bool \<Rightarrow> py_exn option" where
  "interrupt env nonblock =
     (if nonblock \<or> \<not> e_first_busy env then None
      else (case poll (e_rounds env) of Some (Interrupted e b) \<Rightarrow> Some e | _ \<Rightarrow> None))"

lemma send_msg_form:
  assumes "e_open env" "build_msg L data s = (Inr p, s1)" "nonblock \<or> e_aio_alloc env = NNG_OK"
    "send_msg k L env data nonblock s = Some (r, s')"
  shows "r = (case interrupt env nonblock of Some e \<Rightarrow> Inl e | None \<Rightarrow> check_err (send_code env nonblock)) \<and>
    xheap s' = xheap (settle data p (send_code env nonblock) s1) \<and>
    arg s' = arg (settle data p (send_code env nonblock) s1) \<and>
    nng_owned s' = nng_owned (settle data p (send_code env nonblock) s1) \<and> aios s' = aios s1"
  using assms
  by (auto simp: send_msg_def check_open_def send_code_def interrupt_def Let_def
      split: if_splits option.splits poll_end.splits bool.splits)

lemma build_aios: "xfer_ok s \<Longrightarrow> build_msg L data s = (r, s1) \<Longrightarrow> aios s1 = aios s"
  by (erule build_msg_cases, assumption) simp_all

lemma send_msg_Some:
  assumes "nonblock \<or> \<not> e_first_busy env \<or> (\<exists>r \<in> set (e_rounds env). r \<noteq> Waited True)"
  shows "\<exists>r s'. send_msg k L env data nonblock s = Some (r, s')"
proof -
  have "nonblock \<or> \<not> e_first_busy env \<or> poll (e_rounds env) \<noteq> None"
    using assms by (simp only: poll_returns)
  then show ?thesis
    by (auto simp: send_msg_def Let_def split: sum.splits prod.splits option.splits poll_end.splits)
qed

lemma send_msg_conserves:
  assumes "xfer_ok s" "msg_lib_ok L" "nonblock \<or> e_aio_alloc env = NNG_OK"
    and "nonblock \<or> \<not> e_first_busy env \<or> (\<exists>r \<in> set (e_rounds env). r \<noteq> Waited True)"
  shows "\<exists>r s'. send_msg k L env data nonblock s = Some (r, s') \<and>
    aios s' = aios s \<and> leaked s' = leaked s \<and> \<not> corrupt (xheap s') \<and>
    (r = Inr () \<longrightarrow> sent data s s') \<and>
    (\<forall>e. r = Inl e \<longrightarrow> unsent s s' \<or> (interrupt env nonblock = Some e \<and> sent data s s'))"
proof -
  obtain r s' where ret: "send_msg k L env data nonblock s = Some (r, s')"
    using send_msg_Some [OF assms(4)] by blast
  have ok: "\<not> corrupt (xheap s)" using assms(1) by (simp add: xfer_ok_def)
  obtain r1 s1 where b: "build_msg L data s = (r1, s1)" by fastforce
  show ?thesis
  proof (cases "e_open env \<and> (\<exists>p. r1 = Inr p)")
    case False
    have "s1 = s" if "r1 = Inl e" for e
      using assms(1) b by (cases rule: build_msg_cases) (use that in simp_all)
    with False ret b have "s' = s \<and> (\<exists>e. r = Inl e)"
      by (cases "e_open env"; cases r1) (auto simp: send_msg_def check_open_def)
    with ret ok show ?thesis by auto
  next
    case True
    then obtain p where p: "r1 = Inr p" by blast
    let ?rv = "send_code env nonblock"
    note f = send_msg_form [OF _ b [unfolded p] assms(3) ret]
    note e = settle_effect [OF assms(1) b [unfolded p] assms(2), of ?rv]
    have x: "leaked s' = leaked (settle data p ?rv s1)" "unsent s s' = unsent s (settle data p ?rv s1)"
        "sent data s s' = sent data s (settle data p ?rv s1)" "xheap s' = xheap (settle data p ?rv s1)"
        "aios s' = aios s"
      using f True build_aios [OF assms(1) b] by (simp_all add: leaked_def unsent_def sent_def)
    have "r = Inr () \<longrightarrow> ?rv = NNG_OK" "\<And>e. r = Inl e \<Longrightarrow> ?rv = NNG_OK \<Longrightarrow> interrupt env nonblock = Some e"
      using f True by (auto simp: check_err_cases split: option.splits if_splits)
    with ret e x show ?thesis by (cases "?rv = NNG_OK") auto
  qed
qed


text \<open>A caller's message 1, a message 2 on its way in, and environments for the witnesses.\<close>

definition demo_xfer :: xfer_st where
  "demo_xfer = \<lparr>xheap = \<lparr>live = [1 \<mapsto> sample_msg, 2 \<mapsto> sample_msg], next_ptr = 3, corrupt = False\<rparr>,
     arg = from_ptr 1, nng_owned = {2}, aios = 0\<rparr>"

definition demo_env :: xfer_env where
  "demo_env = \<lparr>e_open = True, e_nonblock_rv = NNG_EAGAIN, e_aio_alloc = NNG_OK, e_first_busy = True,
     e_rounds = [Waited True, SignalRaises (PyExn KeyboardInterrupt) True],
     e_result = NNG_OK, e_cancel_result = NNG_ECANCELED\<rparr>"

lemma demo_xfer_ok: "xfer_ok demo_xfer"
  by (auto simp: xfer_ok_def demo_xfer_def from_ptr_def message_new_def)


lemma recv_msg_Some:
  assumes "nonblock \<or> \<not> e_first_busy env \<or> (\<exists>r \<in> set (e_rounds env). r \<noteq> Waited True)"
  shows "\<exists>r s'. recv_msg k env p nonblock s = Some (r, s')"
proof -
  have "nonblock \<or> \<not> e_first_busy env \<or> poll (e_rounds env) \<noteq> None"
    using assms by (simp only: poll_returns)
  then show ?thesis
    by (auto simp: recv_msg_def Let_def apsnd_def map_prod_def take_msg_def
        split: sum.splits prod.splits option.splits poll_end.splits)
qed

lemma recv_msg_conserves:
  assumes "xfer_ok s" "p \<in> nng_owned s"
    and "nonblock \<or> \<not> e_first_busy env \<or> (\<exists>r \<in> set (e_rounds env). r \<noteq> Waited True)"
  shows "\<exists>r s'. recv_msg k env p nonblock s = Some (r, s') \<and>
    aios s' = aios s \<and> arg s' = arg s \<and> \<not> corrupt (xheap s') \<and>
    (\<forall>m. r = Inr m \<longrightarrow> msg_ptr m = p \<and> live (xheap s') = live (xheap s) \<and> nng_owned s' = nng_owned s - {p}) \<and>
    (\<forall>e. r = Inl e \<longrightarrow> leaked s' = leaked s \<and>
       (unsent s s' \<or> interrupt env nonblock = Some e \<and>
          nng_owned s' = nng_owned s - {p} \<and> live (xheap s') = (live (xheap s))(p := None)))"
proof -
  obtain r s' where ret: "recv_msg k env p nonblock s = Some (r, s')"
    using recv_msg_Some [OF assms(3)] by blast
  have p: "live (xheap s) p \<noteq> None" "\<not> corrupt (xheap s)" using assms(1,2) by (auto simp: xfer_ok_def)
  have d: "drop_msg p rv s = s \<or>
      (xheap (drop_msg p rv s) = (xheap s)\<lparr>live := (live (xheap s))(p := None)\<rparr> \<and>
       nng_owned (drop_msg p rv s) = nng_owned s - {p} \<and> arg (drop_msg p rv s) = arg s)" for rv
    using p by (auto simp: drop_msg_def nng_msg_free_def)
  have a: "drop_msg p rv (aio_alloc s) = aio_alloc (drop_msg p rv s)" "aios (drop_msg p rv s) = aios s" for rv
    by (simp_all add: drop_msg_def aio_alloc_def)
  have l: "leaked (drop_msg p rv s) = leaked s" for rv
    using p assms(2) by (auto simp: drop_msg_def nng_msg_free_def leaked_def)
  consider (quiet) e where "r = Inl e" "s' = s \<or> s' = aio_free (aio_alloc s)"
    | (got) m where "r = Inr m" "msg_ptr m = p" "xheap s' = xheap s" "arg s' = arg s" "aios s' = aios s"
        "nng_owned s' = nng_owned s - {p}"
    | (cut) e rv where "r = Inl e" "s' = aio_free (aio_alloc (drop_msg p rv s))" "interrupt env nonblock = Some e"
    using ret
    by (auto simp: recv_msg_def check_open_def take_msg_def interrupt_def a Let_def check_err_cases
        from_ptr_def message_new_def split: if_splits option.splits poll_end.splits)
  then show ?thesis
  proof cases
    case quiet
    with ret p show ?thesis by (auto simp: unsent_def)
  next
    case got
    with ret p show ?thesis by (intro exI [of _ r] exI [of _ s']) simp
  next
    case (cut e rv)
    have s': "xheap s' = xheap (drop_msg p rv s)" "arg s' = arg (drop_msg p rv s)"
        "nng_owned s' = nng_owned (drop_msg p rv s)" "aios s' = aios s" "leaked s' = leaked s"
      using cut a(2) l by simp_all
    have "\<not> corrupt (xheap s') \<and> arg s' = arg s \<and>
        (unsent s s' \<or> nng_owned s' = nng_owned s - {p} \<and> live (xheap s') = (live (xheap s))(p := None))"
      using d [of rv]
    proof
      assume "drop_msg p rv s = s"
      then show ?thesis unfolding s'(1-3) unsent_def using p(2) by (simp only: simp_thms)
    qed (simp add: s'(1-3) p(2))
    then show ?thesis using ret cut(1,3) s'(4,5) by (intro exI [of _ r] exI [of _ s']) simp
  qed
qed

text \<open>C15: a synchronous receive returns as soon as a message arrives, the operation fails or
  a signal handler raises, with its \<open>nng_aio\<close> freed. A returned \<open>Message\<close> owns the delivered
  message and nobody else does; if the call raises, either nothing was delivered or, when
  interrupted by a signal, the message delivered meanwhile is freed. Nothing is leaked and the
  heap stays sound.\<close>

theorem recv_conserves_message:
  assumes "f \<in> {Socket_recv, Context_recv}" and "xfer_ok s" "p \<in> nng_owned s"
    and "nonblock \<or> \<not> e_first_busy env \<or> (\<exists>r \<in> set (e_rounds env). r \<noteq> Waited True)"
  shows "\<exists>r s'. f env p nonblock s = Some (r, s') \<and>
    aios s' = aios s \<and> arg s' = arg s \<and> \<not> corrupt (xheap s') \<and>
    (\<forall>m. r = Inr m \<longrightarrow> msg_ptr m = p \<and> live (xheap s') = live (xheap s) \<and> nng_owned s' = nng_owned s - {p}) \<and>
    (\<forall>e. r = Inl e \<longrightarrow> leaked s' = leaked s \<and>
       (unsent s s' \<or> interrupt env nonblock = Some e \<and>
          nng_owned s' = nng_owned s - {p} \<and> live (xheap s') = (live (xheap s))(p := None)))"
proof -
  obtain k where "f = recv_msg k" using assms(1) by (auto simp: Socket_recv_def Context_recv_def)
  then show ?thesis using recv_msg_conserves [OF assms(2-4)] by (simp only:)
qed

theorem recv_conserves_message_witness:
  "\<exists>r s'. Context_recv demo_env 2 False demo_xfer = Some (r, s') \<and> aios s' = 0 \<and> \<not> corrupt (xheap s')"
proof -
  have "2 \<in> nng_owned demo_xfer" "aios demo_xfer = 0" by (simp_all add: demo_xfer_def)
  moreover have "False \<or> \<not> e_first_busy demo_env \<or> (\<exists>r \<in> set (e_rounds demo_env). r \<noteq> Waited True)"
    by (simp add: demo_env_def)
  ultimately show ?thesis
    using recv_conserves_message [OF insertI2 [OF singletonI] demo_xfer_ok, where p = 2 and env = demo_env and nonblock = False]
    by metis
qed

lemma build_alloc:
  "build_msg L data (aio_alloc s) = (fst (build_msg L data s), aio_alloc (snd (build_msg L data s)))"
  by (simp add: build_msg_def aio_alloc_def split: send_data.splits prod.splits sum.splits)

text \<open>What the asyncio and concurrent sends and receives do with the message. A send that
  completes hands the message over; one that fails or is cancelled leaves the message without
  an owner: it is neither put back into the \<open>Message\<close> nor freed. The same happens to the
  message when \<open>nng_aio_alloc\<close> fails in a blocking send, and to a message that arrives while
  the task awaiting \<open>arecv\<close>, or the future of \<open>submit_recv\<close>, is cancelled; otherwise a
  received message belongs to the \<open>Message\<close> returned, and to nobody else.\<close>

theorem async_transfers_lose_messages:
  assumes "xfer_ok s" "msg_lib_ok L" "build_msg L data s = (Inr p, s1)"
    and "a_open env" "a_create env = Inr ()" "e_open env'" "e_aio_alloc env' \<noteq> NNG_OK"
    and "q \<in> nng_owned s" "q \<noteq> 0"
  shows "(a_result env = NNG_OK \<longrightarrow>
      sent data s (snd (asend_msg k L env data s)) \<and> sent data s (snd (submit_send_msg k L env data s)) \<and>
      leaked (snd (asend_msg k L env data s)) = leaked s \<and> leaked (snd (submit_send_msg k L env data s)) = leaked s) \<and>
    (a_result env \<noteq> NNG_OK \<longrightarrow>
      (\<exists>e. fst (asend_msg k L env data s) = Inl e) \<and> leaked (snd (asend_msg k L env data s)) = insert p (leaked s) \<and>
      fst (submit_send_msg k L env data s) =
        Inr (if a_task_cancelled env then Cancelled else Failed (err_from_code (a_result env))) \<and>
      leaked (snd (submit_send_msg k L env data s)) = insert p (leaked s)) \<and>
    (\<exists>s'. send_msg k L env' data False s = Some (Inl (err_from_code (e_aio_alloc env')), s') \<and>
       leaked s' = insert p (leaked s)) \<and>
    (a_result env = NNG_OK \<longrightarrow>
      fst (arecv_msg k env q s) =
        (if \<not> a_skipped env \<and> a_task_cancelled env then Inl (PyExn CancelledError) else Inr (from_ptr q)) \<and>
      fst (submit_recv_msg k env q s) = Inr (if a_task_cancelled env then Cancelled else Resolved (Some q)) \<and>
      leaked (snd (arecv_msg k env q s)) = insert q (leaked s) \<and>
      leaked (snd (submit_recv_msg k env q s)) = insert q (leaked s))"
proof -
  have b: "build_msg L data (aio_alloc s) = (Inr p, aio_alloc s1)"
    using assms(3) by (simp add: build_alloc)
  have ok: "sent data s (s1\<lparr>nng_owned := insert p (nng_owned s1)\<rparr>)" "leaked (s1\<lparr>nng_owned := insert p (nng_owned s1)\<rparr>) = leaked s"
    using settle_effect [OF assms(1,3,2), of NNG_OK] by (simp_all add: settle_def)
  have lost: "leaked s1 = insert p (leaked s)"
    using assms(1,3)
  proof (cases rule: build_msg_cases)
    case (copied d m)
    with assms(1) show ?thesis by (auto simp: leaked_def xfer_ok_def)
  qed (use assms(1) in \<open>auto simp: leaked_def xfer_ok_def\<close>)
  have al: "(aio_alloc s1)\<lparr>nng_owned := insert p (nng_owned s1)\<rparr> = aio_alloc (s1\<lparr>nng_owned := insert p (nng_owned s1)\<rparr>)"
    by (simp add: aio_alloc_def)
  have ok': "sent data s ((aio_alloc s1)\<lparr>nng_owned := insert p (nng_owned s1)\<rparr>)"
      "leaked ((aio_alloc s1)\<lparr>nng_owned := insert p (nng_owned s1)\<rparr>) = leaked s"
    unfolding al using ok by simp_all
  have q: "leaked ((aio_alloc s)\<lparr>nng_owned := nng_owned s - {q}\<rparr>) = insert q (leaked s)"
    using assms(1,8,9) by (auto simp: leaked_def aio_alloc_def xfer_ok_def)
  show ?thesis
    using assms(3-7,9) b ok' lost q
    by (simp add: asend_msg_def submit_send_msg_def send_msg_def arecv_msg_def submit_recv_msg_def check_open_def
        check_err_cases Let_def sync_dispatch_complete_def sync_op_for_def set_result_def set_exception_def fut_done_def)
qed

definition demo_async :: async_env where
  "demo_async = \<lparr>a_open = True, a_create = Inr (), a_skipped = False, a_result = NNG_ETIMEDOUT,
     a_task_cancelled = False\<rparr>"

theorem async_transfers_lose_messages_witness:
  "leaked (snd (Context_asend ref_lib demo_async AsMessage demo_xfer)) = {1}"
proof -
  have b: "build_msg ref_lib AsMessage demo_xfer = (Inr 1, demo_xfer\<lparr>arg := (arg demo_xfer)\<lparr>msg_ptr := 0\<rparr>\<rparr>)"
    by (simp add: build_msg_def steal_ptr_def bindS_def check_full_ownership_def check_validity_def demo_xfer_def
        from_ptr_def message_new_def)
  have q: "2 \<in> nng_owned demo_xfer" "(2::nat) \<noteq> 0" by (simp_all add: demo_xfer_def)
  have a: "a_open demo_async" "a_create demo_async = Inr ()" "a_result demo_async \<noteq> NNG_OK"
    by (simp_all add: demo_async_def)
  have e: "e_open (demo_env\<lparr>e_aio_alloc := NNG_ENOMEM\<rparr>)" "e_aio_alloc (demo_env\<lparr>e_aio_alloc := NNG_ENOMEM\<rparr>) \<noteq> NNG_OK"
    by (simp_all add: demo_env_def)
  have "leaked demo_xfer = {}" by (auto simp: leaked_def demo_xfer_def from_ptr_def message_new_def)
  moreover have "leaked (snd (asend_msg OnContext ref_lib demo_async AsMessage demo_xfer)) = insert 1 (leaked demo_xfer)"
    using async_transfers_lose_messages [OF demo_xfer_ok ref_lib_ok b a(1,2) e q, of OnContext, THEN conjunct2, THEN conjunct1]
      a(3) by blast
  ultimately show ?thesis by (simp add: Context_asend_def)
qed

end
