(* ===== verification/Endpoint.thy ===== *)
theory Endpoint
  imports PipeFilter Utf8
begin

text \<open>
  Dialers, listeners and contexts of a socket (\<^verbatim>\<open>nng/_dialer.pxi\<close>, \<^verbatim>\<open>nng/_listener.pxi\<close>,
  \<^verbatim>\<open>nng/_context.pxi\<close>, \<open>add_dialer\<close>, \<open>add_listener\<close> and the options of \<^verbatim>\<open>nng/_socket.pxi\<close>) over
  their C++ handles (\<^verbatim>\<open>nng/cpp/dialer.hpp\<close>, \<^verbatim>\<open>listener.hpp\<close>, \<^verbatim>\<open>context.hpp\<close>, \<^verbatim>\<open>socket.hpp\<close>,
  \<^verbatim>\<open>factory.hpp\<close>). The C library is the argument \<open>L\<close>; what of its documentation the properties
  rely on is the predicate \<open>lib_ok\<close>.
\<close>

section \<open>The C library\<close>

datatype obj_kind = KSocket | KDialer | KListener | KContext

datatype nng_opt =
    RECONNMINT | RECONNMAXT | RECVMAXSZ | TLS_CONFIG | TCP_NODELAY | TCP_KEEPALIVE | LOCADDR
  | BOUND_PORT | RECVTIMEO | SENDTIMEO | RECVBUF | SENDBUF | SUB_PREFNEW | REQ_RESENDTIME
  | REQ_RESENDTICK | SURVEYTIME

datatype opt_val = VInt int | VSize nat | VBool bool | VTls nat | VAddr sockaddr

text \<open>
  \<open>l_open\<close> creates a dialer, listener or context for a socket, \<open>l_live\<close> gives the socket an open
  object belongs to. \<open>'c\<close> is the state of the library.
\<close>

record 'c nng_objs =
  l_open :: "obj_kind \<Rightarrow> nat \<Rightarrow> bytes \<Rightarrow> 'c \<Rightarrow> nng_err \<times> nat \<times> 'c"
  l_close :: "obj_kind \<Rightarrow> nat \<Rightarrow> 'c \<Rightarrow> nng_err \<times> 'c"
  l_set :: "obj_kind \<Rightarrow> nng_opt \<Rightarrow> opt_val \<Rightarrow> nat \<Rightarrow> 'c \<Rightarrow> nng_err \<times> 'c"
  l_get :: "obj_kind \<Rightarrow> nng_opt \<Rightarrow> nat \<Rightarrow> 'c \<Rightarrow> nng_err \<times> opt_val"
  l_start :: "obj_kind \<Rightarrow> bool \<Rightarrow> nat \<Rightarrow> 'c \<Rightarrow> nng_err \<times> 'c"
  l_live :: "'c \<Rightarrow> obj_kind \<times> nat \<Rightarrow> nat option"
  l_pton4 :: "pystr \<Rightarrow> bytes option"
  l_pton6 :: "pystr \<Rightarrow> bytes option"

text \<open>What the library answers for an object that is not open (any more).\<close>

fun gone_code :: "obj_kind \<Rightarrow> nng_err" where
  "gone_code KDialer = NNG_ENOENT"
| "gone_code KListener = NNG_ENOENT"
| "gone_code _ = NNG_ECLOSED"

lemma gone_code_not_OK [simp]: "gone_code k \<noteq> NNG_OK"
  by (cases k) simp_all

section \<open>Handles\<close>

text \<open>\<open>DialerHandle\<close>, \<open>ListenerHandle\<close> and \<open>ContextHandle\<close>: identifier 0 is a closed handle.\<close>

record ep_handle =
  hd_id :: nat
  hd_tls :: "nat option"

definition empty_handle :: ep_handle where
  "empty_handle = \<lparr>hd_id = 0, hd_tls = None\<rparr>"

definition handle_is_open :: "ep_handle \<Rightarrow> bool" where
  "handle_is_open h \<longleftrightarrow> hd_id h \<noteq> 0"

text \<open>The move constructor takes the identifier and the socket, but not \<open>_tls_cfg\<close>.\<close>

definition handle_move :: "ep_handle \<Rightarrow> ep_handle" where
  "handle_move o' = \<lparr>hd_id = hd_id o', hd_tls = None\<rparr>"

definition handle_close_if_open :: "'c nng_objs \<Rightarrow> obj_kind \<Rightarrow> ep_handle \<Rightarrow> 'c \<Rightarrow> ep_handle \<times> 'c" where
  "handle_close_if_open L k h c =
     (if hd_id h \<noteq> 0 then (h\<lparr>hd_id := 0\<rparr>, snd (l_close L k (hd_id h) c)) else (h, c))"

text \<open>Move assignment closes the old object and keeps the old \<open>_tls_cfg\<close>.\<close>

definition ep_handle_assign :: "'c nng_objs \<Rightarrow> obj_kind \<Rightarrow> ep_handle \<Rightarrow> ep_handle \<Rightarrow> 'c \<Rightarrow> ep_handle \<times> 'c" where
  "ep_handle_assign L k h o' c =
     (let (h', c') = handle_close_if_open L k h c in (h'\<lparr>hd_id := hd_id o'\<rparr>, c'))"

definition handle_close :: "'c nng_objs \<Rightarrow> obj_kind \<Rightarrow> ep_handle \<Rightarrow> 'c \<Rightarrow> nng_err \<times> ep_handle \<times> 'c" where
  "handle_close L k h c =
     (if hd_id h = 0 then (NNG_OK, h, c)
      else (let (rv, c') = l_close L k (hd_id h) c in (rv, h\<lparr>hd_id := 0\<rparr>, c')))"

text \<open>\<open>make_dialer\<close>, \<open>make_listener\<close> and \<open>make_context\<close>.\<close>

definition make_handle :: "'c nng_objs \<Rightarrow> obj_kind \<Rightarrow> nat \<Rightarrow> bytes \<Rightarrow> 'c \<Rightarrow> nng_err \<times> ep_handle \<times> 'c" where
  "make_handle L k sock url c =
     (let (err, n, c') = l_open L k sock url c in
      if err \<noteq> NNG_OK then (err, empty_handle, c') else (err, \<lparr>hd_id = n, hd_tls = None\<rparr>, c'))"

section \<open>A socket and the objects made from it\<close>

text \<open>
  The Python objects are numbered in the order of their creation. \<open>sock_id\<close> is 0 once the socket
  is closed.
\<close>

record 'c ep_world =
  clib :: 'c
  sock_id :: nat
  ep_objs :: "(obj_kind \<times> ep_handle) list"
  sk_dialers :: "nat list"
  sk_listeners :: "nat list"

type_synonym ('c, 'a) ep_op = "('c ep_world, py_exn, 'a) op"

fun kind_text :: "obj_kind \<Rightarrow> string" where
  "kind_text KSocket = ''Socket is closed''"
| "kind_text KDialer = ''Dialer is closed''"
| "kind_text KListener = ''Listener is closed''"
| "kind_text KContext = ''Context is closed''"

definition obj_closed_exn :: "obj_kind \<Rightarrow> py_exn" where
  "obj_closed_exn k = NngExn NngClosed NNG_ECLOSED (Literal (kind_text k))"

definition Socket_check :: "('c, unit) ep_op" where
  "Socket_check = (\<lambda>w. if sock_id w = 0 then (Inl (obj_closed_exn KSocket), w) else (Inr (), w))"

abbreviation obj_handle :: "'c ep_world \<Rightarrow> nat \<Rightarrow> ep_handle" where
  "obj_handle w a \<equiv> snd (ep_objs w ! a)"

abbreviation obj_kind_of :: "'c ep_world \<Rightarrow> nat \<Rightarrow> obj_kind" where
  "obj_kind_of w a \<equiv> fst (ep_objs w ! a)"

text \<open>\<open>_check\<close> of a dialer, listener or context.\<close>

definition obj_check :: "nat \<Rightarrow> ('c, unit) ep_op" where
  "obj_check a = (\<lambda>w. if \<not> handle_is_open (obj_handle w a) then (Inl (obj_closed_exn (obj_kind_of w a)), w) else (Inr (), w))"

definition nng_call :: "('c \<Rightarrow> nng_err \<times> 'c) \<Rightarrow> ('c, unit) ep_op" where
  "nng_call f = (\<lambda>w. let (rv, c') = f (clib w) in (check_err rv, w\<lparr>clib := c'\<rparr>))"

section \<open>Creating dialers and listeners\<close>

datatype py_url = UrlBytes bytes | UrlStr pystr

fun encode_url :: "py_url \<Rightarrow> bytes result" where
  "encode_url (UrlBytes b) = Inr b"
| "encode_url (UrlStr s) = str_encode s"

text \<open>The C library reads the URL up to the first zero octet.\<close>

definition c_string :: "bytes \<Rightarrow> bytes" where
  "c_string b = takeWhile (\<lambda>x. x \<noteq> 0) b"

text \<open>A Python value: an integer, or another object with its truth value.\<close>

datatype py_val = PyInt int | PyObj bool

fun to_duration :: "py_val \<Rightarrow> int result" where
  "to_duration (PyInt i) = to_c_int i"
| "to_duration (PyObj b) = Inl (PyExn TypeError)"

fun to_size :: "py_val \<Rightarrow> nat result" where
  "to_size (PyInt i) = (if 0 \<le> i \<and> i < 2 ^ 64 then Inr (nat i) else Inl (PyExn OverflowError))"
| "to_size (PyObj b) = Inl (PyExn TypeError)"

fun to_bool :: "py_val \<Rightarrow> bool" where
  "to_bool (PyInt i) \<longleftrightarrow> i \<noteq> 0"
| "to_bool (PyObj b) \<longleftrightarrow> b"

text \<open>\<open>None\<close> stands for an object that is no \<open>TlsConfig\<close>.\<close>

definition to_tls :: "nat option \<Rightarrow> nat result" where
  "to_tls t = (case t of None \<Rightarrow> Inl (PyExn TypeError) | Some cfg \<Rightarrow> Inr cfg)"

definition ip_str_to_sockaddr :: "'c nng_objs \<Rightarrow> pystr \<Rightarrow> sockaddr result" where
  "ip_str_to_sockaddr L ip_str =
     (case l_pton4 L ip_str of
        Some packed \<Rightarrow> Inr (SA_in 0 0 packed)
      | None \<Rightarrow>
          (case l_pton6 L ip_str of
             Some packed \<Rightarrow> Inr (SA_in6 0 0 packed 0)
           | None \<Rightarrow> Inl (PyExn ValueError)))"

record dialer_args =
  d_url :: py_url
  d_tls :: "nat option option"
  d_reconnect_min_ms :: "py_val option"
  d_reconnect_max_ms :: "py_val option"
  d_recv_max_size :: "py_val option"
  d_tcp_nodelay :: "py_val option"
  d_tcp_keepalive :: "py_val option"
  d_tcp_local_addr :: "pystr option"

record listener_args =
  l_url :: py_url
  l_tls :: "nat option option"
  l_recv_max_size :: "py_val option"
  l_tcp_nodelay :: "py_val option"
  l_tcp_keepalive :: "py_val option"

text \<open>\<open>if x is not None: check_err(set(convert(x)))\<close>\<close>

definition given :: "nng_opt \<Rightarrow> ('a \<Rightarrow> opt_val result) \<Rightarrow> 'a option \<Rightarrow> (nng_opt \<times> opt_val result) list" where
  "given opt f x = (case x of None \<Rightarrow> [] | Some v \<Rightarrow> [(opt, f v)])"

definition mapR :: "('a \<Rightarrow> 'b) \<Rightarrow> 'a result \<Rightarrow> 'b result" where
  "mapR f r = bindR r (\<lambda>x. Inr (f x))"

definition dialer_settings :: "'c nng_objs \<Rightarrow> dialer_args \<Rightarrow> (nng_opt \<times> opt_val result) list" where
  "dialer_settings L a =
     given TLS_CONFIG (\<lambda>t. mapR VTls (to_tls t)) (d_tls a) @
     given RECONNMINT (\<lambda>v. mapR VInt (to_duration v)) (d_reconnect_min_ms a) @
     given RECONNMAXT (\<lambda>v. mapR VInt (to_duration v)) (d_reconnect_max_ms a) @
     given TCP_NODELAY (\<lambda>v. Inr (VBool (to_bool v))) (d_tcp_nodelay a) @
     given TCP_KEEPALIVE (\<lambda>v. Inr (VBool (to_bool v))) (d_tcp_keepalive a) @
     given LOCADDR (\<lambda>s. mapR VAddr (ip_str_to_sockaddr L s)) (d_tcp_local_addr a) @
     given RECVMAXSZ (\<lambda>v. mapR VSize (to_size v)) (d_recv_max_size a)"

definition listener_settings :: "listener_args \<Rightarrow> (nng_opt \<times> opt_val result) list" where
  "listener_settings a =
     given TLS_CONFIG (\<lambda>t. mapR VTls (to_tls t)) (l_tls a) @
     given RECVMAXSZ (\<lambda>v. mapR VSize (to_size v)) (l_recv_max_size a) @
     given TCP_NODELAY (\<lambda>v. Inr (VBool (to_bool v))) (l_tcp_nodelay a) @
     given TCP_KEEPALIVE (\<lambda>v. Inr (VBool (to_bool v))) (l_tcp_keepalive a)"

text \<open>The settings in order; the first that cannot be converted or is refused raises.\<close>

fun apply_settings :: "'c nng_objs \<Rightarrow> obj_kind \<Rightarrow> nat \<Rightarrow> (nng_opt \<times> opt_val result) list \<Rightarrow> ('c, unit) ep_op" where
  "apply_settings L k n [] = returnS ()"
| "apply_settings L k n ((opt, r) # rest) =
     bindS (liftS r) (\<lambda>v. bindS (nng_call (l_set L k opt v n)) (\<lambda>_. apply_settings L k n rest))"

text \<open>The creation in the C library, with its error raised.\<close>

definition make_checked :: "'c nng_objs \<Rightarrow> obj_kind \<Rightarrow> bytes \<Rightarrow> ('c, ep_handle) ep_op" where
  "make_checked L k url = (\<lambda>w.
     let (err, h, c') = make_handle L k (sock_id w) url (clib w) in
     (bindR (check_err err) (\<lambda>_. Inr h), w\<lparr>clib := c'\<rparr>))"

text \<open>\<open>Dialer.create\<close> and \<open>Listener.create\<close>: a new object takes over the moved handle.\<close>

definition obj_create :: "'c nng_objs \<Rightarrow> obj_kind \<Rightarrow> ep_handle \<Rightarrow> ('c, nat) ep_op" where
  "obj_create L k dh = (\<lambda>w.
     let (h, c') = ep_handle_assign L k empty_handle (handle_move dh) (clib w) in
     (Inr (length (ep_objs w)), w\<lparr>clib := c', ep_objs := ep_objs w @ [(k, h)]\<rparr>))"

definition add_dialer :: "'c nng_objs \<Rightarrow> dialer_args \<Rightarrow> ('c, nat) ep_op" where
  "add_dialer L a =
     bindS Socket_check (\<lambda>_.
     bindS (liftS (encode_url (d_url a))) (\<lambda>b.
     bindS (make_checked L KDialer (c_string b)) (\<lambda>dh.
     bindS (apply_settings L KDialer (hd_id dh) (dialer_settings L a)) (\<lambda>_.
     bindS (obj_create L KDialer (dh\<lparr>hd_tls := Option.bind (d_tls a) id\<rparr>)) (\<lambda>obj w.
     (Inr obj, w\<lparr>sk_dialers := sk_dialers w @ [obj]\<rparr>))))))"

definition add_listener :: "'c nng_objs \<Rightarrow> listener_args \<Rightarrow> ('c, nat) ep_op" where
  "add_listener L a =
     bindS Socket_check (\<lambda>_.
     bindS (liftS (encode_url (l_url a))) (\<lambda>b.
     bindS (make_checked L KListener (c_string b)) (\<lambda>lh.
     bindS (apply_settings L KListener (hd_id lh) (listener_settings a)) (\<lambda>_.
     bindS (obj_create L KListener (lh\<lparr>hd_tls := Option.bind (l_tls a) id\<rparr>)) (\<lambda>obj w.
     (Inr obj, w\<lparr>sk_listeners := sk_listeners w @ [obj]\<rparr>))))))"

text \<open>\<open>open_context\<close> of a socket class: \<open>Context.open\<close> shares the new handle.\<close>

definition open_context :: "'c nng_objs \<Rightarrow> ('c, nat) ep_op" where
  "open_context L =
     bindS Socket_check (\<lambda>_.
     bindS (make_checked L KContext []) (\<lambda>ch w.
     (Inr (length (ep_objs w)), w\<lparr>ep_objs := ep_objs w @ [(KContext, ch)]\<rparr>)))"

section \<open>Using and closing them\<close>

definition put_handle :: "nat \<Rightarrow> ep_handle \<Rightarrow> 'c ep_world \<Rightarrow> 'c ep_world" where
  "put_handle a h w = w\<lparr>ep_objs := (ep_objs w)[a := (obj_kind_of w a, h)]\<rparr>"

text \<open>\<open>close\<close> of a dialer, listener or context.\<close>

definition obj_close :: "'c nng_objs \<Rightarrow> nat \<Rightarrow> ('c, unit) ep_op" where
  "obj_close L a = (\<lambda>w.
     if handle_is_open (obj_handle w a) then
       (let (rv, h, c') = handle_close L (obj_kind_of w a) (obj_handle w a) (clib w) in
        (check_err rv, put_handle a h (w\<lparr>clib := c'\<rparr>)))
     else (Inr (), w))"

text \<open>The destructor of a context's handle, when its last reference goes.\<close>

definition context_dealloc :: "'c nng_objs \<Rightarrow> nat \<Rightarrow> 'c ep_world \<Rightarrow> 'c ep_world" where
  "context_dealloc L a w =
     (let (h, c') = handle_close_if_open L KContext (obj_handle w a) (clib w) in
      put_handle a h (w\<lparr>clib := c'\<rparr>))"

text \<open>A dialer or listener whose socket is gone is reported as closed.\<close>

definition as_closed :: "nng_err \<Rightarrow> nng_err" where
  "as_closed rv = (if rv = NNG_ENOENT then NNG_ECLOSED else rv)"

text \<open>\<open>start\<close>; the call of \<open>update_pipes\<close> after it belongs to the theory \<open>Pipe\<close>.\<close>

definition obj_start :: "'c nng_objs \<Rightarrow> bool \<Rightarrow> nat \<Rightarrow> ('c, unit) ep_op" where
  "obj_start L block a =
     bindS (obj_check a) (\<lambda>_ w.
       nng_call (\<lambda>c. let (rv, c') = l_start L (obj_kind_of w a) (\<not> block) (hd_id (obj_handle w a)) c in (as_closed rv, c')) w)"

text \<open>The options of a dialer and a listener are read with the same translation \<dots>\<close>

definition ep_get_option :: "'c nng_objs \<Rightarrow> nng_opt \<Rightarrow> nat \<Rightarrow> ('c, opt_val) ep_op" where
  "ep_get_option L opt a =
     bindS (obj_check a) (\<lambda>_ w.
       let (rv, v) = l_get L (obj_kind_of w a) opt (hd_id (obj_handle w a)) (clib w) in
       (bindR (check_err (as_closed rv)) (\<lambda>_. Inr v), w))"

text \<open>\<dots> but not the port of a listener, nor the options of a context.\<close>

definition obj_get_option :: "'c nng_objs \<Rightarrow> nng_opt \<Rightarrow> nat \<Rightarrow> ('c, opt_val) ep_op" where
  "obj_get_option L opt a =
     bindS (obj_check a) (\<lambda>_ w.
       let (rv, v) = l_get L (obj_kind_of w a) opt (hd_id (obj_handle w a)) (clib w) in
       (bindR (check_err rv) (\<lambda>_. Inr v), w))"

definition Listener_port :: "'c nng_objs \<Rightarrow> nat \<Rightarrow> ('c, opt_val) ep_op" where
  "Listener_port L a = obj_get_option L BOUND_PORT a"

text \<open>\<open>SocketHandle::close\<close>, whose result \<open>Socket.close\<close> does not look at.\<close>

definition Socket_close :: "'c nng_objs \<Rightarrow> ('c, unit) ep_op" where
  "Socket_close L = (\<lambda>w.
     if sock_id w = 0 then (Inr (), w)
     else (Inr (), w\<lparr>clib := snd (l_close L KSocket (sock_id w) (clib w)), sock_id := 0\<rparr>))"

section \<open>Options of sockets and contexts\<close>

datatype sock_class = PairSocket | PubSocket | SubSocket | ReqSocket | RepSocket | PushSocket
  | PullSocket | SurveyorSocket | RespondentSocket | BusSocket

datatype ctx_class = PlainContext | ReqContext | SubContext | SurveyorContext

datatype opt_type = TMs | TInt | TBool

type_synonym opt_prop = "string \<times> nng_opt \<times> opt_type"

definition timeout_props :: "opt_prop list" where
  "timeout_props = [(''recv_timeout'', RECVTIMEO, TMs), (''send_timeout'', SENDTIMEO, TMs)]"

text \<open>The option properties each class of sockets and contexts adds.\<close>

definition PairSocket_props :: "opt_prop list" where
  "PairSocket_props = [(''recv_buf'', RECVBUF, TInt), (''send_buf'', SENDBUF, TInt)]"

definition PubSocket_props :: "opt_prop list" where
  "PubSocket_props = [(''send_buf'', SENDBUF, TInt)]"

definition SubSocket_props :: "opt_prop list" where
  "SubSocket_props = [(''recv_buf'', RECVBUF, TInt), (''skip_older_on_full_queue'', SUB_PREFNEW, TBool)]"

definition ReqSocket_props :: "opt_prop list" where
  "ReqSocket_props = [(''resend_time'', REQ_RESENDTIME, TMs), (''resend_tick'', REQ_RESENDTICK, TMs)]"

definition PushSocket_props :: "opt_prop list" where
  "PushSocket_props = [(''send_buf'', SENDBUF, TInt)]"

definition SurveyorSocket_props :: "opt_prop list" where
  "SurveyorSocket_props = [(''survey_time'', SURVEYTIME, TMs)]"

definition BusSocket_props :: "opt_prop list" where
  "BusSocket_props = [(''recv_buf'', RECVBUF, TInt), (''send_buf'', SENDBUF, TInt)]"

definition ReqContext_props :: "opt_prop list" where
  "ReqContext_props = [(''resend_time'', REQ_RESENDTIME, TMs)]"

definition SubContext_props :: "opt_prop list" where
  "SubContext_props = [(''recv_buf'', RECVBUF, TInt), (''skip_older_on_full_queue'', SUB_PREFNEW, TBool)]"

definition SurveyorContext_props :: "opt_prop list" where
  "SurveyorContext_props = [(''survey_time'', SURVEYTIME, TMs)]"

lemmas class_tables [simp] =
  PairSocket_props_def PubSocket_props_def SubSocket_props_def ReqSocket_props_def PushSocket_props_def SurveyorSocket_props_def BusSocket_props_def
  ReqContext_props_def SubContext_props_def SurveyorContext_props_def

fun class_props :: "sock_class \<Rightarrow> opt_prop list" where
  "class_props PairSocket = PairSocket_props"
| "class_props PubSocket = PubSocket_props"
| "class_props SubSocket = SubSocket_props"
| "class_props ReqSocket = ReqSocket_props"
| "class_props PushSocket = PushSocket_props"
| "class_props SurveyorSocket = SurveyorSocket_props"
| "class_props BusSocket = BusSocket_props"
| "class_props _ = []"

fun context_class :: "sock_class \<Rightarrow> ctx_class option" where
  "context_class SubSocket = Some SubContext"
| "context_class ReqSocket = Some ReqContext"
| "context_class RepSocket = Some PlainContext"
| "context_class SurveyorSocket = Some SurveyorContext"
| "context_class RespondentSocket = Some PlainContext"
| "context_class _ = None"

fun ctx_class_props :: "ctx_class \<Rightarrow> opt_prop list" where
  "ctx_class_props PlainContext = []"
| "ctx_class_props ReqContext = ReqContext_props"
| "ctx_class_props SubContext = SubContext_props"
| "ctx_class_props SurveyorContext = SurveyorContext_props"

definition find_prop :: "opt_prop list \<Rightarrow> string \<Rightarrow> (nng_opt \<times> opt_type) result" where
  "find_prop props name =
     (case map_of (props @ timeout_props) name of None \<Rightarrow> Inl (PyExn AttributeError) | Some x \<Rightarrow> Inr x)"

text \<open>Cython converts the argument of a setter before its body runs.\<close>

fun convert :: "opt_type \<Rightarrow> py_val \<Rightarrow> opt_val result" where
  "convert TBool v = Inr (VBool (to_bool v))"
| "convert _ v = mapR VInt (to_duration v)"

definition Socket_set :: "'c nng_objs \<Rightarrow> sock_class \<Rightarrow> string \<Rightarrow> py_val \<Rightarrow> ('c, unit) ep_op" where
  "Socket_set L cls name v =
     bindS (liftS (find_prop (class_props cls) name)) (\<lambda>(opt, ty).
     bindS (liftS (convert ty v)) (\<lambda>x.
     bindS Socket_check (\<lambda>_ w. nng_call (l_set L KSocket opt x (sock_id w)) w)))"

definition Socket_get :: "'c nng_objs \<Rightarrow> sock_class \<Rightarrow> string \<Rightarrow> ('c, opt_val) ep_op" where
  "Socket_get L cls name =
     bindS (liftS (find_prop (class_props cls) name)) (\<lambda>(opt, ty).
     bindS Socket_check (\<lambda>_ w.
       let (rv, v) = l_get L KSocket opt (sock_id w) (clib w) in (bindR (check_err rv) (\<lambda>_. Inr v), w)))"

definition Context_set :: "'c nng_objs \<Rightarrow> ctx_class \<Rightarrow> string \<Rightarrow> py_val \<Rightarrow> nat \<Rightarrow> ('c, unit) ep_op" where
  "Context_set L cls name v a =
     bindS (liftS (find_prop (ctx_class_props cls) name)) (\<lambda>(opt, ty).
     bindS (liftS (convert ty v)) (\<lambda>x.
     bindS (obj_check a) (\<lambda>_ w. nng_call (l_set L (obj_kind_of w a) opt x (hd_id (obj_handle w a))) w)))"

definition Context_get :: "'c nng_objs \<Rightarrow> ctx_class \<Rightarrow> string \<Rightarrow> nat \<Rightarrow> ('c, opt_val) ep_op" where
  "Context_get L cls name a =
     bindS (liftS (find_prop (ctx_class_props cls) name)) (\<lambda>(opt, ty). obj_get_option L opt a)"

section \<open>What the library promises\<close>

text \<open>
  A new object gets an unused nonzero identifier; a call that fails creates nothing. Closing an
  open object removes it, closing a socket removes everything that belongs to it, and nothing else
  opens or closes an object. Calls on an object that is not open fail with \<open>gone_code\<close>. An option that was
  set to a number or a truth value reads back until it is set again.
\<close>

definition readable :: "opt_val \<Rightarrow> bool" where
  "readable v \<longleftrightarrow> (case v of VTls _ \<Rightarrow> False | VAddr _ \<Rightarrow> False | _ \<Rightarrow> True)"

definition open_ok :: "'c nng_objs \<Rightarrow> bool" where
  "open_ok L \<longleftrightarrow> (\<forall>k s u c err n c'. l_open L k s u c = (err, n, c') \<longrightarrow>
     (if err = NNG_OK then n \<noteq> 0 \<and> k \<noteq> KSocket \<and> l_live L c (k, n) = None \<and> l_live L c' = (l_live L c)((k, n) \<mapsto> s)
      else l_live L c' = l_live L c))"

definition close_ok :: "'c nng_objs \<Rightarrow> bool" where
  "close_ok L \<longleftrightarrow>
     (\<forall>k n c rv c'. k \<noteq> KSocket \<longrightarrow> l_close L k n c = (rv, c') \<longrightarrow>
        (if l_live L c (k, n) = None then rv = gone_code k \<and> l_live L c' = l_live L c
         else rv = NNG_OK \<and> l_live L c' = (l_live L c)((k, n) := None))) \<and>
     (\<forall>s c. l_live L (snd (l_close L KSocket s c)) = (\<lambda>x. if l_live L c x = Some s then None else l_live L c x))"

definition use_ok :: "'c nng_objs \<Rightarrow> bool" where
  "use_ok L \<longleftrightarrow>
     (\<forall>k opt v n c rv c'. l_set L k opt v n c = (rv, c') \<longrightarrow>
        l_live L c' = l_live L c \<and> (l_live L c (k, n) = None \<longrightarrow> rv = gone_code k) \<and>
        (rv = NNG_OK \<longrightarrow> readable v \<longrightarrow> l_get L k opt n c' = (NNG_OK, v)) \<and>
        (\<forall>opt'. opt' \<noteq> opt \<longrightarrow> l_get L k opt' n c' = l_get L k opt' n c)) \<and>
     (\<forall>k b n c rv c'. l_start L k b n c = (rv, c') \<longrightarrow>
        l_live L c' = l_live L c \<and> (l_live L c (k, n) = None \<longrightarrow> rv = gone_code k)) \<and>
     (\<forall>k opt n c. l_live L c (k, n) = None \<longrightarrow> fst (l_get L k opt n c) = gone_code k)"

definition lib_ok :: "'c nng_objs \<Rightarrow> bool" where
  "lib_ok L \<longleftrightarrow> open_ok L \<and> close_ok L \<and> use_ok L"

lemma lib_openD:
  assumes "lib_ok L" "l_open L k s u c = (err, n, c')"
  shows "err = NNG_OK \<Longrightarrow> n \<noteq> 0" "err = NNG_OK \<Longrightarrow> l_live L c (k, n) = None" "err = NNG_OK \<Longrightarrow> k \<noteq> KSocket"
    "err = NNG_OK \<Longrightarrow> l_live L c' = (l_live L c)((k, n) \<mapsto> s)" "err \<noteq> NNG_OK \<Longrightarrow> l_live L c' = l_live L c"
proof -
  have "if err = NNG_OK then n \<noteq> 0 \<and> k \<noteq> KSocket \<and> l_live L c (k, n) = None \<and> l_live L c' = (l_live L c)((k, n) \<mapsto> s)
      else l_live L c' = l_live L c"
    using assms unfolding lib_ok_def open_ok_def by blast
  then show "err = NNG_OK \<Longrightarrow> n \<noteq> 0" "err = NNG_OK \<Longrightarrow> l_live L c (k, n) = None" "err = NNG_OK \<Longrightarrow> k \<noteq> KSocket"
    "err = NNG_OK \<Longrightarrow> l_live L c' = (l_live L c)((k, n) \<mapsto> s)" "err \<noteq> NNG_OK \<Longrightarrow> l_live L c' = l_live L c"
    by simp_all
qed

lemma lib_closeD:
  assumes "lib_ok L" "k \<noteq> KSocket"
  shows "l_live L c (k, n) = None \<Longrightarrow> fst (l_close L k n c) = gone_code k"
    "l_live L c (k, n) \<noteq> None \<Longrightarrow> fst (l_close L k n c) = NNG_OK"
    "l_live L (snd (l_close L k n c)) = (l_live L c)((k, n) := None)"
proof -
  have "if l_live L c (k, n) = None then fst (l_close L k n c) = gone_code k \<and> l_live L (snd (l_close L k n c)) = l_live L c
      else fst (l_close L k n c) = NNG_OK \<and> l_live L (snd (l_close L k n c)) = (l_live L c)((k, n) := None)"
    using assms by (cases "l_close L k n c") (auto simp: lib_ok_def close_ok_def)
  then show "l_live L c (k, n) = None \<Longrightarrow> fst (l_close L k n c) = gone_code k"
    "l_live L c (k, n) \<noteq> None \<Longrightarrow> fst (l_close L k n c) = NNG_OK"
    "l_live L (snd (l_close L k n c)) = (l_live L c)((k, n) := None)"
    by (auto split: if_splits simp: fun_eq_iff)
qed

lemma lib_socket_close:
  "lib_ok L \<Longrightarrow> l_live L (snd (l_close L KSocket s c)) = (\<lambda>x. if l_live L c x = Some s then None else l_live L c x)"
  by (simp add: lib_ok_def close_ok_def)

lemma lib_setD:
  assumes "lib_ok L" "l_set L k opt v n c = (rv, c')"
  shows "l_live L c' = l_live L c" "l_live L c (k, n) = None \<Longrightarrow> rv = gone_code k"
    "rv = NNG_OK \<Longrightarrow> readable v \<Longrightarrow> l_get L k opt n c' = (NNG_OK, v)"
    "opt' \<noteq> opt \<Longrightarrow> l_get L k opt' n c' = l_get L k opt' n c"
  using assms unfolding lib_ok_def use_ok_def by blast+

lemma lib_startD:
  assumes "lib_ok L"
  shows "l_live L (snd (l_start L k b n c)) = l_live L c"
    "l_live L c (k, n) = None \<Longrightarrow> fst (l_start L k b n c) = gone_code k"
  using assms by (cases "l_start L k b n c"; auto simp: lib_ok_def use_ok_def)+

lemma lib_getD: "lib_ok L \<Longrightarrow> l_live L c (k, n) = None \<Longrightarrow> fst (l_get L k opt n c) = gone_code k"
  by (simp add: lib_ok_def use_ok_def)

section \<open>Creation of an endpoint\<close>

lemma apply_settings_frame:
  assumes "lib_ok L" "apply_settings L k n st w = (r, w')"
  shows "l_live L (clib w') = l_live L (clib w) \<and> w' = w\<lparr>clib := clib w'\<rparr>"
  using assms(2)
proof (induction st arbitrary: w)
  case (Cons p st)
  obtain opt v where p: "p = (opt, v)" by (cases p)
  show ?case
  proof (cases v)
    case (Inr x)
    obtain rv c' where s: "l_set L k opt x n (clib w) = (rv, c')" by fastforce
    note live = lib_setD(1) [OF assms(1) s]
    show ?thesis
    proof (cases "rv = NNG_OK")
      case True
      with Cons.prems p Inr s have "apply_settings L k n st (w\<lparr>clib := c'\<rparr>) = (r, w')"
        by (simp add: bindS_app nng_call_def)
      from Cons.IH [OF this] live show ?thesis by simp
    next
      case False
      with Cons.prems p Inr s live show ?thesis by (auto simp: bindS_app nng_call_def check_err_fails)
    qed
  qed (use Cons.prems p in \<open>auto simp: bindS_app\<close>)
qed simp

lemma apply_settings_keeps:
  assumes "lib_ok L" "apply_settings L k n st w = (Inr u, w')" "opt \<notin> fst ` set st"
  shows "l_get L k opt n (clib w') = l_get L k opt n (clib w)"
  using assms(2,3)
proof (induction st arbitrary: w)
  case (Cons p st)
  obtain o' v where p: "p = (o', v)" by (cases p)
  from Cons.prems(1) p obtain x where x: "v = Inr x" by (cases v) (auto simp: bindS_app)
  obtain rv c' where s: "l_set L k o' x n (clib w) = (rv, c')" by fastforce
  from Cons.prems(1) p x s have "apply_settings L k n st (w\<lparr>clib := c'\<rparr>) = (Inr u, w')"
    by (auto simp: bindS_app nng_call_def split: sum.splits)
  from Cons.IH [OF this] lib_setD(4) [OF assms(1) s, of opt] Cons.prems(2) p show ?case by simp
qed simp

text \<open>Settings that all went through read back.\<close>

lemma apply_settings_set:
  assumes "lib_ok L" "apply_settings L k n st w = (Inr u, w')" "distinct (map fst st)" "(opt, v) \<in> set st"
  shows "\<exists>x. v = Inr x \<and> (readable x \<longrightarrow> l_get L k opt n (clib w') = (NNG_OK, x))"
  using assms(2-4)
proof (induction st arbitrary: w)
  case (Cons p st)
  obtain o' v' where p: "p = (o', v')" by (cases p)
  from Cons.prems(1) p obtain x where x: "v' = Inr x" by (cases v') (auto simp: bindS_app)
  obtain rv c' where s: "l_set L k o' x n (clib w) = (rv, c')" by fastforce
  from Cons.prems(1) p x s have rest: "apply_settings L k n st (w\<lparr>clib := c'\<rparr>) = (Inr u, w')" and rv: "rv = NNG_OK"
    by (auto simp: bindS_app nng_call_def split: sum.splits)
  show ?case
  proof (cases "(opt, v) \<in> set st")
    case True
    with Cons.IH [OF rest] Cons.prems(2) show ?thesis by simp
  next
    case False
    with Cons.prems(3) p have o: "opt = o'" "v = Inr x" using x by auto
    have "opt \<notin> fst ` set st" using Cons.prems(2) p o by simp
    from apply_settings_keeps [OF assms(1) rest this] lib_setD(3) [OF assms(1) s] rv o
    show ?thesis by simp
  qed
qed simp

lemma given_fst: "map fst (given opt f x) = (if x = None then [] else [opt])"
  by (cases x) (auto simp: given_def)

lemma settings_distinct: "distinct (map fst (dialer_settings L a))" "distinct (map fst (listener_settings b))"
  by (simp_all add: dialer_settings_def listener_settings_def given_fst)

text \<open>Creating and configuring, which both kinds of endpoint share.\<close>

definition configure :: "'c nng_objs \<Rightarrow> obj_kind \<Rightarrow> bytes \<Rightarrow> (nng_opt \<times> opt_val result) list \<Rightarrow> ('c, ep_handle) ep_op" where
  "configure L k b st = bindS (make_checked L k b) (\<lambda>h. bindS (apply_settings L k (hd_id h) st) (\<lambda>_. returnS h))"

text \<open>The tail of \<open>add_dialer\<close> and \<open>add_listener\<close>.\<close>

lemma add_configure:
  "bindS (make_checked L k b) (\<lambda>h. bindS (apply_settings L k (hd_id h) st) (\<lambda>_. f h)) = bindS (configure L k b st) f"
  by (simp add: configure_def bindS_assoc bindS_returnS)

definition fresh_in :: "'c nng_objs \<Rightarrow> obj_kind \<Rightarrow> nat \<Rightarrow> 'c ep_world \<Rightarrow> 'c ep_world \<Rightarrow> bool" where
  "fresh_in L k n w w' \<longleftrightarrow> n \<noteq> 0 \<and> k \<noteq> KSocket \<and> l_live L (clib w) (k, n) = None \<and>
     l_live L (clib w') = (l_live L (clib w))((k, n) \<mapsto> sock_id w)"

lemma configure_outcome:
  assumes "lib_ok L" "configure L k b st w = (r, w')" "distinct (map fst st)"
  shows "w' = w\<lparr>clib := clib w'\<rparr>"
    "r = Inl e \<Longrightarrow> l_live L (clib w') = l_live L (clib w) \<or> (\<exists>n. fresh_in L k n w w')"
    "r = Inr h \<Longrightarrow> fresh_in L k (hd_id h) w w'"
    "r = Inr h \<Longrightarrow> (opt, v) \<in> set st \<Longrightarrow> \<exists>x. v = Inr x \<and> (readable x \<longrightarrow> l_get L k opt (hd_id h) (clib w') = (NNG_OK, x))"
proof -
  obtain err n c' where o: "l_open L k (sock_id w) b (clib w) = (err, n, c')" by (metis prod_cases3)
  note od = lib_openD [OF assms(1) o]
  have "w' = w\<lparr>clib := clib w'\<rparr> \<and>
    (\<forall>e. r = Inl e \<longrightarrow> l_live L (clib w') = l_live L (clib w) \<or> (\<exists>n. fresh_in L k n w w')) \<and>
    (\<forall>h. r = Inr h \<longrightarrow> fresh_in L k (hd_id h) w w' \<and>
      (\<forall>(opt, v) \<in> set st. \<exists>x. v = Inr x \<and> (readable x \<longrightarrow> l_get L k opt (hd_id h) (clib w') = (NNG_OK, x))))"
  proof (cases "err = NNG_OK")
    case True
    obtain q w1 where q: "apply_settings L k n st (w\<lparr>clib := c'\<rparr>) = (q, w1)" by fastforce
    note fr = apply_settings_frame [OF assms(1) q]
    have r: "r = bindR q (\<lambda>_. Inr \<lparr>hd_id = n, hd_tls = None\<rparr>)" "w' = w1"
      using assms(2) o True q by (auto simp: configure_def make_checked_def make_handle_def bindS_app split: sum.splits)
    have fresh: "fresh_in L k n w w1" using fr od(1-4) [OF True] by (simp add: fresh_in_def)
    show ?thesis
    proof (cases q)
      case (Inr u)
      with r fr fresh apply_settings_set [OF assms(1) _ assms(3), of k n "w\<lparr>clib := c'\<rparr>" u w1] q show ?thesis by fastforce
    qed (use r fr fresh in auto)
  next
    case False
    with assms(2) o od(5) show ?thesis
      by (auto simp: configure_def make_checked_def make_handle_def bindS_app check_err_fails)
  qed
  then show "w' = w\<lparr>clib := clib w'\<rparr>"
    "r = Inl e \<Longrightarrow> l_live L (clib w') = l_live L (clib w) \<or> (\<exists>n. fresh_in L k n w w')"
    "r = Inr h \<Longrightarrow> fresh_in L k (hd_id h) w w'"
    "r = Inr h \<Longrightarrow> (opt, v) \<in> set st \<Longrightarrow> \<exists>x. v = Inr x \<and> (readable x \<longrightarrow> l_get L k opt (hd_id h) (clib w') = (NNG_OK, x))"
    by blast+
qed

text \<open>
  What creating an endpoint does. On success the library has a new object, the new Python object
  holds it, is the last one of its list on the socket and every option given is in force. When it
  raises no Python object was created, and the library has at most one object more.
\<close>

definition add_effect :: "'c nng_objs \<Rightarrow> obj_kind \<Rightarrow> (nng_opt \<times> opt_val result) list \<Rightarrow> 'c ep_world \<Rightarrow> nat result \<Rightarrow> 'c ep_world \<Rightarrow> bool" where
  "add_effect L k st w r w' \<longleftrightarrow>
     (case r of
        Inl e \<Rightarrow> w' = w\<lparr>clib := clib w'\<rparr> \<and> (l_live L (clib w') = l_live L (clib w) \<or> (\<exists>n. fresh_in L k n w w'))
      | Inr a \<Rightarrow> a = length (ep_objs w) \<and>
          (\<exists>n. fresh_in L k n w w' \<and>
             w' = w\<lparr>clib := clib w', ep_objs := ep_objs w @ [(k, \<lparr>hd_id = n, hd_tls = None\<rparr>)],
                    sk_dialers := sk_dialers w @ (if k = KDialer then [a] else []),
                    sk_listeners := sk_listeners w @ (if k = KListener then [a] else [])\<rparr> \<and>
             (\<forall>(opt, v) \<in> set st. \<exists>x. v = Inr x \<and> (readable x \<longrightarrow> l_get L k opt n (clib w') = (NNG_OK, x)))))"

lemma obj_create_app:
  "obj_create L k dh w = (Inr (length (ep_objs w)), w\<lparr>ep_objs := ep_objs w @ [(k, \<lparr>hd_id = hd_id dh, hd_tls = None\<rparr>)]\<rparr>)"
  by (simp add: obj_create_def ep_handle_assign_def handle_close_if_open_def empty_handle_def handle_move_def)

text \<open>The rest of both functions after the URL was encoded.\<close>

lemma configure_add_effect:
  assumes "lib_ok L" "distinct (map fst st)"
    and f: "\<And>h w1. f h w1 = (Inr (length (ep_objs w1)), w1\<lparr>ep_objs := ep_objs w1 @ [(k, \<lparr>hd_id = hd_id h, hd_tls = None\<rparr>)],
      sk_dialers := sk_dialers w1 @ (if k = KDialer then [length (ep_objs w1)] else []),
      sk_listeners := sk_listeners w1 @ (if k = KListener then [length (ep_objs w1)] else [])\<rparr>)"
    and w: "bindS (configure L k b st) f w = (r, w')"
  shows "add_effect L k st w r w'"
proof -
  obtain q w1 where q: "configure L k b st w = (q, w1)" by fastforce
  note c = configure_outcome [OF assms(1) q assms(2)]
  show ?thesis
  proof (cases q)
    case (Inl e)
    with w q have "r = Inl e" "w' = w1" by (simp_all add: bindS_app)
    with c(1) c(2) [OF Inl] show ?thesis by (simp add: add_effect_def)
  next
    case (Inr h)
    have eq: "ep_objs w1 = ep_objs w" "sk_dialers w1 = sk_dialers w" "sk_listeners w1 = sk_listeners w"
      using arg_cong [OF c(1), of ep_objs] arg_cong [OF c(1), of sk_dialers] arg_cong [OF c(1), of sk_listeners] by simp_all
    from Inr w q have
      r: "r = Inr (length (ep_objs w))"
      and w': "w' = w1\<lparr>ep_objs := ep_objs w @ [(k, \<lparr>hd_id = hd_id h, hd_tls = None\<rparr>)],
        sk_dialers := sk_dialers w @ (if k = KDialer then [length (ep_objs w)] else []),
        sk_listeners := sk_listeners w @ (if k = KListener then [length (ep_objs w)] else [])\<rparr>"
      by (auto simp: bindS_app f eq)
    have "fresh_in L k (hd_id h) w w'" using c(3) [OF Inr] w' by (simp add: fresh_in_def)
    moreover have "\<forall>(opt, v) \<in> set st. \<exists>x. v = Inr x \<and> (readable x \<longrightarrow> l_get L k opt (hd_id h) (clib w') = (NNG_OK, x))"
      using c(4) [OF Inr] w' by auto
    moreover have "w' = w\<lparr>clib := clib w', ep_objs := ep_objs w @ [(k, \<lparr>hd_id = hd_id h, hd_tls = None\<rparr>)],
        sk_dialers := sk_dialers w @ (if k = KDialer then [length (ep_objs w)] else []),
        sk_listeners := sk_listeners w @ (if k = KListener then [length (ep_objs w)] else [])\<rparr>"
      using c(1) w' by (cases w; cases w1) simp
    ultimately show ?thesis unfolding add_effect_def r by auto
  qed
qed

lemma add_effect_refused: "add_effect L k st w (Inl e) w"
  by (simp add: add_effect_def)

lemma add_dialer_effect:
  assumes "lib_ok L" "add_dialer L a w = (r, w')"
  shows "add_effect L KDialer (dialer_settings L a) w r w'"
proof (cases "sock_id w = 0 \<or> (\<exists>e. encode_url (d_url a) = Inl e)")
  case True
  with assms(2) show ?thesis
    by (cases "encode_url (d_url a)") (auto simp: add_dialer_def Socket_check_def bindS_app add_effect_refused split: if_splits)
next
  case False
  then obtain b where "encode_url (d_url a) = Inr b" by (cases "encode_url (d_url a)") auto
  with False assms(2) show ?thesis
    unfolding add_dialer_def add_configure
    by (intro configure_add_effect [OF assms(1) settings_distinct(1)])
      (auto simp: Socket_check_def bindS_app obj_create_app)
qed

lemma add_listener_effect:
  assumes "lib_ok L" "add_listener L a w = (r, w')"
  shows "add_effect L KListener (listener_settings a) w r w'"
proof (cases "sock_id w = 0 \<or> (\<exists>e. encode_url (l_url a) = Inl e)")
  case True
  with assms(2) show ?thesis
    by (cases "encode_url (l_url a)") (auto simp: add_listener_def Socket_check_def bindS_app add_effect_refused split: if_splits)
next
  case False
  then obtain b where "encode_url (l_url a) = Inr b" by (cases "encode_url (l_url a)") auto
  with False assms(2) show ?thesis
    unfolding add_listener_def add_configure
    by (intro configure_add_effect [OF assms(1) settings_distinct(2)])
      (auto simp: Socket_check_def bindS_app obj_create_app)
qed

section \<open>Objects that can be closed\<close>

text \<open>
  The contract of \<open>close\<close>: it leaves the object closed whatever it raises, closing a closed object
  does nothing, and any other call on a closed object raises without effect.
\<close>

locale closable =
  fixes valid :: "'w \<Rightarrow> bool" and is_open :: "'w \<Rightarrow> bool" and close :: "('w, py_exn, unit) op"
    and call :: "'x \<Rightarrow> ('w, py_exn, 'r) op" and exn :: "'w \<Rightarrow> py_exn"
  assumes close_closes: "valid w \<Longrightarrow> \<not> is_open (snd (close w))"
    and close_valid: "valid w \<Longrightarrow> valid (snd (close w))"
    and close_exn: "exn (snd (close w)) = exn w"
    and closed_close: "valid w \<Longrightarrow> \<not> is_open w \<Longrightarrow> close w = (Inr (), w)"
    and closed_call: "valid w \<Longrightarrow> \<not> is_open w \<Longrightarrow> call x w = (Inl (exn w), w)"
begin

lemma close_again: "valid w \<Longrightarrow> close (snd (close w)) = (Inr (), snd (close w))"
  by (intro closed_close close_valid close_closes)

lemma call_after_close: "valid w \<Longrightarrow> call x (snd (close w)) = (Inl (exn w), snd (close w))"
  using closed_call [OF close_valid close_closes] close_exn by simp

end

lemma obj_close_app:
  "obj_close L a w =
     (if hd_id (obj_handle w a) = 0 then (Inr (), w)
      else (check_err (fst (l_close L (obj_kind_of w a) (hd_id (obj_handle w a)) (clib w))),
            put_handle a ((obj_handle w a)\<lparr>hd_id := 0\<rparr>) (w\<lparr>clib := snd (l_close L (obj_kind_of w a) (hd_id (obj_handle w a)) (clib w))\<rparr>)))"
  by (simp add: obj_close_def handle_is_open_def handle_close_def split: prod.splits)

lemma nth_update_kind: "fst (xs[a := (fst (xs ! a), h)] ! b) = fst (xs ! b)"
  by (cases "a < length xs") (auto simp: nth_list_update list_update_beyond)

lemma put_handle_simps [simp]:
  "clib (put_handle a h w) = clib w" "sock_id (put_handle a h w) = sock_id w"
  "length (ep_objs (put_handle a h w)) = length (ep_objs w)" "obj_kind_of (put_handle a h w) b = obj_kind_of w b"
  "a < length (ep_objs w) \<Longrightarrow> obj_handle (put_handle a h w) a = h"
  by (auto simp: put_handle_def nth_update_kind)

lemma obj_close_keeps:
  "length (ep_objs (snd (obj_close L a w))) = length (ep_objs w)" "obj_kind_of (snd (obj_close L a w)) b = obj_kind_of w b"
  by (auto simp: obj_close_app put_handle_def nth_update_kind)

lemma obj_close_closes: "a < length (ep_objs w) \<Longrightarrow> hd_id (obj_handle (snd (obj_close L a w)) a) = 0"
  by (auto simp: obj_close_app put_handle_def)

lemma Socket_close_closes: "sock_id (snd (Socket_close L w)) = 0"
  by (simp add: Socket_close_def)

interpretation started: closable "\<lambda>w. a < length (ep_objs w)" "\<lambda>w. handle_is_open (obj_handle w a)" "obj_close L a"
  "\<lambda>b. obj_start L b a" "\<lambda>w. obj_closed_exn (obj_kind_of w a)" for L a
  by unfold_locales (simp_all add: handle_is_open_def obj_close_closes obj_close_keeps obj_close_app obj_start_def obj_check_def bindS_app)

interpretation option_read: closable "\<lambda>w. a < length (ep_objs w)" "\<lambda>w. handle_is_open (obj_handle w a)" "obj_close L a"
  "\<lambda>opt. ep_get_option L opt a" "\<lambda>w. obj_closed_exn (obj_kind_of w a)" for L a
  by unfold_locales (simp_all add: handle_is_open_def obj_close_closes obj_close_keeps obj_close_app ep_get_option_def obj_check_def bindS_app)

interpretation option_plain: closable "\<lambda>w. a < length (ep_objs w)" "\<lambda>w. handle_is_open (obj_handle w a)" "obj_close L a"
  "\<lambda>opt. obj_get_option L opt a" "\<lambda>w. obj_closed_exn (obj_kind_of w a)" for L a
  by unfold_locales (simp_all add: handle_is_open_def obj_close_closes obj_close_keeps obj_close_app obj_get_option_def obj_check_def bindS_app)

interpretation dialer_added: closable "\<lambda>w. True" "\<lambda>w. sock_id w \<noteq> 0" "Socket_close L" "add_dialer L" "\<lambda>w. obj_closed_exn KSocket" for L
  by unfold_locales (simp_all add: Socket_close_closes Socket_close_def add_dialer_def Socket_check_def bindS_app)

interpretation listener_added: closable "\<lambda>w. True" "\<lambda>w. sock_id w \<noteq> 0" "Socket_close L" "add_listener L" "\<lambda>w. obj_closed_exn KSocket" for L
  by unfold_locales (simp_all add: Socket_close_closes Socket_close_def add_listener_def Socket_check_def bindS_app)

interpretation context_opened: closable "\<lambda>w. True" "\<lambda>w. sock_id w \<noteq> 0" "Socket_close L" "\<lambda>_ :: unit. open_context L" "\<lambda>w. obj_closed_exn KSocket" for L
  by unfold_locales (simp_all add: Socket_close_closes Socket_close_def open_context_def Socket_check_def bindS_app)

section \<open>Runs\<close>

text \<open>The calls a program makes on one socket and what it got from it.\<close>

datatype ep_call =
    CallAddDialer dialer_args | CallAddListener listener_args | CallOpenContext
  | CallStart bool nat | CallClose nat | CallDropContext nat
  | CallSocketSet sock_class string py_val | CallSocketClose

fun adds :: "ep_call \<Rightarrow> bool" where
  "adds (CallAddDialer a) \<longleftrightarrow> True"
| "adds (CallAddListener a) \<longleftrightarrow> True"
| "adds _ \<longleftrightarrow> False"

text \<open>Whether the call raised, and the state after it.\<close>

definition outcome :: "'a result \<times> 'c ep_world \<Rightarrow> bool \<times> 'c ep_world" where
  "outcome p = (isl (fst p), snd p)"

fun ep_exec :: "'c nng_objs \<Rightarrow> ep_call \<Rightarrow> 'c ep_world \<Rightarrow> bool \<times> 'c ep_world" where
  "ep_exec L (CallAddDialer a) w = outcome (add_dialer L a w)"
| "ep_exec L (CallAddListener a) w = outcome (add_listener L a w)"
| "ep_exec L CallOpenContext w = outcome (open_context L w)"
| "ep_exec L (CallStart b a) w = (if a < length (ep_objs w) then outcome (obj_start L b a w) else (False, w))"
| "ep_exec L (CallClose a) w = (if a < length (ep_objs w) then outcome (obj_close L a w) else (False, w))"
| "ep_exec L (CallDropContext a) w =
     (if a < length (ep_objs w) \<and> obj_kind_of w a = KContext then (False, context_dealloc L a w) else (False, w))"
| "ep_exec L (CallSocketSet cls name v) w = outcome (Socket_set L cls name v w)"
| "ep_exec L CallSocketClose w = outcome (Socket_close L w)"

text \<open>A sequence of calls, with the number of \<open>add_dialer\<close> and \<open>add_listener\<close> calls that raised.\<close>

fun ep_run :: "'c nng_objs \<Rightarrow> ep_call list \<Rightarrow> 'c ep_world \<Rightarrow> nat \<times> 'c ep_world" where
  "ep_run L [] w = (0, w)"
| "ep_run L (c # cs) w =
     (let (raised, w1) = ep_exec L c w; (n, w2) = ep_run L cs w1 in
      ((if raised \<and> adds c then 1 else 0) + n, w2))"

definition open_ids :: "'c ep_world \<Rightarrow> (obj_kind \<times> nat) list" where
  "open_ids w = map (\<lambda>(k, h). (k, hd_id h)) (filter (\<lambda>(k, h). hd_id h \<noteq> 0) (ep_objs w))"

text \<open>Objects of the library for the socket that no Python object can close.\<close>

definition orphans :: "'c nng_objs \<Rightarrow> nat \<Rightarrow> 'c ep_world \<Rightarrow> (obj_kind \<times> nat) set" where
  "orphans L s w = {x. l_live L (clib w) x = Some s \<and> fst x \<noteq> KSocket} - set (open_ids w)"

definition ep_ok :: "'c nng_objs \<Rightarrow> nat \<Rightarrow> 'c ep_world \<Rightarrow> bool" where
  "ep_ok L s w \<longleftrightarrow> s \<noteq> 0 \<and> distinct (open_ids w) \<and> KSocket \<notin> fst ` set (ep_objs w) \<and>
     (if sock_id w = 0 then Some s \<notin> range (l_live L (clib w))
      else sock_id w = s \<and> (\<forall>x \<in> set (open_ids w). l_live L (clib w) x = Some s))"

lemma open_ids_add: "open_ids (w\<lparr>ep_objs := ep_objs w @ [(k, h)]\<rparr>) = open_ids w @ (if hd_id h = 0 then [] else [(k, hd_id h)])"
  by (simp add: open_ids_def)

lemma open_ids_cong: "ep_objs w' = ep_objs w \<Longrightarrow> open_ids w' = open_ids w"
  by (simp add: open_ids_def)

lemma open_ids_nth: "a < length (ep_objs w) \<Longrightarrow> hd_id (obj_handle w a) \<noteq> 0 \<Longrightarrow> (obj_kind_of w a, hd_id (obj_handle w a)) \<in> set (open_ids w)"
  by (force simp: open_ids_def case_prod_beta in_set_conv_nth)

lemma open_ids_close:
  assumes "a < length (ep_objs w)" "hd_id (obj_handle w a) \<noteq> 0" "hd_id h = 0" "distinct (open_ids w)"
  shows "distinct (open_ids (put_handle a h w))"
    "set (open_ids (put_handle a h w)) = set (open_ids w) - {(obj_kind_of w a, hd_id (obj_handle w a))}"
proof -
  let ?x = "ep_objs w ! a" and ?p = "take a (ep_objs w)" and ?q = "drop (Suc a) (ep_objs w)"
  let ?f = "\<lambda>l. map (\<lambda>(k, h :: ep_handle). (k, hd_id h)) (filter (\<lambda>(k, h). hd_id h \<noteq> 0) l)"
  have o: "open_ids w = ?f ?p @ (fst ?x, hd_id (snd ?x)) # ?f ?q"
    using assms(2) unfolding open_ids_def by (subst id_take_nth_drop [OF assms(1)]) (simp add: case_prod_beta)
  have n: "open_ids (put_handle a h w) = ?f ?p @ ?f ?q"
    using assms(1,3) by (simp add: open_ids_def put_handle_def upd_conv_take_nth_drop)
  show "distinct (open_ids (put_handle a h w))"
    "set (open_ids (put_handle a h w)) = set (open_ids w) - {(obj_kind_of w a, hd_id (obj_handle w a))}"
    using assms(4) unfolding o n by auto
qed

lemma ep_ok_same:
  assumes "ep_ok L s w" "ep_objs w' = ep_objs w" "sock_id w' = sock_id w" "l_live L (clib w') = l_live L (clib w)"
  shows "ep_ok L s w'" "orphans L s w' = orphans L s w"
  using assms open_ids_cong [OF assms(2)] by (simp_all add: ep_ok_def orphans_def)

lemma add_effect_ok:
  assumes "ep_ok L s w" "add_effect L k st w r w'" "sock_id w = 0 \<Longrightarrow> w' = w"
  shows "ep_ok L s w' \<and> (\<exists>x. orphans L s w' \<subseteq> orphans L s w \<union> (if isl r then {x} else {})) \<and> orphans L s w \<subseteq> orphans L s w'"
proof (cases "sock_id w = 0")
  case False
  then have s: "sock_id w = s" using assms(1) by (simp add: ep_ok_def)
  have notin: "(k, n) \<notin> set (open_ids w)" if "fresh_in L k n w w'" for n
    using that assms(1) False by (auto simp: fresh_in_def ep_ok_def)
  show ?thesis
  proof (cases r)
    case (Inl e)
    with assms(2) have w': "w' = w\<lparr>clib := clib w'\<rparr>"
      and "l_live L (clib w') = l_live L (clib w) \<or> (\<exists>n. fresh_in L k n w w')" by (auto simp: add_effect_def)
    have f: "ep_objs w' = ep_objs w" "sock_id w' = sock_id w"
      using arg_cong [OF w', of ep_objs] arg_cong [OF w', of sock_id] by simp_all
    note ids = open_ids_cong [OF f(1)]
    from \<open>l_live L (clib w') = l_live L (clib w) \<or> (\<exists>n. fresh_in L k n w w')\<close> show ?thesis
    proof
      assume "\<exists>n. fresh_in L k n w w'"
      then obtain n where n: "fresh_in L k n w w'" by blast
      from notin [OF n] n assms(1) False f ids Inl s show ?thesis
        by (auto simp: ep_ok_def fresh_in_def orphans_def)
    qed (use ep_ok_same [OF assms(1) f] in auto)
  next
    case (Inr a)
    with assms(2) obtain n d l where n: "fresh_in L k n w w'"
      and w': "w' = w\<lparr>clib := clib w', ep_objs := ep_objs w @ [(k, \<lparr>hd_id = n, hd_tls = None\<rparr>)], sk_dialers := d, sk_listeners := l\<rparr>"
      unfolding add_effect_def by auto
    have o: "ep_objs w' = ep_objs w @ [(k, \<lparr>hd_id = n, hd_tls = None\<rparr>)]" and f: "sock_id w' = sock_id w"
      using arg_cong [OF w', of ep_objs] arg_cong [OF w', of sock_id] by simp_all
    have ids: "open_ids w' = open_ids w @ [(k, n)]" using o n by (simp add: open_ids_def fresh_in_def)
    from notin [OF n] n assms(1) False f o ids Inr s show ?thesis
      by (auto simp: ep_ok_def fresh_in_def orphans_def)
  qed
qed (use assms(1,3) in auto)

lemma close_ep_ok:
  assumes "lib_ok L" "ep_ok L s w" "a < length (ep_objs w)" "hd_id (obj_handle w a) \<noteq> 0" "hd_id h = 0"
  defines "c \<equiv> snd (l_close L (obj_kind_of w a) (hd_id (obj_handle w a)) (clib w))"
  shows "ep_ok L s (put_handle a h (w\<lparr>clib := c\<rparr>)) \<and> orphans L s (put_handle a h (w\<lparr>clib := c\<rparr>)) = orphans L s w"
proof -
  let ?x = "(obj_kind_of w a, hd_id (obj_handle w a))"
  have k: "obj_kind_of w a \<noteq> KSocket" using assms(2) nth_mem [OF assms(3)] by (force simp: ep_ok_def image_iff)
  note live = lib_closeD(3) [OF assms(1) k, of "hd_id (obj_handle w a)" "clib w", folded c_def]
  have "open_ids (w\<lparr>clib := c\<rparr>) = open_ids w" by (simp add: open_ids_def)
  then have ids: "distinct (open_ids (put_handle a h (w\<lparr>clib := c\<rparr>)))"
    "set (open_ids (put_handle a h (w\<lparr>clib := c\<rparr>))) = set (open_ids w) - {?x}"
    using open_ids_close [of a "w\<lparr>clib := c\<rparr>" h] assms(2-5) by (auto simp: ep_ok_def)
  have "fst ` set (ep_objs (put_handle a h (w\<lparr>clib := c\<rparr>))) \<subseteq> insert (obj_kind_of w a) (fst ` set (ep_objs w))"
    using set_update_subset_insert [of "ep_objs w" a] by (fastforce simp: put_handle_def)
  moreover have "Some s \<notin> range (l_live L (clib w)) \<Longrightarrow> Some s \<notin> range (l_live L c)" unfolding live by (auto split: if_splits)
  ultimately show ?thesis using assms(2) ids live k open_ids_nth [OF assms(3,4)] by (auto simp: ep_ok_def orphans_def)
qed

lemma put_handle_same: "put_handle a (obj_handle w a) w = w"
  by (simp add: put_handle_def)

lemma start_frame:
  assumes "lib_ok L"
  shows "ep_objs (snd (obj_start L b a w)) = ep_objs w" "sock_id (snd (obj_start L b a w)) = sock_id w"
    "l_live L (clib (snd (obj_start L b a w))) = l_live L (clib w)"
  using lib_startD(1) [OF assms, of "obj_kind_of w a" "\<not> b" "hd_id (obj_handle w a)" "clib w"]
  by (auto simp: obj_start_def obj_check_def nng_call_def bindS_app split: prod.splits)

lemma Socket_set_frame:
  assumes "lib_ok L"
  shows "ep_objs (snd (Socket_set L cls name v w)) = ep_objs w" "sock_id (snd (Socket_set L cls name v w)) = sock_id w"
    "l_live L (clib (snd (Socket_set L cls name v w))) = l_live L (clib w)"
  by (auto simp: Socket_set_def Socket_check_def nng_call_def bindS_app lib_setD(1) [OF assms] split: prod.splits sum.splits)

lemma open_context_ok:
  assumes "lib_ok L" "ep_ok L s w"
  shows "ep_ok L s (snd (open_context L w)) \<and> orphans L s (snd (open_context L w)) = orphans L s w"
proof (cases "sock_id w = 0")
  case False
  obtain err n c' where o: "l_open L KContext (sock_id w) [] (clib w) = (err, n, c')" by (metis prod_cases3)
  note od = lib_openD [OF assms(1) o]
  show ?thesis
  proof (cases "err = NNG_OK")
    case True
    let ?w = "w\<lparr>clib := c', ep_objs := ep_objs w @ [(KContext, \<lparr>hd_id = n, hd_tls = None\<rparr>)]\<rparr>"
    have w: "snd (open_context L w) = ?w"
      using False o True by (simp add: open_context_def Socket_check_def make_checked_def make_handle_def bindS_app)
    have ids: "open_ids ?w = open_ids w @ [(KContext, n)]" using od(1) [OF True] by (simp add: open_ids_def)
    have "(KContext, n) \<notin> set (open_ids w)" using od(2) [OF True] assms(2) False by (auto simp: ep_ok_def)
    with od(1-4) [OF True] assms(2) False ids show ?thesis unfolding w by (auto simp: ep_ok_def orphans_def)
  next
    case err: False
    then have "snd (open_context L w) = w\<lparr>clib := c'\<rparr>"
      using False o by (simp add: open_context_def Socket_check_def make_checked_def make_handle_def bindS_app check_err_fails)
    then show ?thesis using ep_ok_same [OF assms(2), of "w\<lparr>clib := c'\<rparr>"] od(5) [OF err] by simp
  qed
qed (use assms(2) in \<open>simp add: open_context_def Socket_check_def bindS_app\<close>)

lemma socket_close_ok:
  assumes "lib_ok L" "ep_ok L s w"
  shows "ep_ok L s (snd (Socket_close L w)) \<and> orphans L s (snd (Socket_close L w)) \<subseteq> orphans L s w"
  using assms(2) lib_socket_close [OF assms(1), of s "clib w"]
  by (auto simp: Socket_close_def ep_ok_def orphans_def open_ids_def split: if_splits)

lemma ep_exec_ok:
  assumes "lib_ok L" "ep_ok L s w" "ep_exec L c w = (raised, w')"
  shows "ep_ok L s w' \<and> (\<exists>x. orphans L s w' \<subseteq> orphans L s w \<union> (if raised \<and> adds c then {x} else {})) \<and>
    (c \<noteq> CallSocketClose \<longrightarrow> orphans L s w \<subseteq> orphans L s w')"
proof (cases c)
  case (CallAddDialer a)
  obtain r where r: "add_dialer L a w = (r, w')" "raised = isl r"
    using assms(3) CallAddDialer by (cases "add_dialer L a w") (auto simp: outcome_def)
  have "sock_id w = 0 \<Longrightarrow> w' = w" using r(1) by (auto simp: add_dialer_def Socket_check_def bindS_app)
  from add_effect_ok [OF assms(2) add_dialer_effect [OF assms(1) r(1)] this] show ?thesis by (simp add: r(2) CallAddDialer)
next
  case (CallAddListener a)
  obtain r where r: "add_listener L a w = (r, w')" "raised = isl r"
    using assms(3) CallAddListener by (cases "add_listener L a w") (auto simp: outcome_def)
  have "sock_id w = 0 \<Longrightarrow> w' = w" using r(1) by (auto simp: add_listener_def Socket_check_def bindS_app)
  from add_effect_ok [OF assms(2) add_listener_effect [OF assms(1) r(1)] this] show ?thesis by (simp add: r(2) CallAddListener)
next
  case CallOpenContext
  then show ?thesis using open_context_ok [OF assms(1,2)] assms(3) by (auto simp: outcome_def)
next
  case (CallStart b a)
  then show ?thesis using ep_ok_same [OF assms(2) start_frame [OF assms(1), of b a w]] assms(2,3)
    by (auto simp: outcome_def split: if_splits)
next
  case (CallClose a)
  then have "raised = isl (fst (obj_close L a w)) \<and> w' = snd (obj_close L a w) \<and> a < length (ep_objs w) \<or> w' = w"
    using assms(3) by (auto simp: outcome_def split: if_splits)
  moreover have "a < length (ep_objs w) \<Longrightarrow> ep_ok L s (snd (obj_close L a w)) \<and> orphans L s (snd (obj_close L a w)) = orphans L s w"
    using assms(2) close_ep_ok [OF assms(1,2), of a "(obj_handle w a)\<lparr>hd_id := 0\<rparr>"] by (simp add: obj_close_app)
  ultimately show ?thesis using assms(2) by blast
next
  case (CallDropContext a)
  then have "w' = context_dealloc L a w \<and> a < length (ep_objs w) \<and> obj_kind_of w a = KContext \<or> w' = w"
    using assms(3) by (auto split: if_splits)
  moreover have "a < length (ep_objs w) \<Longrightarrow> obj_kind_of w a = KContext \<Longrightarrow>
      ep_ok L s (context_dealloc L a w) \<and> orphans L s (context_dealloc L a w) = orphans L s w"
    using assms(2) close_ep_ok [OF assms(1,2), of a "(obj_handle w a)\<lparr>hd_id := 0\<rparr>"]
    by (simp add: context_dealloc_def handle_close_if_open_def put_handle_same)
  ultimately show ?thesis using assms(2) by blast
next
  case (CallSocketSet cls name v)
  then show ?thesis using ep_ok_same [OF assms(2) Socket_set_frame [OF assms(1), of cls name v w]] assms(3)
    by (auto simp: outcome_def split: if_splits)
next
  case CallSocketClose
  then show ?thesis using socket_close_ok [OF assms(1,2)] assms(3) by (auto simp: outcome_def)
qed

lemma ep_run_ok:
  assumes "lib_ok L" "ep_ok L s w" "finite (orphans L s w)" "ep_run L calls w = (n, w')"
  shows "ep_ok L s w' \<and> finite (orphans L s w') \<and> card (orphans L s w') \<le> card (orphans L s w) + n"
  using assms(2-4)
proof (induction calls arbitrary: w n)
  case (Cons c cs)
  obtain raised w1 m where e: "ep_exec L c w = (raised, w1)" and r: "ep_run L cs w1 = (m, w')"
    and n: "n = (if raised \<and> adds c then 1 else 0) + m"
    using Cons.prems(3) by (auto split: prod.splits)
  from ep_exec_ok [OF assms(1) Cons.prems(1) e] obtain x
    where ok: "ep_ok L s w1" and sub: "orphans L s w1 \<subseteq> orphans L s w \<union> (if raised \<and> adds c then {x} else {})" by blast
  have fin: "finite (orphans L s w \<union> (if raised \<and> adds c then {x} else {}))" using Cons.prems(2) by simp
  have "card (orphans L s w1) \<le> card (orphans L s w \<union> (if raised \<and> adds c then {x} else {}))" by (rule card_mono [OF fin sub])
  also have "\<dots> \<le> card (orphans L s w) + (if raised \<and> adds c then 1 else 0)"
    using Cons.prems(2) by (cases "raised \<and> adds c") (auto simp: card_insert_if)
  finally show ?case using Cons.IH [OF ok finite_subset [OF sub fin] r] n by auto
qed simp

lemma orphan_persists:
  assumes "lib_ok L" "ep_ok L s w" "x \<in> orphans L s w" "CallSocketClose \<notin> set calls"
  shows "x \<in> orphans L s (snd (ep_run L calls w))"
  using assms(2-4)
proof (induction calls arbitrary: w)
  case (Cons c cs)
  obtain raised w1 where e: "ep_exec L c w = (raised, w1)" by fastforce
  from ep_exec_ok [OF assms(1) Cons.prems(1) e] Cons.prems(2,3) Cons.IH [of w1] e
  show ?case by (auto split: prod.splits)
qed simp

section \<open>A reference library\<close>

record ref_store =
  rc_live :: "((obj_kind \<times> nat) \<times> nat) list"
  rc_opts :: "((obj_kind \<times> nat \<times> nng_opt) \<times> opt_val) list"

definition ref_ep_lib :: "ref_store nng_objs" where
  "ref_ep_lib = \<lparr>
     l_open = \<lambda>k s u c. if k = KSocket then (NNG_EINVAL, 0, c) else
       (let n = Suc (sum_list (map (snd \<circ> fst) (rc_live c))) in (NNG_OK, n, c\<lparr>rc_live := ((k, n), s) # rc_live c\<rparr>)),
     l_close = \<lambda>k n c. if k = KSocket then (NNG_OK, c\<lparr>rc_live := filter (\<lambda>p. map_of (rc_live c) (fst p) \<noteq> Some n) (rc_live c)\<rparr>)
       else if map_of (rc_live c) (k, n) = None then (gone_code k, c)
       else (NNG_OK, c\<lparr>rc_live := filter (\<lambda>p. fst p \<noteq> (k, n)) (rc_live c)\<rparr>),
     l_set = \<lambda>k opt v n c. if map_of (rc_live c) (k, n) = None then (gone_code k, c)
       else (NNG_OK, c\<lparr>rc_opts := ((k, n, opt), v) # rc_opts c\<rparr>),
     l_get = \<lambda>k opt n c. if map_of (rc_live c) (k, n) = None then (gone_code k, VInt 0)
       else (NNG_OK, case map_of (rc_opts c) (k, n, opt) of None \<Rightarrow> VInt 0 | Some v \<Rightarrow> v),
     l_start = \<lambda>k b n c. (if map_of (rc_live c) (k, n) = None then gone_code k else NNG_OK, c),
     l_live = \<lambda>c. map_of (rc_live c),
     l_pton4 = \<lambda>s. None, l_pton6 = \<lambda>s. None\<rparr>"

lemma map_of_filter_key: "map_of (filter (\<lambda>p. P (fst p)) xs) x = (if P x then map_of xs x else None)"
  by (induction xs) auto

lemma fresh_sum: "map_of xs (k, Suc (sum_list (map (snd \<circ> fst) xs))) = None"
proof -
  have "(k, Suc (sum_list (map (snd \<circ> fst) xs))) \<notin> fst ` set xs"
  proof
    assume "(k, Suc (sum_list (map (snd \<circ> fst) xs))) \<in> fst ` set xs"
    then have "Suc (sum_list (map (snd \<circ> fst) xs)) \<in> set (map (snd \<circ> fst) xs)" by force
    then show False using member_le_sum_list by fastforce
  qed
  then show ?thesis by (simp add: map_of_eq_None_iff)
qed

lemma ref_ep_lib_ok: "lib_ok ref_ep_lib"
proof -
  have "open_ok ref_ep_lib" by (auto simp: open_ok_def ref_ep_lib_def Let_def fresh_sum)
  moreover have "close_ok ref_ep_lib"
    by (auto simp: close_ok_def ref_ep_lib_def fun_eq_iff map_of_filter_key [where P = "\<lambda>x. x \<noteq> y" for y]
        map_of_filter_key [where P = "\<lambda>x. m x \<noteq> y" for m y] split: if_splits)
  moreover have "use_ok ref_ep_lib" by (auto simp: use_ok_def ref_ep_lib_def split: if_splits)
  ultimately show ?thesis by (simp add: lib_ok_def)
qed

section \<open>Properties\<close>

text \<open>C6: whatever a program does with one socket, creating and closing dialers, listeners and
  contexts, failing calls included: no two open Python objects hold the same object of the
  library; while the socket is open every open object can be closed without an error; objects of
  the library that no Python object holds are at most as many as \<open>add_dialer\<close> and
  \<open>add_listener\<close> calls raised; and closing the socket leaves nothing of it in the library.\<close>

theorem endpoints_run_safe:
  assumes "lib_ok L" "s \<noteq> 0" "sock_id w = s" "ep_objs w = []"
    and "\<forall>x. l_live L (clib w) x = Some s \<longrightarrow> fst x = KSocket"
    and "ep_run L calls w = (failed, w')"
  shows "distinct (open_ids w') \<and>
    (sock_id w' \<noteq> 0 \<longrightarrow> (\<forall>a < length (ep_objs w'). fst (obj_close L a w') = Inr ())) \<and>
    finite (orphans L s w') \<and> card (orphans L s w') \<le> failed \<and>
    (sock_id w' = 0 \<longrightarrow> (\<forall>x. l_live L (clib w') x \<noteq> Some s))"
proof -
  have ids: "open_ids w = []" using assms(4) by (simp add: open_ids_def)
  have orph: "orphans L s w = {}" using assms(5) by (auto simp: orphans_def)
  have "ep_ok L s w" using assms(2-4) ids by (simp add: ep_ok_def)
  from ep_run_ok [OF assms(1) this _ assms(6)] orph
  have ok: "ep_ok L s w'" "finite (orphans L s w')" "card (orphans L s w') \<le> failed" by simp_all
  have "fst (obj_close L a w') = Inr ()" if "sock_id w' \<noteq> 0" "a < length (ep_objs w')" for a
  proof (cases "hd_id (obj_handle w' a) = 0")
    case False
    have k: "obj_kind_of w' a \<noteq> KSocket" using ok(1) nth_mem [OF that(2)] by (force simp: ep_ok_def image_iff)
    have "l_live L (clib w') (obj_kind_of w' a, hd_id (obj_handle w' a)) = Some s"
      using open_ids_nth [OF that(2) False] ok(1) that(1) by (simp add: ep_ok_def)
    with lib_closeD(2) [OF assms(1) k] False show ?thesis by (simp add: obj_close_app)
  qed (simp add: obj_close_app)
  moreover have "l_live L (clib w') x \<noteq> Some s" if "sock_id w' = 0" for x
  proof
    assume "l_live L (clib w') x = Some s"
    then have "Some s \<in> range (l_live L (clib w'))" by (metis rangeI)
    with ok(1) that show False by (simp add: ep_ok_def)
  qed
  ultimately show ?thesis using ok by (simp add: ep_ok_def)
qed

definition demo_world :: "ref_store ep_world" where
  "demo_world = \<lparr>clib = \<lparr>rc_live = [((KSocket, 1), 1)], rc_opts = []\<rparr>, sock_id = 1, ep_objs = [], sk_dialers = [], sk_listeners = []\<rparr>"

definition demo_args :: "py_val option \<Rightarrow> dialer_args" where
  "demo_args v = \<lparr>d_url = UrlBytes [116, 99, 112], d_tls = None, d_reconnect_min_ms = v, d_reconnect_max_ms = None,
     d_recv_max_size = None, d_tcp_nodelay = None, d_tcp_keepalive = None, d_tcp_local_addr = None\<rparr>"

theorem endpoints_run_safe_witness:
  "card (orphans ref_ep_lib 1 (snd (ep_run ref_ep_lib [CallAddDialer (demo_args None), CallAddDialer (demo_args (Some (PyInt (2 ^ 40)))), CallClose 0] demo_world))) \<le> 1"
proof -
  let ?cs = "[CallAddDialer (demo_args None), CallAddDialer (demo_args (Some (PyInt (2 ^ 40)))), CallClose 0]"
  have 0: "\<forall>x. l_live ref_ep_lib (clib demo_world) x = Some 1 \<longrightarrow> fst x = KSocket"
    by (simp add: demo_world_def ref_ep_lib_def)
  have 1: "sock_id demo_world = 1" "ep_objs demo_world = []" by (simp_all add: demo_world_def)
  have "fst (ep_run ref_ep_lib ?cs demo_world) = 1" by code_simp
  then have "ep_run ref_ep_lib ?cs demo_world = (1, snd (ep_run ref_ep_lib ?cs demo_world))" by (metis surjective_pairing)
  from endpoints_run_safe [OF ref_ep_lib_ok _ 1 0 this] show ?thesis by simp
qed

text \<open>C8: a dialer whose creation succeeds and one of whose options then cannot be converted or is refused
  is not closed: \<open>add_dialer\<close> raises, no Python object exists for the dialer, and it stays in the
  library through any further calls until the socket is closed.\<close>

theorem failed_option_leaves_dialer:
  assumes "lib_ok L" "ep_ok L (sock_id w) w" "sock_id w \<noteq> 0" "encode_url (d_url a) = Inr b"
    and "l_open L KDialer (sock_id w) (c_string b) (clib w) = (NNG_OK, n, c')"
    and "apply_settings L KDialer n (dialer_settings L a) (w\<lparr>clib := c'\<rparr>) = (Inl e, w1)"
  shows "add_dialer L a w = (Inl e, w1) \<and> ep_objs w1 = ep_objs w \<and>
    (KDialer, n) \<in> orphans L (sock_id w) w1 \<and>
    (\<forall>calls. CallSocketClose \<notin> set calls \<longrightarrow> (KDialer, n) \<in> orphans L (sock_id w) (snd (ep_run L calls w1))) \<and>
    l_live L (clib (snd (Socket_close L w1))) (KDialer, n) = None"
proof -
  have add: "add_dialer L a w = (Inl e, w1)"
    using assms(3-6) by (simp add: add_dialer_def Socket_check_def make_checked_def make_handle_def bindS_app)
  note fr = apply_settings_frame [OF assms(1,6)]
  note od = lib_openD(1-4) [OF assms(1,5) refl]
  have w1: "ep_objs w1 = ep_objs w" "sock_id w1 = sock_id w" using arg_cong [OF conjunct2 [OF fr], of ep_objs]
    arg_cong [OF conjunct2 [OF fr], of sock_id] by simp_all
  have live: "l_live L (clib w1) (KDialer, n) = Some (sock_id w)" using fr od(4) by simp
  have "(KDialer, n) \<notin> set (open_ids w1)" using od(2) assms(2,3) open_ids_cong [OF w1(1)] by (auto simp: ep_ok_def)
  with live have orph: "(KDialer, n) \<in> orphans L (sock_id w) w1" by (simp add: orphans_def)
  have "ep_ok L (sock_id w) w1"
    using add_effect_ok [OF assms(2) add_dialer_effect [OF assms(1) add]] assms(3) by simp
  moreover have "l_live L (clib (snd (Socket_close L w1))) (KDialer, n) = None"
    using live assms(3) w1 lib_socket_close [OF assms(1)] by (simp add: Socket_close_def)
  ultimately show ?thesis using add w1 orph orphan_persists [OF assms(1) _ orph] by blast
qed

theorem failed_option_leaves_dialer_witness:
  "(KDialer, 2) \<in> orphans ref_ep_lib 1 (snd (add_dialer ref_ep_lib (demo_args (Some (PyObj True))) demo_world))"
proof -
  let ?a = "demo_args (Some (PyObj True))" and ?c = "\<lparr>rc_live = [((KDialer, 2), 1), ((KSocket, 1), 1)], rc_opts = []\<rparr>"
  have w: "sock_id demo_world = 1" by (simp add: demo_world_def)
  have ok: "ep_ok ref_ep_lib (sock_id demo_world) demo_world" by (simp add: ep_ok_def demo_world_def open_ids_def)
  have url: "encode_url (d_url ?a) = Inr [116, 99, 112]" by (simp add: demo_args_def)
  have o: "l_open ref_ep_lib KDialer (sock_id demo_world) (c_string [116, 99, 112]) (clib demo_world) = (NNG_OK, 2, ?c)"
    by (simp add: ref_ep_lib_def demo_world_def)
  have s: "apply_settings ref_ep_lib KDialer 2 (dialer_settings ref_ep_lib ?a) (demo_world\<lparr>clib := ?c\<rparr>) =
      (Inl (PyExn TypeError), demo_world\<lparr>clib := ?c\<rparr>)"
    by (simp add: dialer_settings_def demo_args_def given_def mapR_def bindS_app)
  from failed_option_leaves_dialer [OF ref_ep_lib_ok ok _ url o s] show ?thesis using w by simp
qed

text \<open>A closed dialer, listener or socket is inert: closing it again does nothing and every other
  call raises \<open>NngClosed\<close> and changes nothing. A dialer or listener that was not closed when its
  socket was is reported as closed by \<open>start\<close> and by its options, but its own \<open>close\<close> raises a
  plain \<open>NngError\<close> once, as does the port of a listener.\<close>

theorem endpoint_after_close:
  assumes "lib_ok L" "a < length (ep_objs w)" "sock_id w \<noteq> 0" "hd_id (obj_handle w a) \<noteq> 0"
    and "obj_kind_of w a = KDialer \<or> obj_kind_of w a = KListener"
    and "l_live L (clib w) (obj_kind_of w a, hd_id (obj_handle w a)) = Some (sock_id w)"
    and c: "wc = snd (obj_close L a w)" and s: "ws = snd (Socket_close L w)"
  shows "obj_close L a w = (Inr (), wc) \<and> obj_close L a wc = (Inr (), wc) \<and>
    obj_start L blk a wc = (Inl (obj_closed_exn (obj_kind_of w a)), wc) \<and>
    ep_get_option L opt a wc = (Inl (obj_closed_exn (obj_kind_of w a)), wc) \<and>
    Listener_port L a wc = (Inl (obj_closed_exn (obj_kind_of w a)), wc) \<and>
    Socket_close L ws = (Inr (), ws) \<and> add_dialer L d ws = (Inl (obj_closed_exn KSocket), ws) \<and>
    add_listener L l ws = (Inl (obj_closed_exn KSocket), ws) \<and> open_context L ws = (Inl (obj_closed_exn KSocket), ws) \<and>
    fst (obj_start L blk a ws) = Inl (NngExn NngClosed NNG_ECLOSED StrError) \<and>
    fst (ep_get_option L opt a ws) = Inl (NngExn NngClosed NNG_ECLOSED StrError) \<and>
    fst (Listener_port L a ws) = Inl (NngExn NngError NNG_ENOENT StrError) \<and>
    fst (obj_close L a ws) = Inl (NngExn NngError NNG_ENOENT StrError) \<and>
    obj_close L a (snd (obj_close L a ws)) = (Inr (), snd (obj_close L a ws))"
proof -
  let ?k = "obj_kind_of w a" and ?n = "hd_id (obj_handle w a)"
  have k: "?k \<noteq> KSocket" "gone_code ?k = NNG_ENOENT" using assms(5) by auto
  have ws: "ep_objs ws = ep_objs w" "l_live L (clib ws) (?k, ?n) = None"
    using assms(3,6) lib_socket_close [OF assms(1)] by (simp_all add: s Socket_close_def)
  have codes: "err_from_code NNG_ENOENT = NngExn NngError NNG_ENOENT StrError" "err_from_code NNG_ECLOSED = NngExn NngClosed NNG_ECLOSED StrError"
    by (simp_all add: err_from_code_def ERR_MAP_def)
  have "fst (obj_close L a w) = Inr ()"
    using lib_closeD(2) [OF assms(1) k(1)] assms(4,6) by (simp add: obj_close_app)
  then have "obj_close L a w = (Inr (), wc)" unfolding c by (metis prod.collapse)
  moreover have "fst (obj_start L blk a ws) = Inl (NngExn NngClosed NNG_ECLOSED StrError)"
    using lib_startD(2) [OF assms(1) ws(2)] assms(4) ws(1) k(2)
    by (simp add: obj_start_def obj_check_def handle_is_open_def nng_call_def bindS_app as_closed_def check_err_def codes
        case_prod_beta)
  moreover have "fst (ep_get_option L opt a ws) = Inl (NngExn NngClosed NNG_ECLOSED StrError)"
    "fst (Listener_port L a ws) = Inl (NngExn NngError NNG_ENOENT StrError)"
    using lib_getD [OF assms(1) ws(2)] assms(4) ws(1) k(2)
    by (simp_all add: ep_get_option_def Listener_port_def obj_get_option_def obj_check_def handle_is_open_def bindS_app
        as_closed_def check_err_def codes case_prod_beta)
  moreover have "fst (obj_close L a ws) = Inl (NngExn NngError NNG_ENOENT StrError)"
    using lib_closeD(1) [OF assms(1) k(1) ws(2)] assms(4) ws(1) k(2) by (simp add: obj_close_app check_err_def codes)
  moreover have "obj_close L a (snd (obj_close L a ws)) = (Inr (), snd (obj_close L a ws))"
    using assms(2) ws(1) by (intro started.close_again) simp
  moreover have "obj_close L a wc = (Inr (), wc)" "obj_start L blk a wc = (Inl (obj_closed_exn ?k), wc)"
    unfolding c by (rule started.close_again [OF assms(2)], rule started.call_after_close [OF assms(2)])
  moreover have "ep_get_option L opt a wc = (Inl (obj_closed_exn ?k), wc)" "Listener_port L a wc = (Inl (obj_closed_exn ?k), wc)"
    unfolding c Listener_port_def
    by (rule option_read.call_after_close [OF assms(2)], rule option_plain.call_after_close [OF assms(2)])
  moreover have "Socket_close L ws = (Inr (), ws)" "add_dialer L d ws = (Inl (obj_closed_exn KSocket), ws)"
    unfolding s by (rule dialer_added.close_again [OF TrueI], rule dialer_added.call_after_close [OF TrueI])
  moreover have "add_listener L l ws = (Inl (obj_closed_exn KSocket), ws)" "open_context L ws = (Inl (obj_closed_exn KSocket), ws)"
    unfolding s by (rule listener_added.call_after_close [OF TrueI], rule context_opened.call_after_close [OF TrueI])
  ultimately show ?thesis by blast
qed

theorem endpoint_after_close_witness:
  "let w = snd (add_dialer ref_ep_lib (demo_args None) demo_world); ws = snd (Socket_close ref_ep_lib w) in
    fst (obj_close ref_ep_lib 0 ws) = Inl (NngExn NngError NNG_ENOENT StrError)"
proof -
  let ?w = "snd (add_dialer ref_ep_lib (demo_args None) demo_world)"
  have "ep_objs ?w = [(KDialer, \<lparr>hd_id = 2, hd_tls = None\<rparr>)]" "sock_id ?w = 1" "rc_live (clib ?w) = [((KDialer, 2), 1), ((KSocket, 1), 1)]"
    by code_simp+
  then have "0 < length (ep_objs ?w)" "sock_id ?w \<noteq> 0" "hd_id (obj_handle ?w 0) \<noteq> 0"
    "obj_kind_of ?w 0 = KDialer \<or> obj_kind_of ?w 0 = KListener"
    "l_live ref_ep_lib (clib ?w) (obj_kind_of ?w 0, hd_id (obj_handle ?w 0)) = Some (sock_id ?w)"
    by (simp_all add: ref_ep_lib_def)
  from endpoint_after_close [OF ref_ep_lib_ok this refl refl] show ?thesis by (simp add: Let_def)
qed

lemma find_prop_other:
  "find_prop (class_props cls) n1 = Inr (o1, t1) \<Longrightarrow> find_prop (class_props cls) n2 = Inr (o2, t2) \<Longrightarrow> n1 \<noteq> n2 \<Longrightarrow> o1 \<noteq> o2"
  "find_prop (ctx_class_props ccls) n1 = Inr (o1, t1) \<Longrightarrow> find_prop (ctx_class_props ccls) n2 = Inr (o2, t2) \<Longrightarrow> n1 \<noteq> n2 \<Longrightarrow> o1 \<noteq> o2"
  by (cases cls; auto simp: find_prop_def timeout_props_def split: if_splits)
    (cases ccls; auto simp: find_prop_def timeout_props_def split: if_splits)

lemma convert_readable: "convert ty v = Inr x \<Longrightarrow> readable x"
  by (cases ty; cases v) (auto simp: readable_def mapR_def bindR_eq_Inr)

text \<open>The socket as the object it is for the library.\<close>

lemma Socket_set_OK:
  assumes "Socket_set L cls name v w = (Inr (), w')"
  obtains opt ty x where "find_prop (class_props cls) name = Inr (opt, ty)" "convert ty v = Inr x" "sock_id w \<noteq> 0"
    "l_set L KSocket opt x (sock_id w) (clib w) = (NNG_OK, clib w')" "w' = w\<lparr>clib := clib w'\<rparr>"
  using assms by (auto simp: Socket_set_def Socket_check_def nng_call_def bindS_app split: sum.splits prod.splits if_splits)

lemma Context_set_OK:
  assumes "Context_set L cls name v a w = (Inr (), w')"
  obtains opt ty x where "find_prop (ctx_class_props cls) name = Inr (opt, ty)" "convert ty v = Inr x" "hd_id (obj_handle w a) \<noteq> 0"
    "l_set L (obj_kind_of w a) opt x (hd_id (obj_handle w a)) (clib w) = (NNG_OK, clib w')" "w' = w\<lparr>clib := clib w'\<rparr>"
  using assms by (auto simp: Context_set_def obj_check_def handle_is_open_def nng_call_def bindS_app split: sum.splits prod.splits if_splits)

lemma socket_option_roundtrip:
  assumes "lib_ok L" "Socket_set L cls name v w = (Inr (), w')"
  shows "\<exists>opt ty x. find_prop (class_props cls) name = Inr (opt, ty) \<and> convert ty v = Inr x \<and>
    Socket_get L cls name w' = (Inr x, w') \<and>
    (\<forall>other. other \<noteq> name \<longrightarrow> fst (Socket_get L cls other w') = fst (Socket_get L cls other w))"
proof -
  from assms(2) obtain opt ty x where f: "find_prop (class_props cls) name = Inr (opt, ty)" "convert ty v = Inr x" "sock_id w \<noteq> 0"
    and st: "l_set L KSocket opt x (sock_id w) (clib w) = (NNG_OK, clib w')" and w': "w' = w\<lparr>clib := clib w'\<rparr>"
    by (rule Socket_set_OK)
  have id: "sock_id w' = sock_id w" using arg_cong [OF w', of sock_id] by simp
  note sd = lib_setD [OF assms(1) st]
  have "Socket_get L cls name w' = (Inr x, w')"
    using f id sd(3) [OF refl convert_readable [OF f(2)]] by (simp add: Socket_get_def Socket_check_def bindS_app)
  moreover have "fst (Socket_get L cls other w') = fst (Socket_get L cls other w)" if "other \<noteq> name" for other
    using f id sd(4) find_prop_other(1) [OF _ f(1) that]
    by (cases "find_prop (class_props cls) other") (auto simp: Socket_get_def Socket_check_def bindS_app case_prod_beta)
  ultimately show ?thesis using f by blast
qed

lemma context_option_roundtrip:
  assumes "lib_ok L" "Context_set L ccls name v a w = (Inr (), w')"
  shows "\<exists>opt ty x. find_prop (ctx_class_props ccls) name = Inr (opt, ty) \<and> convert ty v = Inr x \<and>
    Context_get L ccls name a w' = (Inr x, w') \<and>
    (\<forall>other. other \<noteq> name \<longrightarrow> fst (Context_get L ccls other a w') = fst (Context_get L ccls other a w))"
proof -
  from assms(2) obtain opt ty x where f: "find_prop (ctx_class_props ccls) name = Inr (opt, ty)" "convert ty v = Inr x" "hd_id (obj_handle w a) \<noteq> 0"
    and st: "l_set L (obj_kind_of w a) opt x (hd_id (obj_handle w a)) (clib w) = (NNG_OK, clib w')" and w': "w' = w\<lparr>clib := clib w'\<rparr>"
    by (rule Context_set_OK)
  have id: "ep_objs w' = ep_objs w" using arg_cong [OF w', of ep_objs] by simp
  note sd = lib_setD [OF assms(1) st]
  have "Context_get L ccls name a w' = (Inr x, w')"
    using f id sd(3) [OF refl convert_readable [OF f(2)]]
    by (simp add: Context_get_def obj_get_option_def obj_check_def handle_is_open_def bindS_app)
  moreover have "fst (Context_get L ccls other a w') = fst (Context_get L ccls other a w)" if "other \<noteq> name" for other
    using f id sd(4) find_prop_other(2) [OF _ f(1) that]
    by (cases "find_prop (ctx_class_props ccls) other")
      (auto simp: Context_get_def obj_get_option_def obj_check_def handle_is_open_def bindS_app case_prod_beta)
  ultimately show ?thesis using f by blast
qed

lemma socket_option_overflow:
  "find_prop (class_props cls) name = Inr (opt, ty) \<Longrightarrow> ty \<noteq> TBool \<Longrightarrow> \<not> (- (2 ^ 31) \<le> i \<and> i < 2 ^ 31) \<Longrightarrow>
    Socket_set L cls name (PyInt i) w = (Inl (PyExn OverflowError), w)"
  by (cases ty) (auto simp: Socket_set_def bindS_app to_c_int_def mapR_def)



end
