(* ===== verification/Tls.thy ===== *)
theory Tls
  imports Endpoint
begin

text \<open>
  TLS configurations and certificates (\<^verbatim>\<open>nng/_tls.pxi\<close>, \<^verbatim>\<open>nng/cpp/tls_config.hpp\<close>): the four factories
  of \<open>TlsConfig\<close> and the properties of \<open>TlsCert\<close>. The TLS engine behind the C library is an argument:
  its answers to the configuration calls, and a certificate as the engine reads it. Strings that
  come back from the engine are decoded with replacement characters.
\<close>

section \<open>Decoding with replacement\<close>

text \<open>
  \<open>bytes.decode("utf-8", errors="replace")\<close>: what is no character is replaced by U+FFFD, as many
  octets at a time as could begin one.
\<close>

definition second_ok :: "byte \<Rightarrow> byte \<Rightarrow> bool" where
  "second_ok b0 b1 \<longleftrightarrow> cont b1 \<and> (unat b0 = 0xE0 \<longrightarrow> 0xA0 \<le> unat b1) \<and> (unat b0 = 0xED \<longrightarrow> unat b1 < 0xA0) \<and>
     (unat b0 = 0xF0 \<longrightarrow> 0x90 \<le> unat b1) \<and> (unat b0 = 0xF4 \<longrightarrow> unat b1 < 0x90)"

definition bad_prefix :: "bytes \<Rightarrow> nat" where
  "bad_prefix bs =
     (case bs of
        b0 # b1 # r \<Rightarrow>
          if 0xE0 \<le> unat b0 \<and> unat b0 < 0xF5 \<and> second_ok b0 b1
          then (case r of b2 # _ \<Rightarrow> if 0xF0 \<le> unat b0 \<and> cont b2 then 3 else 2 | [] \<Rightarrow> 2)
          else 1
      | _ \<Rightarrow> 1)"

lemma bad_prefix_pos: "0 < bad_prefix bs"
  by (simp add: bad_prefix_def split: list.splits)

function decode_replace :: "bytes \<Rightarrow> pystr" where
  "decode_replace bs =
     (if bs = [] then []
      else case utf8_next bs of
             None \<Rightarrow> 0xFFFD # decode_replace (drop (bad_prefix bs) bs)
           | Some (c, r) \<Rightarrow> c # decode_replace r)"
  by pat_completeness auto
termination
  by (relation "measure length") (auto dest: utf8_next_shorter simp: bad_prefix_pos)

declare decode_replace.simps [simp del]

text \<open>On text that decodes, the two decoders agree.\<close>

lemma decode_replace_valid: "utf8_decode bs = Some s \<Longrightarrow> decode_replace bs = s"
proof (induction bs arbitrary: s rule: utf8_decode.induct)
  case (1 bs)
  show ?case
  proof (cases "bs = []")
    case True
    with "1.prems" show ?thesis by (simp add: utf8_decode.simps decode_replace.simps)
  next
    case False
    with "1.prems" obtain c r s' where n: "utf8_next bs = Some (c, r)" and r: "utf8_decode r = Some s'" "s = c # s'"
      by (subst (asm) utf8_decode.simps) (auto split: option.splits)
    with "1.IH" [OF False n refl] False show ?thesis by (subst decode_replace.simps) simp
  qed
qed

section \<open>Configuration calls\<close>

text \<open>The enumerators of the C header; other integers of their width are \<open>AUTH_CODE\<close> and \<open>TLS_CODE\<close>.\<close>

datatype auth_mode = AUTH_NONE | AUTH_OPTIONAL | AUTH_REQUIRED | AUTH_CODE int

datatype tls_version = TLS_1_2 | TLS_1_3 | TLS_CODE int

text \<open>The calls on an \<open>nng_tls_config\<close>; strings are C strings, an absent password or CRL is \<open>NULL\<close>.\<close>

datatype tls_call =
    ServerName bytes | CaChain bytes "bytes option" | CaFile bytes
  | OwnCert bytes bytes "bytes option" | CertKeyFile bytes "bytes option"
  | AuthMode auth_mode | Version tls_version tls_version | Psk bytes bytes

text \<open>
  The state of a factory: the calls that went through, in order, and how many configurations
  exist in the library (a configuration is freed with its last handle).
\<close>

record tls_st =
  applied :: "tls_call list"
  configs :: nat

text \<open>
  A factory runs with the engine, which answers a call after the calls so far, the outcome of the
  library's initialisation, and the library's answer to allocating a configuration (\<open>True\<close> for a server's).
\<close>

type_synonym tls_engine = "tls_call list \<Rightarrow> tls_call \<Rightarrow> nng_err"

record tls_env =
  te_engine :: tls_engine
  te_init :: "unit result"
  te_alloc :: "bool \<Rightarrow> nng_err"

definition tls_call :: "tls_engine \<Rightarrow> tls_call \<Rightarrow> (tls_st, py_exn, unit) op" where
  "tls_call engine x = (\<lambda>s.
     let rv = engine (applied s) x in
     (check_err rv, if rv = NNG_OK then s\<lparr>applied := applied s @ [x]\<rparr> else s))"

text \<open>\<open>x.encode("utf-8")\<close> passed as \<open>const char *\<close>.\<close>

definition c_text :: "pystr \<Rightarrow> bytes result" where
  "c_text s = bindR (str_encode s) (\<lambda>b. Inr (c_string b))"

definition c_text_opt :: "pystr option \<Rightarrow> bytes option result" where
  "c_text_opt x = (case x of None \<Rightarrow> Inr None | Some s \<Rightarrow> bindR (c_text s) (\<lambda>b. Inr (Some b)))"

definition if_set :: "bool \<Rightarrow> ('s, 'e, unit) op \<Rightarrow> ('s, 'e, unit) op" where
  "if_set b f = (if b then f else returnS ())"

definition on_given :: "'a option \<Rightarrow> ('a \<Rightarrow> ('s, 'e, unit) op) \<Rightarrow> ('s, 'e, unit) op" where
  "on_given x f = (case x of None \<Rightarrow> returnS () | Some v \<Rightarrow> f v)"

section \<open>The factories\<close>

record cert_args =
  a_server_name :: "pystr option"
  a_ca_pem :: "pystr option"
  a_crl_pem :: "pystr option"
  a_ca_file :: "pystr option"
  a_cert_pem :: "pystr option"
  a_key_pem :: "pystr option"
  a_cert_file :: "pystr option"
  a_password :: "pystr option"
  a_auth_mode :: "auth_mode option"
  a_min_version :: "tls_version option"
  a_max_version :: "tls_version option"

text \<open>The blocks both certificate factories are made of.\<close>

definition set_ca :: "tls_engine \<Rightarrow> cert_args \<Rightarrow> (tls_st, py_exn, unit) op" where
  "set_ca engine a =
     (case a_ca_pem a of
        Some ca \<Rightarrow>
          bindS (liftS (c_text ca)) (\<lambda>b.
          bindS (liftS (c_text_opt (a_crl_pem a))) (\<lambda>crl. tls_call engine (CaChain b crl)))
      | None \<Rightarrow> if a_crl_pem a \<noteq> None then raiseS (PyExn ValueError) else returnS ())"

definition set_ca_file :: "tls_engine \<Rightarrow> cert_args \<Rightarrow> (tls_st, py_exn, unit) op" where
  "set_ca_file engine a = on_given (a_ca_file a) (\<lambda>f. bindS (liftS (c_text f)) (\<lambda>b. tls_call engine (CaFile b)))"

definition set_own_cert :: "tls_engine \<Rightarrow> cert_args \<Rightarrow> (tls_st, py_exn, unit) op" where
  "set_own_cert engine a =
     (case (a_cert_pem a, a_key_pem a) of
        (Some cert, Some key) \<Rightarrow>
          bindS (liftS (c_text cert)) (\<lambda>b.
          bindS (liftS (c_text key)) (\<lambda>bk.
          bindS (liftS (c_text_opt (a_password a))) (\<lambda>bp. tls_call engine (OwnCert b bk bp))))
      | _ \<Rightarrow>
          on_given (a_cert_file a) (\<lambda>f.
          bindS (liftS (c_text f)) (\<lambda>b.
          bindS (liftS (c_text_opt (a_password a))) (\<lambda>bp. tls_call engine (CertKeyFile b bp)))))"

definition set_auth_mode :: "tls_engine \<Rightarrow> cert_args \<Rightarrow> (tls_st, py_exn, unit) op" where
  "set_auth_mode engine a = on_given (a_auth_mode a) (\<lambda>m. tls_call engine (AuthMode m))"

definition set_versions :: "tls_engine \<Rightarrow> tls_version option \<Rightarrow> tls_version option \<Rightarrow> (tls_st, py_exn, unit) op" where
  "set_versions engine min_version max_version =
     if_set (min_version \<noteq> None \<or> max_version \<noteq> None)
       (tls_call engine (Version (case min_version of None \<Rightarrow> TLS_1_2 | Some v \<Rightarrow> v)
                                 (case max_version of None \<Rightarrow> TLS_1_3 | Some v \<Rightarrow> v)))"

text \<open>\<open>TlsConfig._alloc\<close>\<close>

definition tls_alloc :: "tls_env \<Rightarrow> bool \<Rightarrow> (tls_st, py_exn, unit) op" where
  "tls_alloc env server =
     bindS (liftS (te_init env)) (\<lambda>_ s.
       let err = te_alloc env server in
       (check_err err, if err = NNG_OK then s\<lparr>applied := [], configs := configs s + 1\<rparr> else s))"

text \<open>The body of a factory: when it raises, the only handle of the configuration goes and frees it.\<close>

definition configured :: "tls_env \<Rightarrow> bool \<Rightarrow> (tls_st, py_exn, unit) op \<Rightarrow> (tls_st, py_exn, bool \<times> tls_call list) op" where
  "configured env server body = (\<lambda>s.
     case tls_alloc env server s of
       (Inl e, s1) \<Rightarrow> (Inl e, s1)
     | (Inr _, s1) \<Rightarrow>
         (case body s1 of
            (Inl e, s2) \<Rightarrow> (Inl e, s2\<lparr>configs := configs s2 - 1\<rparr>)
          | (Inr _, s2) \<Rightarrow> (Inr (server, applied s2), s2)))"

definition for_client :: "tls_env \<Rightarrow> cert_args \<Rightarrow> (tls_st, py_exn, bool \<times> tls_call list) op" where
  "for_client env a = configured env False
     (bindS (on_given (a_server_name a) (\<lambda>n. bindS (liftS (c_text n)) (\<lambda>b. tls_call (te_engine env) (ServerName b)))) (\<lambda>_.
      bindS (set_ca (te_engine env) a) (\<lambda>_.
      bindS (set_ca_file (te_engine env) a) (\<lambda>_.
      bindS (set_own_cert (te_engine env) a) (\<lambda>_.
      bindS (set_auth_mode (te_engine env) a) (\<lambda>_.
      set_versions (te_engine env) (a_min_version a) (a_max_version a)))))))"

definition for_server :: "tls_env \<Rightarrow> cert_args \<Rightarrow> (tls_st, py_exn, bool \<times> tls_call list) op" where
  "for_server env a = configured env True
     (bindS (set_own_cert (te_engine env) a) (\<lambda>_.
      bindS (set_ca (te_engine env) a) (\<lambda>_.
      bindS (set_ca_file (te_engine env) a) (\<lambda>_.
      bindS (set_auth_mode (te_engine env) a) (\<lambda>_.
      set_versions (te_engine env) (a_min_version a) (a_max_version a))))))"

definition for_psk_client ::
    "tls_env \<Rightarrow> pystr \<Rightarrow> bytes \<Rightarrow> tls_version option \<Rightarrow> tls_version option \<Rightarrow> (tls_st, py_exn, bool \<times> tls_call list) op" where
  "for_psk_client env identity key min_version max_version = configured env False
     (bindS (liftS (c_text identity)) (\<lambda>b_id.
      bindS (tls_call (te_engine env) (AuthMode AUTH_NONE)) (\<lambda>_.
      bindS (tls_call (te_engine env) (Psk b_id key)) (\<lambda>_.
      set_versions (te_engine env) min_version max_version))))"

fun register_psks :: "tls_engine \<Rightarrow> (pystr \<times> bytes) list \<Rightarrow> (tls_st, py_exn, unit) op" where
  "register_psks engine [] = returnS ()"
| "register_psks engine ((identity_str, key_bytes) # psks) =
     bindS (liftS (c_text identity_str)) (\<lambda>b_id.
     bindS (tls_call engine (Psk b_id key_bytes)) (\<lambda>_. register_psks engine psks))"

definition for_psk_server ::
    "tls_env \<Rightarrow> (pystr \<times> bytes) list \<Rightarrow> tls_version option \<Rightarrow> tls_version option \<Rightarrow> (tls_st, py_exn, bool \<times> tls_call list) op" where
  "for_psk_server env psks min_version max_version =
     (if psks = [] then raiseS (PyExn ValueError)
      else configured env True (bindS (register_psks (te_engine env) psks) (\<lambda>_. set_versions (te_engine env) min_version max_version)))"

section \<open>Certificates\<close>

text \<open>
  A parsed certificate: its DER octets, and what the engine's cursor over the alternative names
  gives, call by call; after that the cursor is at its end. \<open>tc_ptr\<close> is \<open>False\<close> for a null pointer.
\<close>

record tls_cert =
  tc_ptr :: bool
  tc_der :: bytes
  tc_alts :: "(nng_err \<times> bytes) list"
  tc_cache :: "pystr list option"

definition require_valid :: "(tls_cert, py_exn, unit) op" where
  "require_valid = (\<lambda>c. if \<not> tc_ptr c then (Inl (PyExn ValueError), c) else (Inr (), c))"

text \<open>\<open>from_pem\<close> and \<open>from_der\<close>; \<open>parse\<close> is the engine's parser.\<close>

definition from_der :: "(bytes \<Rightarrow> nng_err \<times> tls_cert) \<Rightarrow> bytes \<Rightarrow> tls_cert result" where
  "from_der parse der = (let (rv, c) = parse der in bindR (check_err rv) (\<lambda>_. Inr c))"

text \<open>PEM text is passed with the terminating zero octet of the Python object.\<close>

definition from_pem :: "(bytes \<Rightarrow> nng_err \<times> tls_cert) \<Rightarrow> py_url \<Rightarrow> tls_cert result" where
  "from_pem parse pem =
     bindR (case pem of
              UrlBytes b \<Rightarrow> Inr b
            | UrlStr s \<Rightarrow> if list_all (\<lambda>c. c < 128) s then str_encode s else Inl (PyExn UnicodeError)) (\<lambda>b.
     let (rv, c) = parse (b @ [0]) in bindR (check_err rv) (\<lambda>_. Inr c))"

definition to_der :: "(tls_cert, py_exn, bytes) op" where
  "to_der = bindS require_valid (\<lambda>_ c. (Inr (tc_der c), c))"

text \<open>\<open>subject\<close>, \<open>issuer\<close>, \<open>serial_number\<close> and \<open>subject_cn\<close>: \<open>rv\<close> and \<open>s\<close> are the engine's answer.\<close>

definition cert_attribute :: "nng_err \<Rightarrow> bytes \<Rightarrow> (tls_cert, py_exn, pystr) op" where
  "cert_attribute rv s = bindS require_valid (\<lambda>_. bindS (liftS (check_err rv)) (\<lambda>_. returnS (decode_replace s)))"

text \<open>The loop of \<open>alt_names\<close>: every round takes an answer off the cursor.\<close>

function drain_alts :: "pystr list \<Rightarrow> (tls_cert, py_exn, pystr list) op" where
  "drain_alts result c =
     (case tc_alts c of
        [] \<Rightarrow> (Inr result, c)
      | (rv, s) # rest \<Rightarrow>
          if rv = NNG_ENOENT then (Inr result, c\<lparr>tc_alts := rest\<rparr>)
          else if rv \<noteq> NNG_OK then (Inl (err_from_code rv), c\<lparr>tc_alts := rest\<rparr>)
          else drain_alts (result @ [decode_replace s]) (c\<lparr>tc_alts := rest\<rparr>))"
  by pat_completeness auto
termination
  by (relation "measure (\<lambda>(result, c). length (tc_alts c))") auto

declare drain_alts.simps [simp del]

definition alt_names :: "(tls_cert, py_exn, pystr list) op" where
  "alt_names = (\<lambda>c.
     case tc_cache c of
       Some names \<Rightarrow> (Inr names, c)
     | None \<Rightarrow>
         bindS require_valid (\<lambda>_.
         bindS (drain_alts []) (\<lambda>result c. (Inr result, c\<lparr>tc_cache := Some result\<rparr>))) c)"

text \<open>\<open>not_before\<close> and \<open>not_after\<close>: the fields of a \<open>struct tm\<close> make a date.\<close>

record tm =
  tm_year :: int
  tm_mon :: int
  tm_mday :: int
  tm_hour :: int
  tm_min :: int
  tm_sec :: int

definition is_leap :: "int \<Rightarrow> bool" where
  "is_leap y \<longleftrightarrow> y mod 4 = 0 \<and> (y mod 100 \<noteq> 0 \<or> y mod 400 = 0)"

definition days_in_month :: "int \<Rightarrow> int \<Rightarrow> int" where
  "days_in_month y m = (if m = 2 then (if is_leap y then 29 else 28) else if m \<in> {4, 6, 9, 11} then 30 else 31)"

text \<open>\<open>datetime.datetime(year, month, day, hour, minute, second)\<close>\<close>

definition datetime :: "int \<Rightarrow> int \<Rightarrow> int \<Rightarrow> int \<Rightarrow> int \<Rightarrow> int \<Rightarrow> (int \<times> int \<times> int \<times> int \<times> int \<times> int) result" where
  "datetime y mo d h mi s =
     (if 1 \<le> y \<and> y \<le> 9999 \<and> 1 \<le> mo \<and> mo \<le> 12 \<and> 1 \<le> d \<and> d \<le> days_in_month y mo \<and>
         0 \<le> h \<and> h \<le> 23 \<and> 0 \<le> mi \<and> mi \<le> 59 \<and> 0 \<le> s \<and> s \<le> 59
      then Inr (y, mo, d, h, mi, s) else Inl (PyExn ValueError))"

definition cert_time :: "nng_err \<Rightarrow> tm \<Rightarrow> (tls_cert, py_exn, int \<times> int \<times> int \<times> int \<times> int \<times> int) op" where
  "cert_time rv t =
     bindS require_valid (\<lambda>_.
     bindS (liftS (check_err rv)) (\<lambda>_.
     liftS (datetime (tm_year t + 1900) (tm_mon t + 1) (tm_mday t) (tm_hour t) (tm_min t) (tm_sec t))))"

text \<open>\<open>__eq__\<close> of two certificates; \<open>__hash__\<close> hashes the DER octets.\<close>

definition cert_eq :: "tls_cert \<Rightarrow> tls_cert \<Rightarrow> bool result" where
  "cert_eq c d =
     (if \<not> tc_ptr c \<or> \<not> tc_ptr d then Inr False
      else bindR (fst (to_der c)) (\<lambda>x. bindR (fst (to_der d)) (\<lambda>y. Inr (x = y))))"

definition cert_hash :: "(bytes \<Rightarrow> int) \<Rightarrow> tls_cert \<Rightarrow> int result" where
  "cert_hash hash_bytes c = bindR (fst (to_der c)) (\<lambda>d. Inr (hash_bytes d))"

section \<open>What a factory configures\<close>

text \<open>
  A block of a factory that makes the calls \<open>xs\<close> when it does not raise, and does not raise when
  \<open>ok\<close> holds; it frees nothing.
\<close>

definition makes :: "bool \<Rightarrow> (tls_st, py_exn, unit) op \<Rightarrow> tls_call list \<Rightarrow> bool" where
  "makes ok f xs \<longleftrightarrow> (\<forall>s. (fst (f s) = Inr () \<longrightarrow> snd (f s) = s\<lparr>applied := applied s @ xs\<rparr>) \<and>
     (ok \<longrightarrow> fst (f s) = Inr ()) \<and> configs (snd (f s)) = configs s)"

named_theorems makes_rules \<open>what the blocks of a factory configure\<close>

lemma makes_return [makes_rules]: "makes ok (returnS ()) []"
  by (simp add: makes_def)

lemma makes_raise [makes_rules]: "\<not> ok \<Longrightarrow> makes ok (raiseS e) xs"
  by (simp add: makes_def)

definition engine_accepts :: "tls_engine \<Rightarrow> bool" where
  "engine_accepts engine \<longleftrightarrow> (\<forall>xs x. engine xs x = NNG_OK)"

lemma makes_call [makes_rules]: "(ok \<Longrightarrow> engine_accepts engine) \<Longrightarrow> makes ok (tls_call engine x) [x]"
  by (auto simp: makes_def tls_call_def Let_def engine_accepts_def check_err_def)

lemma makes_bind: "makes ok f xs \<Longrightarrow> makes ok g ys \<Longrightarrow> makes ok (bindS f (\<lambda>_. g)) (xs @ ys)"
proof -
  assume f: "makes ok f xs" and g: "makes ok g ys"
  have "(fst (bindS f (\<lambda>_. g) s) = Inr () \<longrightarrow> snd (bindS f (\<lambda>_. g) s) = s\<lparr>applied := applied s @ xs @ ys\<rparr>) \<and>
     (ok \<longrightarrow> fst (bindS f (\<lambda>_. g) s) = Inr ()) \<and> configs (snd (bindS f (\<lambda>_. g) s)) = configs s" for s
    using f [unfolded makes_def, rule_format, of s] g [unfolded makes_def, rule_format, of "snd (f s)"]
    by (cases "f s"; cases "fst (f s)") (auto simp: bindS_app)
  then show ?thesis by (simp add: makes_def)
qed

lemma makes_lift: "(\<And>x. r = Inr x \<Longrightarrow> makes ok (f x) xs) \<Longrightarrow> (ok \<Longrightarrow> \<not> isl r) \<Longrightarrow> makes ok (bindS (liftS r) f) xs"
  by (cases r) (auto simp: makes_def bindS_app)

definition cstr :: "pystr \<Rightarrow> bytes" where
  "cstr s = c_string (utf8 s)"

lemma c_text_Inr: "c_text s = Inr b \<Longrightarrow> b = cstr s"
  by (auto simp: c_text_def bindR_eq_Inr str_encode_def cstr_def utf8_def split: if_splits)

lemma c_text_opt_Inr: "c_text_opt x = Inr b \<Longrightarrow> b = map_option cstr x"
  by (cases x) (auto simp: c_text_opt_def bindR_eq_Inr dest: c_text_Inr)

text \<open>A string that can be encoded.\<close>

definition text_ok :: "pystr option \<Rightarrow> bool" where
  "text_ok x \<longleftrightarrow> pred_option (list_all scalar) x"

lemma c_text_ok [simp]: "text_ok (Some s) \<Longrightarrow> \<not> isl (c_text s)"
  by (auto simp: c_text_def str_encode_def text_ok_def)

lemma c_text_opt_ok [simp]: "text_ok x \<Longrightarrow> \<not> isl (c_text_opt x)"
  by (cases x) (auto simp: c_text_opt_def c_text_def str_encode_def text_ok_def)

text \<open>Arguments a certificate factory does not refuse.\<close>

definition cert_args_ok :: "cert_args \<Rightarrow> bool" where
  "cert_args_ok a \<longleftrightarrow> text_ok (a_server_name a) \<and> text_ok (a_ca_pem a) \<and> text_ok (a_crl_pem a) \<and> text_ok (a_ca_file a) \<and>
     text_ok (a_cert_pem a) \<and> text_ok (a_key_pem a) \<and> text_ok (a_cert_file a) \<and> text_ok (a_password a) \<and>
     (a_crl_pem a = None \<or> a_ca_pem a \<noteq> None)"

fun name_calls :: "cert_args \<Rightarrow> tls_call list" where
  "name_calls a = (case a_server_name a of None \<Rightarrow> [] | Some n \<Rightarrow> [ServerName (cstr n)])"

fun ca_calls :: "cert_args \<Rightarrow> tls_call list" where
  "ca_calls a = (case a_ca_pem a of None \<Rightarrow> [] | Some ca \<Rightarrow> [CaChain (cstr ca) (map_option cstr (a_crl_pem a))])"

fun ca_file_calls :: "cert_args \<Rightarrow> tls_call list" where
  "ca_file_calls a = (case a_ca_file a of None \<Rightarrow> [] | Some f \<Rightarrow> [CaFile (cstr f)])"

fun own_cert_calls :: "cert_args \<Rightarrow> tls_call list" where
  "own_cert_calls a =
     (case (a_cert_pem a, a_key_pem a) of
        (Some c, Some k) \<Rightarrow> [OwnCert (cstr c) (cstr k) (map_option cstr (a_password a))]
      | _ \<Rightarrow> (case a_cert_file a of None \<Rightarrow> [] | Some f \<Rightarrow> [CertKeyFile (cstr f) (map_option cstr (a_password a))]))"

fun mode_calls :: "cert_args \<Rightarrow> tls_call list" where
  "mode_calls a = (case a_auth_mode a of None \<Rightarrow> [] | Some m \<Rightarrow> [AuthMode m])"

definition version_calls :: "tls_version option \<Rightarrow> tls_version option \<Rightarrow> tls_call list" where
  "version_calls lo hi =
     (if lo = None \<and> hi = None then []
      else [Version (case lo of None \<Rightarrow> TLS_1_2 | Some v \<Rightarrow> v) (case hi of None \<Rightarrow> TLS_1_3 | Some v \<Rightarrow> v)])"

lemma makes_name [makes_rules]: "(ok \<Longrightarrow> engine_accepts engine \<and> cert_args_ok a) \<Longrightarrow>
    makes ok (on_given (a_server_name a) (\<lambda>n. bindS (liftS (c_text n)) (\<lambda>b. tls_call engine (ServerName b)))) (name_calls a)"
  by (auto simp: on_given_def cert_args_ok_def split: option.splits intro!: makes_lift makes_rules dest!: c_text_Inr)

lemma makes_ca [makes_rules]: "(ok \<Longrightarrow> engine_accepts engine \<and> cert_args_ok a) \<Longrightarrow> makes ok (set_ca engine a) (ca_calls a)"
  by (auto simp: set_ca_def cert_args_ok_def split: option.splits intro!: makes_lift makes_rules dest!: c_text_Inr c_text_opt_Inr)

lemma makes_ca_file [makes_rules]: "(ok \<Longrightarrow> engine_accepts engine \<and> cert_args_ok a) \<Longrightarrow> makes ok (set_ca_file engine a) (ca_file_calls a)"
  by (auto simp: set_ca_file_def cert_args_ok_def on_given_def split: option.splits intro!: makes_lift makes_rules dest!: c_text_Inr)

lemma makes_own_cert [makes_rules]: "(ok \<Longrightarrow> engine_accepts engine \<and> cert_args_ok a) \<Longrightarrow> makes ok (set_own_cert engine a) (own_cert_calls a)"
  by (auto simp: set_own_cert_def cert_args_ok_def on_given_def split: option.splits
      intro!: makes_lift makes_rules dest!: c_text_Inr c_text_opt_Inr)

lemma makes_auth_mode [makes_rules]: "(ok \<Longrightarrow> engine_accepts engine) \<Longrightarrow> makes ok (set_auth_mode engine a) (mode_calls a)"
  by (auto simp: set_auth_mode_def on_given_def split: option.splits intro: makes_rules)

lemma makes_versions [makes_rules]: "(ok \<Longrightarrow> engine_accepts engine) \<Longrightarrow> makes ok (set_versions engine lo hi) (version_calls lo hi)"
  by (auto simp: set_versions_def version_calls_def if_set_def intro: makes_rules)

definition psks_ok :: "(pystr \<times> bytes) list \<Rightarrow> bool" where
  "psks_ok psks \<longleftrightarrow> list_all (\<lambda>(i, k). list_all scalar i) psks"

lemma makes_psks [makes_rules]: "(ok \<Longrightarrow> engine_accepts engine \<and> psks_ok psks) \<Longrightarrow>
    makes ok (register_psks engine psks) (map (\<lambda>(i, k). Psk (cstr i) k) psks)"
proof (induction psks)
  case (Cons p psks)
  obtain i k where p: "p = (i, k)" by (cases p)
  have "makes ok (register_psks engine psks) (map (\<lambda>(i, k). Psk (cstr i) k) psks)"
    using Cons by (auto simp: psks_ok_def)
  then have "makes ok (bindS (tls_call engine (Psk b k)) (\<lambda>_. register_psks engine psks))
      ([Psk b k] @ map (\<lambda>(i, k). Psk (cstr i) k) psks)" for b
    using Cons.prems by (intro makes_bind makes_call) auto
  moreover have "ok \<Longrightarrow> \<not> isl (c_text i)" using Cons.prems by (simp add: p psks_ok_def text_ok_def)
  ultimately show ?case unfolding p by (auto intro!: makes_lift dest!: c_text_Inr)
qed (use makes_return in simp)

text \<open>
  What a factory promises: the configuration it returns has the mode and exactly the calls of \<open>cfg\<close>;
  it raises only when \<open>ok\<close> does not hold, and then leaves no configuration behind.
\<close>

definition factory_ok :: "bool \<Rightarrow> bool \<times> tls_call list \<Rightarrow> tls_st \<Rightarrow> (py_exn + bool \<times> tls_call list) \<times> tls_st \<Rightarrow> bool" where
  "factory_ok ok cfg s out \<longleftrightarrow>
     (case out of (Inr cfg', s') \<Rightarrow> cfg' = cfg \<and> configs s' = configs s + 1 | (Inl e, s') \<Rightarrow> \<not> ok \<and> configs s' = configs s)"

definition can_alloc :: "tls_env \<Rightarrow> bool \<Rightarrow> bool" where
  "can_alloc env server \<longleftrightarrow> te_init env = Inr () \<and> te_alloc env server = NNG_OK"

lemma alloc_fails: "\<not> can_alloc env server \<Longrightarrow> \<exists>e. tls_alloc env server s = (Inl e, s)"
  by (cases "te_init env") (auto simp: can_alloc_def tls_alloc_def bindS_app Let_def check_err_fails)

lemma configured_outcome:
  assumes "makes ok body xs"
  shows "factory_ok (can_alloc env server \<and> ok) (server, xs) s (configured env server body s)"
proof (cases "can_alloc env server")
  case True
  let ?s1 = "s\<lparr>applied := [], configs := configs s + 1\<rparr>"
  obtain q s2 where q: "body ?s1 = (q, s2)" by fastforce
  have "(q = Inr () \<longrightarrow> s2 = ?s1\<lparr>applied := applied ?s1 @ xs\<rparr>) \<and> (ok \<longrightarrow> q = Inr ()) \<and> configs s2 = configs ?s1"
    using assms q unfolding makes_def by (metis fst_conv snd_conv)
  with True q show ?thesis
    by (cases q) (auto simp: configured_def tls_alloc_def can_alloc_def factory_ok_def bindS_app)
next
  case False
  with alloc_fails [OF False, of s] show ?thesis by (auto simp: configured_def factory_ok_def)
qed

section \<open>Properties\<close>


text \<open>The whole list is read once and then kept \<dots>\<close>

lemma drain_all: "drain_alts res (c\<lparr>tc_alts := map (Pair NNG_OK) names @ (NNG_ENOENT, x) # rest\<rparr>) =
    (Inr (res @ map decode_replace names), c\<lparr>tc_alts := rest\<rparr>)"
  by (induction names arbitrary: res) (simp_all add: drain_alts.simps)

lemma drain_error: "rv \<notin> {NNG_OK, NNG_ENOENT} \<Longrightarrow>
    drain_alts res (c\<lparr>tc_alts := map (Pair NNG_OK) names @ (rv, x) # rest\<rparr>) = (Inl (err_from_code rv), c\<lparr>tc_alts := rest\<rparr>)"
  by (induction names arbitrary: res) (simp_all add: drain_alts.simps)

text \<open>The alternative names of a certificate are read off the engine's cursor once and are the same
  on every later access. But an error in the middle loses the names read before it: the access
  raises, and the next one returns the names after the error as if they were all, from then on.\<close>

theorem alt_names_cached:
  assumes "tc_ptr c" "tc_cache c = None" "rv \<notin> {NNG_OK, NNG_ENOENT}"
  shows "(let c1 = snd (alt_names (c\<lparr>tc_alts := map (Pair NNG_OK) names @ [(NNG_ENOENT, x)]\<rparr>)) in
      fst (alt_names (c\<lparr>tc_alts := map (Pair NNG_OK) names @ [(NNG_ENOENT, x)]\<rparr>)) = Inr (map decode_replace names) \<and>
      alt_names c1 = (Inr (map decode_replace names), c1)) \<and>
    (let c0 = c\<lparr>tc_alts := map (Pair NNG_OK) names @ (rv, y) # map (Pair NNG_OK) later @ [(NNG_ENOENT, x)]\<rparr>;
         c1 = snd (alt_names c0); c2 = snd (alt_names c1) in
      fst (alt_names c0) = Inl (err_from_code rv) \<and> fst (alt_names c1) = Inr (map decode_replace later) \<and> alt_names c2 = (Inr (map decode_replace later), c2))"
  using assms drain_all [of "[]" names x "[]" c] drain_all [of "[]" later x "[]" c]
    drain_error [OF assms(3), of "[]" names y "map (Pair NNG_OK) later @ [(NNG_ENOENT, x)]" c]
  by (simp add: alt_names_def require_valid_def bindS_app Let_def)

theorem alt_names_cached_witness:
  "let c = \<lparr>tc_ptr = True, tc_der = [], tc_alts = [(NNG_OK, [1]), (NNG_ENOMEM, []), (NNG_OK, [2]), (NNG_ENOENT, [])], tc_cache = None\<rparr> in
    fst (alt_names (snd (alt_names c))) = Inr [[2]]"
  using alt_names_cached [of "\<lparr>tc_ptr = True, tc_der = [], tc_alts = [], tc_cache = None\<rparr>" NNG_ENOMEM "[[1]]" "[]" "[]" "[[2]]"]
  by (simp add: Let_def decode_replace.simps utf8_next_def)

text \<open>Equal certificates have equal hashes; a certificate without a pointer equals none and cannot be hashed.\<close>

lemma cert_eq_hash:
  "cert_eq c d = Inr True \<Longrightarrow> cert_hash h c = cert_hash h d \<and> isl (cert_hash h c) = False"
  "\<not> tc_ptr c \<Longrightarrow> cert_eq c c = Inr False \<and> cert_hash h c = Inl (PyExn ValueError)"
  by (auto simp: cert_eq_def cert_hash_def to_der_def require_valid_def bindS_app split: if_splits)

text \<open>A leap second in a certificate's time raises \<open>ValueError\<close>.\<close>

lemma leap_second_raises: "tc_ptr c \<Longrightarrow> tm_sec t = 60 \<Longrightarrow> fst (cert_time NNG_OK t c) = Inl (PyExn ValueError)"
  by (simp add: cert_time_def require_valid_def datetime_def bindS_app)

text \<open>A client given a certificate without its key configures no certificate at all.\<close>

lemma certificate_without_key_ignored:
  "a_key_pem a = None \<Longrightarrow> a_cert_file a = None \<Longrightarrow> own_cert_calls a = []"
  by (cases "a_cert_pem a") simp_all

text \<open>What follows a zero character is cut off a server name, a password or the identity of a key.\<close>

lemma cstr_truncates: "list_all scalar s \<Longrightarrow> 0 \<notin> set s \<Longrightarrow> cstr (s @ 0 # t) = utf8 s"
proof -
  assume s: "list_all scalar s" "0 \<notin> set s"
  have "0 \<notin> set (utf8 s)" using utf8_ascii [OF s(1), of 0] s(2) by auto
  then show ?thesis by (auto simp: cstr_def c_string_def utf8_def b8_def takeWhile_append)
qed

end
