(* ===== verification/Codec.thy ===== *)
theory Codec
  imports Utf8
begin

text \<open>
  Text encodings of the secure-socket messages (\<^verbatim>\<open>secure_sockets/security_utils.py\<close>,
  \<^verbatim>\<open>secure_sockets/protocol_utils.py\<close>, \<^verbatim>\<open>common.py\<close> of the secure subscriber): unpadded
  URL-safe base64 with the lenient decoder of the standard library, hexadecimal key files, and
  the JSON messages with the part of \<open>json.dumps\<close> and \<open>json.loads\<close> they rely on. JSON text is
  taken to be UTF-8, and the depth limit of the interpreter is not modelled.
\<close>

abbreviation lit :: "string \<Rightarrow> pystr" where
  "lit s \<equiv> map of_char s"

section \<open>Base64\<close>

fun b64_char :: "nat \<Rightarrow> nat" where
  "b64_char v =
     (if v < 26 then 65 + v else if v < 52 then 71 + v else if v < 62 then v - 4
      else if v = 62 then 45 else 95)"

text \<open>\<open>base64.urlsafe_b64encode\<close>; code point 61 is the padding.\<close>

fun urlsafe_b64encode :: "bytes \<Rightarrow> pystr" where
  "urlsafe_b64encode [] = []"
| "urlsafe_b64encode [a] = [b64_char (unat a div 4), b64_char (unat a mod 4 * 16), 61, 61]"
| "urlsafe_b64encode [a, b] =
     [b64_char (unat a div 4), b64_char (unat a mod 4 * 16 + unat b div 16), b64_char (unat b mod 16 * 4), 61]"
| "urlsafe_b64encode (a # b # c # r) =
     b64_char (unat a div 4) # b64_char (unat a mod 4 * 16 + unat b div 16) #
     b64_char (unat b mod 16 * 4 + unat c div 64) # b64_char (unat c mod 64) # urlsafe_b64encode r"

definition b64enc :: "bytes \<Rightarrow> pystr" where
  "b64enc data = rev (dropWhile (\<lambda>c. c = 61) (rev (urlsafe_b64encode data)))"

text \<open>The sextet of a character, after \<open>-\<close> and \<open>_\<close> were translated to \<open>+\<close> and \<open>/\<close>.\<close>

definition b64_value :: "nat \<Rightarrow> nat option" where
  "b64_value c =
     (if 65 \<le> c \<and> c \<le> 90 then Some (c - 65)
      else if 97 \<le> c \<and> c \<le> 122 then Some (c - 71)
      else if 48 \<le> c \<and> c \<le> 57 then Some (c + 4)
      else if c = 43 \<or> c = 45 then Some 62
      else if c = 47 \<or> c = 95 then Some 63
      else None)"

text \<open>
  \<open>binascii.a2b_base64\<close> in its lenient mode: \<open>quad\<close> is the position in the group of four,
  \<open>left\<close> the bits carried over, \<open>pads\<close> the padding characters seen. Characters outside the
  alphabet are skipped, complete padding ends the input.
\<close>

fun a2b :: "pystr \<Rightarrow> nat \<Rightarrow> nat \<Rightarrow> nat \<Rightarrow> bytes result" where
  "a2b [] quad left pads = (if quad = 0 then Inr [] else Inl (PyExn ValueError))"
| "a2b (ch # r) quad left pads =
     (if ch = 61 then
        (if 2 \<le> quad then (if 4 \<le> quad + Suc pads then Inr [] else a2b r quad left (Suc pads))
         else a2b r quad left pads)
      else
        (case b64_value ch of
           None \<Rightarrow> a2b r quad left pads
         | Some v \<Rightarrow>
             (if quad = 0 then a2b r 1 v 0
              else if quad = 1 then bindR (a2b r 2 (v mod 16) 0) (\<lambda>bs. Inr (b8 (left * 4 + v div 16) # bs))
              else if quad = 2 then bindR (a2b r 3 (v mod 4) 0) (\<lambda>bs. Inr (b8 (left * 16 + v div 4) # bs))
              else bindR (a2b r 0 0 0) (\<lambda>bs. Inr (b8 (left * 64 + v) # bs)))))"

definition urlsafe_b64decode :: "pystr \<Rightarrow> bytes result" where
  "urlsafe_b64decode s = (if list_all (\<lambda>c. c < 128) s then a2b s 0 0 0 else Inl (PyExn ValueError))"

text \<open>\<open>(-len(s)) % 4\<close> padding characters are added.\<close>

definition b64_pad :: "pystr \<Rightarrow> nat" where
  "b64_pad s = nat ((- int (length s)) mod 4)"

definition b64dec :: "pystr \<Rightarrow> bytes result" where
  "b64dec s = urlsafe_b64decode (s @ replicate (b64_pad s) 61)"

lemma b64_char_facts:
  assumes "v < 64"
  shows "b64_value (b64_char v) = Some v" "b64_char v \<noteq> 61" "b64_char v < 128"
  using assms by (auto simp: b64_value_def)

lemma sextets [simp]:
  "unat (x :: byte) div 4 < 64" "unat x mod 4 * 16 + unat (y :: byte) div 16 < 64"
  "unat x mod 16 * 4 + unat y div 64 < 64" "unat x mod 4 * 16 < 64" "unat x mod 16 * 4 < 64"
  "unat x div 16 < 16" "unat x div 64 < 4"
  using unat_byte_less [of x] unat_byte_less [of y] by linarith+

lemma b8_unat [simp]: "b8 (unat (x :: byte)) = x"
  by (simp add: b8_def)

lemma a2b_urlsafe: "a2b (urlsafe_b64encode bs) 0 0 0 = Inr bs"
  by (induction bs rule: urlsafe_b64encode.induct)
     (simp_all add: b64_char_facts del: b64_char.simps)

lemma urlsafe_b64encode_length: "length (urlsafe_b64encode bs) mod 4 = 0"
  by (induction bs rule: urlsafe_b64encode.induct) simp_all

lemma urlsafe_b64encode_ascii: "list_all (\<lambda>c. c < 128) (urlsafe_b64encode bs)"
  by (induction bs rule: urlsafe_b64encode.induct) (simp_all add: b64_char_facts del: b64_char.simps)

text \<open>What stripping leaves, and what the decoder appends again.\<close>

lemma urlsafe_b64encode_split:
  "\<exists>pre k. urlsafe_b64encode bs = pre @ replicate k 61 \<and> k \<le> 2 \<and> list_all (\<lambda>c. c \<noteq> 61) pre"
proof (induction bs rule: urlsafe_b64encode.induct)
  case (2 a)
  show ?case
    by (rule exI [of _ "[b64_char (unat a div 4), b64_char (unat a mod 4 * 16)]"], rule exI [of _ 2])
       (simp add: b64_char_facts numeral_2_eq_2 del: b64_char.simps)
next
  case (3 a b)
  show ?case
    by (rule exI [of _ "[b64_char (unat a div 4), b64_char (unat a mod 4 * 16 + unat b div 16), b64_char (unat b mod 16 * 4)]"],
        rule exI [of _ 1]) (simp add: b64_char_facts del: b64_char.simps)
next
  case (4 a b c r)
  then obtain pre k where "urlsafe_b64encode r = pre @ replicate k 61 \<and> k \<le> 2 \<and> list_all (\<lambda>c. c \<noteq> 61) pre" by blast
  then show ?case
    by (intro exI [of _ "b64_char (unat a div 4) # b64_char (unat a mod 4 * 16 + unat b div 16) #
        b64_char (unat b mod 16 * 4 + unat c div 64) # b64_char (unat c mod 64) # pre"] exI [of _ k])
       (simp add: b64_char_facts del: b64_char.simps)
qed (auto intro: exI [of _ 0])

lemma strip_pad:
  assumes "list_all (\<lambda>c. c \<noteq> 61) pre"
  shows "rev (dropWhile (\<lambda>c. c = 61) (rev (pre @ replicate k 61))) = pre"
proof -
  have "dropWhile (\<lambda>c. c = 61) (replicate k 61 @ rev pre) = dropWhile (\<lambda>c. c = 61) (rev pre)"
    by (induction k) simp_all
  also have "\<dots> = rev pre" using assms by (cases "rev pre") (auto simp: list_all_iff)
  finally show ?thesis by simp
qed

lemma b64_roundtrip: "b64dec (b64enc bs) = Inr bs"
proof -
  obtain pre k where s: "urlsafe_b64encode bs = pre @ replicate k 61" "k \<le> 2" "list_all (\<lambda>c. c \<noteq> 61) pre"
    using urlsafe_b64encode_split by blast
  have e: "b64enc bs = pre" unfolding b64enc_def s(1) by (rule strip_pad [OF s(3)])
  have "(length pre + k) mod 4 = 0" using urlsafe_b64encode_length [of bs] s(1) by simp
  then have "(- int (length pre)) mod 4 = int k" using s(2) by presburger
  then have "b64_pad pre = k" by (simp add: b64_pad_def)
  then have "b64dec pre = urlsafe_b64decode (urlsafe_b64encode bs)" by (simp add: b64dec_def s(1))
  then show ?thesis by (simp add: e urlsafe_b64decode_def urlsafe_b64encode_ascii a2b_urlsafe)
qed

section \<open>Key files\<close>

definition hex_value :: "nat \<Rightarrow> nat option" where
  "hex_value c =
     (if 48 \<le> c \<and> c \<le> 57 then Some (c - 48)
      else if 97 \<le> c \<and> c \<le> 102 then Some (c - 87)
      else if 65 \<le> c \<and> c \<le> 70 then Some (c - 55)
      else None)"

definition ascii_space :: "nat \<Rightarrow> bool" where
  "ascii_space c \<longleftrightarrow> c \<in> {9, 10, 11, 12, 13, 32}"

text \<open>\<open>bytes.fromhex\<close> skips white space between octets.\<close>

fun fromhex :: "pystr \<Rightarrow> bytes result" where
  "fromhex [] = Inr []"
| "fromhex [c] = (if ascii_space c then Inr [] else Inl (PyExn ValueError))"
| "fromhex (c # d # r) =
     (if ascii_space c then fromhex (d # r)
      else (case (hex_value c, hex_value d) of
              (Some a, Some b) \<Rightarrow> bindR (fromhex r) (\<lambda>bs. Inr (b8 (a * 16 + b) # bs))
            | _ \<Rightarrow> Inl (PyExn ValueError)))"

text \<open>\<open>str.isspace\<close> and \<open>str.strip\<close>.\<close>

definition str_space :: "nat \<Rightarrow> bool" where
  "str_space c \<longleftrightarrow> ascii_space c \<or> (28 \<le> c \<and> c \<le> 31) \<or> (0x2000 \<le> c \<and> c \<le> 0x200A) \<or>
     c \<in> {0x85, 0xA0, 0x1680, 0x2028, 0x2029, 0x202F, 0x205F, 0x3000}"

definition str_strip :: "pystr \<Rightarrow> pystr" where
  "str_strip s = rev (dropWhile str_space (rev (dropWhile str_space s)))"

text \<open>The seed of the key stored in a file with this content.\<close>

definition load_signing_key :: "pystr \<Rightarrow> bytes result" where
  "load_signing_key text =
     bindR (fromhex (str_strip text)) (\<lambda>seed.
       if length seed \<noteq> 32 then Inl (PyExn ValueError) else Inr seed)"

section \<open>Writing JSON\<close>

fun hex_digit :: "nat \<Rightarrow> nat" where
  "hex_digit d = (if d < 10 then 48 + d else 87 + d)"

definition u_escape :: "nat \<Rightarrow> pystr" where
  "u_escape n = [92, 117, hex_digit (n div 4096 mod 16), hex_digit (n div 256 mod 16),
     hex_digit (n div 16 mod 16), hex_digit (n mod 16)]"

text \<open>The ASCII-only escapes of \<open>json.dumps\<close>.\<close>

definition json_escape :: "nat \<Rightarrow> pystr" where
  "json_escape c =
     (if c = 34 then [92, 34] else if c = 92 then [92, 92] else if c = 10 then [92, 110]
      else if c = 13 then [92, 114] else if c = 9 then [92, 116] else if c = 12 then [92, 102]
      else if c = 8 then [92, 98]
      else if 32 \<le> c \<and> c \<le> 126 then [c]
      else if c < 0x10000 then u_escape c
      else u_escape (0xD800 + (c - 0x10000) div 1024) @ u_escape (0xDC00 + (c - 0x10000) mod 1024))"

definition json_str :: "pystr \<Rightarrow> pystr" where
  "json_str s = 34 # concat (map json_escape s) @ [34]"

fun json_members :: "(pystr \<times> pystr) list \<Rightarrow> pystr" where
  "json_members [] = []"
| "json_members [(k, v)] = json_str k @ 58 # json_str v"
| "json_members ((k, v) # r) = json_str k @ 58 # json_str v @ 44 # json_members r"

text \<open>\<open>json.dumps(obj, separators=(",", ":"))\<close> of an object whose values are strings.\<close>

definition dumps :: "(pystr \<times> pystr) list \<Rightarrow> pystr" where
  "dumps kvs = 123 # json_members kvs @ [125]"

section \<open>Reading JSON\<close>

datatype json = JNull | JBool bool | JNum pystr | JStr pystr | JArr "json list" | JObj "(pystr \<times> json) list"

fun hex4 :: "pystr \<Rightarrow> (nat \<times> pystr) option" where
  "hex4 (a # b # c # d # r) =
     (case (hex_value a, hex_value b, hex_value c, hex_value d) of
        (Some w, Some x, Some y, Some z) \<Rightarrow> Some (w * 4096 + x * 256 + y * 16 + z, r)
      | _ \<Rightarrow> None)"
| "hex4 _ = None"

definition simple_escape :: "nat \<Rightarrow> nat option" where
  "simple_escape e =
     (if e = 34 \<or> e = 92 \<or> e = 47 then Some e
      else if e = 98 then Some 8 else if e = 102 then Some 12 else if e = 110 then Some 10
      else if e = 114 then Some 13 else if e = 116 then Some 9 else None)"

text \<open>A low surrogate escape at the front of the input.\<close>

definition low_surrogate :: "pystr \<Rightarrow> (nat \<times> pystr) option" where
  "low_surrogate s =
     (case s of
        b # u # r \<Rightarrow>
          if b = 92 \<and> u = 117 then
            (case hex4 r of
               Some (n, r') \<Rightarrow> if 0xDC00 \<le> n \<and> n \<le> 0xDFFF then Some (n, r') else None
             | None \<Rightarrow> None)
          else None
      | _ \<Rightarrow> None)"

lemma hex4_shorter: "hex4 s = Some (n, r) \<Longrightarrow> length r + 4 = length s"
  by (induction s rule: hex4.induct) (auto split: option.splits)

lemma low_surrogate_shorter: "low_surrogate s = Some (n, r) \<Longrightarrow> length r < length s"
  by (auto simp: low_surrogate_def split: list.splits option.splits if_splits dest!: hex4_shorter)

text \<open>The rest of a string literal after its opening quote (strict mode).\<close>

function scanstring :: "pystr \<Rightarrow> (pystr \<times> pystr) option" where
  "scanstring [] = None"
| "scanstring (c # r) =
     (if c = 34 then Some ([], r)
      else if c = 92 then
        (case r of
           [] \<Rightarrow> None
         | e # r1 \<Rightarrow>
             if e = 117 then
               (case hex4 r1 of
                  None \<Rightarrow> None
                | Some (n, r2) \<Rightarrow>
                    if 0xD800 \<le> n \<and> n \<le> 0xDBFF then
                      (case low_surrogate r2 of
                         Some (l, r3) \<Rightarrow> map_option (apfst (Cons (0x10000 + (n - 0xD800) * 1024 + (l - 0xDC00)))) (scanstring r3)
                       | None \<Rightarrow> map_option (apfst (Cons n)) (scanstring r2))
                    else map_option (apfst (Cons n)) (scanstring r2))
             else (case simple_escape e of
                     None \<Rightarrow> None
                   | Some x \<Rightarrow> map_option (apfst (Cons x)) (scanstring r1)))
      else if c < 32 then None
      else map_option (apfst (Cons c)) (scanstring r))"
  by pat_completeness auto
termination
  by (relation "measure length") (auto dest!: hex4_shorter low_surrogate_shorter)

declare scanstring.simps [simp del]

definition skip_ws :: "pystr \<Rightarrow> pystr" where
  "skip_ws s = dropWhile (\<lambda>c. c \<in> {32, 9, 10, 13}) s"

definition is_digit :: "nat \<Rightarrow> bool" where
  "is_digit c \<longleftrightarrow> 48 \<le> c \<and> c \<le> 57"

text \<open>Sign and integer part, then an optional fraction and exponent; each part needs a digit.\<close>

definition int_part :: "pystr \<Rightarrow> (pystr \<times> pystr) option" where
  "int_part s =
     (let (sign, t) = (case s of c # r \<Rightarrow> if c = 45 then ([45], r) else ([], s) | [] \<Rightarrow> ([], s))
      in case t of
           [] \<Rightarrow> None
         | c # r \<Rightarrow>
             if c = 48 then Some (sign @ [48], r)
             else if is_digit c then Some (sign @ takeWhile is_digit t, dropWhile is_digit t)
             else None)"

definition frac_part :: "pystr \<Rightarrow> pystr \<times> pystr" where
  "frac_part s =
     (case s of
        c # d # r \<Rightarrow> if c = 46 \<and> is_digit d then (c # takeWhile is_digit (d # r), dropWhile is_digit (d # r)) else ([], s)
      | _ \<Rightarrow> ([], s))"

definition exp_part :: "pystr \<Rightarrow> pystr \<times> pystr" where
  "exp_part s =
     (case s of
        e # d # r \<Rightarrow>
          if e \<in> {69, 101} \<and> is_digit d then (e # takeWhile is_digit (d # r), dropWhile is_digit (d # r))
          else (case r of
                  d' # r' \<Rightarrow>
                    if e \<in> {69, 101} \<and> d \<in> {43, 45} \<and> is_digit d'
                    then (e # d # takeWhile is_digit r, dropWhile is_digit r) else ([], s)
                | [] \<Rightarrow> ([], s))
      | _ \<Rightarrow> ([], s))"

definition match_number :: "pystr \<Rightarrow> (pystr \<times> pystr) option" where
  "match_number s =
     (case int_part s of
        None \<Rightarrow> None
      | Some (i, r) \<Rightarrow>
          (let (f, r1) = frac_part r; (x, r2) = exp_part r1 in Some (i @ f @ x, r2)))"

definition strip_prefix :: "pystr \<Rightarrow> pystr \<Rightarrow> pystr option" where
  "strip_prefix p s = (if take (length p) s = p then Some (drop (length p) s) else None)"

definition json_constants :: "(pystr \<times> json) list" where
  "json_constants =
     [(lit ''null'', JNull), (lit ''true'', JBool True), (lit ''false'', JBool False),
      (lit ''NaN'', JNum (lit ''NaN'')), (lit ''Infinity'', JNum (lit ''Infinity'')),
      (lit ''-Infinity'', JNum (lit ''-Infinity''))]"

fun first_const :: "(pystr \<times> json) list \<Rightarrow> pystr \<Rightarrow> (json \<times> pystr) option" where
  "first_const [] s = None"
| "first_const ((p, v) # cs) s = (case strip_prefix p s of Some r \<Rightarrow> Some (v, r) | None \<Rightarrow> first_const cs s)"

text \<open>
  The scanner. The first argument bounds the nesting and the number of elements; the length
  of the input is always enough (\<open>loads_bound_enough\<close> below).
\<close>

fun scan_once :: "nat \<Rightarrow> pystr \<Rightarrow> (json \<times> pystr) option"
  and scan_members :: "nat \<Rightarrow> pystr \<Rightarrow> ((pystr \<times> json) list \<times> pystr) option"
  and scan_items :: "nat \<Rightarrow> pystr \<Rightarrow> (json list \<times> pystr) option"
where
  "scan_once 0 s = None"
| "scan_once (Suc n) s =
     (case s of
        [] \<Rightarrow> None
      | c # r \<Rightarrow>
          if c = 34 then map_option (apfst JStr) (scanstring r)
          else if c = 123 then
            (case skip_ws r of
               [] \<Rightarrow> None
             | d # r' \<Rightarrow> if d = 125 then Some (JObj [], r') else map_option (apfst JObj) (scan_members n (d # r')))
          else if c = 91 then
            (case skip_ws r of
               [] \<Rightarrow> None
             | d # r' \<Rightarrow> if d = 93 then Some (JArr [], r') else map_option (apfst JArr) (scan_items n (d # r')))
          else (case first_const json_constants s of
                  Some x \<Rightarrow> Some x
                | None \<Rightarrow> map_option (apfst JNum) (match_number s)))"
| "scan_members 0 s = None"
| "scan_members (Suc n) s =
     (case s of
        [] \<Rightarrow> None
      | c # r \<Rightarrow>
          if c \<noteq> 34 then None
          else (case scanstring r of
                  None \<Rightarrow> None
                | Some (k, r1) \<Rightarrow>
                    (case skip_ws r1 of
                       [] \<Rightarrow> None
                     | d # r2 \<Rightarrow>
                         if d \<noteq> 58 then None
                         else (case scan_once n (skip_ws r2) of
                                 None \<Rightarrow> None
                               | Some (v, r3) \<Rightarrow>
                                   (case skip_ws r3 of
                                      [] \<Rightarrow> None
                                    | e # r4 \<Rightarrow>
                                        if e = 125 then Some ([(k, v)], r4)
                                        else if e = 44 then map_option (apfst (Cons (k, v))) (scan_members n (skip_ws r4))
                                        else None)))))"
| "scan_items 0 s = None"
| "scan_items (Suc n) s =
     (case scan_once n s of
        None \<Rightarrow> None
      | Some (v, r) \<Rightarrow>
          (case skip_ws r of
             [] \<Rightarrow> None
           | e # r1 \<Rightarrow>
               if e = 93 then Some ([v], r1)
               else if e = 44 then map_option (apfst (Cons v)) (scan_items n (skip_ws r1))
               else None))"

definition loads :: "pystr \<Rightarrow> json result" where
  "loads s =
     (case scan_once (Suc (length s)) (skip_ws s) of
        Some (v, r) \<Rightarrow> if skip_ws r = [] then Inr v else Inl (PyExn ValueError)
      | None \<Rightarrow> Inl (PyExn ValueError))"

text \<open>A later duplicate of a key wins, as in the Python dictionary.\<close>

definition obj_get :: "(pystr \<times> json) list \<Rightarrow> pystr \<Rightarrow> json option" where
  "obj_get kvs k = map_of (rev kvs) k"

section \<open>Reading back what was written\<close>

lemma skip_ws_Cons [simp]: "skip_ws (c # r) = (if c \<in> {32, 9, 10, 13} then skip_ws r else c # r)"
  by (simp add: skip_ws_def)

lemma skip_ws_Nil [simp]: "skip_ws [] = []"
  by (simp add: skip_ws_def)

lemma hex_value_digit: "d < 16 \<Longrightarrow> hex_value (hex_digit d) = Some d"
  by (auto simp: hex_value_def)

lemma hex4_u_escape:
  assumes "n < 65536"
  shows "hex4 (drop 2 (u_escape n) @ r) = Some (n, r)"
proof -
  have lt: "n div 4096 < 16" using assms by (simp add: less_mult_imp_div_less)
  then have a: "n div 4096 mod 16 = n div 4096" by simp
  have b: "n div 256 = n div 4096 * 16 + n div 256 mod 16"
    using div_mult_mod_eq [of "n div 256" 16] by (simp add: div_mult2_eq [symmetric])
  have c: "n div 16 = n div 256 * 16 + n div 16 mod 16"
    using div_mult_mod_eq [of "n div 16" 16] by (simp add: div_mult2_eq [symmetric])
  have d: "n = n div 16 * 16 + n mod 16" by simp
  have "n div 4096 * 4096 + n div 256 mod 16 * 256 + n div 16 mod 16 * 16 + n mod 16 = n"
    using a b c d by linarith
  with a lt show ?thesis by (simp add: u_escape_def hex_value_digit del: hex_digit.simps)
qed

lemma u_escape_split: "u_escape n = 92 # 117 # drop 2 (u_escape n)"
  by (simp add: u_escape_def)

lemma scan_u_escape:
  assumes "n < 65536" "\<not> (0xD800 \<le> n \<and> n \<le> 0xDBFF)"
  shows "scanstring (u_escape n @ r) = map_option (apfst (Cons n)) (scanstring r)"
proof -
  have "scanstring (u_escape n @ r) = scanstring (92 # 117 # (drop 2 (u_escape n) @ r))"
    by (metis append_Cons u_escape_split)
  also have "\<dots> = map_option (apfst (Cons n)) (scanstring r)"
    using assms by (subst scanstring.simps) (auto simp: hex4_u_escape)
  finally show ?thesis .
qed

lemma scan_surrogates:
  assumes "0x10000 \<le> c" "c < 0x110000"
  shows "scanstring (u_escape (0xD800 + (c - 0x10000) div 1024) @ u_escape (0xDC00 + (c - 0x10000) mod 1024) @ r) =
    map_option (apfst (Cons c)) (scanstring r)"
proof -
  let ?h = "0xD800 + (c - 0x10000) div 1024" and ?l = "0xDC00 + (c - 0x10000) mod 1024"
  have d: "(c - 0x10000) div 1024 < 1024" "(c - 0x10000) mod 1024 < 1024"
    using assms by (simp_all add: less_mult_imp_div_less)
  then have b: "?h < 65536" "0xD800 \<le> ?h" "?h \<le> 0xDBFF" "?l < 65536" "0xDC00 \<le> ?l" "?l \<le> 0xDFFF"
    by linarith+
  have c: "0x10000 + (?h - 0xD800) * 1024 + (?l - 0xDC00) = c" using assms by simp
  have "low_surrogate (u_escape ?l @ r) = low_surrogate (92 # 117 # (drop 2 (u_escape ?l) @ r))"
    by (metis append_Cons u_escape_split)
  also have "\<dots> = Some (?l, r)" using b(4-6) by (simp add: low_surrogate_def hex4_u_escape)
  finally have l: "low_surrogate (u_escape ?l @ r) = Some (?l, r)" .
  have "scanstring (u_escape ?h @ u_escape ?l @ r) = scanstring (92 # 117 # (drop 2 (u_escape ?h) @ u_escape ?l @ r))"
    by (metis append_Cons u_escape_split)
  also have "\<dots> = map_option (apfst (Cons (0x10000 + (?h - 0xD800) * 1024 + (?l - 0xDC00)))) (scanstring r)"
    by (subst scanstring.simps) (simp add: hex4_u_escape [OF b(1)] l b(2,3))
  finally show ?thesis unfolding c .
qed

lemma scan_json_escape:
  assumes "scalar c"
  shows "scanstring (json_escape c @ r) = map_option (apfst (Cons c)) (scanstring r)"
proof -
  consider "c \<in> {34, 92, 10, 13, 9, 12, 8}" | "c \<notin> {34, 92, 10, 13, 9, 12, 8}" "32 \<le> c" "c \<le> 126"
    | "c \<notin> {34, 92, 10, 13, 9, 12, 8}" "\<not> (32 \<le> c \<and> c \<le> 126)" "c < 0x10000" | "0x10000 \<le> c" by linarith
  then show ?thesis
  proof cases
    case 1
    then show ?thesis by (auto simp: json_escape_def simple_escape_def scanstring.simps)
  next
    case 2
    then show ?thesis by (auto simp: json_escape_def scanstring.simps)
  next
    case 3
    then have "json_escape c = u_escape c" by (auto simp: json_escape_def)
    with 3 assms show ?thesis by (auto simp: scalar_def intro: scan_u_escape)
  next
    case 4
    with assms have "c < 0x110000" by (auto simp: scalar_def)
    with 4 scan_surrogates [OF 4 this, of r] show ?thesis by (simp add: json_escape_def)
  qed
qed

lemma scan_json_str:
  "list_all scalar s \<Longrightarrow> scanstring (concat (map json_escape s) @ 34 # r) = Some (s, r)"
  by (induction s) (simp_all add: scan_json_escape scanstring.simps(2) [of 34])

lemma scan_once_str: "list_all scalar v \<Longrightarrow> scan_once (Suc n) (json_str v @ r) = Some (JStr v, r)"
  by (simp add: json_str_def scan_json_str)

lemma json_str_head: "\<exists>t. json_str v @ r = 34 # t"
  by (simp add: json_str_def)

declare scan_once.simps [simp del] scan_members.simps [simp del] scan_items.simps [simp del]

text \<open>One member and what follows it.\<close>

lemma scan_member_step:
  assumes "list_all scalar k" "list_all scalar v" "e \<noteq> 32 \<and> e \<noteq> 9 \<and> e \<noteq> 10 \<and> e \<noteq> 13"
  shows "scan_members (Suc (Suc n)) (json_str k @ 58 # json_str v @ e # r) =
    (if e = 125 then Some ([(k, JStr v)], r)
     else if e = 44 then map_option (apfst (Cons (k, JStr v))) (scan_members (Suc n) (skip_ws r))
     else None)"
proof -
  have k: "json_str k @ 58 # json_str v @ e # r = 34 # concat (map json_escape k) @ 34 # 58 # json_str v @ e # r"
    by (simp add: json_str_def)
  have w: "skip_ws (json_str v @ e # r) = json_str v @ e # r" by (simp add: json_str_def)
  show ?thesis unfolding k
    using assms by (subst scan_members.simps) (simp add: scan_json_str w scan_once_str)
qed

lemma scan_members_written:
  assumes "kvs \<noteq> []" "length kvs < n" "\<forall>(k, v) \<in> set kvs. list_all scalar k \<and> list_all scalar v"
  shows "scan_members n (json_members kvs @ 125 # r) = Some (map (apsnd JStr) kvs, r)"
  using assms
proof (induction kvs arbitrary: n rule: json_members.induct)
  case 1
  then show ?case by simp
next
  case (2 k v)
  then obtain n' where "n = Suc (Suc n')" by (cases n; cases "n - 1") auto
  with 2 show ?case by (simp add: scan_member_step)
next
  case (3 k v kv kvs)
  then obtain n' where n: "n = Suc (Suc n')" "length (kv # kvs) < Suc n'" by (cases n; cases "n - 1") auto
  have "scan_members (Suc n') (json_members (kv # kvs) @ 125 # r) = Some (map (apsnd JStr) (kv # kvs), r)"
    using 3 n(2) by simp
  moreover have "skip_ws (json_members (kv # kvs) @ 125 # r) = json_members (kv # kvs) @ 125 # r"
    by (cases kv; cases kvs) (auto simp: json_str_def)
  ultimately show ?case using 3(4) n(1) by (simp add: scan_member_step)
qed

lemma loads_dumps:
  assumes "kvs \<noteq> []" "\<forall>(k, v) \<in> set kvs. list_all scalar k \<and> list_all scalar v"
  shows "loads (dumps kvs) = Inr (JObj (map (apsnd JStr) kvs))"
proof -
  have l: "length kvs \<le> length (json_members kvs)" for kvs
    by (induction kvs rule: json_members.induct) (simp_all add: json_str_def)
  obtain rest where m: "json_members kvs = 34 # rest"
    using assms(1) by (cases kvs; cases "hd kvs"; cases "tl kvs") (auto simp: json_str_def)
  have "scan_members (Suc (Suc (length (json_members kvs)))) (json_members kvs @ [125]) = Some (map (apsnd JStr) kvs, [])"
    using assms l [of kvs] by (intro scan_members_written) auto
  then show ?thesis by (simp add: loads_def dumps_def m scan_once.simps(2))
qed

section \<open>Messages\<close>

text \<open>
  \<open>json.dumps(...).encode("utf-8")\<close>: the text is ASCII, so encoding cannot fail
  (\<open>encode_json_ok\<close> below).
\<close>

definition encode_json :: "(pystr \<times> pystr) list \<Rightarrow> bytes" where
  "encode_json kvs = (case str_encode (dumps kvs) of Inr bs \<Rightarrow> bs | Inl e \<Rightarrow> [])"

definition loads_bytes :: "bytes \<Rightarrow> json result" where
  "loads_bytes data = bindR (bytes_decode data) loads"

text \<open>
  The common shape of \<open>from_json\<close>: \<open>obj.get("type")\<close> exists for a dictionary only, a wrong
  tag is a \<open>ValueError\<close>, a missing field a \<open>KeyError\<close>.
\<close>

definition tagged_fields :: "string \<Rightarrow> string list \<Rightarrow> bytes \<Rightarrow> json list result" where
  "tagged_fields tag keys data =
     bindR (loads_bytes data) (\<lambda>v.
       case v of
         JObj kvs \<Rightarrow>
           if obj_get kvs (lit ''type'') \<noteq> Some (JStr (lit tag)) then Inl (PyExn ValueError)
           else eachR (\<lambda>k. case obj_get kvs (lit k) of None \<Rightarrow> Inl (PyExn KeyError) | Some x \<Rightarrow> Inr x) keys
       | _ \<Rightarrow> Inl (PyExn AttributeError))"

text \<open>
  The dataclasses do not check their fields: a received message holds arbitrary JSON values
  where a message built by the program holds strings.
\<close>

record 'a HandshakeClientHello =
  client_ephem_pub_b64 :: 'a
  client_challenge_b64 :: 'a

record 'a HandshakeServerAuth =
  server_ephem_pub_b64 :: 'a
  server_challenge_b64 :: 'a
  auth_signature_b64 :: 'a

record 'a HandshakeClientConfirm =
  confirm_signature_b64 :: 'a

record 'a ErrorResponse =
  reason :: 'a

record 'a SubscribeRequest =
  topic :: 'a

record 'a SubscribeResponse =
  pair_addr :: 'a
  connection_token_b64 :: 'a

definition ClientHello_to_json :: "pystr HandshakeClientHello \<Rightarrow> bytes" where
  "ClientHello_to_json m =
     encode_json [(lit ''type'', lit ''handshake_client_hello''),
       (lit ''client_ephem_pub'', client_ephem_pub_b64 m), (lit ''client_challenge'', client_challenge_b64 m)]"

definition ClientHello_from_json :: "bytes \<Rightarrow> json HandshakeClientHello result" where
  "ClientHello_from_json data =
     bindR (tagged_fields ''handshake_client_hello'' [''client_ephem_pub'', ''client_challenge''] data)
       (\<lambda>fs. Inr \<lparr>client_ephem_pub_b64 = fs ! 0, client_challenge_b64 = fs ! 1\<rparr>)"

definition ServerAuth_to_json :: "pystr HandshakeServerAuth \<Rightarrow> bytes" where
  "ServerAuth_to_json m =
     encode_json [(lit ''type'', lit ''handshake_server_auth''),
       (lit ''server_ephem_pub'', server_ephem_pub_b64 m), (lit ''server_challenge'', server_challenge_b64 m),
       (lit ''signature'', auth_signature_b64 m)]"

definition ServerAuth_from_json :: "bytes \<Rightarrow> json HandshakeServerAuth result" where
  "ServerAuth_from_json data =
     bindR (tagged_fields ''handshake_server_auth'' [''server_ephem_pub'', ''server_challenge'', ''signature''] data)
       (\<lambda>fs. Inr \<lparr>server_ephem_pub_b64 = fs ! 0, server_challenge_b64 = fs ! 1, auth_signature_b64 = fs ! 2\<rparr>)"

definition ClientConfirm_to_json :: "pystr HandshakeClientConfirm \<Rightarrow> bytes" where
  "ClientConfirm_to_json m =
     encode_json [(lit ''type'', lit ''handshake_client_confirm''), (lit ''signature'', confirm_signature_b64 m)]"

definition ClientConfirm_from_json :: "bytes \<Rightarrow> json HandshakeClientConfirm result" where
  "ClientConfirm_from_json data =
     bindR (tagged_fields ''handshake_client_confirm'' [''signature''] data)
       (\<lambda>fs. Inr \<lparr>confirm_signature_b64 = fs ! 0\<rparr>)"

definition ErrorResponse_to_json :: "pystr ErrorResponse \<Rightarrow> bytes" where
  "ErrorResponse_to_json m = encode_json [(lit ''type'', lit ''error''), (lit ''reason'', reason m)]"

text \<open>This one checks no tag and has a default.\<close>

definition ErrorResponse_from_json :: "bytes \<Rightarrow> json ErrorResponse result" where
  "ErrorResponse_from_json data =
     bindR (loads_bytes data) (\<lambda>v.
       case v of
         JObj kvs \<Rightarrow> Inr \<lparr>reason = (case obj_get kvs (lit ''reason'') of
                              None \<Rightarrow> JStr (lit ''unknown error'') | Some x \<Rightarrow> x)\<rparr>
       | _ \<Rightarrow> Inl (PyExn AttributeError))"

definition SubscribeRequest_to_json :: "pystr SubscribeRequest \<Rightarrow> bytes" where
  "SubscribeRequest_to_json m = encode_json [(lit ''type'', lit ''subscribe_request''), (lit ''topic'', topic m)]"

definition SubscribeRequest_from_json :: "bytes \<Rightarrow> json SubscribeRequest result" where
  "SubscribeRequest_from_json data =
     bindR (tagged_fields ''subscribe_request'' [''topic''] data) (\<lambda>fs. Inr \<lparr>topic = fs ! 0\<rparr>)"

definition SubscribeResponse_to_json :: "pystr SubscribeResponse \<Rightarrow> bytes" where
  "SubscribeResponse_to_json m =
     encode_json [(lit ''type'', lit ''subscribe_response''), (lit ''pair_addr'', pair_addr m),
       (lit ''connection_token'', connection_token_b64 m)]"

definition SubscribeResponse_from_json :: "bytes \<Rightarrow> json SubscribeResponse result" where
  "SubscribeResponse_from_json data =
     bindR (tagged_fields ''subscribe_response'' [''pair_addr'', ''connection_token''] data)
       (\<lambda>fs. Inr \<lparr>pair_addr = fs ! 0, connection_token_b64 = fs ! 1\<rparr>)"

definition SubscribeResponse_create :: "pystr \<Rightarrow> bytes \<Rightarrow> pystr SubscribeResponse" where
  "SubscribeResponse_create addr token = \<lparr>pair_addr = addr, connection_token_b64 = b64enc token\<rparr>"

section \<open>Addresses\<close>

function decimal :: "nat \<Rightarrow> pystr" where
  "decimal n = (if n < 10 then [48 + n] else decimal (n div 10) @ [48 + n mod 10])"
  by pat_completeness auto
termination by (relation "measure id") auto

declare decimal.simps [simp del]

text \<open>\<open>port\<close> is the one the operating system assigned, \<open>uid\<close> the first 8 digits of a UUID.\<close>

definition pick_pair_addr :: "pystr \<Rightarrow> nat \<Rightarrow> pystr \<Rightarrow> pystr result" where
  "pick_pair_addr transport port uid =
     (if transport = lit ''tcp'' then Inr (lit ''tcp://127.0.0.1:'' @ decimal port)
      else if transport = lit ''ipc'' then Inr (lit ''ipc:///tmp/nng-pair-'' @ uid @ lit ''.ipc'')
      else if transport = lit ''inproc'' then Inr (lit ''inproc://nng-pair-'' @ uid)
      else Inl (PyExn ValueError))"

section \<open>Properties\<close>

lemma u_escape_ascii: "list_all (\<lambda>x. x < 128) (u_escape n)"
proof -
  have "hex_digit (k mod 16) < 128" for k
    using mod_less_divisor [of 16 k] by (simp add: less_eq_Suc_le)
  then show ?thesis unfolding u_escape_def by simp
qed

lemma json_escape_ascii: "list_all (\<lambda>x. x < 128) (json_escape c)"
  using u_escape_ascii by (simp add: json_escape_def)

lemma encode_json_ok:
  assumes "\<forall>(k, v) \<in> set kvs. list_all scalar k \<and> list_all scalar v"
  shows "str_encode (dumps kvs) = Inr (encode_json kvs)"
proof -
  have e: "list_all scalar (concat (map json_escape s))" if "list_all scalar s" for s
    using that
  proof (induction s)
    case (Cons c s)
    with json_escape_ascii [of c] show ?case by (auto simp: list_all_iff scalar_def)
  qed simp
  have "list_all scalar (json_members kvs)" using assms
  proof (induction kvs rule: json_members.induct)
    case (3 k v a b)
    then show ?case using e [of k] e [of v] by (simp add: json_str_def) (simp add: scalar_def)
  qed (use e in \<open>auto simp: json_str_def, auto simp: scalar_def\<close>)
  then have "list_all scalar (dumps kvs)" by (simp add: dumps_def) (simp add: scalar_def)
  then show ?thesis by (simp add: encode_json_def str_encode_def)
qed

lemma loads_encoded:
  assumes "kvs \<noteq> []" "\<forall>(k, v) \<in> set kvs. list_all scalar k \<and> list_all scalar v"
  shows "loads_bytes (encode_json kvs) = Inr (JObj (map (apsnd JStr) kvs))"
  using str_roundtrip [OF encode_json_ok [OF assms(2)]] loads_dumps [OF assms]
  by (simp add: loads_bytes_def)

lemma scalar_lit [simp]: "list_all scalar (lit s)"
proof -
  have "(of_char c :: nat) < 0xD800" for c :: char
    using nat_of_char_less_256 [of c] by linarith
  then show ?thesis by (simp add: list_all_iff scalar_def)
qed

lemma lit_eq_iff [simp]: "(lit a :: pystr) = lit b \<longleftrightarrow> a = b"
  by (rule inj_map_eq_map) (rule inj_onI, simp)

lemma obj_get_distinct:
  assumes "distinct (map fst kvs)" "(k, v) \<in> set kvs"
  shows "obj_get kvs k = Some v"
  using assms by (simp add: obj_get_def map_of_eq_Some_iff rev_map [symmetric])

lemma tagged_fields_encoded:
  assumes "list_all scalar (lit tag)" "\<forall>(k, v) \<in> set kvs. list_all scalar v" "distinct (''type'' # map fst kvs)"
  shows "tagged_fields tag (map fst kvs) (encode_json ((lit ''type'', lit tag) # map (apfst lit) kvs)) =
    Inr (map (JStr \<circ> snd) kvs)"
proof -
  let ?obj = "map (apsnd JStr) ((lit ''type'', lit tag) # map (apfst lit) kvs)"
  have l: "loads_bytes (encode_json ((lit ''type'', lit tag) # map (apfst lit) kvs)) = Inr (JObj ?obj)"
    using assms(2) by (intro loads_encoded) (auto simp: scalar_def [of "numeral _"])
  have d: "distinct (map fst ?obj)"
  proof -
    have "map fst ?obj = map lit (''type'' # map fst kvs)" by (simp add: comp_def)
    moreover have "distinct (map lit (''type'' # map fst kvs))"
      using assms(3) unfolding distinct_map by (simp only: simp_thms inj_on_def lit_eq_iff) blast
    ultimately show ?thesis by (simp only:)
  qed
  have g: "obj_get ?obj k = Some v" if "(k, v) \<in> set ?obj" for k v
    by (rule obj_get_distinct [OF d that])
  have "obj_get ?obj (lit ''type'') = Some (JStr (lit tag))" by (rule g) simp
  moreover have "eachR (\<lambda>k. case obj_get ?obj (lit k) of None \<Rightarrow> Inl (PyExn KeyError) | Some x \<Rightarrow> Inr x) (map fst kvs) =
      Inr (map (JStr \<circ> snd) kvs)"
    unfolding eachR_Inr_iff
  proof (rule list_all2_all_nthI)
    fix i assume i: "i < length (map fst kvs)"
    have "(lit (fst (kvs ! i)), JStr (snd (kvs ! i))) \<in> set ?obj"
      using i nth_mem [of i kvs] by (force simp: image_iff)
    from g [OF this] i show "(case obj_get ?obj (lit (map fst kvs ! i)) of None \<Rightarrow> Inl (PyExn KeyError) | Some x \<Rightarrow> Inr x) =
        Inr (map (JStr \<circ> snd) kvs ! i)" by simp
  qed simp
  ultimately show ?thesis unfolding tagged_fields_def l bindR_Inr json.case by simp
qed

lemma tagged1:
  assumes "list_all scalar a" "k \<noteq> ''type''"
  shows "tagged_fields tag [k] (encode_json [(lit ''type'', lit tag), (lit k, a)]) = Inr [JStr a]"
  using assms tagged_fields_encoded [of tag "[(k, a)]"] by simp

lemma tagged2:
  assumes "list_all scalar a" "list_all scalar b" "distinct [''type'', j, k]"
  shows "tagged_fields tag [j, k] (encode_json [(lit ''type'', lit tag), (lit j, a), (lit k, b)]) = Inr [JStr a, JStr b]"
  using assms tagged_fields_encoded [of tag "[(j, a), (k, b)]"] by simp

lemma tagged3:
  assumes "list_all scalar a" "list_all scalar b" "list_all scalar c" "distinct [''type'', j, k, l]"
  shows "tagged_fields tag [j, k, l] (encode_json [(lit ''type'', lit tag), (lit j, a), (lit k, b), (lit l, c)]) =
    Inr [JStr a, JStr b, JStr c]"
  using assms tagged_fields_encoded [of tag "[(j, a), (k, b), (l, c)]"] by simp

lemma ClientHello_roundtrip:
  assumes "list_all scalar a" "list_all scalar b"
  shows "ClientHello_from_json (ClientHello_to_json \<lparr>client_ephem_pub_b64 = a, client_challenge_b64 = b\<rparr>) =
    Inr \<lparr>client_ephem_pub_b64 = JStr a, client_challenge_b64 = JStr b\<rparr>"
  unfolding ClientHello_from_json_def ClientHello_to_json_def HandshakeClientHello.simps
  by (subst tagged2) (simp_all add: assms)

lemma ServerAuth_roundtrip:
  assumes "list_all scalar a" "list_all scalar b" "list_all scalar c"
  shows "ServerAuth_from_json (ServerAuth_to_json \<lparr>server_ephem_pub_b64 = a, server_challenge_b64 = b, auth_signature_b64 = c\<rparr>) =
    Inr \<lparr>server_ephem_pub_b64 = JStr a, server_challenge_b64 = JStr b, auth_signature_b64 = JStr c\<rparr>"
  unfolding ServerAuth_from_json_def ServerAuth_to_json_def HandshakeServerAuth.simps
  by (subst tagged3) (simp_all add: assms numeral_2_eq_2)

lemma ClientConfirm_roundtrip:
  assumes "list_all scalar a"
  shows "ClientConfirm_from_json (ClientConfirm_to_json \<lparr>confirm_signature_b64 = a\<rparr>) = Inr \<lparr>confirm_signature_b64 = JStr a\<rparr>"
  unfolding ClientConfirm_from_json_def ClientConfirm_to_json_def HandshakeClientConfirm.simps
  by (subst tagged1) (simp_all add: assms)

lemma ErrorResponse_roundtrip:
  assumes "list_all scalar a"
  shows "ErrorResponse_from_json (ErrorResponse_to_json \<lparr>reason = a\<rparr>) = Inr \<lparr>reason = JStr a\<rparr>"
  unfolding ErrorResponse_from_json_def ErrorResponse_to_json_def ErrorResponse.simps
  by (subst loads_encoded) (use assms in \<open>auto simp: obj_get_def scalar_def [of "numeral _"]\<close>)

lemma SubscribeRequest_roundtrip:
  assumes "list_all scalar a"
  shows "SubscribeRequest_from_json (SubscribeRequest_to_json \<lparr>topic = a\<rparr>) = Inr \<lparr>topic = JStr a\<rparr>"
  unfolding SubscribeRequest_from_json_def SubscribeRequest_to_json_def SubscribeRequest.simps
  by (subst tagged1) (simp_all add: assms)

lemma SubscribeResponse_roundtrip:
  assumes "list_all scalar a" "list_all scalar b"
  shows "SubscribeResponse_from_json (SubscribeResponse_to_json \<lparr>pair_addr = a, connection_token_b64 = b\<rparr>) =
    Inr \<lparr>pair_addr = JStr a, connection_token_b64 = JStr b\<rparr>"
  unfolding SubscribeResponse_from_json_def SubscribeResponse_to_json_def SubscribeResponse.simps
  by (subst tagged2) (simp_all add: assms)

lemmas message_roundtrips =
  ClientHello_roundtrip ServerAuth_roundtrip ClientConfirm_roundtrip ErrorResponse_roundtrip
  SubscribeRequest_roundtrip SubscribeResponse_roundtrip



section \<open>The bound of the scanner\<close>

lemma skip_ws_le: "length (skip_ws s) \<le> length s"
  by (simp add: skip_ws_def length_dropWhile_le)

lemma skip_ws_shorter: "skip_ws s = c # r \<Longrightarrow> length r < length s"
  using skip_ws_le [of s] by simp

lemma map_apfst_Some: "map_option (apfst f) z = Some (x, r) \<longleftrightarrow> (\<exists>y. z = Some (y, r) \<and> x = f y)"
  by (cases z) auto

lemma scanstring_shorter: "scanstring s = Some (x, r) \<Longrightarrow> length r < length s"
proof (induction "length s" arbitrary: s x r rule: less_induct)
  case less
  show ?case
  proof (cases s)
    case (Cons c t)
    have IH: "scanstring u = Some (y, r) \<Longrightarrow> length u \<le> length t \<Longrightarrow> length r < length s" for u y
      using less.hyps [of u y r] Cons by simp
    from less.prems show ?thesis
      unfolding Cons scanstring.simps
      by (auto simp: map_apfst_Some split: if_splits list.splits option.splits
          dest!: hex4_shorter low_surrogate_shorter IH) (simp_all add: Cons)
  qed (use less.prems in \<open>simp add: scanstring.simps\<close>)
qed

lemma first_const_shorter: "first_const cs s = Some (v, r) \<Longrightarrow> [] \<notin> fst ` set cs \<Longrightarrow> length r < length s"
proof (induction cs)
  case (Cons a cs)
  have "take (length p) s = p \<Longrightarrow> p \<noteq> [] \<Longrightarrow> length (drop (length p) s) < length s" for p
    by (cases s) auto
  with Cons show ?case by (cases a) (auto simp: strip_prefix_def split: if_splits option.splits)
qed simp

lemma match_number_shorter: "match_number s = Some (x, r) \<Longrightarrow> length r < length s"
proof -
  assume "match_number s = Some (x, r)"
  then obtain i r0 where i: "int_part s = Some (i, r0)" and r: "r = snd (exp_part (snd (frac_part r0)))"
    by (auto simp: match_number_def split: option.splits prod.splits)
  have d: "length (dropWhile is_digit l) \<le> length l" for l by (rule length_dropWhile_le)
  have "length r0 < length s"
    using i d by (auto simp: int_part_def Let_def less_Suc_eq_le le_SucI split: list.splits if_splits)
  moreover have "length (snd (frac_part l)) \<le> length l" for l
    using d by (auto simp: frac_part_def le_SucI split: list.splits)
  moreover have "length (snd (exp_part l)) \<le> length l" for l
    using d by (auto simp: exp_part_def le_SucI split: list.splits)
  ultimately show ?thesis unfolding r by (meson le_less_trans)
qed

text \<open>A scan that succeeds consumed text, and gives the same with any bound of at least what it
  consumed.\<close>

definition settled :: "(nat \<Rightarrow> pystr \<Rightarrow> ('a \<times> pystr) option) \<Rightarrow> nat \<Rightarrow> bool" where
  "settled f m \<longleftrightarrow> (\<forall>s x r. f m s = Some (x, r) \<longrightarrow>
     length r < length s \<and> (\<forall>n \<ge> length s - length r. f n s = Some (x, r)))"

lemma settledD:
  assumes "settled f m" "f m s = Some (x, r)"
  shows "length r < length s" "length s - length r \<le> n \<Longrightarrow> f n s = Some (x, r)"
  using assms unfolding settled_def by blast+

lemma settled_items:
  assumes "settled scan_once m" "settled scan_items m"
  shows "settled scan_items (Suc m)"
  unfolding settled_def
proof (intro allI impI)
  fix s x r assume a: "scan_items (Suc m) s = Some (x, r)"
  then obtain v r0 e r1 where v: "scan_once m s = Some (v, r0)" and w: "skip_ws r0 = e # r1"
    and e: "e = 93 \<and> x = [v] \<and> r = r1 \<or>
      e \<noteq> 93 \<and> e = 44 \<and> (\<exists>y. scan_items m (skip_ws r1) = Some (y, r) \<and> x = v # y)"
    by (auto simp: scan_items.simps map_apfst_Some split: option.splits list.splits if_splits)
  note l = settledD(1) [OF assms(1) v] skip_ws_shorter [OF w] skip_ws_le [of r1]
  show "length r < length s \<and> (\<forall>n \<ge> length s - length r. scan_items n s = Some (x, r))"
  proof (cases "e = 93")
    case True
    have "scan_items n s = Some (x, r)" if "length s - length r \<le> n" for n
      using that settledD(2) [OF assms(1) v, of "n - 1"] l w e True by (cases n) (auto simp: scan_items.simps)
    with l e True show ?thesis by auto
  next
    case False
    with e obtain y where y: "scan_items m (skip_ws r1) = Some (y, r)" "x = v # y" by blast
    have "scan_items n s = Some (x, r)" if "length s - length r \<le> n" for n
      using that settledD(2) [OF assms(1) v, of "n - 1"] settledD(1) [OF assms(2) y(1)] settledD(2) [OF assms(2) y(1), of "n - 1"] l w e y(2) False
      by (cases n) (auto simp: scan_items.simps)
    with l settledD(1) [OF assms(2) y(1)] show ?thesis by auto
  qed
qed

lemma settled_members:
  assumes "settled scan_once m" "settled scan_members m"
  shows "settled scan_members (Suc m)"
  unfolding settled_def
proof (intro allI impI)
  fix s x r assume a: "scan_members (Suc m) s = Some (x, r)"
  then obtain t k r1 r2 v r3 e r4 where k: "s = 34 # t" "scanstring t = Some (k, r1)" "skip_ws r1 = 58 # r2"
    and v: "scan_once m (skip_ws r2) = Some (v, r3)" and w: "skip_ws r3 = e # r4"
    and e: "e = 125 \<and> x = [(k, v)] \<and> r = r4 \<or>
      e \<noteq> 125 \<and> e = 44 \<and> (\<exists>y. scan_members m (skip_ws r4) = Some (y, r) \<and> x = (k, v) # y)"
    by (auto simp: scan_members.simps map_apfst_Some split: option.splits list.splits if_splits)
  note l = settledD(1) [OF assms(1) v] skip_ws_shorter [OF w] skip_ws_le [of r2] skip_ws_le [of r4]
    scanstring_shorter [OF k(2)] skip_ws_shorter [OF k(3)]
  show "length r < length s \<and> (\<forall>n \<ge> length s - length r. scan_members n s = Some (x, r))"
  proof (cases "e = 125")
    case True
    have "scan_members n s = Some (x, r)" if "length s - length r \<le> n" for n
      using that settledD(2) [OF assms(1) v, of "n - 1"] l w e k True by (cases n) (auto simp: scan_members.simps)
    with l e True k show ?thesis by auto
  next
    case False
    with e obtain y where y: "scan_members m (skip_ws r4) = Some (y, r)" "x = (k, v) # y" by blast
    have "scan_members n s = Some (x, r)" if "length s - length r \<le> n" for n
      using that settledD(2) [OF assms(1) v, of "n - 1"] settledD(1) [OF assms(2) y(1)] settledD(2) [OF assms(2) y(1), of "n - 1"] l w e k y(2) False
      by (cases n) (auto simp: scan_members.simps)
    with l k settledD(1) [OF assms(2) y(1)] show ?thesis by auto
  qed
qed

text \<open>Objects and arrays: an opening bracket, then the closing one or the contents.\<close>

lemma settled_nested:
  assumes "settled f m" "g m s = Some (x, r)" and s: "s = c # t"
    and g: "\<And>n. g n s = (case skip_ws t of [] \<Rightarrow> None
      | d # u \<Rightarrow> if d = q then Some (z, u) else map_option (apfst h) (f n (d # u)))"
  shows "length r < length s \<and> (\<forall>n \<ge> length s - length r. g (n - 1) s = Some (x, r))"
proof -
  from assms(2) obtain d u where u: "skip_ws t = d # u" by (auto simp: g split: list.splits)
  note l = skip_ws_shorter [OF u]
  show ?thesis
  proof (cases "d = q")
    case True
    then have e: "g n s = Some (z, u)" for n using u by (simp add: g)
    with assms(2) l s show ?thesis by (simp add: e)
  next
    case False
    with assms(2) u obtain y where y: "f m (d # u) = Some (y, r)" "x = h y" by (auto simp: g map_apfst_Some)
    have e: "g k s = map_option (apfst h) (f k (d # u))" for k using u False by (simp add: g)
    have "g (n - 1) s = Some (x, r)" if "length s - length r \<le> n" for n
      using that settledD(1) [OF assms(1) y(1)] settledD(2) [OF assms(1) y(1), of "n - 1"] l s y(2)
      unfolding e by simp
    with l s settledD(1) [OF assms(1) y(1)] show ?thesis by auto
  qed
qed

lemma settled_once:
  assumes "settled scan_members m" "settled scan_items m"
  shows "settled scan_once (Suc m)"
  unfolding settled_def
proof (intro allI impI)
  fix s x r assume a: "scan_once (Suc m) s = Some (x, r)"
  then obtain c t where s: "s = c # t" by (cases s) (auto simp: scan_once.simps)
  have pos: "\<exists>k. n = Suc k" if "length s - length r \<le> n" "length r < length s" for n
    using that by (cases n) auto
  have "length r < length s \<and> (\<forall>n \<ge> length s - length r. scan_once (Suc (n - 1)) s = Some (x, r))"
  proof -
    consider "c = 34" | "c = 123" | "c = 91" | "c \<notin> {34, 123, 91}" by blast
    then show ?thesis
    proof cases
      case 1
      then have once: "scan_once (Suc n) s = map_option (apfst JStr) (scanstring t)" for n
        using s by (simp add: scan_once.simps)
      with a s have "length r < length s" by (auto simp: map_apfst_Some dest: scanstring_shorter)
      with a show ?thesis unfolding once by blast
    next
      case 2
      with a s show ?thesis
        by (intro settled_nested [where g = "\<lambda>n. scan_once (Suc n)", OF assms(1)]) (auto simp: scan_once.simps cong: list.case_cong)
    next
      case 3
      with a s show ?thesis
        by (intro settled_nested [where g = "\<lambda>n. scan_once (Suc n)", OF assms(2)]) (auto simp: scan_once.simps cong: list.case_cong)
    next
      case 4
      then have once: "scan_once (Suc n) s = (case first_const json_constants s of
          Some x \<Rightarrow> Some x | None \<Rightarrow> map_option (apfst JNum) (match_number s))" for n
        unfolding s by (simp add: scan_once.simps)
      have "[] \<notin> fst ` set json_constants" by (auto simp: json_constants_def)
      with a have "length r < length s" unfolding once
        by (auto simp: map_apfst_Some split: option.splits dest: first_const_shorter match_number_shorter)
      with a show ?thesis unfolding once by blast
    qed
  qed
  with pos show "length r < length s \<and> (\<forall>n \<ge> length s - length r. scan_once n s = Some (x, r))" by fastforce
qed

lemma scans_settled: "settled scan_once m \<and> settled scan_members m \<and> settled scan_items m"
proof (induction m)
  case 0
  then show ?case by (simp add: settled_def scan_once.simps scan_members.simps scan_items.simps)
next
  case (Suc m)
  then show ?case by (simp add: settled_once settled_members settled_items)
qed

text \<open>Whatever text some bound parses, \<open>loads\<close> parses, to the same value.\<close>

lemma loads_bound_enough:
  "loads s = Inr v \<longleftrightarrow> (\<exists>n r. scan_once n (skip_ws s) = Some (v, r) \<and> skip_ws r = [])"
proof
  assume "loads s = Inr v"
  then show "\<exists>n r. scan_once n (skip_ws s) = Some (v, r) \<and> skip_ws r = []"
    by (auto simp: loads_def split: option.splits prod.splits if_splits)
next
  assume "\<exists>n r. scan_once n (skip_ws s) = Some (v, r) \<and> skip_ws r = []"
  then obtain n r where n: "scan_once n (skip_ws s) = Some (v, r)" "skip_ws r = []" by blast
  have "settled scan_once n" using scans_settled by blast
  then have "scan_once (Suc (length s)) (skip_ws s) = Some (v, r)"
    using skip_ws_le [of s] settledD(2) [of scan_once n "skip_ws s" v r "Suc (length s)"] n(1) by auto
  with n(2) show "loads s = Inr v" by (simp add: loads_def)
qed

section \<open>What a parser accepts\<close>

text \<open>Which octets a message parser accepts and what it raises otherwise: it accepts exactly
  the JSON objects with the right tag and every field present. Undecodable or malformed text
  and a wrong or missing tag raise a \<open>ValueError\<close>, text that is not an object an
  \<open>AttributeError\<close>, and a missing field a \<open>KeyError\<close>.\<close>

theorem message_parser_outcomes:
  "case loads_bytes data of
     Inl e \<Rightarrow> tagged_fields tag keys data = Inl e \<and> isinstance e (BuiltinC ValueError)
   | Inr v \<Rightarrow>
       (if \<exists>kvs. v = JObj kvs \<and> obj_get kvs (lit ''type'') = Some (JStr (lit tag)) then
          (\<forall>fs. tagged_fields tag keys data = Inr fs \<longleftrightarrow>
             (\<exists>kvs. v = JObj kvs \<and> map (\<lambda>k. obj_get kvs (lit k)) keys = map Some fs)) \<and>
          (tagged_fields tag keys data = Inl (PyExn KeyError) \<or> (\<exists>fs. tagged_fields tag keys data = Inr fs))
        else tagged_fields tag keys data =
               Inl (PyExn (case v of JObj kvs \<Rightarrow> ValueError | _ \<Rightarrow> AttributeError)))"
proof (cases "loads_bytes data")
  case (Inl e)
  have "e = PyExn UnicodeError \<or> e = PyExn ValueError"
    using Inl by (auto simp: loads_bytes_def bytes_decode_def loads_def bindR_def
        split: option.splits sum.splits prod.splits if_splits)
  moreover have "isinstance (PyExn UnicodeError) (BuiltinC ValueError)" "isinstance (PyExn ValueError) (BuiltinC ValueError)"
    by code_simp+
  ultimately have "isinstance e (BuiltinC ValueError)" by auto
  with Inl show ?thesis by (simp add: tagged_fields_def)
next
  case (Inr v)
  have err: "eachR (\<lambda>k. case obj_get kvs (lit k) of None \<Rightarrow> Inl (PyExn KeyError) | Some x \<Rightarrow> Inr x) keys = Inl e \<Longrightarrow>
      e = PyExn KeyError" for kvs keys e
    by (induction keys) (auto simp: bindR_def split: option.splits sum.splits)
  have ok: "list_all2 (\<lambda>k x. (case obj_get kvs (lit k) of None \<Rightarrow> Inl (PyExn KeyError) | Some x \<Rightarrow> Inr x) = Inr x) keys fs \<longleftrightarrow>
      map (\<lambda>k. obj_get kvs (lit k)) keys = map Some fs" for kvs keys and fs :: "json list"
  proof (induction keys arbitrary: fs)
    case (Cons k keys)
    then show ?case by (cases fs) (auto split: option.splits)
  qed auto
  show ?thesis
  proof (cases "\<exists>kvs. v = JObj kvs \<and> obj_get kvs (lit ''type'') = Some (JStr (lit tag))")
    case True
    then obtain kvs where v: "v = JObj kvs" "obj_get kvs (lit ''type'') = Some (JStr (lit tag))" by blast
    then have t: "tagged_fields tag keys data =
        eachR (\<lambda>k. case obj_get kvs (lit k) of None \<Rightarrow> Inl (PyExn KeyError) | Some x \<Rightarrow> Inr x) keys"
      using Inr by (simp add: tagged_fields_def)
    have "\<And>fs. tagged_fields tag keys data = Inr fs \<longleftrightarrow> map (\<lambda>k. obj_get kvs (lit k)) keys = map Some fs"
      unfolding t eachR_Inr_iff ok ..
    moreover have "tagged_fields tag keys data = Inl (PyExn KeyError) \<or> (\<exists>fs. tagged_fields tag keys data = Inr fs)"
      using err [of kvs keys] by (cases "tagged_fields tag keys data") (auto simp: t)
    ultimately show ?thesis using v True by (simp add: Inr)
  next
    case False
    then show ?thesis using Inr by (cases v) (auto simp: tagged_fields_def)
  qed
qed

end
