(* ===== verification/Conversation.thy ===== *)
theory Conversation
  imports Utf8 "HOL-Library.Multiset"
begin

text \<open>
  The server that holds one conversation per client over a reply socket
  (\<^verbatim>\<open>examples/REP-REQ/conversation/server.py\<close>): the per-client manager with its inbox, current
  context and reply events, the dispatch tasks that receive on the contexts, and the table of
  clients. The event loop runs one step at a time, from one \<open>await\<close> to the next, so a run is a
  sequence of steps of \<open>rep_step\<close>. Pipes, contexts and events are numbered.
\<close>

section \<open>The manager of one client\<close>

datatype mgr_exn = Exn py_exn | QueueFull | QueueShutDown

text \<open>A message, the context it arrived on and the event that frees this context.\<close>

datatype item = Item bytes nat nat

record manager =
  m_pipe :: nat
  m_current :: "(nat \<times> nat) option"
  m_inbox :: "item option list"
  m_shut :: bool
  m_running :: bool

definition Manager_init :: "nat \<Rightarrow> manager" where
  "Manager_init p = \<lparr>m_pipe = p, m_current = None, m_inbox = [], m_shut = False, m_running = True\<rparr>"

text \<open>\<open>put_nowait\<close> on the \<open>asyncio.Queue(maxsize=2)\<close> of the manager.\<close>

definition put_nowait :: "item option \<Rightarrow> manager \<Rightarrow> mgr_exn + manager" where
  "put_nowait x m =
     (if m_shut m then Inl QueueShutDown
      else if 2 \<le> length (m_inbox m) then Inl QueueFull
      else Inr (m\<lparr>m_inbox := m_inbox m @ [x]\<rparr>))"

text \<open>The last component lists the events the operation sets.\<close>

definition dispatch :: "bytes \<Rightarrow> nat \<Rightarrow> nat \<Rightarrow> manager \<Rightarrow> (mgr_exn + unit) \<times> manager \<times> nat list" where
  "dispatch data ctx reply_event m =
     (if \<not> m_running m then (Inr (), m, [reply_event])
      else if m_inbox m \<noteq> [] \<or> m_current m \<noteq> None then (Inl (Exn (PyExn RuntimeError)), m, [reply_event])
      else (case put_nowait (Some (Item data ctx reply_event)) m of
              Inl e \<Rightarrow> (Inl e, m, [reply_event])
            | Inr m' \<Rightarrow> (Inr (), m', [])))"

definition disconnect :: "manager \<Rightarrow> (mgr_exn + unit) \<times> manager" where
  "disconnect m =
     (let m1 = m\<lparr>m_running := False\<rparr> in
      case put_nowait None m1 of
        Inl QueueShutDown \<Rightarrow> (Inr (), m1)
      | Inl e \<Rightarrow> (Inl e, m1)
      | Inr m2 \<Rightarrow> (Inr (), m2))"

text \<open>\<open>None\<close>: the inbox is empty and the caller keeps waiting.\<close>

definition mgr_arecv :: "manager \<Rightarrow> ((mgr_exn + bytes) \<times> manager) option" where
  "mgr_arecv m =
     (case m_inbox m of
        [] \<Rightarrow> None
      | None # r \<Rightarrow> Some (Inl (Exn (PyExn ConnectionResetError)), m\<lparr>m_inbox := r\<rparr>)
      | Some (Item data ctx reply_event) # r \<Rightarrow>
          Some (Inr data, m\<lparr>m_inbox := r, m_current := Some (ctx, reply_event)\<rparr>))"

text \<open>
  \<open>asend\<close> up to its \<open>await\<close>, and what follows it: \<open>sent\<close> is the result of the context's \<open>asend\<close>,
  and the event is set in every case.
\<close>

definition asend_begin :: "manager \<Rightarrow> (mgr_exn + (nat \<times> nat)) \<times> manager" where
  "asend_begin m =
     (case m_current m of
        None \<Rightarrow> (Inl (Exn (PyExn RuntimeError)), m)
      | Some c \<Rightarrow> (Inr c, m\<lparr>m_current := None\<rparr>))"

definition asend_end :: "unit result \<Rightarrow> nat \<Rightarrow> unit result \<times> nat list" where
  "asend_end outcome reply_event =
     ((case outcome of
         Inl e \<Rightarrow> if isinstance e (NngC NngError) then Inl (PyExn ConnectionResetError) else Inl e
       | Inr _ \<Rightarrow> Inr ()), [reply_event])"

fun drain_inbox :: "item option list \<Rightarrow> nat list" where
  "drain_inbox [] = []"
| "drain_inbox (None # r) = drain_inbox r"
| "drain_inbox (Some (Item data ctx reply_event) # r) = reply_event # drain_inbox r"

text \<open>The \<open>finally\<close> block of \<open>_execute\<close>; closing the pipe is left to the server state.\<close>

definition execute_finally :: "manager \<Rightarrow> manager \<times> nat list" where
  "execute_finally m =
     (m\<lparr>m_running := False, m_current := None, m_inbox := [], m_shut := True\<rparr>,
      (case m_current m of None \<Rightarrow> [] | Some (ctx, evt) \<Rightarrow> [evt]) @ drain_inbox (m_inbox m))"

text \<open>What \<open>_execute\<close> makes of the end of the conversation: a disconnect is no error.\<close>

definition execute_result :: "unit result \<Rightarrow> unit result" where
  "execute_result outcome =
     (case outcome of
        Inl e \<Rightarrow> if isinstance e (BuiltinC ConnectionResetError) then Inr () else Inl e
      | Inr _ \<Rightarrow> Inr ())"

section \<open>The server\<close>

text \<open>
  A conversation runs (or waits in \<open>arecv\<close>), waits for the context's \<open>asend\<close>, or has ended;
  after it ended the done callback still has to run.
\<close>

datatype phase = Talking | Sending nat nat | Finished | Reaped

text \<open>
  A dispatch task waits for a message, sends a reply of its own, waits for the event of the
  message of a pipe it dispatched, or has returned.
\<close>

datatype slot = Receiving nat | Replying nat "nat option" bytes | Waiting nat nat nat | Ended

text \<open>
  \<open>sv_peer\<close> is what the C library keeps of a context: the pipe its next reply goes to. Replies
  are logged with the pipe they go to and the client whose conversation sent them.
\<close>

record rep_server =
  sv_clients :: "nat \<rightharpoonup> nat"
  sv_convs :: "nat \<rightharpoonup> manager \<times> phase"
  sv_next_conv :: nat
  sv_slots :: "nat \<rightharpoonup> slot"
  sv_next_ctx :: nat
  sv_peer :: "nat \<rightharpoonup> nat"
  sv_released :: "nat set"
  sv_next_evt :: nat
  sv_closed_pipes :: "nat set"
  sv_replies :: "(nat option \<times> nat option \<times> bytes) list"
  sv_failed :: bool

definition serve :: "nat \<Rightarrow> rep_server" where
  "serve n_contexts =
     \<lparr>sv_clients = Map.empty, sv_convs = Map.empty, sv_next_conv = 0,
      sv_slots = (\<lambda>i. if i < n_contexts then Some (Receiving i) else None), sv_next_ctx = n_contexts,
      sv_peer = Map.empty, sv_released = {}, sv_next_evt = 0, sv_closed_pipes = {}, sv_replies = [], sv_failed = False\<rparr>"

definition set_slot :: "nat \<Rightarrow> slot \<Rightarrow> rep_server \<Rightarrow> rep_server" where
  "set_slot i x s = s\<lparr>sv_slots := (sv_slots s)(i \<mapsto> x)\<rparr>"

definition set_conv :: "nat \<Rightarrow> manager \<times> phase \<Rightarrow> rep_server \<Rightarrow> rep_server" where
  "set_conv j c s = s\<lparr>sv_convs := (sv_convs s)(j \<mapsto> c)\<rparr>"

definition release :: "nat list \<Rightarrow> rep_server \<Rightarrow> rep_server" where
  "release es s = s\<lparr>sv_released := sv_released s \<union> set es\<rparr>"

text \<open>The client's manager, created together with its task when the pipe is not in the table.\<close>

definition find_client :: "nat \<Rightarrow> rep_server \<Rightarrow> nat \<times> rep_server" where
  "find_client p s =
     (case sv_clients s p of
        Some j \<Rightarrow> (j, s)
      | None \<Rightarrow>
          (let j = sv_next_conv s in
           (j, set_conv j (Manager_init p, Talking) (s\<lparr>sv_clients := (sv_clients s)(p \<mapsto> j), sv_next_conv := Suc j\<rparr>))))"

text \<open>
  The body of the loop after a message with a pipe arrived. A refused message closes the pipe
  and is answered with an empty reply; errors other than \<open>RuntimeError\<close> end the task.
\<close>

definition route :: "nat \<Rightarrow> nat \<Rightarrow> bytes \<Rightarrow> nat \<Rightarrow> rep_server \<Rightarrow> rep_server" where
  "route i ctx data p s =
     (let (j, s1) = find_client p (s\<lparr>sv_peer := (sv_peer s)(ctx \<mapsto> p)\<rparr>); evt = sv_next_evt s1; s2 = s1\<lparr>sv_next_evt := Suc evt\<rparr> in
      case sv_convs s2 j of
        None \<Rightarrow> s2
      | Some (m, ph) \<Rightarrow>
          (let (r, m', es) = dispatch data ctx evt m; s3 = release es (set_conv j (m', ph) s2) in
           case r of
             Inr _ \<Rightarrow> set_slot i (Waiting ctx evt p) s3
           | Inl (Exn e) \<Rightarrow>
               if isinstance e (BuiltinC RuntimeError)
               then set_slot i (Replying ctx (Some p) []) (s3\<lparr>sv_closed_pipes := insert p (sv_closed_pipes s3)\<rparr>)
               else set_slot i Ended (s3\<lparr>sv_failed := True\<rparr>)
           | Inl _ \<Rightarrow> set_slot i Ended (s3\<lparr>sv_failed := True\<rparr>)))"

text \<open>\<open>_handle_pipe_status_change\<close> for a removed pipe.\<close>

definition handle_pipe_removed :: "nat \<Rightarrow> rep_server \<Rightarrow> rep_server" where
  "handle_pipe_removed p s =
     (case sv_clients s p of
        None \<Rightarrow> s
      | Some j \<Rightarrow>
          (let s1 = s\<lparr>sv_clients := (sv_clients s)(p := None)\<rparr> in
           case sv_convs s1 j of None \<Rightarrow> s1 | Some (m, ph) \<Rightarrow> set_conv j (snd (disconnect m), ph) s1))"

definition reply :: "nat option \<Rightarrow> nat option \<Rightarrow> bytes \<Rightarrow> rep_server \<Rightarrow> rep_server" where
  "reply receiver author data s = s\<lparr>sv_replies := sv_replies s @ [(receiver, author, data)]\<rparr>"

definition end_conv :: "nat \<Rightarrow> manager \<Rightarrow> unit result \<Rightarrow> rep_server \<Rightarrow> rep_server" where
  "end_conv j m outcome s =
     (let (m', es) = execute_finally m;
          s1 = release es (set_conv j (m', Finished) (s\<lparr>sv_closed_pipes := insert (m_pipe m) (sv_closed_pipes s)\<rparr>)) in
      case execute_result outcome of Inr _ \<Rightarrow> s1 | Inl e \<Rightarrow> s1\<lparr>sv_failed := True\<rparr>)"

definition send_reply :: "nat \<Rightarrow> nat option \<Rightarrow> bytes \<Rightarrow> rep_server \<Rightarrow> rep_server" where
  "send_reply ctx author data s = reply (sv_peer s ctx) author data s"

text \<open>
  The steps of the loop. Of a dispatch task: a message without and with a pipe, a context in the
  wrong state, the closed socket, any other error of \<open>arecv\<close>, the end of a reply of its own, and
  the event it waits for. Of the client tasks: receiving, starting to send, the end of the send,
  the end of the conversation with any outcome (cancellation included), and the done callback.
  And the removal of a pipe.
\<close>

inductive rep_step :: "bytes \<Rightarrow> rep_server \<Rightarrow> rep_server \<Rightarrow> bool" for no_pipe where
  recv_no_pipe: "sv_slots s i = Some (Receiving ctx) \<Longrightarrow>
    rep_step no_pipe s (set_slot i (Replying ctx None no_pipe) (s\<lparr>sv_peer := (sv_peer s)(ctx := None)\<rparr>))"
| recv_msg: "sv_slots s i = Some (Receiving ctx) \<Longrightarrow> rep_step no_pipe s (route i ctx data p s)"
| recv_state: "sv_slots s i = Some (Receiving ctx) \<Longrightarrow>
    rep_step no_pipe s (set_slot i (Receiving (sv_next_ctx s)) (s\<lparr>sv_next_ctx := Suc (sv_next_ctx s)\<rparr>))"
| recv_closed: "sv_slots s i = Some (Receiving ctx) \<Longrightarrow> rep_step no_pipe s (set_slot i Ended s)"
| recv_fails: "sv_slots s i = Some (Receiving ctx) \<Longrightarrow> rep_step no_pipe s (set_slot i Ended (s\<lparr>sv_failed := True\<rparr>))"
| reply_done: "sv_slots s i = Some (Replying ctx q data) \<Longrightarrow>
    rep_step no_pipe s (set_slot i (Receiving ctx) (send_reply ctx q data s))"
| reply_closed: "sv_slots s i = Some (Replying ctx q data) \<Longrightarrow> rep_step no_pipe s (set_slot i Ended s)"
| reply_fails: "sv_slots s i = Some (Replying ctx q data) \<Longrightarrow> rep_step no_pipe s (set_slot i Ended (s\<lparr>sv_failed := True\<rparr>))"
| wait_over: "sv_slots s i = Some (Waiting ctx evt q) \<Longrightarrow> evt \<in> sv_released s \<Longrightarrow> rep_step no_pipe s (set_slot i (Receiving ctx) s)"
| conv_recv: "sv_convs s j = Some (m, Talking) \<Longrightarrow> mgr_arecv m = Some (r, m') \<Longrightarrow> rep_step no_pipe s (set_conv j (m', Talking) s)"
| conv_send: "sv_convs s j = Some (m, Talking) \<Longrightarrow> asend_begin m = (Inr (ctx, evt), m') \<Longrightarrow>
    rep_step no_pipe s (set_conv j (m', Sending ctx evt) s)"
| conv_sent: "sv_convs s j = Some (m, Sending ctx evt) \<Longrightarrow>
    rep_step no_pipe s (release (snd (asend_end outcome evt)) (set_conv j (m, Talking)
      (case outcome of Inr _ \<Rightarrow> send_reply ctx (Some (m_pipe m)) data s | Inl e \<Rightarrow> s)))"
| conv_ends: "sv_convs s j = Some (m, Talking) \<Longrightarrow> rep_step no_pipe s (end_conv j m outcome s)"
| conv_reaped: "sv_convs s j = Some (m, Finished) \<Longrightarrow>
    rep_step no_pipe s (set_conv j (m, Reaped) (s\<lparr>sv_clients := (sv_clients s)(m_pipe m := None)\<rparr>))"
| pipe_removed: "rep_step no_pipe s (handle_pipe_removed p s)"

inductive rep_reachable :: "bytes \<Rightarrow> rep_server \<Rightarrow> bool" for no_pipe where
  started: "rep_reachable no_pipe (serve n_contexts)"
| moved: "rep_reachable no_pipe s \<Longrightarrow> rep_step no_pipe s s' \<Longrightarrow> rep_reachable no_pipe s'"

section \<open>The invariant\<close>

text \<open>The contexts and events a client task is responsible for.\<close>

definition items :: "item option list \<Rightarrow> (nat \<times> nat) list" where
  "items q = concat (map (\<lambda>x. case x of Some (Item data ctx evt) \<Rightarrow> [(ctx, evt)] | None \<Rightarrow> []) q)"

fun owed :: "manager \<times> phase \<Rightarrow> (nat \<times> nat) list" where
  "owed (m, ph) =
     (case m_current m of Some c \<Rightarrow> [c] | None \<Rightarrow> []) @ items (m_inbox m) @
     (case ph of Sending ctx evt \<Rightarrow> [(ctx, evt)] | _ \<Rightarrow> [])"

text \<open>
  A manager's inbox holds at most one message and one sentinel, no message while a request is
  being answered, and nothing at all once the conversation has ended.
\<close>

fun mgr_ok :: "manager \<times> phase \<Rightarrow> bool" where
  "mgr_ok (m, ph) \<longleftrightarrow>
     length (items (m_inbox m)) \<le> 1 \<and> count_list (m_inbox m) None \<le> 1 \<and>
     (m_current m \<noteq> None \<longrightarrow> items (m_inbox m) = []) \<and>
     (m_running m \<longrightarrow> None \<notin> set (m_inbox m)) \<and>
     (m_shut m \<longleftrightarrow> ph \<in> {Finished, Reaped}) \<and>
     (ph \<in> {Finished, Reaped} \<longrightarrow> \<not> m_running m \<and> m_inbox m = [] \<and> m_current m = None)"

fun slot_ctx :: "slot \<Rightarrow> nat option" where
  "slot_ctx (Receiving ctx) = Some ctx"
| "slot_ctx (Replying ctx q data) = Some ctx"
| "slot_ctx (Waiting ctx evt p) = Some ctx"
| "slot_ctx Ended = None"

definition convs_ok :: "rep_server \<Rightarrow> bool" where
  "convs_ok s \<longleftrightarrow>
     (\<forall>j c. sv_convs s j = Some c \<longrightarrow> mgr_ok c \<and> j < sv_next_conv s) \<and>
     (\<forall>p j. sv_clients s p = Some j \<longrightarrow>
        (\<exists>m ph. sv_convs s j = Some (m, ph) \<and> m_pipe m = p \<and> None \<notin> set (m_inbox m)))"

definition slots_ok :: "rep_server \<Rightarrow> bool" where
  "slots_ok s \<longleftrightarrow>
     (\<forall>i i' x x' ctx. sv_slots s i = Some x \<longrightarrow> sv_slots s i' = Some x' \<longrightarrow>
        slot_ctx x = Some ctx \<longrightarrow> slot_ctx x' = Some ctx \<longrightarrow> i = i') \<and>
     (\<forall>i x ctx. sv_slots s i = Some x \<longrightarrow> slot_ctx x = Some ctx \<longrightarrow> ctx < sv_next_ctx s) \<and>
     (\<forall>i ctx evt p. sv_slots s i = Some (Waiting ctx evt p) \<longrightarrow> evt < sv_next_evt s \<and> sv_peer s ctx = Some p \<and>
        (evt \<in> sv_released s \<or> (\<exists>j c. sv_convs s j = Some c \<and> (ctx, evt) \<in> set (owed c)))) \<and>
     (\<forall>i ctx q data. sv_slots s i = Some (Replying ctx q data) \<longrightarrow> sv_peer s ctx = q)"

definition owed_ok :: "rep_server \<Rightarrow> bool" where
  "owed_ok s \<longleftrightarrow>
     (\<forall>e \<in> sv_released s. e < sv_next_evt s) \<and>
     (\<forall>j c ctx evt. sv_convs s j = Some c \<longrightarrow> (ctx, evt) \<in> set (owed c) \<longrightarrow>
        evt < sv_next_evt s \<and> evt \<notin> sv_released s \<and>
        (\<exists>i. sv_slots s i = Some (Waiting ctx evt (m_pipe (fst c))))) \<and>
     (\<forall>j c. sv_convs s j = Some c \<longrightarrow> distinct (map snd (owed c))) \<and>
     (\<forall>j j' c c' ctx ctx' evt. sv_convs s j = Some c \<longrightarrow> sv_convs s j' = Some c' \<longrightarrow>
        (ctx, evt) \<in> set (owed c) \<longrightarrow> (ctx', evt) \<in> set (owed c') \<longrightarrow> j = j')"

definition replies_ok :: "rep_server \<Rightarrow> bool" where
  "replies_ok s \<longleftrightarrow> (\<forall>(receiver, author, data) \<in> set (sv_replies s). receiver = author)"

definition server_ok :: "rep_server \<Rightarrow> bool" where
  "server_ok s \<longleftrightarrow> convs_ok s \<and> slots_ok s \<and> owed_ok s \<and> replies_ok s"

lemma items_simps [simp]:
  "items [] = []" "items (None # q) = items q" "items (Some (Item d ctx evt) # q) = (ctx, evt) # items q"
  "items (q @ q') = items q @ items q'"
  by (simp_all add: items_def)

lemma drain_items: "drain_inbox q = map snd (items q)"
  by (induction q rule: drain_inbox.induct) auto

lemma server_upd [simp]:
  "sv_clients (set_conv j c s) = sv_clients s" "sv_convs (set_conv j c s) = (sv_convs s)(j \<mapsto> c)"
  "sv_slots (set_conv j c s) = sv_slots s" "sv_released (set_conv j c s) = sv_released s"
  "sv_next_evt (set_conv j c s) = sv_next_evt s" "sv_next_ctx (set_conv j c s) = sv_next_ctx s"
  "sv_next_conv (set_conv j c s) = sv_next_conv s" "sv_peer (set_conv j c s) = sv_peer s" "sv_replies (set_conv j c s) = sv_replies s"
  "sv_clients (release es s) = sv_clients s" "sv_convs (release es s) = sv_convs s" "sv_slots (release es s) = sv_slots s"
  "sv_released (release es s) = sv_released s \<union> set es" "sv_next_evt (release es s) = sv_next_evt s"
  "sv_next_ctx (release es s) = sv_next_ctx s" "sv_next_conv (release es s) = sv_next_conv s" "sv_peer (release es s) = sv_peer s"
  "sv_replies (release es s) = sv_replies s"
  "sv_clients (set_slot i x s) = sv_clients s" "sv_convs (set_slot i x s) = sv_convs s" "sv_slots (set_slot i x s) = (sv_slots s)(i \<mapsto> x)"
  "sv_released (set_slot i x s) = sv_released s" "sv_next_evt (set_slot i x s) = sv_next_evt s"
  "sv_next_ctx (set_slot i x s) = sv_next_ctx s" "sv_next_conv (set_slot i x s) = sv_next_conv s" "sv_peer (set_slot i x s) = sv_peer s"
  "sv_replies (set_slot i x s) = sv_replies s"
  by (simp_all add: set_conv_def release_def set_slot_def)

lemmas ok_defs = server_ok_def convs_ok_def slots_ok_def owed_ok_def replies_ok_def

lemma ok_irrelevant [simp]:
  "server_ok (s\<lparr>sv_closed_pipes := x\<rparr>) = server_ok s" "server_ok (s\<lparr>sv_failed := b\<rparr>) = server_ok s"
  by (simp_all add: ok_defs)

declare owed.simps [simp del] mgr_ok.simps [simp del]

lemma server_okD:
  assumes "server_ok s"
  shows "sv_convs s j = Some c \<Longrightarrow> mgr_ok c \<and> j < sv_next_conv s"
    and "sv_clients s p = Some j \<Longrightarrow> \<exists>m ph. sv_convs s j = Some (m, ph) \<and> m_pipe m = p \<and> None \<notin> set (m_inbox m)"
    and "sv_slots s i = Some x \<Longrightarrow> sv_slots s i' = Some x' \<Longrightarrow> slot_ctx x = Some ctx \<Longrightarrow> slot_ctx x' = Some ctx \<Longrightarrow> i = i'"
    and "sv_slots s i = Some x \<Longrightarrow> slot_ctx x = Some ctx \<Longrightarrow> ctx < sv_next_ctx s"
    and "sv_slots s i = Some (Waiting ctx evt p) \<Longrightarrow> evt < sv_next_evt s \<and> sv_peer s ctx = Some p \<and>
      (evt \<in> sv_released s \<or> (\<exists>j c. sv_convs s j = Some c \<and> (ctx, evt) \<in> set (owed c)))"
    and "sv_slots s i = Some (Replying ctx q data) \<Longrightarrow> sv_peer s ctx = q"
    and "evt \<in> sv_released s \<Longrightarrow> evt < sv_next_evt s"
    and "sv_convs s j = Some c \<Longrightarrow> (ctx, evt) \<in> set (owed c) \<Longrightarrow> evt < sv_next_evt s \<and> evt \<notin> sv_released s \<and>
      (\<exists>i. sv_slots s i = Some (Waiting ctx evt (m_pipe (fst c))))"
    and "sv_convs s j = Some c \<Longrightarrow> distinct (map snd (owed c))"
    and "sv_convs s j = Some c \<Longrightarrow> sv_convs s j' = Some c' \<Longrightarrow> (ctx, evt) \<in> set (owed c) \<Longrightarrow> (ctx', evt) \<in> set (owed c') \<Longrightarrow> j = j'"
proof -
  have c: "convs_ok s" and l: "slots_ok s" and w: "owed_ok s" using assms by (simp_all add: server_ok_def)
  show "sv_convs s j = Some c \<Longrightarrow> mgr_ok c \<and> j < sv_next_conv s"
    and "sv_clients s p = Some j \<Longrightarrow> \<exists>m ph. sv_convs s j = Some (m, ph) \<and> m_pipe m = p \<and> None \<notin> set (m_inbox m)"
    using c unfolding convs_ok_def by blast+
  show "sv_slots s i = Some x \<Longrightarrow> sv_slots s i' = Some x' \<Longrightarrow> slot_ctx x = Some ctx \<Longrightarrow> slot_ctx x' = Some ctx \<Longrightarrow> i = i'"
    and "sv_slots s i = Some x \<Longrightarrow> slot_ctx x = Some ctx \<Longrightarrow> ctx < sv_next_ctx s"
    and "sv_slots s i = Some (Waiting ctx evt p) \<Longrightarrow> evt < sv_next_evt s \<and> sv_peer s ctx = Some p \<and>
      (evt \<in> sv_released s \<or> (\<exists>j c. sv_convs s j = Some c \<and> (ctx, evt) \<in> set (owed c)))"
    and "sv_slots s i = Some (Replying ctx q data) \<Longrightarrow> sv_peer s ctx = q"
    using l unfolding slots_ok_def by blast+
  show "evt \<in> sv_released s \<Longrightarrow> evt < sv_next_evt s"
    and "sv_convs s j = Some c \<Longrightarrow> (ctx, evt) \<in> set (owed c) \<Longrightarrow> evt < sv_next_evt s \<and> evt \<notin> sv_released s \<and>
      (\<exists>i. sv_slots s i = Some (Waiting ctx evt (m_pipe (fst c))))"
    and "sv_convs s j = Some c \<Longrightarrow> distinct (map snd (owed c))"
    and "sv_convs s j = Some c \<Longrightarrow> sv_convs s j' = Some c' \<Longrightarrow> (ctx, evt) \<in> set (owed c) \<Longrightarrow> (ctx', evt) \<in> set (owed c') \<Longrightarrow> j = j'"
    using w unfolding owed_ok_def by blast+
qed

lemma server_okI:
  assumes "\<And>j c. sv_convs s j = Some c \<Longrightarrow> mgr_ok c \<and> j < sv_next_conv s"
    and "\<And>p j. sv_clients s p = Some j \<Longrightarrow> \<exists>m ph. sv_convs s j = Some (m, ph) \<and> m_pipe m = p \<and> None \<notin> set (m_inbox m)"
    and "\<And>i x i' x' ctx. sv_slots s i = Some x \<Longrightarrow> sv_slots s i' = Some x' \<Longrightarrow> slot_ctx x = Some ctx \<Longrightarrow> slot_ctx x' = Some ctx \<Longrightarrow> i = i'"
    and "\<And>i x ctx. sv_slots s i = Some x \<Longrightarrow> slot_ctx x = Some ctx \<Longrightarrow> ctx < sv_next_ctx s"
    and "\<And>i ctx evt p. sv_slots s i = Some (Waiting ctx evt p) \<Longrightarrow> evt < sv_next_evt s \<and> sv_peer s ctx = Some p \<and>
      (evt \<in> sv_released s \<or> (\<exists>j c. sv_convs s j = Some c \<and> (ctx, evt) \<in> set (owed c)))"
    and "\<And>i ctx q data. sv_slots s i = Some (Replying ctx q data) \<Longrightarrow> sv_peer s ctx = q"
    and "\<And>evt. evt \<in> sv_released s \<Longrightarrow> evt < sv_next_evt s"
    and "\<And>j c ctx evt. sv_convs s j = Some c \<Longrightarrow> (ctx, evt) \<in> set (owed c) \<Longrightarrow> evt < sv_next_evt s \<and> evt \<notin> sv_released s \<and>
      (\<exists>i. sv_slots s i = Some (Waiting ctx evt (m_pipe (fst c))))"
    and "\<And>j c. sv_convs s j = Some c \<Longrightarrow> distinct (map snd (owed c))"
    and "\<And>j j' c c' ctx ctx' evt. sv_convs s j = Some c \<Longrightarrow> sv_convs s j' = Some c' \<Longrightarrow> (ctx, evt) \<in> set (owed c) \<Longrightarrow>
      (ctx', evt) \<in> set (owed c') \<Longrightarrow> j = j'"
    and "replies_ok s"
  shows "server_ok s"
proof -
  have "convs_ok s" using assms(1,2) unfolding convs_ok_def by blast
  moreover have "slots_ok s" using assms(3-6) unfolding slots_ok_def by blast
  moreover have "owed_ok s" using assms(7-10) unfolding owed_ok_def by blast
  ultimately show ?thesis using assms(11) by (simp add: server_ok_def)
qed

lemma server_ok_replies: "server_ok s \<Longrightarrow> replies_ok s"
  by (simp add: server_ok_def)

text \<open>A client task acts: it keeps the requests it owes, or releases some of them.\<close>

lemma owed_split:
  assumes ok: "server_ok s" and j: "sv_convs s j = Some c" and owed: "mset (owed c) = mset (owed c') + mset rel"
  shows "set (owed c) = set (owed c') \<union> set rel" "distinct (map snd (owed c'))"
    "set (map snd (owed c')) \<inter> set (map snd rel) = {}"
    "sv_convs s j' = Some x \<Longrightarrow> (ctx, e) \<in> set (owed x) \<Longrightarrow> j' \<noteq> j \<Longrightarrow> e \<notin> set (map snd rel)"
proof -
  show sub: "set (owed c) = set (owed c') \<union> set rel"
    by (metis owed set_mset_mset set_mset_union)
  have "mset (map snd (owed c)) = mset (map snd (owed c') @ map snd rel)"
    using owed by (metis image_mset_union mset_append mset_map)
  then have "distinct (map snd (owed c') @ map snd rel)"
    using ok j mset_eq_imp_distinct_iff unfolding server_ok_def owed_ok_def by blast
  then show "distinct (map snd (owed c'))" "set (map snd (owed c')) \<inter> set (map snd rel) = {}"
    by simp_all
  assume x: "sv_convs s j' = Some x" "(ctx, e) \<in> set (owed x)" "j' \<noteq> j"
  show "e \<notin> set (map snd rel)"
  proof
    assume "e \<in> set (map snd rel)"
    then obtain ctx' where "(ctx', e) \<in> set rel" by auto
    then have "(ctx', e) \<in> set (owed c)" using sub by simp
    then show False using ok j x unfolding server_ok_def owed_ok_def by blast
  qed
qed

lemma conv_step_slots:
  assumes ok: "server_ok s" and j: "sv_convs s j = Some c" and sub: "set (owed c) = set (owed c') \<union> set rel"
  shows "slots_ok (release (map snd rel) (set_conv j c' s))"
proof -
  have "evt \<in> sv_released s \<union> set (map snd rel) \<or>
      (\<exists>j' x. ((sv_convs s)(j \<mapsto> c')) j' = Some x \<and> (ctx, evt) \<in> set (owed x))"
    if w: "sv_slots s i = Some (Waiting ctx evt p)" for i ctx evt p
  proof -
    consider "evt \<in> sv_released s" | j' x where "sv_convs s j' = Some x" "(ctx, evt) \<in> set (owed x)"
      using ok w unfolding server_ok_def slots_ok_def by blast
    then show ?thesis
    proof cases
      case (2 j' x)
      show ?thesis
      proof (cases "j' = j")
        case True
        with 2 j sub have "(ctx, evt) \<in> set (owed c') \<or> (ctx, evt) \<in> set rel" by auto
        then show ?thesis by (metis fun_upd_same imageI list.set_map snd_conv UnCI)
      qed (use 2 in \<open>metis fun_upd_other\<close>)
    qed simp
  qed
  then show ?thesis using ok unfolding server_ok_def slots_ok_def by simp
qed

lemma conv_step_owed:
  assumes ok: "server_ok s" and j: "sv_convs s j = Some c" and c': "m_pipe (fst c') = m_pipe (fst c)"
    and owed: "mset (owed c) = mset (owed c') + mset rel"
  shows "owed_ok (release (map snd rel) (set_conv j c' s))"
proof -
  note sub = owed_split [OF ok j owed]
  have "e < sv_next_evt s" if "(a, e) \<in> set rel" for a e
    using server_okD(8) [OF ok j, of a e] that sub(1) by simp
  then have "\<forall>e \<in> sv_released s \<union> set (map snd rel). e < sv_next_evt s"
    using server_okD(7) [OF ok] by auto
  moreover have "evt < sv_next_evt s \<and> evt \<notin> sv_released s \<union> set (map snd rel) \<and>
      (\<exists>i. sv_slots s i = Some (Waiting ctx evt (m_pipe (fst x))))"
    if x: "((sv_convs s)(j \<mapsto> c')) j' = Some x" "(ctx, evt) \<in> set (owed x)" for j' x ctx evt
  proof (cases "j' = j")
    case True
    with x have e: "x = c'" by simp
    with x sub(1) have "(ctx, evt) \<in> set (owed c)" by simp
    then have "evt < sv_next_evt s \<and> evt \<notin> sv_released s \<and> (\<exists>i. sv_slots s i = Some (Waiting ctx evt (m_pipe (fst c))))"
      using ok j unfolding server_ok_def owed_ok_def by blast
    moreover have "evt \<notin> set (map snd rel)" using sub(3) x e by force
    ultimately show ?thesis using c' e by simp
  next
    case False
    with x have "sv_convs s j' = Some x" by simp
    with x sub(4) False ok show ?thesis unfolding server_ok_def owed_ok_def by blast
  qed
  moreover have "distinct (map snd (owed x))" if "((sv_convs s)(j \<mapsto> c')) j' = Some x" for j' x
    using that server_okD(9) [OF ok] sub(2) by (cases "j' = j") simp_all
  moreover have "j1 = j2" if "((sv_convs s)(j \<mapsto> c')) j1 = Some x1" "((sv_convs s)(j \<mapsto> c')) j2 = Some x2"
    "(ctx1, evt) \<in> set (owed x1)" "(ctx2, evt) \<in> set (owed x2)" for j1 j2 x1 x2 ctx1 ctx2 evt
  proof -
    have "\<exists>y. sv_convs s k = Some y \<and> set (owed x) \<subseteq> set (owed y)" if "((sv_convs s)(j \<mapsto> c')) k = Some x" for k x
      using that j sub(1) by (cases "k = j") auto
    with that server_okD(10) [OF ok] show ?thesis by (meson subsetD)
  qed
  ultimately show ?thesis unfolding owed_ok_def server_upd by blast
qed

lemma conv_step [invar_intros]:
  assumes ok: "server_ok s" and j: "sv_convs s j = Some c" and c': "m_pipe (fst c') = m_pipe (fst c)" "mgr_ok c'"
    and owed: "mset (owed c) = mset (owed c') + mset rel"
    and cl: "\<And>p. sv_clients s p = Some j \<Longrightarrow> None \<notin> set (m_inbox (fst c'))"
  shows "server_ok (release (map snd rel) (set_conv j c' s))"
proof -
  have "\<exists>m ph. ((sv_convs s)(j \<mapsto> c')) k = Some (m, ph) \<and> m_pipe m = p \<and> None \<notin> set (m_inbox m)"
    if "sv_clients s p = Some k" for p k
    using server_okD(2) [OF ok that] that j c'(1) cl [of p] by (cases "k = j"; cases c') auto
  then have "convs_ok (release (map snd rel) (set_conv j c' s))"
    using server_okD(1) [OF ok] j c'(2) unfolding convs_ok_def server_upd by auto
  then show ?thesis
    using ok conv_step_slots [OF ok j owed_split(1) [OF ok j owed]] conv_step_owed [OF ok j c'(1) owed]
    by (simp add: server_ok_def replies_ok_def)
qed

text \<open>A dispatch task moves on from a slot nobody owes a reply to.\<close>

lemma slot_step [invar_intros]:
  assumes ok: "server_ok s" and i: "sv_slots s i = Some x"
    and x: "\<And>ctx evt p. x = Waiting ctx evt p \<Longrightarrow> evt \<in> sv_released s"
    and y: "\<And>ctx. slot_ctx y = Some ctx \<Longrightarrow> ctx < sv_next_ctx s \<and> (\<forall>a z. sv_slots s a = Some z \<and> slot_ctx z = Some ctx \<longrightarrow> a = i)"
      "\<And>ctx evt p. y \<noteq> Waiting ctx evt p"
      "\<And>ctx q data. y = Replying ctx q data \<Longrightarrow> sv_peer s ctx = q"
  shows "server_ok (set_slot i y s)"
proof -
  have "slots_ok (set_slot i y s)"
    unfolding slots_ok_def server_upd
  proof (intro conjI allI impI)
    fix a b u v ctx
    assume *: "((sv_slots s)(i \<mapsto> y)) a = Some u" "((sv_slots s)(i \<mapsto> y)) b = Some v" "slot_ctx u = Some ctx" "slot_ctx v = Some ctx"
    show "a = b" using * y(1) [of ctx] server_okD(3) [OF ok, of a u b v ctx] by (metis fun_upd_apply option.inject)
    show "ctx < sv_next_ctx s" using *(1,3) i y(1) server_okD(4) [OF ok] by (cases "a = i") auto
  next
    fix a ctx evt p
    assume "((sv_slots s)(i \<mapsto> y)) a = Some (Waiting ctx evt p)"
    then have "sv_slots s a = Some (Waiting ctx evt p)" using y(2) by (cases "a = i") auto
    from server_okD(5) [OF ok this]
    show "evt < sv_next_evt s" "sv_peer s ctx = Some p"
      "evt \<in> sv_released s \<or> (\<exists>j c. sv_convs s j = Some c \<and> (ctx, evt) \<in> set (owed c))" by blast+
  next
    fix a ctx q data
    assume "((sv_slots s)(i \<mapsto> y)) a = Some (Replying ctx q data)"
    then show "sv_peer s ctx = q" using y(3) server_okD(6) [OF ok] by (cases "a = i") auto
  qed
  moreover have "evt < sv_next_evt s \<and> evt \<notin> sv_released s \<and> (\<exists>a. ((sv_slots s)(i \<mapsto> y)) a = Some (Waiting ctx evt (m_pipe (fst c))))"
    if c: "sv_convs s j = Some c" "(ctx, evt) \<in> set (owed c)" for j c ctx evt
  proof -
    obtain a where a: "sv_slots s a = Some (Waiting ctx evt (m_pipe (fst c)))" "evt \<notin> sv_released s" "evt < sv_next_evt s"
      using server_okD(8) [OF ok c] by blast
    then have "a \<noteq> i" using i x by auto
    then show ?thesis using a by auto
  qed
  then have "owed_ok (set_slot i y s)"
    using server_okD(7,9,10) [OF ok] unfolding owed_ok_def server_upd by blast
  ultimately show ?thesis using ok by (simp add: server_ok_def convs_ok_def replies_ok_def)
qed

lemma slot_keeps_ctx:
  assumes "server_ok s" "sv_slots s i = Some x" "slot_ctx x = Some ctx"
  shows "ctx < sv_next_ctx s \<and> (\<forall>a z. sv_slots s a = Some z \<and> slot_ctx z = Some ctx \<longrightarrow> a = i)"
  using server_okD(3,4) [OF assms(1)] assms(2,3) by blast

lemma slot_move [invar_intros]:
  assumes ok: "server_ok s" and i: "sv_slots s i = Some x"
    and "\<And>ctx evt p. x = Waiting ctx evt p \<Longrightarrow> evt \<in> sv_released s"
    and y: "slot_ctx y \<in> {None, slot_ctx x}" "\<And>ctx evt p. y \<noteq> Waiting ctx evt p" "\<And>ctx q data. y = Replying ctx q data \<Longrightarrow> sv_peer s ctx = q"
  shows "server_ok (set_slot i y s)"
proof (rule slot_step [OF ok i])
  fix ctx
  assume "slot_ctx y = Some ctx"
  then have "slot_ctx x = Some ctx" using y(1) by auto
  from slot_keeps_ctx [OF ok i this]
  show "ctx < sv_next_ctx s \<and> (\<forall>a z. sv_slots s a = Some z \<and> slot_ctx z = Some ctx \<longrightarrow> a = i)" .
qed (use assms in blast)+

lemma peer_step [invar_intros]:
  assumes ok: "server_ok s" and i: "sv_slots s i = Some (Receiving ctx)"
  shows "server_ok (s\<lparr>sv_peer := (sv_peer s)(ctx := q)\<rparr>)"
proof -
  have other: "sv_slots s a = Some x \<Longrightarrow> slot_ctx x = Some ctx \<Longrightarrow> x = Receiving ctx" for a x
    using server_okD(3) [OF ok _ i, of a x ctx] i by simp
  have "sv_slots s a \<noteq> Some (Waiting ctx evt p)" "sv_slots s a \<noteq> Some (Replying ctx r data)" for a evt p r data
    using other [of a] by fastforce+
  then have "slots_ok (s\<lparr>sv_peer := (sv_peer s)(ctx := q)\<rparr>)"
    using ok unfolding server_ok_def slots_ok_def by simp
  then show ?thesis using ok by (simp add: server_ok_def convs_ok_def owed_ok_def replies_ok_def)
qed

lemma new_conv_step:
  assumes ok: "server_ok s" and p: "sv_clients s p = None"
  shows "server_ok (set_conv (sv_next_conv s) (Manager_init p, Talking)
      (s\<lparr>sv_clients := (sv_clients s)(p \<mapsto> sv_next_conv s), sv_next_conv := Suc (sv_next_conv s)\<rparr>))"
    (is "server_ok ?s")
proof -
  let ?c = "(Manager_init p, Talking)" and ?n = "sv_next_conv s"
  note d = server_okD [OF ok]
  have none: "sv_convs s ?n = None" using d(1) by (metis not_Some_eq less_irrefl)
  have c: "mgr_ok ?c" "owed ?c = []"
    by (simp_all add: mgr_ok.simps owed.simps Manager_init_def)
  have old: "sv_convs s k = Some x" if "sv_convs ?s k = Some x" "(a, e) \<in> set (owed x)" for k x a e
    using that c(2) by (auto split: if_splits)
  have new: "sv_convs ?s k = Some x" if "sv_convs s k = Some x" for k x
    using that none by auto
  have f: "sv_next_evt ?s = sv_next_evt s" "sv_peer ?s = sv_peer s" "sv_released ?s = sv_released s" "sv_slots ?s = sv_slots s"
    "sv_next_ctx ?s = sv_next_ctx s"
    by simp_all
  show ?thesis
  proof (rule server_okI)
    show "\<exists>m ph. sv_convs ?s k = Some (m, ph) \<and> m_pipe m = q \<and> None \<notin> set (m_inbox m)" if "sv_clients ?s q = Some k" for q k
      using that d(2) [of q k] none by (cases "q = p") (auto simp: Manager_init_def)
    show "evt < sv_next_evt ?s \<and> sv_peer ?s ctx = Some q \<and>
        (evt \<in> sv_released ?s \<or> (\<exists>k x. sv_convs ?s k = Some x \<and> (ctx, evt) \<in> set (owed x)))"
      if "sv_slots ?s i = Some (Waiting ctx evt q)" for i ctx evt q
      using d(5) [of i ctx evt q] that new unfolding f by blast
    show "mgr_ok x \<and> k < sv_next_conv ?s" if "sv_convs ?s k = Some x" for k x
      using that d(1) [of k x] c(1) by (auto split: if_splits)
    show "distinct (map snd (owed x))" if "sv_convs ?s k = Some x" for k x
      using that d(9) [of k x] c(2) by (auto split: if_splits)
    show "evt < sv_next_evt ?s \<and> evt \<notin> sv_released ?s \<and> (\<exists>i. sv_slots ?s i = Some (Waiting ctx evt (m_pipe (fst x))))"
      if "sv_convs ?s k = Some x" "(ctx, evt) \<in> set (owed x)" for k x ctx evt
      using d(8) [OF old [OF that] that(2)] unfolding f .
    show "k = k'" if "sv_convs ?s k = Some x" "sv_convs ?s k' = Some x'" "(ctx, evt) \<in> set (owed x)" "(ctx', evt) \<in> set (owed x')"
      for k k' x x' ctx ctx' evt
      using d(10) [OF old [OF that(1,3)] old [OF that(2,4)] that(3,4)] .
    show "replies_ok ?s" using server_ok_replies [OF ok] by (simp add: replies_ok_def)
  qed (use d(3,4,6,7) in \<open>(unfold f, blast)+\<close>)
qed

lemma find_client_step:
  assumes ok: "server_ok s" and f: "find_client p s = (j, s')"
  shows "server_ok s'" "sv_clients s' p = Some j" "\<exists>m ph. sv_convs s' j = Some (m, ph)" "sv_slots s' = sv_slots s"
    "sv_next_ctx s' = sv_next_ctx s" "sv_peer s' = sv_peer s"
proof -
  from f new_conv_step [OF ok] ok show "server_ok s'" "sv_clients s' p = Some j" "sv_slots s' = sv_slots s"
    "sv_next_ctx s' = sv_next_ctx s" "sv_peer s' = sv_peer s"
    by (auto simp: find_client_def Let_def split: option.splits)
  from f server_okD(2) [OF ok, of p] show "\<exists>m ph. sv_convs s' j = Some (m, ph)"
    by (cases "sv_clients s p") (auto simp: find_client_def Let_def)
qed

text \<open>A slot begins to wait for a fresh event, already set or owed by the client's task.\<close>

lemma wait_step:
  assumes ok: "server_ok s" and i: "sv_slots s i = Some (Receiving ctx)" "sv_peer s ctx = Some (m_pipe (fst c))"
    and j: "sv_convs s j = Some c" and c': "mgr_ok c'" "m_pipe (fst c') = m_pipe (fst c)" "None \<in> set (m_inbox (fst c')) \<longrightarrow> None \<in> set (m_inbox (fst c))"
    and owed: "es = [sv_next_evt s] \<and> owed c' = owed c \<or> es = [] \<and> set (owed c') = insert (ctx, sv_next_evt s) (set (owed c)) \<and> distinct (map snd (owed c'))"
  shows "server_ok (set_slot i (Waiting ctx (sv_next_evt s) (m_pipe (fst c)))
    (release es (set_conv j c' (s\<lparr>sv_next_evt := Suc (sv_next_evt s)\<rparr>))))" (is "server_ok ?s")
proof -
  let ?e = "sv_next_evt s" and ?p = "m_pipe (fst c)"
  note d = server_okD [OF ok]
  have old: "(\<exists>y. sv_convs s k = Some y \<and> (a, e) \<in> set (owed y) \<and> m_pipe (fst y) = m_pipe (fst x)) \<or> k = j \<and> x = c' \<and> a = ctx \<and> e = ?e \<and> es = []"
    if "sv_convs ?s k = Some x" "(a, e) \<in> set (owed x)" for k x a e
    using that owed j c'(2) by (cases "k = j") auto
  have new: "\<exists>x. sv_convs ?s k = Some x \<and> (a, e) \<in> set (owed x)" if "sv_convs s k = Some y" "(a, e) \<in> set (owed y)" for k y a e
    using that owed j by (cases "k = j") auto
  have es: "set es = {} \<or> set es = {?e}" using owed by auto
  show ?thesis
  proof (rule server_okI)
    show "k < sv_next_ctx ?s" if "sv_slots ?s a = Some x" "slot_ctx x = Some k" for a x k
      using that d(4) [of a x k] d(4) [OF i(1)] by (auto split: if_splits)
    show "a = b" if "sv_slots ?s a = Some x" "sv_slots ?s b = Some y" "slot_ctx x = Some k" "slot_ctx y = Some k" for a b x y k
      using that d(3) [of a x b y k] d(3) [OF i(1), of a x] d(3) [OF i(1), of b y] by (auto split: if_splits)
    show "evt < sv_next_evt ?s \<and> sv_peer ?s k = Some q \<and>
        (evt \<in> sv_released ?s \<or> (\<exists>k' x. sv_convs ?s k' = Some x \<and> (k, evt) \<in> set (owed x)))"
      if w: "sv_slots ?s a = Some (Waiting k evt q)" for a k evt q
    proof (cases "a = i")
      case True
      then have e: "k = ctx" "evt = ?e" "q = ?p" using w by auto
      have "?e \<in> sv_released ?s \<or> (ctx, ?e) \<in> set (owed c')" "sv_convs ?s j = Some c'" using owed by auto
      then have "?e \<in> sv_released ?s \<or> (\<exists>k' x. sv_convs ?s k' = Some x \<and> (ctx, ?e) \<in> set (owed x))" by blast
      then show ?thesis using i(2) e by simp
    next
      case False
      then have "sv_slots s a = Some (Waiting k evt q)" using w by simp
      from d(5) [OF this] have "evt < sv_next_evt ?s \<and> sv_peer ?s k = Some q \<and>
        (evt \<in> sv_released ?s \<or> (\<exists>k' y. sv_convs s k' = Some y \<and> (k, evt) \<in> set (owed y)))" by auto
      then show ?thesis using new by blast
    qed
    show "evt < sv_next_evt ?s \<and> evt \<notin> sv_released ?s \<and> (\<exists>a. sv_slots ?s a = Some (Waiting k evt (m_pipe (fst x))))"
      if w: "sv_convs ?s b = Some x" "(k, evt) \<in> set (owed x)" for b x k evt
      using old [OF w]
    proof
      assume "\<exists>y. sv_convs s b = Some y \<and> (k, evt) \<in> set (owed y) \<and> m_pipe (fst y) = m_pipe (fst x)"
      then obtain y where y: "sv_convs s b = Some y" "(k, evt) \<in> set (owed y)" "m_pipe (fst y) = m_pipe (fst x)" by blast
      from d(8) [OF y(1,2)] obtain a where a: "evt < ?e" "evt \<notin> sv_released s" "sv_slots s a = Some (Waiting k evt (m_pipe (fst x)))"
        using y(3) by auto
      then have "a \<noteq> i" using i(1) by auto
      then show ?thesis using a es by auto
    next
      assume "b = j \<and> x = c' \<and> k = ctx \<and> evt = ?e \<and> es = []"
      then show ?thesis using d(7) [of ?e] c'(2) by auto
    qed
    show "b = b'" if "sv_convs ?s b = Some x" "sv_convs ?s b' = Some x'" "(k, evt) \<in> set (owed x)" "(k', evt) \<in> set (owed x')" for b b' x x' k k' evt
      using old [OF that(1,3)] old [OF that(2,4)] d(10) d(8) by (metis less_irrefl)
    show "\<exists>m ph. sv_convs ?s k = Some (m, ph) \<and> m_pipe m = q \<and> None \<notin> set (m_inbox m)" if "sv_clients ?s q = Some k" for q k
      using d(2) [of q k] that c'(2,3) j by (cases "k = j"; cases c') auto
    show "mgr_ok x \<and> k < sv_next_conv ?s" if "sv_convs ?s k = Some x" for k x
      using that d(1) [of k x] d(1) [OF j] c'(1) by (cases "k = j") auto
    show "distinct (map snd (owed x))" if "sv_convs ?s k = Some x" for k x
      using that d(9) [of k x] d(9) [OF j] owed by (cases "k = j") auto
    show "sv_peer ?s k = q" if "sv_slots ?s a = Some (Replying k q data)" for a k q data
      using that d(6) [of a k q data] by (cases "a = i") auto
    show "evt < sv_next_evt ?s" if "evt \<in> sv_released ?s" for evt
      using that d(7) [of evt] es by auto
    show "replies_ok ?s" using server_ok_replies [OF ok] by (simp add: replies_ok_def)
  qed
qed

lemma set_slot_twice [simp]: "set_slot i y (set_slot i x s) = set_slot i y s"
  by (simp add: set_slot_def)

lemma isinstance_RuntimeError [simp]: "isinstance (PyExn RuntimeError) (BuiltinC RuntimeError)"
  by (simp add: isinstance_def)

lemma dispatch_cases:
  assumes "mgr_ok (m, ph)"
  shows "\<not> m_running m \<and> dispatch data ctx evt m = (Inr (), m, [evt]) \<or>
    m_running m \<and> (m_inbox m \<noteq> [] \<or> m_current m \<noteq> None) \<and> dispatch data ctx evt m = (Inl (Exn (PyExn RuntimeError)), m, [evt]) \<or>
    m_running m \<and> m_inbox m = [] \<and> m_current m = None \<and>
      dispatch data ctx evt m = (Inr (), m\<lparr>m_inbox := [Some (Item data ctx evt)]\<rparr>, [])"
  using assms by (auto simp: dispatch_def put_nowait_def mgr_ok.simps)

lemma route_step [invar_intros]:
  assumes ok: "server_ok s" and i: "sv_slots s i = Some (Receiving ctx)"
  shows "server_ok (route i ctx data p s)"
proof -
  let ?s0 = "s\<lparr>sv_peer := (sv_peer s)(ctx \<mapsto> p)\<rparr>"
  obtain j s1 where f: "find_client p ?s0 = (j, s1)" by force
  note f1 = find_client_step [OF peer_step [OF ok i] f]
  obtain m ph where m: "sv_convs s1 j = Some (m, ph)" using f1(3) by blast
  have pm: "m_pipe m = p" using server_okD(2) [OF f1(1,2)] m by auto
  have i1: "sv_slots s1 i = Some (Receiving ctx)" "sv_peer s1 ctx = Some (m_pipe (fst (m, ph)))" using i f1(4,6) pm by simp_all
  let ?e = "sv_next_evt s1" and ?s2 = "s1\<lparr>sv_next_evt := Suc (sv_next_evt s1)\<rparr>"
  have mok: "mgr_ok (m, ph)" using server_okD(1) [OF f1(1) m] by blast
  have "server_ok (set_slot i (Waiting ctx ?e (m_pipe (fst (m, ph)))) (release [?e] (set_conv j (m, ph) ?s2)))"
    by (rule wait_step [OF f1(1) i1 m mok]) simp_all
  then have kept: "server_ok (set_slot i (Waiting ctx ?e p) (release [?e] (set_conv j (m, ph) ?s2)))" using pm by simp
  have refused: "server_ok (set_slot i (Replying ctx (Some p) []) (release [?e] (set_conv j (m, ph) ?s2)))"
  proof -
    let ?w = "set_slot i (Waiting ctx ?e p) (release [?e] (set_conv j (m, ph) ?s2))"
    have w: "sv_slots ?w i = Some (Waiting ctx ?e p)" by simp
    have "server_ok (set_slot i (Replying ctx (Some p) []) ?w)"
      by (rule slot_move [OF kept w]) (use i1(2) pm in auto)
    then show ?thesis by (simp only: set_slot_twice)
  qed
  have taken: "server_ok (set_slot i (Waiting ctx ?e p) (release [] (set_conv j (m\<lparr>m_inbox := [Some (Item data ctx ?e)]\<rparr>, ph) ?s2)))"
    if "m_running m" "m_inbox m = []" "m_current m = None"
  proof -
    have "?e \<notin> snd ` set (owed (m, ph))" using server_okD(8) [OF f1(1) m] by fastforce
    then have "server_ok (set_slot i (Waiting ctx ?e (m_pipe (fst (m, ph))))
        (release [] (set_conv j (m\<lparr>m_inbox := [Some (Item data ctx ?e)]\<rparr>, ph) ?s2)))"
      using that mok server_okD(9) [OF f1(1) m]
      by (intro wait_step [OF f1(1) i1 m]) (auto simp: mgr_ok.simps owed.simps)
    then show ?thesis using pm by simp
  qed
  have "route i ctx data p s =
      (let (r, m', es) = dispatch data ctx ?e m; s3 = release es (set_conv j (m', ph) ?s2) in
       case r of
         Inr _ \<Rightarrow> set_slot i (Waiting ctx ?e p) s3
       | Inl (Exn e) \<Rightarrow>
           if isinstance e (BuiltinC RuntimeError)
           then set_slot i (Replying ctx (Some p) []) (s3\<lparr>sv_closed_pipes := insert p (sv_closed_pipes s3)\<rparr>)
           else set_slot i Ended (s3\<lparr>sv_failed := True\<rparr>)
       | Inl _ \<Rightarrow> set_slot i Ended (s3\<lparr>sv_failed := True\<rparr>))"
    by (simp add: route_def f m Let_def)
  moreover have "set_slot i x (w\<lparr>sv_closed_pipes := z\<rparr>) = (set_slot i x w)\<lparr>sv_closed_pipes := z\<rparr>" for x w z
    by (simp add: set_slot_def)
  ultimately show ?thesis
    using dispatch_cases [OF mok, of data ctx ?e] kept refused taken by (auto simp: Let_def)
qed

lemma clients_step [invar_intros]:
  assumes "server_ok s"
  shows "server_ok (s\<lparr>sv_clients := (sv_clients s)(p := None)\<rparr>)"
  using assms by (auto simp: server_ok_def convs_ok_def slots_ok_def owed_ok_def replies_ok_def split: if_splits)

lemma reply_step [invar_intros]:
  assumes "server_ok s" "sv_peer s ctx = q"
  shows "server_ok (send_reply ctx q data s)"
  using assms by (simp add: send_reply_def reply_def server_ok_def convs_ok_def slots_ok_def owed_ok_def replies_ok_def)

lemma release_Nil [simp]: "release [] s = s"
  by (simp add: release_def)

lemma conv_keep [invar_intros]:
  assumes "server_ok s" "sv_convs s j = Some c" "m_pipe (fst c') = m_pipe (fst c)" "mgr_ok c'"
    and "mset (owed c) = mset (owed c')" "\<And>p. sv_clients s p = Some j \<Longrightarrow> None \<notin> set (m_inbox (fst c'))"
  shows "server_ok (set_conv j c' s)"
  using conv_step [where rel = "[]", OF assms(1-4) _ assms(6)] assms(5) by simp

lemma arecv_step:
  assumes "mgr_ok (m, Talking)" "mgr_arecv m = Some (r, m')"
  shows "mgr_ok (m', Talking)" "mset (owed (m, Talking)) = mset (owed (m', Talking))" "m_pipe m' = m_pipe m"
    "set (m_inbox m') \<subseteq> set (m_inbox m)"
  using assms by (auto simp: mgr_arecv_def mgr_ok.simps owed.simps split: list.splits option.splits item.splits if_splits)

lemma asend_begin_step:
  assumes "mgr_ok (m, Talking)" "asend_begin m = (Inr (ctx, evt), m')"
  shows "mgr_ok (m', Sending ctx evt)" "mset (owed (m, Talking)) = mset (owed (m', Sending ctx evt))" "m_pipe m' = m_pipe m"
    "m_inbox m' = m_inbox m" "m_current m = Some (ctx, evt)"
  using assms by (auto simp: asend_begin_def mgr_ok.simps owed.simps split: option.splits)

lemma finally_step:
  assumes "mgr_ok (m, Talking)" "execute_finally m = (m', es)"
  shows "mgr_ok (m', Finished)" "owed (m', Finished) = []" "es = map snd (owed (m, Talking))" "m_pipe m' = m_pipe m" "m_inbox m' = []"
  using assms by (auto simp: execute_finally_def mgr_ok.simps owed.simps drain_items split: option.splits prod.splits)

lemma inbox_length: "length q = length (items q) + count_list q None"
  by (induction q) (auto simp: items_def split: option.splits item.splits)

lemma disconnect_step:
  assumes "mgr_ok (m, ph)" "None \<notin> set (m_inbox m)" "disconnect m = (r, m')"
  shows "r = Inr ()" "mgr_ok (m', ph)" "owed (m', ph) = owed (m, ph)" "m_pipe m' = m_pipe m"
proof -
  have "length (m_inbox m) \<le> 1" using assms(1,2) by (simp add: inbox_length mgr_ok.simps count_list_0_iff)
  then show "r = Inr ()" "mgr_ok (m', ph)" "owed (m', ph) = owed (m, ph)" "m_pipe m' = m_pipe m"
    using assms by (auto simp: disconnect_def put_nowait_def mgr_ok.simps owed.simps Let_def count_list_0_iff split: if_splits)
qed

lemma sent_step:
  assumes ok: "server_ok s" and j: "sv_convs s j = Some (m, Sending ctx evt)"
  shows "server_ok (release [evt] (set_conv j (m, Talking) (case r of Inr _ \<Rightarrow> send_reply ctx (Some (m_pipe m)) data s | Inl e \<Rightarrow> s)))"
proof -
  let ?s = "case r of Inr _ \<Rightarrow> send_reply ctx (Some (m_pipe m)) data s | Inl e \<Rightarrow> s"
  have o: "mset (owed (m, Sending ctx evt)) = mset (owed (m, Talking)) + mset [(ctx, evt)]" by (simp add: owed.simps)
  then have "(ctx, evt) \<in> set (owed (m, Sending ctx evt))" by (simp add: owed.simps)
  from server_okD(8) [OF ok j this] server_okD(5) [OF ok] have "sv_peer s ctx = Some (m_pipe m)" by auto
  then have ok': "server_ok ?s" using ok reply_step by (auto split: sum.splits)
  have j': "sv_convs ?s j = Some (m, Sending ctx evt)" using j by (auto simp: send_reply_def reply_def split: sum.splits)
  have "mgr_ok (m, Talking)" using server_okD(1) [OF ok j] by (simp add: mgr_ok.simps)
  moreover have "None \<notin> set (m_inbox m)" if "sv_clients ?s p = Some j" for p
    using server_okD(2) [OF ok' that] j' by auto
  ultimately show ?thesis using conv_step [OF ok' j' _ _ o] by simp
qed

lemma end_conv_step:
  assumes ok: "server_ok s" and j: "sv_convs s j = Some (m, Talking)"
  shows "server_ok (end_conv j m r s)"
proof -
  obtain m' es where f: "execute_finally m = (m', es)" by force
  note m' = finally_step [OF conjunct1 [OF server_okD(1) [OF ok j]] f]
  let ?s = "s\<lparr>sv_closed_pipes := insert (m_pipe m) (sv_closed_pipes s)\<rparr>"
  have "server_ok (release (map snd (owed (m, Talking))) (set_conv j (m', Finished) ?s))"
    using ok j m' by (intro conv_step) auto
  then show ?thesis by (auto simp: end_conv_def f m'(3) Let_def split: sum.splits)
qed

lemma removed_step:
  assumes ok: "server_ok s"
  shows "server_ok (handle_pipe_removed p s)"
proof (cases "sv_clients s p")
  case (Some j)
  obtain m ph where m: "sv_convs s j = Some (m, ph)" "m_pipe m = p" "None \<notin> set (m_inbox m)"
    using server_okD(2) [OF ok Some] by blast
  obtain r m' where d: "disconnect m = (r, m')" by force
  note m' = disconnect_step [OF conjunct1 [OF server_okD(1) [OF ok m(1)]] m(3) d]
  let ?s = "s\<lparr>sv_clients := (sv_clients s)(p := None)\<rparr>"
  have "sv_clients ?s q \<noteq> Some j" for q using server_okD(2) [OF ok, of q j] m by auto
  then have "server_ok (set_conv j (m', ph) ?s)"
    using clients_step [OF ok, of p] m m' by (intro conv_keep [where c = "(m, ph)"]) auto
  then show ?thesis using Some m d by (simp add: handle_pipe_removed_def)
qed (use ok in \<open>simp add: handle_pipe_removed_def\<close>)

lemma rep_step_ok:
  assumes "rep_step np s s'" and ok: "server_ok s"
  shows "server_ok s'"
  using assms(1)
proof cases
  case (recv_no_pipe i ctx)
  then show ?thesis by (auto intro!: slot_move [OF peer_step [OF ok]])
next
  case (recv_msg i ctx data p)
  then show ?thesis using route_step [OF ok] by simp
next
  case (recv_state i ctx)
  have "server_ok (s\<lparr>sv_next_ctx := Suc (sv_next_ctx s)\<rparr>)"
    using ok by (auto simp: server_ok_def convs_ok_def slots_ok_def owed_ok_def replies_ok_def less_Suc_eq)
  moreover have "slot_ctx z \<noteq> Some (sv_next_ctx s)" if "sv_slots s a = Some z" for a z
    using server_okD(4) [OF ok that, of "sv_next_ctx s"] by auto
  ultimately show ?thesis unfolding recv_state(1) using recv_state(2)
    by (intro slot_step [where x = "Receiving ctx"]) auto
next
  case (conv_recv j m r m')
  note a = arecv_step [OF conjunct1 [OF server_okD(1) [OF ok conv_recv(2)]] conv_recv(3)]
  have "None \<notin> set (m_inbox m')" if "sv_clients s p = Some j" for p
    using server_okD(2) [OF ok that] conv_recv(2) a(4) by auto
  then show ?thesis unfolding conv_recv(1) using ok conv_recv(2) a
    by (intro conv_keep [where c = "(m, Talking)"]) auto
next
  case (conv_send j m ctx evt m')
  note a = asend_begin_step [OF conjunct1 [OF server_okD(1) [OF ok conv_send(2)]] conv_send(3)]
  have "None \<notin> set (m_inbox m')" if "sv_clients s p = Some j" for p
    using server_okD(2) [OF ok that] conv_send(2) a(4) by auto
  then show ?thesis unfolding conv_send(1) using ok conv_send(2) a
    by (intro conv_keep [where c = "(m, Talking)"]) auto
next
  case (conv_reaped j m)
  have "mgr_ok (m, Reaped)" "m_inbox m = []" using server_okD(1) [OF ok conv_reaped(2)] by (simp_all add: mgr_ok.simps)
  moreover have "server_ok (s\<lparr>sv_clients := (sv_clients s)(m_pipe m := None)\<rparr>)" by (rule clients_step [OF ok])
  ultimately show ?thesis unfolding conv_reaped(1) using conv_reaped(2)
    by (intro conv_keep [where c = "(m, Finished)"]) (auto simp: owed.simps)
next
  case (reply_done i ctx q data)
  then have "server_ok (send_reply ctx q data s)" "sv_slots (send_reply ctx q data s) i = Some (Replying ctx q data)"
    using reply_step [OF ok server_okD(6) [OF ok]] by (simp_all add: send_reply_def reply_def)
  then show ?thesis unfolding reply_done(1) by (rule slot_move) auto
qed (use ok in \<open>auto intro!: slot_move reply_step sent_step end_conv_step removed_step dest: server_okD(6) simp: asend_end_def\<close>)

lemma serve_ok: "server_ok (serve n)"
  by (rule server_okI) (auto simp: serve_def replies_ok_def split: if_splits)

lemma rep_reachable_ok: "rep_reachable np s \<Longrightarrow> server_ok s"
  by (induction rule: rep_reachable.induct) (auto intro: serve_ok rep_step_ok)

section \<open>Properties of the server\<close>

text \<open>C17: in every reachable state of the conversation server, under any interleaving of messages,
  disconnects, failures and client behaviour: a dispatch slot that waits has been released or the
  running conversation of that very client owes its reply; every reply that was sent went to the
  client whose conversation wrote it; no inbox ever overflows, so a disconnect is always
  recorded and a refused message is the only error of \<open>_dispatch\<close>.\<close>

theorem conversation_server_safe:
  assumes "rep_reachable np s"
  shows "(sv_slots s i = Some (Waiting ctx evt p) \<longrightarrow> evt \<in> sv_released s \<or>
      (\<exists>j m ph. sv_convs s j = Some (m, ph) \<and> m_pipe m = p \<and> ph \<notin> {Finished, Reaped} \<and> (ctx, evt) \<in> set (owed (m, ph)))) \<and>
    (\<forall>(receiver, author, data) \<in> set (sv_replies s). receiver = author) \<and>
    (sv_convs s j = Some (m, ph) \<longrightarrow> length (m_inbox m) \<le> 2 \<and>
      (sv_clients s p = Some j \<longrightarrow> fst (disconnect m) = Inr ()) \<and>
      fst (dispatch data ctx evt m) \<in> {Inr (), Inl (Exn (PyExn RuntimeError))})"
proof -
  note ok = rep_reachable_ok [OF assms] and d = server_okD [OF rep_reachable_ok [OF assms]]
  have "evt \<in> sv_released s \<or>
      (\<exists>j m ph. sv_convs s j = Some (m, ph) \<and> m_pipe m = p \<and> ph \<notin> {Finished, Reaped} \<and> (ctx, evt) \<in> set (owed (m, ph)))"
    if w: "sv_slots s i = Some (Waiting ctx evt p)"
  proof -
    consider "evt \<in> sv_released s" | j m ph where "sv_convs s j = Some (m, ph)" "(ctx, evt) \<in> set (owed (m, ph))"
      using d(5) [OF w] by auto
    then show ?thesis
    proof cases
      case (2 j m ph)
      then obtain i' where i': "sv_slots s i' = Some (Waiting ctx evt (m_pipe m))" using d(8) by fastforce
      with d(3) [OF w i'] w have "m_pipe m = p" by auto
      moreover have "ph \<notin> {Finished, Reaped}"
        using 2 d(1) [OF 2(1)] by (auto simp: mgr_ok.simps owed.simps)
      ultimately show ?thesis using 2 by blast
    qed simp
  qed
  moreover have "length (m_inbox m) \<le> 2 \<and> (sv_clients s p = Some j \<longrightarrow> fst (disconnect m) = Inr ()) \<and>
      fst (dispatch data ctx evt m) \<in> {Inr (), Inl (Exn (PyExn RuntimeError))}"
    if j: "sv_convs s j = Some (m, ph)"
  proof -
    have m: "mgr_ok (m, ph)" using d(1) [OF j] by blast
    have "length (m_inbox m) \<le> 2" using m by (simp add: inbox_length mgr_ok.simps)
    moreover have "fst (disconnect m) = Inr ()" if "sv_clients s p = Some j"
      using disconnect_step(1) [OF m, of "fst (disconnect m)" "snd (disconnect m)"] d(2) [OF that] j by simp
    ultimately show ?thesis using dispatch_cases [OF m, of data ctx evt] by auto
  qed
  ultimately show ?thesis using server_ok_replies [OF ok] by (simp add: replies_ok_def)
qed

text \<open>A run used by the witnesses: client 7 sends a request on the only context, its conversation
  takes it.\<close>

definition demo_server :: rep_server where
  "demo_server = set_conv 0 (\<lparr>m_pipe = 7, m_current = Some (0, 0), m_inbox = [], m_shut = False, m_running = True\<rparr>, Talking)
     (route 0 0 [1] 7 (serve 1))"

lemma demo_server_reachable: "rep_reachable [] demo_server"
proof -
  have "sv_slots (serve 1) 0 = Some (Receiving 0)" by (simp add: serve_def)
  then have "rep_reachable [] (route 0 0 [1] 7 (serve 1))"
    by (rule moved [OF started recv_msg])
  moreover have "sv_convs (route 0 0 [1] 7 (serve 1)) 0 =
      Some (\<lparr>m_pipe = 7, m_current = None, m_inbox = [Some (Item [1] 0 0)], m_shut = False, m_running = True\<rparr>, Talking)"
    by (simp add: route_def find_client_def serve_def Let_def Manager_init_def dispatch_def put_nowait_def)
  moreover have "mgr_arecv \<lparr>m_pipe = 7, m_current = None, m_inbox = [Some (Item [1] 0 0)], m_shut = False, m_running = True\<rparr> =
      Some (Inr [1], \<lparr>m_pipe = 7, m_current = Some (0, 0), m_inbox = [], m_shut = False, m_running = True\<rparr>)"
    by (simp add: mgr_arecv_def)
  ultimately show ?thesis unfolding demo_server_def by (rule moved [OF _ conv_recv])
qed

lemma demo_server_state:
  "sv_slots demo_server 0 = Some (Waiting 0 0 7)" "sv_released demo_server = {}"
  by (simp_all add: demo_server_def route_def find_client_def serve_def Let_def Manager_init_def dispatch_def put_nowait_def)

theorem conversation_server_safe_witness:
  "\<exists>j m ph. sv_convs demo_server j = Some (m, ph) \<and> m_pipe m = 7 \<and> ph \<notin> {Finished, Reaped} \<and> (0, 0) \<in> set (owed (m, ph))"
  using conversation_server_safe [OF demo_server_reachable, of 0 0 0 7] demo_server_state by auto

text \<open>No dispatch slot waits for ever: from every reachable state in which a slot waits, the
  steps of the client's task, its termination included, lead to a state in which the slot
  receives again on the same context.\<close>

theorem waiting_slot_freed:
  assumes r: "rep_reachable np s" and w: "sv_slots s i = Some (Waiting ctx evt p)"
  shows "\<exists>s'. (rep_step np)\<^sup>*\<^sup>* s s' \<and> sv_slots s' i = Some (Receiving ctx)"
proof -
  have go: "\<exists>s'. (rep_step np)\<^sup>*\<^sup>* s s' \<and> sv_slots s' i = Some (Receiving ctx)"
    if "(rep_step np)\<^sup>*\<^sup>* s u" "sv_slots u i = Some (Waiting ctx evt p)" "evt \<in> sv_released u" for u
    using rtranclp.rtrancl_into_rtrancl [OF that(1) wait_over [OF that(2,3)]] by auto
  have talk: "\<exists>u. rep_step np v u \<and> sv_slots u i = Some (Waiting ctx evt p) \<and> evt \<in> sv_released u"
    if "sv_convs v j = Some (m, Talking)" "(ctx, evt) \<in> set (owed (m, Talking))" "sv_slots v i = Some (Waiting ctx evt p)"
      "mgr_ok (m, Talking)" for v j m
  proof (intro exI conjI)
    show "rep_step np v (end_conv j m (Inr ()) v)" by (rule conv_ends [OF that(1)])
    show "sv_slots (end_conv j m (Inr ()) v) i = Some (Waiting ctx evt p)" "evt \<in> sv_released (end_conv j m (Inr ()) v)"
      using that finally_step(3) [OF that(4), of "fst (execute_finally m)" "snd (execute_finally m)"]
      by (force simp: end_conv_def Let_def execute_result_def case_prod_beta)+
  qed
  consider "evt \<in> sv_released s" | j m ph where "sv_convs s j = Some (m, ph)" "(ctx, evt) \<in> set (owed (m, ph))"
    using server_okD(5) [OF rep_reachable_ok [OF r] w] by auto
  then show ?thesis
  proof cases
    case (2 j m ph)
    have mok: "mgr_ok (m, ph)" using server_okD(1) [OF rep_reachable_ok [OF r] 2(1)] by blast
    show ?thesis
    proof (cases ph)
      case (Sending c e)
      let ?v = "release [e] (set_conv j (m, Talking) s)"
      have "rep_step np s ?v"
        using conv_sent [of s j m c e np "Inl (PyExn CancelledError)"] 2(1) Sending by (simp add: asend_end_def)
      moreover have "sv_slots ?v i = Some (Waiting ctx evt p)" using w by simp
      moreover have "\<exists>u. (rep_step np)\<^sup>*\<^sup>* ?v u \<and> sv_slots u i = Some (Waiting ctx evt p) \<and> evt \<in> sv_released u"
      proof (cases "(ctx, evt) = (c, e)")
        case True
        then show ?thesis using w by (intro exI [of _ ?v]) simp
      next
        case False
        then have "(ctx, evt) \<in> set (owed (m, Talking))" using 2(2) Sending by (auto simp: owed.simps)
        then show ?thesis using talk [of ?v j m] w mok Sending by (auto simp: mgr_ok.simps)
      qed
      ultimately show ?thesis using go by (meson converse_rtranclp_into_rtranclp)
    next
      case Talking
      then show ?thesis using talk [of s j m] 2 w mok go by (metis r_into_rtranclp)
    qed (use 2 mok in \<open>auto simp: owed.simps mgr_ok.simps\<close>)
  qed (use go w in blast)
qed

theorem waiting_slot_freed_witness:
  "\<exists>s'. (rep_step [])\<^sup>*\<^sup>* demo_server s' \<and> sv_slots s' 0 = Some (Receiving 0)"
  using waiting_slot_freed [OF demo_server_reachable demo_server_state(1)] .

section \<open>The contract between dispatcher and manager\<close>

text \<open>
  What the dispatcher relies on: a manager takes over the event of each dispatched message,
  passes none of them on or duplicates them while it works, and sets all that are left when its
  task ends. \<open>act\<close> is a step of the manager's life.
\<close>

datatype 'w act = Take bytes nat nat | Work 'w

fun life :: "(bytes \<Rightarrow> nat \<Rightarrow> nat \<Rightarrow> 'm \<Rightarrow> 'r \<times> 'm \<times> nat list) \<Rightarrow> ('w \<Rightarrow> 'm \<Rightarrow> 'm \<times> nat list) \<Rightarrow> 'w act list \<Rightarrow> 'm \<Rightarrow> 'm \<times> nat list" where
  "life accept work [] m = (m, [])"
| "life accept work (Take data ctx evt # acts) m =
     (let (r, m1, es) = accept data ctx evt m; (m2, es') = life accept work acts m1 in (m2, es @ es'))"
| "life accept work (Work w # acts) m =
     (let (m1, es) = work w m; (m2, es') = life accept work acts m1 in (m2, es @ es'))"

fun handed_over :: "'w act list \<Rightarrow> nat list" where
  "handed_over [] = []"
| "handed_over (Take data ctx evt # acts) = evt # handed_over acts"
| "handed_over (Work w # acts) = handed_over acts"

locale slot_owner =
  fixes accept :: "bytes \<Rightarrow> nat \<Rightarrow> nat \<Rightarrow> 'm \<Rightarrow> 'r \<times> 'm \<times> nat list"
    and work :: "'w \<Rightarrow> 'm \<Rightarrow> 'm \<times> nat list"
    and finish :: "'m \<Rightarrow> 'm \<times> nat list"
    and duties :: "'m \<Rightarrow> nat list"
    and wf :: "'m \<Rightarrow> bool"
  assumes accept_keeps: "wf m \<Longrightarrow> accept data ctx evt m = (r, m', es) \<Longrightarrow>
      wf m' \<and> mset (duties m') + mset es = add_mset evt (mset (duties m))"
    and work_keeps: "wf m \<Longrightarrow> work w m = (m', es) \<Longrightarrow> wf m' \<and> mset (duties m') + mset es = mset (duties m)"
    and finish_frees: "wf m \<Longrightarrow> finish m = (m', es) \<Longrightarrow> duties m' = [] \<and> mset es = mset (duties m)"
begin

lemma life_conserves:
  "wf m \<Longrightarrow> life accept work acts m = (m', es) \<Longrightarrow>
     wf m' \<and> mset (duties m') + mset es = mset (handed_over acts) + mset (duties m)"
proof (induction acts arbitrary: m m' es)
  case (Cons a acts)
  show ?case
  proof (cases a)
    case (Take data ctx evt)
    obtain r m1 es1 where 1: "accept data ctx evt m = (r, m1, es1)" by (metis prod.exhaust)
    obtain m2 es2 where 2: "life accept work acts m1 = (m2, es2)" by force
    from accept_keeps [OF Cons.prems(1) 1] have m1: "wf m1" "mset (duties m1) + mset es1 = add_mset evt (mset (duties m))" by auto
    from Cons.IH [OF m1(1) 2] have "wf m2" "mset (duties m2) + mset es2 = mset (handed_over acts) + mset (duties m1)" by auto
    then show ?thesis using Cons.prems(2) Take 1 2 m1(2) by (auto simp: union_assoc) (metis union_assoc union_commute union_mset_add_mset_right)
  next
    case (Work w)
    obtain m1 es1 where 1: "work w m = (m1, es1)" by force
    obtain m2 es2 where 2: "life accept work acts m1 = (m2, es2)" by force
    from work_keeps [OF Cons.prems(1) 1] have m1: "wf m1" "mset (duties m1) + mset es1 = mset (duties m)" by auto
    from Cons.IH [OF m1(1) 2] have "wf m2" "mset (duties m2) + mset es2 = mset (handed_over acts) + mset (duties m1)" by auto
    then show ?thesis using Cons.prems(2) Work 1 2 m1(2) by (auto simp: union_assoc) (metis union_assoc union_commute)
  qed
qed simp

lemma every_event_set_once:
  assumes "wf m" "duties m = []" "life accept work acts m = (m', es)" "finish m' = (m'', es')"
  shows "mset (es @ es') = mset (handed_over acts) \<and> duties m'' = []"
  using life_conserves [OF assms(1,3)] finish_frees [OF _ assms(4)] assms(2) by (auto simp: union_commute)

end

text \<open>The work of a conversation: receiving, replying with any outcome, and being disconnected.\<close>

datatype conv_work = WRecv | WSend "unit result" | WDisconnect

fun conv_do :: "conv_work \<Rightarrow> manager \<Rightarrow> manager \<times> nat list" where
  "conv_do WRecv m = (case mgr_arecv m of None \<Rightarrow> (m, []) | Some (r, m') \<Rightarrow> (m', []))"
| "conv_do (WSend outcome) m =
     (case asend_begin m of (Inl e, m') \<Rightarrow> (m', []) | (Inr (ctx, evt), m') \<Rightarrow> (m', snd (asend_end outcome evt)))"
| "conv_do WDisconnect m = (snd (disconnect m), [])"

definition slot_wf :: "manager \<Rightarrow> bool" where
  "slot_wf m \<longleftrightarrow> length (items (m_inbox m)) \<le> 1 \<and> (m_current m \<noteq> None \<longrightarrow> items (m_inbox m) = [])"

interpretation conv_slots: slot_owner dispatch conv_do execute_finally "\<lambda>m. map snd (owed (m, Talking))" slot_wf
proof unfold_locales
  fix m m' :: manager and data ctx evt r es
  assume "slot_wf m" "dispatch data ctx evt m = (r, m', es)"
  then show "slot_wf m' \<and> mset (map snd (owed (m', Talking))) + mset es = add_mset evt (mset (map snd (owed (m, Talking))))"
    by (auto simp: dispatch_def put_nowait_def slot_wf_def owed.simps split: if_splits sum.splits)
next
  fix m m' :: manager and w es
  assume "slot_wf m" "conv_do w m = (m', es)"
  then show "slot_wf m' \<and> mset (map snd (owed (m', Talking))) + mset es = mset (map snd (owed (m, Talking)))"
    by (cases w)
      (auto simp: mgr_arecv_def asend_begin_def asend_end_def disconnect_def put_nowait_def slot_wf_def owed.simps Let_def
        split: option.splits list.splits item.splits if_splits)
next
  fix m m' :: manager and es
  assume "slot_wf m" "execute_finally m = (m', es)"
  then show "map snd (owed (m', Talking)) = [] \<and> mset es = mset (map snd (owed (m, Talking)))"
    by (auto simp: execute_finally_def owed.simps drain_items split: option.splits)
qed

text \<open>Every message handed to the manager of a client frees its dispatch slot exactly once:
  whatever the conversation does (receive, reply, fail to reply, ignore requests) and whenever
  messages and the disconnect arrive, the events set during its life and by its termination
  are, as a multiset, those of the dispatched messages.\<close>

theorem dispatched_slots_set_once:
  assumes "life dispatch conv_do acts (Manager_init p) = (m, es)" "execute_finally m = (m', es')"
  shows "mset (es @ es') = mset (handed_over acts)"
  using conv_slots.every_event_set_once [OF _ _ assms]
  by (simp add: Manager_init_def slot_wf_def owed.simps)

theorem dispatched_slots_set_once_witness:
  "mset (snd (life dispatch conv_do [Take [1] 0 5, Work WRecv, Take [2] 1 6, Work (WSend (Inr ())), Take [3] 0 7] (Manager_init 9)) @ [7]) =
   {#5, 6, 7#}"
proof -
  let ?acts = "[Take [1] 0 5, Work WRecv, Take [2] 1 6, Work (WSend (Inr ())), Take [3] 0 7]"
  obtain m es where l: "life dispatch conv_do ?acts (Manager_init 9) = (m, es)" by force
  then have m: "m = \<lparr>m_pipe = 9, m_current = None, m_inbox = [Some (Item [3] 0 7)], m_shut = False, m_running = True\<rparr>"
    by (auto simp: Manager_init_def dispatch_def put_nowait_def mgr_arecv_def asend_begin_def asend_end_def)
  from m have "execute_finally m = (m\<lparr>m_running := False, m_current := None, m_inbox := [], m_shut := True\<rparr>, [7])"
    by (simp add: execute_finally_def)
  from dispatched_slots_set_once [OF l this] have "mset (es @ [7]) = {#5, 6, 7#}" by simp
  then show ?thesis unfolding l by simp
qed

end
