(* ===== verification/Calculator.thy ===== *)
theory Calculator
  imports Codec Conversation
begin

text \<open>
  The demo of the conversation server (\<open>CalculatorServer\<close> of
  \<^verbatim>\<open>examples/REP-REQ/conversation/server.py\<close>): the command interpreter and the conversation it
  runs. Floating-point numbers, their printing and the text functions \<open>lower\<close> and \<open>repr\<close> of the
  interpreter are the fields of the argument \<open>E\<close>.
\<close>

record 'f interp =
  f_zero :: 'f
  f_add :: "'f \<Rightarrow> 'f \<Rightarrow> 'f"
  f_sub :: "'f \<Rightarrow> 'f \<Rightarrow> 'f"
  f_mul :: "'f \<Rightarrow> 'f \<Rightarrow> 'f"
  f_div :: "'f \<Rightarrow> 'f \<Rightarrow> 'f"
  f_is_zero :: "'f \<Rightarrow> bool"
  f_parse :: "pystr \<Rightarrow> 'f option"
  f_show :: "'f \<Rightarrow> pystr"
  t_lower :: "pystr \<Rightarrow> pystr"
  t_repr :: "pystr \<Rightarrow> pystr"

text \<open>\<open>command.split(maxsplit=1)\<close>: the first word, and the rest without the white space around it
  on the left.\<close>

definition split_once :: "pystr \<Rightarrow> pystr list" where
  "split_once s =
     (let t = dropWhile str_space s; w = takeWhile (\<lambda>c. \<not> str_space c) t;
          r = dropWhile str_space (dropWhile (\<lambda>c. \<not> str_space c) t) in
      if t = [] then [] else if r = [] then [w] else [w, r])"

definition handle_command :: "'f interp \<Rightarrow> pystr \<Rightarrow> 'f \<Rightarrow> ('f \<times> pystr) option" where
  "handle_command E command accumulator =
     (let parts = split_once command;
          op = (case parts of [] \<Rightarrow> [] | w # _ \<Rightarrow> t_lower E w) in
      if op = lit ''quit'' then None
      else if op = lit ''result'' then Some (accumulator, f_show E accumulator)
      else if op = lit ''reset'' then Some (f_zero E, lit ''0'')
      else if op \<notin> {lit ''add'', lit ''sub'', lit ''mul'', lit ''div''} then
        Some (accumulator, lit ''Error: unknown command '' @ t_repr E op)
      else if length parts < 2 then
        Some (accumulator, lit ''Error: '' @ op @ lit '' requires a numeric argument'')
      else
        (case f_parse E (parts ! 1) of
           None \<Rightarrow> Some (accumulator, lit ''Error: '' @ t_repr E (parts ! 1) @ lit '' is not a number'')
         | Some operand \<Rightarrow>
             if op = lit ''div'' \<and> f_is_zero E operand then Some (accumulator, lit ''Error: division by zero'')
             else
               (let new = (if op = lit ''add'' then f_add E accumulator operand
                           else if op = lit ''sub'' then f_sub E accumulator operand
                           else if op = lit ''mul'' then f_mul E accumulator operand
                           else f_div E accumulator operand)
                in Some (new, f_show E new))))"

text \<open>
  The loop of the conversation over the messages of a client, until it quits or disconnects: how
  it ends, and the replies. A reply that cannot be encoded raises, as does a command that is not
  UTF-8.
\<close>

fun calc_loop :: "'f interp \<Rightarrow> 'f \<Rightarrow> bytes list \<Rightarrow> unit result \<times> bytes list" where
  "calc_loop E accumulator [] = (Inr (), [])"
| "calc_loop E accumulator (m # ms) =
     (case bytes_decode m of
        Inl e \<Rightarrow> (Inl e, [])
      | Inr text \<Rightarrow>
          (case handle_command E (str_strip text) accumulator of
             None \<Rightarrow> (Inr (), [map of_char ''bye''])
           | Some (new_value, response) \<Rightarrow>
               (case str_encode response of
                  Inl e \<Rightarrow> (Inl e, [])
                | Inr bs \<Rightarrow> (let (r, replies) = calc_loop E new_value ms in (r, bs # replies)))))"

definition calc_conversation :: "'f interp \<Rightarrow> bytes list \<Rightarrow> unit result \<times> bytes list" where
  "calc_conversation E msgs =
     (case msgs of
        [] \<Rightarrow> (Inl (PyExn ConnectionResetError), [])
      | first # ms \<Rightarrow>
          if first \<noteq> map of_char ''start conversation''
          then (Inr (), [map of_char ''Expected 'start conversation' as the first message''])
          else (let (r, replies) = calc_loop E (f_zero E) ms in (r, map of_char ''ok'' # replies)))"

section \<open>Properties\<close>

text \<open>The command language the documentation describes.\<close>

datatype 'f command = Add 'f | Sub 'f | Mul 'f | Div 'f | Reset | Result

fun meaning :: "'f interp \<Rightarrow> 'f \<Rightarrow> 'f command \<Rightarrow> 'f" where
  "meaning E a (Add x) = f_add E a x"
| "meaning E a (Sub x) = f_sub E a x"
| "meaning E a (Mul x) = f_mul E a x"
| "meaning E a (Div x) = f_div E a x"
| "meaning E a Reset = f_zero E"
| "meaning E a Result = a"

text \<open>\<open>spells\<close>: a text is a spelling of a command.\<close>

fun spells :: "'f interp \<Rightarrow> pystr \<Rightarrow> 'f command \<Rightarrow> bool" where
  "spells E s (Add x) \<longleftrightarrow> (\<exists>w r. split_once s = [w, r] \<and> t_lower E w = lit ''add'' \<and> f_parse E r = Some x)"
| "spells E s (Sub x) \<longleftrightarrow> (\<exists>w r. split_once s = [w, r] \<and> t_lower E w = lit ''sub'' \<and> f_parse E r = Some x)"
| "spells E s (Mul x) \<longleftrightarrow> (\<exists>w r. split_once s = [w, r] \<and> t_lower E w = lit ''mul'' \<and> f_parse E r = Some x)"
| "spells E s (Div x) \<longleftrightarrow> (\<exists>w r. split_once s = [w, r] \<and> t_lower E w = lit ''div'' \<and> f_parse E r = Some x \<and> \<not> f_is_zero E x)"
| "spells E s Reset \<longleftrightarrow> (\<exists>w r. split_once s = w # r \<and> t_lower E w = lit ''reset'')"
| "spells E s Result \<longleftrightarrow> (\<exists>w r. split_once s = w # r \<and> t_lower E w = lit ''result'')"

lemma split_once_cases:
  obtains "split_once s = []" | w where "split_once s = [w]" | w r where "split_once s = [w, r]"
proof -
  have "\<exists>t w r. split_once s = (if t = ([] :: pystr) then [] else if r = [] then [w] else [w, r])"
    unfolding split_once_def Let_def by blast
  then show thesis using that by metis
qed

text \<open>The calculator does what its command language says: a text that spells a command sets the
  accumulator to the command's meaning, \<open>quit\<close> and nothing else ends the session, and every other
  text leaves the accumulator alone and is answered with an error.\<close>

theorem calculator_commands:
  "(handle_command E s a = None \<longleftrightarrow> (\<exists>w r. split_once s = w # r \<and> t_lower E w = lit ''quit'')) \<and>
   (spells E s c \<longrightarrow> (\<exists>t. handle_command E s a = Some (meaning E a c, t))) \<and>
   (handle_command E s a \<noteq> None \<and> (\<forall>c. \<not> spells E s c) \<longrightarrow> (\<exists>t. handle_command E s a = Some (a, lit ''Error: '' @ t)))"
proof (cases s rule: split_once_cases)
  case 1
  then show ?thesis by (cases c) (simp_all add: handle_command_def)
next
  case (2 w)
  have r: "\<forall>c. \<not> spells E s c \<Longrightarrow> t_lower E w \<noteq> lit ''reset'' \<and> t_lower E w \<noteq> lit ''result''"
    using 2 spells.simps(5,6) [of E s] by (metis (no_types) )
  show ?thesis using 2 r by (cases c) (auto simp: handle_command_def Let_def)
next
  case (3 w r)
  have s: "\<forall>c. \<not> spells E s c \<Longrightarrow> t_lower E w \<noteq> lit ''reset'' \<and> t_lower E w \<noteq> lit ''result'' \<and>
      (f_parse E r = Some x \<longrightarrow> t_lower E w \<noteq> lit ''add'' \<and> t_lower E w \<noteq> lit ''sub'' \<and> t_lower E w \<noteq> lit ''mul'' \<and>
         (t_lower E w = lit ''div'' \<longrightarrow> f_is_zero E x))" for x
    using 3 spells.simps [of E s] by metis
  show ?thesis using 3 s by (cases c) (auto simp: handle_command_def Let_def split: option.splits)
qed

theorem calculator_commands_witness:
  "handle_command \<lparr>f_zero = 0, f_add = (+), f_sub = (-), f_mul = (*), f_div = (div), f_is_zero = (\<lambda>x. x = 0),
     f_parse = (\<lambda>s. case s of [c] \<Rightarrow> Some (int c - 48) | _ \<Rightarrow> None), f_show = (\<lambda>x. []), t_lower = id, t_repr = id\<rparr>
     (lit ''mul 3'') 4 = Some (12, [])"
  (is "handle_command ?E ?s _ = _")
proof -
  have "spells ?E ?s (Mul 3)" by (simp add: split_once_def str_space_def ascii_space_def)
  then obtain t where "handle_command ?E ?s 4 = Some (meaning ?E 4 (Mul 3), t)"
    using calculator_commands [of ?E ?s 4 "Mul 3"] by blast
  then show ?thesis by (simp add: handle_command_def split_once_def str_space_def ascii_space_def)
qed

text \<open>
  One message can end the service for everybody. A command that is not UTF-8 makes the
  conversation raise \<open>UnicodeDecodeError\<close>, which neither the calculator nor the client's task
  catches: it leaves the task, and the task group that owns all tasks of the server fails.
\<close>

lemma not_connection_reset: "\<not> isinstance (PyExn UnicodeError) (BuiltinC ConnectionResetError)"
  by code_simp

theorem undecodable_command_fails_server:
  assumes "bytes_decode bad = Inl e"
  shows "fst (calc_conversation E (map of_char ''start conversation'' # bad # ms)) = Inl (PyExn UnicodeError) \<and>
    sv_failed (end_conv j m (fst (calc_conversation E (map of_char ''start conversation'' # bad # ms))) s)"
proof -
  have "e = PyExn UnicodeError" using assms by (auto simp: bytes_decode_def split: option.splits)
  then have "calc_conversation E (map of_char ''start conversation'' # bad # ms) = (Inl (PyExn UnicodeError), [map of_char ''ok''])"
    using assms by (simp add: calc_conversation_def)
  then show ?thesis by (simp add: end_conv_def execute_result_def not_connection_reset Let_def case_prod_beta)
qed

end
