(* ===== verification/CalcClient.thy ===== *)
theory CalcClient
  imports Calculator
begin

text \<open>
  The client of the calculator server (\<^verbatim>\<open>examples/REP-REQ/conversation/client.py\<close>), run against the
  conversation of \<open>Calculator\<close>. Over the request socket a message gets its reply before the
  next one is sent, so the server is a function from the messages so far to its replies so far; a
  message that gets no reply leaves the client waiting (\<open>None\<close>).
\<close>

section \<open>The session\<close>

type_synonym conv_server = "bytes list \<Rightarrow> bytes list"

definition reply_to :: "conv_server \<Rightarrow> bytes list \<Rightarrow> bytes option" where
  "reply_to srv sent_msgs =
     (if length sent_msgs \<le> length (srv sent_msgs) then Some (srv sent_msgs ! (length sent_msgs - 1)) else None)"

text \<open>\<open>_exchange\<close>: the messages sent afterwards, and the decoded reply.\<close>

definition exchange :: "conv_server \<Rightarrow> bytes list \<Rightarrow> pystr \<Rightarrow> (bytes list \<times> pystr) result option" where
  "exchange srv sent_msgs command =
     (case str_encode command of
        Inl e \<Rightarrow> Some (Inl e)
      | Inr b \<Rightarrow>
          (case reply_to srv (sent_msgs @ [b]) of
             None \<Rightarrow> None
           | Some got \<Rightarrow> Some (bindR (bytes_decode got) (\<lambda>s. Inr (sent_msgs @ [b], s)))))"

text \<open>The commands and the final \<open>quit\<close>: the replies that are logged.\<close>

fun session_loop :: "conv_server \<Rightarrow> bytes list \<Rightarrow> pystr list \<Rightarrow> pystr list result option" where
  "session_loop srv sent_msgs [] =
     map_option (\<lambda>r. bindR r (\<lambda>(_, farewell). Inr [farewell])) (exchange srv sent_msgs (lit ''quit''))"
| "session_loop srv sent_msgs (cmd # commands) =
     (case exchange srv sent_msgs cmd of
        None \<Rightarrow> None
      | Some (Inl e) \<Rightarrow> Some (Inl e)
      | Some (Inr (msgs, got)) \<Rightarrow>
          map_option (\<lambda>r. bindR r (\<lambda>rs. Inr (got # rs))) (session_loop srv msgs commands))"

definition run_session :: "conv_server \<Rightarrow> pystr list \<Rightarrow> pystr list result option" where
  "run_session srv commands =
     (let start = [map of_char ''start conversation''] in
      case reply_to srv start of
        None \<Rightarrow> None
      | Some got \<Rightarrow> if got \<noteq> map of_char ''ok'' then Some (Inr []) else session_loop srv start commands)"

section \<open>The demo sessions\<close>

definition session_A :: "pystr list" where
  "session_A = map lit [''add 10'', ''mul 3'', ''sub 5'', ''div 5'', ''result'']"

definition session_B :: "pystr list" where
  "session_B = map lit [''add 100'', ''div 0'', ''add banana'', ''bogus'', ''result'', ''reset'', ''add 7'', ''mul 6'']"

definition session_C :: "pystr list" where
  "session_C = map lit [''add 1'', ''add 2'', ''add 3'', ''add 4'', ''add 5'', ''mul 2'', ''sub 3'', ''div 3'', ''result'']"

section \<open>What a session shows\<close>

text \<open>The replies to a list of commands by the command interpreter alone, and its last value.\<close>

fun calc_replies :: "'f interp \<Rightarrow> 'f \<Rightarrow> pystr list \<Rightarrow> pystr list option" where
  "calc_replies E a [] = Some []"
| "calc_replies E a (c # cs) =
     (case handle_command E (str_strip c) a of
        None \<Rightarrow> None
      | Some (v, response) \<Rightarrow> map_option (Cons response) (calc_replies E v cs))"

lemma handle_quit:
  assumes "t_lower E (lit ''quit'') = lit ''quit''"
  shows "handle_command E (str_strip (lit ''quit'')) a = None"
  using assms by (simp add: handle_command_def split_once_def str_strip_def str_space_def ascii_space_def)

text \<open>
  The client's loop against a server whose replies so far are \<open>pre\<close>, one to each message sent,
  and that continues as the calculator's loop.
\<close>

lemma session_loop_follows:
  assumes "\<And>ms. srv (sent_msgs @ ms) = pre @ snd (calc_loop E v ms)" "length pre = length sent_msgs"
    and "list_all (list_all scalar) cs" "calc_replies E v cs = Some rs" "list_all (list_all scalar) rs"
    and "t_lower E (lit ''quit'') = lit ''quit''"
  shows "session_loop srv sent_msgs cs = Some (Inr (rs @ [lit ''bye'']))"
  using assms(1-5)
proof (induction cs arbitrary: sent_msgs pre v rs)
  case Nil
  have "bytes_decode (utf8 (lit ''bye'')) = Inr (lit ''bye'')" by (rule decode_utf8 [OF scalar_lit])
  moreover have "utf8 (lit ''bye'') = map of_char ''bye''" by (simp add: utf8_def b8_def)
  moreover have "srv (sent_msgs @ [utf8 (lit ''quit'')]) = pre @ [map of_char ''bye'']"
    using Nil.prems(1) [of "[utf8 (lit ''quit'')]"] handle_quit [OF assms(6), of v] decode_utf8 [OF scalar_lit, of "''quit''"]
    by simp
  ultimately show ?case using Nil.prems(2,4) encode_utf8 [OF scalar_lit, of "''quit''"]
    by (simp add: exchange_def reply_to_def nth_append)
next
  case (Cons c cs)
  from Cons.prems(4) obtain v' resp rs' where h: "handle_command E (str_strip c) v = Some (v', resp)"
    and r: "calc_replies E v' cs = Some rs'" "rs = resp # rs'" by (auto split: option.splits)
  have sc: "list_all scalar c" "list_all scalar resp" using Cons.prems(3,5) r(2) by auto
  have loop: "snd (calc_loop E v (utf8 c # ms)) = utf8 resp # snd (calc_loop E v' ms)" for ms
    using sc h by (simp add: decode_utf8 encode_utf8 case_prod_beta)
  have srv: "srv ((sent_msgs @ [utf8 c]) @ ms) = (pre @ [utf8 resp]) @ snd (calc_loop E v' ms)" for ms
    using Cons.prems(1) [of "utf8 c # ms"] loop by simp
  have ex: "exchange srv sent_msgs c = Some (Inr (sent_msgs @ [utf8 c], resp))"
    using srv [of "[]"] Cons.prems(2) sc by (simp add: exchange_def encode_utf8 decode_utf8 reply_to_def nth_append)
  have "session_loop srv (sent_msgs @ [utf8 c]) cs = Some (Inr (rs' @ [lit ''bye'']))"
    using Cons.IH [OF srv _ _ r(1)] Cons.prems(2,3,5) r(2) by simp
  with ex r(2) show ?case by simp
qed

text \<open>C29: the client's session shows exactly what the command interpreter computes: against the
  calculator's conversation, every command is answered with its own result, errors included, in
  order, and \<open>quit\<close> ends the session with its farewell.\<close>

theorem session_follows_calculator:
  assumes "list_all (list_all scalar) commands" "calc_replies E (f_zero E) commands = Some rs"
    and "list_all (list_all scalar) rs" "t_lower E (lit ''quit'') = lit ''quit''"
  shows "run_session (\<lambda>msgs. snd (calc_conversation E msgs)) commands = Some (Inr (rs @ [lit ''bye'']))"
proof -
  let ?srv = "\<lambda>msgs. snd (calc_conversation E msgs)" and ?start = "[map of_char ''start conversation''] :: bytes list"
  have srv: "?srv (?start @ ms) = [map of_char ''ok''] @ snd (calc_loop E (f_zero E) ms)" for ms
    by (simp add: calc_conversation_def case_prod_beta)
  have "session_loop ?srv ?start commands = Some (Inr (rs @ [lit ''bye'']))"
    by (rule session_loop_follows [OF srv _ assms]) simp
  moreover have "reply_to ?srv ?start = Some (map of_char ''ok'')" using srv [of "[]"] by (simp add: reply_to_def)
  ultimately show ?thesis by (simp add: run_session_def)
qed

text \<open>An interpretation on whole numbers, on which the demo sessions compute what their comments say.\<close>

fun dec_digits :: "nat \<Rightarrow> pystr" where
  "dec_digits n = (if n < 10 then [48 + n] else dec_digits (n div 10) @ [48 + n mod 10])"

fun dec_parse :: "nat \<Rightarrow> pystr \<Rightarrow> nat option" where
  "dec_parse a [] = Some a"
| "dec_parse a (c # r) = (if 48 \<le> c \<and> c \<le> 57 then dec_parse (a * 10 + (c - 48)) r else None)"

definition nat_interp :: "nat interp" where
  "nat_interp = \<lparr>f_zero = 0, f_add = (+), f_sub = (-), f_mul = (*), f_div = (div), f_is_zero = (\<lambda>x. x = 0),
     f_parse = dec_parse 0, f_show = dec_digits, t_lower = id, t_repr = (\<lambda>s. 39 # s @ [39])\<rparr>"

lemmas command_eval = handle_command_def split_once_def str_strip_def str_space_def ascii_space_def nat_interp_def Let_def

lemma session_replies:
  "calc_replies nat_interp 0 session_A = Some (map lit [''10'', ''30'', ''25'', ''5'', ''5''])"
  "calc_replies nat_interp 0 session_B = Some (lit ''100'' # lit ''Error: division by zero'' # (lit ''Error: '' @ 39 # lit ''banana'' @ 39 # lit '' is not a number'') #
     (lit ''Error: unknown command '' @ 39 # lit ''bogus'' @ [39]) # map lit [''100'', ''0'', ''7'', ''42''])"
  "calc_replies nat_interp 0 session_C = Some (map lit [''1'', ''3'', ''6'', ''10'', ''15'', ''30'', ''27'', ''9'', ''9''])"
  by (simp_all add: session_A_def session_B_def session_C_def command_eval)

theorem session_follows_calculator_witness:
  "run_session (\<lambda>msgs. snd (calc_conversation nat_interp msgs)) session_A = Some (Inr (map lit [''10'', ''30'', ''25'', ''5'', ''5'', ''bye'']))"
proof -
  have s: "list_all (list_all scalar) (map lit xs)" for xs by (induction xs) (simp_all add: scalar_lit)
  have z: "f_zero nat_interp = 0" "t_lower nat_interp (lit ''quit'') = lit ''quit''" by (simp_all add: nat_interp_def)
  have c: "list_all (list_all scalar) session_A" unfolding session_A_def by (rule s)
  from session_follows_calculator [OF c session_replies(1) [folded z(1)] s z(2)] show ?thesis by simp
qed

end
