(* ===== verification/Handshake.thy ===== *)
theory Handshake
  imports Codec Transfers
begin

text \<open>
  The mutually authenticated handshake of the secure sockets
  (\<^verbatim>\<open>secure_sockets/security_utils.py\<close>, \<^verbatim>\<open>secure_pair.py\<close>, \<^verbatim>\<open>secure_req.py\<close>): the messages
  each side builds and verifies, the pair and request sockets around them with their peer
  check, and encrypted transfers. The cryptography comes from PyNaCl, which is not part of the
  repository: it is the argument \<open>N\<close> of every definition that uses it, and \<open>nacl_ok\<close> names the
  documented behaviour the properties rely on.
\<close>

section \<open>The cryptographic library\<close>

text \<open>
  \<open>Blocked\<close> is no exception of the program: it marks a call that waits for a message that never
  arrives.
\<close>

datatype sec_exn = Raised py_exn | BadSignatureError | CryptoError | Blocked

record nacl =
  n_verify_key :: "bytes \<Rightarrow> bytes"
  n_sign :: "bytes \<Rightarrow> bytes \<Rightarrow> bytes"
  n_verify :: "bytes \<Rightarrow> bytes \<Rightarrow> bytes \<Rightarrow> sec_exn + unit"
  n_public_key :: "bytes \<Rightarrow> bytes"
  n_PublicKey :: "bytes \<Rightarrow> sec_exn + bytes"
  n_Box :: "bytes \<Rightarrow> bytes \<Rightarrow> sec_exn + bytes"
  n_encrypt :: "bytes \<Rightarrow> bytes \<Rightarrow> bytes \<Rightarrow> bytes"
  n_decrypt :: "bytes \<Rightarrow> bytes \<Rightarrow> sec_exn + bytes"

text \<open>
  Signatures of a key verify under its verify key, and verifying a signature made by the library
  either succeeds or raises \<open>BadSignatureError\<close>; a public key is any 32 octets and other
  lengths are refused; the two boxes of two key pairs are the same box; a box opens what it
  sealed.
\<close>

definition nacl_ok :: "nacl \<Rightarrow> bool" where
  "nacl_ok N \<longleftrightarrow>
     (\<forall>sk m. n_verify N (n_verify_key N sk) m (n_sign N sk m) = Inr ()) \<and>
     (\<forall>vk sk m m'. n_verify N vk m (n_sign N sk m') \<in> {Inr (), Inl BadSignatureError}) \<and>
     (\<forall>a. length (n_public_key N a) = 32) \<and>
     (\<forall>bs. n_PublicKey N bs = (if length bs = 32 then Inr bs else Inl (Raised (PyExn ValueError)))) \<and>
     (\<forall>a b. n_Box N a (n_public_key N b) = n_Box N b (n_public_key N a)) \<and>
     (\<forall>a b. \<exists>k. n_Box N a (n_public_key N b) = Inr k) \<and>
     (\<forall>k n m. n_decrypt N k (n_encrypt N k n m) = Inr m)"

definition raised :: "'a result \<Rightarrow> sec_exn + 'a" where
  "raised r = map_sum Raised id r"

section \<open>Keys and handshake messages\<close>

definition derive_verify_key :: "nacl \<Rightarrow> bytes \<Rightarrow> bytes" where
  "derive_verify_key N signing_key = n_verify_key N signing_key"

text \<open>\<open>seed\<close> is the randomness \<open>PrivateKey.generate\<close> draws.\<close>

definition generate_ephemeral_keypair :: "nacl \<Rightarrow> bytes \<Rightarrow> bytes \<times> bytes" where
  "generate_ephemeral_keypair N seed = (seed, n_public_key N seed)"

definition make_session_box :: "nacl \<Rightarrow> bytes \<Rightarrow> bytes \<Rightarrow> sec_exn + bytes" where
  "make_session_box N my_private their_public = n_Box N my_private their_public"

text \<open>
  \<open>b64dec\<close> on a field of a received message, which may hold any JSON value: \<open>len\<close> or the
  concatenation with padding raises \<open>TypeError\<close> on everything but a string.
\<close>

definition field_b64dec :: "json \<Rightarrow> sec_exn + bytes" where
  "field_b64dec v = (case v of JStr s \<Rightarrow> raised (b64dec s) | _ \<Rightarrow> Inl (Raised (PyExn TypeError)))"

definition make_client_hello :: "bytes \<Rightarrow> bytes \<Rightarrow> pystr HandshakeClientHello" where
  "make_client_hello client_ephem_pub client_challenge =
     \<lparr>client_ephem_pub_b64 = b64enc client_ephem_pub, client_challenge_b64 = b64enc client_challenge\<rparr>"

definition make_server_auth ::
    "nacl \<Rightarrow> bytes \<Rightarrow> bytes \<Rightarrow> bytes \<Rightarrow> bytes \<Rightarrow> bytes \<Rightarrow> pystr HandshakeServerAuth" where
  "make_server_auth N client_ephem_pub client_challenge server_ephem_pub server_challenge server_signing_key =
     (let signed_data = client_ephem_pub @ client_challenge @ server_ephem_pub @ server_challenge in
      \<lparr>server_ephem_pub_b64 = b64enc server_ephem_pub,
       server_challenge_b64 = b64enc server_challenge,
       auth_signature_b64 = b64enc (n_sign N server_signing_key signed_data)\<rparr>)"

definition verify_server_auth ::
    "nacl \<Rightarrow> json HandshakeServerAuth \<Rightarrow> bytes \<Rightarrow> bytes \<Rightarrow> bytes \<Rightarrow> sec_exn + (bytes \<times> bytes)" where
  "verify_server_auth N m server_verify_key client_ephem_pub client_challenge =
     bindR (field_b64dec (server_ephem_pub_b64 m)) (\<lambda>server_ephem_bytes.
     bindR (field_b64dec (server_challenge_b64 m)) (\<lambda>server_challenge.
     bindR (field_b64dec (auth_signature_b64 m)) (\<lambda>sig_bytes.
     let signed_data = client_ephem_pub @ client_challenge @ server_ephem_bytes @ server_challenge in
     bindR (n_verify N server_verify_key signed_data sig_bytes) (\<lambda>_.
     bindR (n_PublicKey N server_ephem_bytes) (\<lambda>pub. Inr (pub, server_challenge))))))"

definition make_client_confirm ::
    "nacl \<Rightarrow> bytes \<Rightarrow> bytes \<Rightarrow> bytes \<Rightarrow> bytes \<Rightarrow> bytes \<Rightarrow> pystr HandshakeClientConfirm" where
  "make_client_confirm N server_challenge client_challenge server_ephem_pub client_ephem_pub client_signing_key =
     (let signed_data = server_challenge @ client_challenge @ server_ephem_pub @ client_ephem_pub in
      \<lparr>confirm_signature_b64 = b64enc (n_sign N client_signing_key signed_data)\<rparr>)"

text \<open>The loop over the authorised keys, in the order the frozen set yields them.\<close>

fun try_keys :: "nacl \<Rightarrow> bytes list \<Rightarrow> bytes \<Rightarrow> bytes \<Rightarrow> sec_exn + unit" where
  "try_keys N [] signed_data sig_bytes = Inl BadSignatureError"
| "try_keys N (vk # vks) signed_data sig_bytes =
     (case n_verify N vk signed_data sig_bytes of
        Inr _ \<Rightarrow> Inr ()
      | Inl BadSignatureError \<Rightarrow> try_keys N vks signed_data sig_bytes
      | Inl e \<Rightarrow> Inl e)"

definition verify_client_confirm ::
    "nacl \<Rightarrow> json HandshakeClientConfirm \<Rightarrow> bytes list \<Rightarrow> bytes \<Rightarrow> bytes \<Rightarrow> bytes \<Rightarrow> bytes \<Rightarrow> sec_exn + unit" where
  "verify_client_confirm N m authorized_vks server_challenge client_challenge server_ephem_pub client_ephem_pub =
     (let signed_data = server_challenge @ client_challenge @ server_ephem_pub @ client_ephem_pub in
      bindR (field_b64dec (confirm_signature_b64 m)) (\<lambda>sig_bytes.
      try_keys N authorized_vks signed_data sig_bytes))"

section \<open>The socket below the wrappers\<close>

text \<open>
  The state of a wrapper (\<open>BaseSecurePair\<close>, \<open>SecureReqClient\<close>): the session box, the registered
  peer, and of the socket underneath whether it is closed, what it will deliver, what it has
  sent, which sends fail, and the pipes closed so far. \<open>arrivals\<close> is chosen by the network:
  every received message carries its pipe, if it has one. A receive on a socket with no further
  arrival does not return.
\<close>

datatype arrival = Delivered "nat option" bytes | RecvFails py_exn

record secure_sock =
  s_box :: "bytes option"
  s_pipe :: "nat option"
  s_closed :: bool
  s_arrivals :: "arrival list"
  s_wire :: "bytes list"
  s_fault :: "nat \<Rightarrow> py_exn option"
  s_closed_pipes :: "nat list"

type_synonym 'a sock_op = "(secure_sock, sec_exn, 'a) op"

definition sock_close :: "secure_sock \<Rightarrow> secure_sock" where
  "sock_close s = s\<lparr>s_closed := True\<rparr>"

definition sock_send :: "bytes \<Rightarrow> unit sock_op" where
  "sock_send data = (\<lambda>s.
     case check_open OnSocket (\<not> s_closed s) of
       Inl e \<Rightarrow> (Inl (Raised e), s)
     | Inr _ \<Rightarrow>
         (case s_fault s (length (s_wire s)) of
            Some e \<Rightarrow> (Inl (Raised e), s)
          | None \<Rightarrow> (Inr (), s\<lparr>s_wire := s_wire s @ [data]\<rparr>)))"

definition sock_recv :: "(nat option \<times> bytes) sock_op" where
  "sock_recv = (\<lambda>s.
     case check_open OnSocket (\<not> s_closed s) of
       Inl e \<Rightarrow> (Inl (Raised e), s)
     | Inr _ \<Rightarrow>
         (case s_arrivals s of
            [] \<Rightarrow> (Inl Blocked, s)
          | RecvFails e # r \<Rightarrow> (Inl (Raised e), s\<lparr>s_arrivals := r\<rparr>)
          | Delivered p data # r \<Rightarrow> (Inr (p, data), s\<lparr>s_arrivals := r\<rparr>)))"

text \<open>\<open>async with asyncio.timeout(...)\<close>: a body that waits for ever ends in \<open>TimeoutError\<close>.\<close>

definition timeout_scope :: "('s, sec_exn, 'a) op \<Rightarrow> ('s, sec_exn, 'a) op" where
  "timeout_scope act = (\<lambda>s. case act s of (Inl Blocked, s') \<Rightarrow> (Inl (Raised (PyExn TimeoutError)), s') | r \<Rightarrow> r)"

definition set_box :: "bytes \<Rightarrow> unit sock_op" where
  "set_box b = (\<lambda>s. (Inr (), s\<lparr>s_box := Some b\<rparr>))"

section \<open>BaseSecurePair\<close>

definition BaseSecurePair_init :: "arrival list \<Rightarrow> (nat \<Rightarrow> py_exn option) \<Rightarrow> secure_sock" where
  "BaseSecurePair_init incoming faults =
     \<lparr>s_box = None, s_pipe = None, s_closed = False, s_arrivals = incoming, s_wire = [], s_fault = faults,
      s_closed_pipes = []\<rparr>"

definition register_pipe :: "nat option \<Rightarrow> unit sock_op" where
  "register_pipe p = (\<lambda>s.
     case p of
       None \<Rightarrow> (Inl (Raised (PyExn ValueError)), sock_close s)
     | Some q \<Rightarrow>
         if s_pipe s \<noteq> None \<and> s_pipe s \<noteq> Some q then
           (Inl (Raised (PyExn PermissionError)), sock_close (s\<lparr>s_closed_pipes := s_closed_pipes s @ [q]\<rparr>))
         else if s_pipe s = None then (Inr (), s\<lparr>s_pipe := Some q\<rparr>)
         else (Inr (), s))"

text \<open>\<open>status_removed\<close>: the registered pipe's status is \<open>REMOVED\<close>.\<close>

definition handle_pipe_status :: "bool \<Rightarrow> secure_sock \<Rightarrow> secure_sock" where
  "handle_pipe_status status_removed s =
     (if s_pipe s = None then s
      else if status_removed then (sock_close s)\<lparr>s_pipe := None\<rparr>
      else s)"

definition pair_close :: "secure_sock \<Rightarrow> secure_sock" where
  "pair_close s = sock_close s"

text \<open>\<open>nonce\<close> is the randomness one call of \<open>encrypt\<close> draws.\<close>

definition pair_send :: "nacl \<Rightarrow> bytes \<Rightarrow> bytes \<Rightarrow> unit sock_op" where
  "pair_send N nonce data = (\<lambda>s.
     case s_box s of
       None \<Rightarrow> (Inl (Raised (PyExn RuntimeError)), s)
     | Some box \<Rightarrow> sock_send (n_encrypt N box nonce data) s)"

definition pair_recv :: "nacl \<Rightarrow> bytes sock_op" where
  "pair_recv N = (\<lambda>s.
     case s_box s of
       None \<Rightarrow> (Inl (Raised (PyExn RuntimeError)), s)
     | Some box \<Rightarrow>
         bindS sock_recv (\<lambda>(p, data).
         bindS (register_pipe p) (\<lambda>_.
         liftS (n_decrypt N box data))) s)"

text \<open>The asynchronous variants await the same operations of the socket.\<close>

definition pair_asend :: "nacl \<Rightarrow> bytes \<Rightarrow> bytes \<Rightarrow> unit sock_op" where
  "pair_asend N nonce data = pair_send N nonce data"

definition pair_arecv :: "nacl \<Rightarrow> bytes sock_op" where
  "pair_arecv N = pair_recv N"

text \<open>
  \<open>with\<close> and \<open>async with\<close>: entry runs the handshake and leaves the socket open when it raises;
  the exit method runs only after an entry that returned.
\<close>

definition with_block :: "unit sock_op \<Rightarrow> 'a sock_op \<Rightarrow> 'a sock_op" where
  "with_block connect block = (\<lambda>s.
     case connect s of
       (Inl e, s') \<Rightarrow> (Inl e, s')
     | (Inr _, s') \<Rightarrow> (let (r, s'') = block s' in (r, sock_close s'')))"

section \<open>SecurePairServer and SecurePairClient\<close>

record pair_server =
  ps_authorized_vks :: "bytes list"
  ps_signing_key :: bytes

text \<open>\<open>listen\<close> is what \<open>add_listener\<close> and \<open>start\<close> give for the address.\<close>

definition SecurePairServer_create ::
    "unit result \<Rightarrow> bytes list \<Rightarrow> bytes \<Rightarrow> arrival list \<Rightarrow> (nat \<Rightarrow> py_exn option) \<Rightarrow> (pair_server \<times> secure_sock) result" where
  "SecurePairServer_create listen authorized_vks server_signing_key incoming faults =
     bindR listen (\<lambda>_.
       Inr (\<lparr>ps_authorized_vks = authorized_vks, ps_signing_key = server_signing_key\<rparr>, BaseSecurePair_init incoming faults))"

text \<open>
  The handshake of the server; \<open>server_challenge\<close> and \<open>seed\<close> are drawn from the system's
  randomness. The hello is read without looking at its pipe.
\<close>

definition SecurePairServer_connect :: "nacl \<Rightarrow> pair_server \<Rightarrow> bytes \<Rightarrow> bytes \<Rightarrow> unit sock_op" where
  "SecurePairServer_connect N srv server_challenge seed =
     bindS sock_recv (\<lambda>(p, data).
     bindS (liftS (raised (ClientHello_from_json data))) (\<lambda>hello.
     bindS (liftS (bindR (field_b64dec (client_ephem_pub_b64 hello)) (n_PublicKey N))) (\<lambda>client_ephem_pub.
     bindS (liftS (field_b64dec (client_challenge_b64 hello))) (\<lambda>client_challenge.
     let (server_ephem_priv, server_ephem_pub) = generate_ephemeral_keypair N seed in
     bindS (liftS (make_session_box N server_ephem_priv client_ephem_pub)) (\<lambda>box.
     bindS (set_box box) (\<lambda>_.
     bindS (sock_send (ServerAuth_to_json (make_server_auth N client_ephem_pub client_challenge
         server_ephem_pub server_challenge (ps_signing_key srv)))) (\<lambda>_.
     bindS (pair_recv N) (\<lambda>raw.
     bindS (liftS (raised (ClientConfirm_from_json raw))) (\<lambda>confirm.
     liftS (verify_client_confirm N confirm (ps_authorized_vks srv) server_challenge client_challenge
         server_ephem_pub client_ephem_pub))))))))))"

definition SecurePairServer_aconnect :: "nacl \<Rightarrow> pair_server \<Rightarrow> bytes \<Rightarrow> bytes \<Rightarrow> unit sock_op" where
  "SecurePairServer_aconnect N srv server_challenge seed =
     timeout_scope (SecurePairServer_connect N srv server_challenge seed)"

record secure_client =
  c_ephem_priv :: bytes
  c_ephem_pub :: bytes
  c_signing_key :: bytes
  c_server_vk :: bytes

definition SecurePairClient_init :: "nacl \<Rightarrow> bytes \<Rightarrow> bytes \<Rightarrow> bytes \<Rightarrow> secure_client" where
  "SecurePairClient_init N client_signing_key server_verify_key seed =
     (let (priv, pub) = generate_ephemeral_keypair N seed in
      \<lparr>c_ephem_priv = priv, c_ephem_pub = pub, c_signing_key = client_signing_key, c_server_vk = server_verify_key\<rparr>)"

text \<open>
  The part of the client's handshake after dialling; \<open>dial\<close> below is what \<open>add_dialer\<close> and
  \<open>start(block=True)\<close> give.
\<close>

definition pair_client_handshake :: "nacl \<Rightarrow> secure_client \<Rightarrow> bytes \<Rightarrow> bytes \<Rightarrow> unit sock_op" where
  "pair_client_handshake N c client_challenge nonce =
     bindS (sock_send (ClientHello_to_json (make_client_hello (c_ephem_pub c) client_challenge))) (\<lambda>_.
     bindS sock_recv (\<lambda>(p, data).
     bindS (liftS (bindR (raised (ServerAuth_from_json data)) (\<lambda>m.
       verify_server_auth N m (c_server_vk c) (c_ephem_pub c) client_challenge))) (\<lambda>(server_ephem_pub, server_challenge).
     bindS (liftS (make_session_box N (c_ephem_priv c) server_ephem_pub)) (\<lambda>box.
     bindS (set_box box) (\<lambda>_.
     pair_send N nonce (ClientConfirm_to_json (make_client_confirm N server_challenge client_challenge
       server_ephem_pub (c_ephem_pub c) (c_signing_key c))))))))"

definition SecurePairClient_connect ::
    "nacl \<Rightarrow> secure_client \<Rightarrow> unit result \<Rightarrow> bytes \<Rightarrow> bytes \<Rightarrow> unit sock_op" where
  "SecurePairClient_connect N c dial client_challenge nonce =
     bindS (liftS (raised dial)) (\<lambda>_. pair_client_handshake N c client_challenge nonce)"

definition SecurePairClient_aconnect ::
    "nacl \<Rightarrow> secure_client \<Rightarrow> unit result \<Rightarrow> bytes \<Rightarrow> bytes \<Rightarrow> unit sock_op" where
  "SecurePairClient_aconnect N c dial client_challenge nonce =
     bindS (liftS (raised dial)) (\<lambda>_. timeout_scope (pair_client_handshake N c client_challenge nonce))"

section \<open>SecureReqClient\<close>

text \<open>
  The client over a request socket keeps the same state, and its peer check, its encrypted
  transfers and its closing are the code of \<open>BaseSecurePair\<close> again.
\<close>

definition SecureReqClient_init ::
    "nacl \<Rightarrow> bytes \<Rightarrow> bytes \<Rightarrow> bytes \<Rightarrow> arrival list \<Rightarrow> (nat \<Rightarrow> py_exn option) \<Rightarrow> secure_client \<times> secure_sock" where
  "SecureReqClient_init N client_signing_key server_verify_key seed incoming faults =
     (let (priv, pub) = generate_ephemeral_keypair N seed in
      (\<lparr>c_ephem_priv = priv, c_ephem_pub = pub, c_signing_key = client_signing_key, c_server_vk = server_verify_key\<rparr>,
       \<lparr>s_box = None, s_pipe = None, s_closed = False, s_arrivals = incoming, s_wire = [], s_fault = faults,
        s_closed_pipes = []\<rparr>))"

definition req_register_pipe :: "nat option \<Rightarrow> unit sock_op" where
  "req_register_pipe p = register_pipe p"

definition req_handle_pipe_status :: "bool \<Rightarrow> secure_sock \<Rightarrow> secure_sock" where
  "req_handle_pipe_status status_removed s = handle_pipe_status status_removed s"

definition req_client_handshake :: "nacl \<Rightarrow> secure_client \<Rightarrow> bytes \<Rightarrow> bytes \<Rightarrow> unit sock_op" where
  "req_client_handshake N c client_challenge nonce =
     bindS (sock_send (ClientHello_to_json (make_client_hello (c_ephem_pub c) client_challenge))) (\<lambda>_.
     bindS sock_recv (\<lambda>(p, data).
     bindS (req_register_pipe p) (\<lambda>_.
     bindS (liftS (bindR (raised (ServerAuth_from_json data)) (\<lambda>m.
       verify_server_auth N m (c_server_vk c) (c_ephem_pub c) client_challenge))) (\<lambda>(server_ephem_pub, server_challenge).
     bindS (liftS (make_session_box N (c_ephem_priv c) server_ephem_pub)) (\<lambda>box.
     bindS (set_box box) (\<lambda>_.
     bindS (sock_send (n_encrypt N box nonce (ClientConfirm_to_json (make_client_confirm N server_challenge
       client_challenge server_ephem_pub (c_ephem_pub c) (c_signing_key c))))) (\<lambda>_.
     bindS sock_recv (\<lambda>(p', ack).
     req_register_pipe p'))))))))"

definition SecureReqClient_connect ::
    "nacl \<Rightarrow> secure_client \<Rightarrow> unit result \<Rightarrow> bytes \<Rightarrow> bytes \<Rightarrow> unit sock_op" where
  "SecureReqClient_connect N c dial client_challenge nonce =
     bindS (liftS (raised dial)) (\<lambda>_. req_client_handshake N c client_challenge nonce)"

definition SecureReqClient_aconnect ::
    "nacl \<Rightarrow> secure_client \<Rightarrow> unit result \<Rightarrow> bytes \<Rightarrow> bytes \<Rightarrow> unit sock_op" where
  "SecureReqClient_aconnect N c dial client_challenge nonce =
     bindS (liftS (raised dial)) (\<lambda>_. timeout_scope (req_client_handshake N c client_challenge nonce))"

definition req_send :: "nacl \<Rightarrow> bytes \<Rightarrow> bytes \<Rightarrow> unit sock_op" where
  "req_send N nonce data = (\<lambda>s.
     case s_box s of
       None \<Rightarrow> (Inl (Raised (PyExn RuntimeError)), s)
     | Some box \<Rightarrow> sock_send (n_encrypt N box nonce data) s)"

definition req_recv :: "nacl \<Rightarrow> bytes sock_op" where
  "req_recv N = (\<lambda>s.
     case s_box s of
       None \<Rightarrow> (Inl (Raised (PyExn RuntimeError)), s)
     | Some box \<Rightarrow>
         bindS sock_recv (\<lambda>(p, data).
         bindS (req_register_pipe p) (\<lambda>_.
         liftS (n_decrypt N box data))) s)"

definition req_asend :: "nacl \<Rightarrow> bytes \<Rightarrow> bytes \<Rightarrow> unit sock_op" where
  "req_asend N nonce data = req_send N nonce data"

definition req_arecv :: "nacl \<Rightarrow> bytes sock_op" where
  "req_arecv N = req_recv N"

section \<open>A reference instance\<close>

text \<open>
  A transparent instance of the library, which satisfies \<open>nacl_ok\<close>: a signature is the key and
  the message, a public key the private one padded to 32 octets, a box the sum of two keys.
\<close>

definition pad32 :: "bytes \<Rightarrow> bytes" where
  "pad32 bs = take 32 (bs @ replicate 32 0)"

definition reference_nacl :: nacl where
  "reference_nacl =
     \<lparr>n_verify_key = id,
      n_sign = (\<lambda>sk m. sk @ m),
      n_verify = (\<lambda>vk m sig. if sig = vk @ m then Inr () else Inl BadSignatureError),
      n_public_key = pad32,
      n_PublicKey = (\<lambda>bs. if length bs = 32 then Inr bs else Inl (Raised (PyExn ValueError))),
      n_Box = (\<lambda>a b. Inr (map2 (+) (pad32 a) b)),
      n_encrypt = (\<lambda>k n m. k @ m),
      n_decrypt = (\<lambda>k c. if take (length k) c = k then Inr (drop (length k) c) else Inl CryptoError)\<rparr>"

section \<open>Lemmas\<close>

lemma length_pad32 [simp]: "length (pad32 bs) = 32"
  by (simp add: pad32_def)

lemma map2_add_comm: "map2 (+) xs (ys :: byte list) = map2 (+) ys xs"
  by (induction xs ys rule: list_induct2') (simp_all add: add.commute)

lemma reference_nacl_ok: "nacl_ok reference_nacl"
  unfolding nacl_ok_def reference_nacl_def by (auto simp: map2_add_comm)

lemma nacl_okD:
  assumes "nacl_ok N"
  shows "n_verify N (n_verify_key N sk) m (n_sign N sk m) = Inr ()"
    and "n_verify N vk m (n_sign N sk m') \<in> {Inr (), Inl BadSignatureError}"
    and "length (n_public_key N a) = 32"
    and "n_PublicKey N bs = (if length bs = 32 then Inr bs else Inl (Raised (PyExn ValueError)))"
    and "n_Box N a (n_public_key N b) = n_Box N b (n_public_key N a)"
    and "n_decrypt N k (n_encrypt N k n m) = Inr m"
  using assms unfolding nacl_ok_def by blast+

lemma nacl_ok_box: "nacl_ok N \<Longrightarrow> \<exists>k. n_Box N a (n_public_key N b) = Inr k"
  unfolding nacl_ok_def by blast

lemma raised_simps [simp]: "raised (Inr x) = Inr x" "raised (Inl e) = Inl (Raised e)"
  by (simp_all add: raised_def)

lemma b64enc_scalar [simp]: "list_all scalar (b64enc bs)"
proof -
  have "list_all (\<lambda>c. c < 128) (b64enc bs)"
    using urlsafe_b64encode_ascii [of bs] set_takeWhileD [of _ "\<lambda>c. c = 61" "rev (urlsafe_b64encode bs)"]
    by (auto simp: b64enc_def list_all_iff dest: set_dropWhileD)
  then show ?thesis by (auto simp: list_all_iff scalar_def)
qed

lemma field_b64dec_enc [simp]: "field_b64dec (JStr (b64enc bs)) = Inr bs"
  by (simp add: field_b64dec_def b64_roundtrip)

lemma check_open_True [simp]: "check_open k True = Inr ()"
  by (simp add: check_open_def)

lemma hello_parsed:
  "ClientHello_from_json (ClientHello_to_json (make_client_hello a b)) =
     Inr \<lparr>client_ephem_pub_b64 = JStr (b64enc a), client_challenge_b64 = JStr (b64enc b)\<rparr>"
  by (simp add: make_client_hello_def ClientHello_roundtrip)

lemma auth_parsed:
  "ServerAuth_from_json (ServerAuth_to_json \<lparr>server_ephem_pub_b64 = b64enc a, server_challenge_b64 = b64enc b, auth_signature_b64 = b64enc c\<rparr>) =
     Inr \<lparr>server_ephem_pub_b64 = JStr (b64enc a), server_challenge_b64 = JStr (b64enc b), auth_signature_b64 = JStr (b64enc c)\<rparr>"
  by (simp add: ServerAuth_roundtrip)

lemma confirm_parsed:
  "ClientConfirm_from_json (ClientConfirm_to_json (make_client_confirm N a b c d sk)) =
     Inr \<lparr>confirm_signature_b64 = JStr (b64enc (n_sign N sk (a @ b @ c @ d)))\<rparr>"
  by (simp add: make_client_confirm_def ClientConfirm_roundtrip)

lemma try_keys_ok: "try_keys N vks d sig = Inr u \<Longrightarrow> \<exists>vk \<in> set vks. n_verify N vk d sig = Inr ()"
  by (induction vks) (auto split: sum.splits sec_exn.splits)

lemma try_keys_member:
  assumes "vk \<in> set vks" "n_verify N vk d sig = Inr ()" "\<forall>v \<in> set vks. n_verify N v d sig \<in> {Inr (), Inl BadSignatureError}"
  shows "try_keys N vks d sig = Inr ()"
  using assms by (induction vks) (auto split: sum.splits sec_exn.splits)

lemmas sock_defs = sock_send_def sock_recv_def pair_send_def pair_recv_def set_box_def register_pipe_def sock_close_def

lemma client_handshake_accepts:
  assumes "nacl_ok N" "\<not> s_closed s" "s_fault s = (\<lambda>_. None)"
    and arr: "s_arrivals s = Delivered p (ServerAuth_to_json
      \<lparr>server_ephem_pub_b64 = b64enc se, server_challenge_b64 = b64enc sc, auth_signature_b64 = b64enc sig\<rparr>) # rest"
    and v: "n_verify N (c_server_vk c) (c_ephem_pub c @ cc @ se @ sc) sig = Inr ()"
    and "length se = 32" "n_Box N (c_ephem_priv c) se = Inr k"
  shows "pair_client_handshake N c cc nonce s =
    (Inr (), s\<lparr>s_box := Some k, s_arrivals := rest,
       s_wire := s_wire s @ [ClientHello_to_json (make_client_hello (c_ephem_pub c) cc),
         n_encrypt N k nonce (ClientConfirm_to_json (make_client_confirm N sc cc se (c_ephem_pub c) (c_signing_key c)))]\<rparr>)"
  using assms
  by (simp add: pair_client_handshake_def bindS_app sock_defs auth_parsed verify_server_auth_def nacl_okD make_session_box_def)

lemma req_handshake_accepts:
  assumes "nacl_ok N" "\<not> s_closed s" "s_fault s = (\<lambda>_. None)" "s_pipe s \<in> {None, Some p}"
    and arr: "s_arrivals s = Delivered (Some p) (ServerAuth_to_json
      \<lparr>server_ephem_pub_b64 = b64enc se, server_challenge_b64 = b64enc sc, auth_signature_b64 = b64enc sig\<rparr>) #
      Delivered (Some p) ack # rest"
    and v: "n_verify N (c_server_vk c) (c_ephem_pub c @ cc @ se @ sc) sig = Inr ()"
    and "length se = 32" "n_Box N (c_ephem_priv c) se = Inr k"
  shows "req_client_handshake N c cc nonce s =
    (Inr (), s\<lparr>s_box := Some k, s_pipe := Some p, s_arrivals := rest,
       s_wire := s_wire s @ [ClientHello_to_json (make_client_hello (c_ephem_pub c) cc),
         n_encrypt N k nonce (ClientConfirm_to_json (make_client_confirm N sc cc se (c_ephem_pub c) (c_signing_key c)))]\<rparr>)"
  using assms
  by (auto simp: req_client_handshake_def bindS_app sock_defs req_register_pipe_def auth_parsed verify_server_auth_def
      nacl_okD make_session_box_def)

lemma make_server_auth_eq:
  "make_server_auth N ce cc se sc sk =
     \<lparr>server_ephem_pub_b64 = b64enc se, server_challenge_b64 = b64enc sc,
      auth_signature_b64 = b64enc (n_sign N sk (ce @ cc @ se @ sc))\<rparr>"
  by (simp add: make_server_auth_def)

definition after_auth :: "nacl \<Rightarrow> pair_server \<Rightarrow> bytes \<Rightarrow> bytes \<Rightarrow> bytes \<Rightarrow> bytes \<Rightarrow> unit sock_op" where
  "after_auth N srv sc cc se ce =
     bindS (pair_recv N) (\<lambda>raw.
     bindS (liftS (raised (ClientConfirm_from_json raw))) (\<lambda>confirm.
     liftS (verify_client_confirm N confirm (ps_authorized_vks srv) sc cc se ce)))"

lemma server_answers:
  assumes "nacl_ok N" "\<not> s_closed s" "s_fault s = (\<lambda>_. None)"
    and "s_arrivals s = Delivered p (ClientHello_to_json (make_client_hello ce cc)) # rest"
    and "length ce = 32" "n_Box N seed ce = Inr k"
  shows "SecurePairServer_connect N srv sc seed s =
    after_auth N srv sc cc (n_public_key N seed) ce
      (s\<lparr>s_arrivals := rest, s_box := Some k,
         s_wire := s_wire s @ [ServerAuth_to_json (make_server_auth N ce cc (n_public_key N seed) sc (ps_signing_key srv))]\<rparr>)"
  using assms
  by (simp add: SecurePairServer_connect_def bindS_app sock_send_def sock_recv_def set_box_def hello_parsed nacl_okD
      make_session_box_def generate_ephemeral_keypair_def after_auth_def)

lemma after_auth_accepts:
  assumes "nacl_ok N" "\<not> s_closed s" "s_box s = Some k" "s_pipe s \<in> {None, Some p}"
    and "s_arrivals s = Delivered (Some p) (n_encrypt N k nonce
      (ClientConfirm_to_json (make_client_confirm N sc cc se ce csk))) # rest"
    and "n_verify_key N csk \<in> set (ps_authorized_vks srv)"
  shows "after_auth N srv sc cc se ce s = (Inr (), s\<lparr>s_pipe := Some p, s_arrivals := rest\<rparr>)"
proof -
  have "try_keys N (ps_authorized_vks srv) (sc @ cc @ se @ ce) (n_sign N csk (sc @ cc @ se @ ce)) = Inr ()"
    using assms(6) nacl_okD(1,2) [OF assms(1)] by (blast intro: try_keys_member)
  then show ?thesis using assms
    by (auto simp: after_auth_def bindS_app sock_defs confirm_parsed verify_client_confirm_def nacl_okD)
qed

text \<open>
  What a completed handshake proves to each side. \<open>client_proved\<close>: a key on the list verifies a
  signature over both challenges and both ephemeral keys, read from a confirmation that the
  session box opens. \<open>server_proved\<close>: the pinned key verifies a signature over the client's own
  key and challenge and the received key and challenge. The box is that of the ephemeral keys.
\<close>

definition client_proved :: "nacl \<Rightarrow> pair_server \<Rightarrow> bytes \<Rightarrow> bytes \<Rightarrow> arrival list \<Rightarrow> secure_sock \<Rightarrow> bool" where
  "client_proved N srv sc seed incoming s \<longleftrightarrow>
     (\<exists>p q hello ce cc k sealed m vk sig rest.
        incoming = Delivered p hello # Delivered (Some q) sealed # rest \<and>
        bindR (raised (ClientHello_from_json hello)) (field_b64dec \<circ> client_ephem_pub_b64) = Inr ce \<and>
        bindR (raised (ClientHello_from_json hello)) (field_b64dec \<circ> client_challenge_b64) = Inr cc \<and>
        length ce = 32 \<and> n_Box N seed ce = Inr k \<and> s_box s = Some k \<and> s_pipe s = Some q \<and>
        n_decrypt N k sealed = Inr m \<and>
        bindR (raised (ClientConfirm_from_json m)) (field_b64dec \<circ> confirm_signature_b64) = Inr sig \<and>
        vk \<in> set (ps_authorized_vks srv) \<and> n_verify N vk (sc @ cc @ n_public_key N seed @ ce) sig = Inr ())"

definition server_proved :: "nacl \<Rightarrow> secure_client \<Rightarrow> bytes \<Rightarrow> arrival list \<Rightarrow> secure_sock \<Rightarrow> bool" where
  "server_proved N c cc incoming s \<longleftrightarrow>
     (\<exists>p answer se sc k sig rest.
        incoming = Delivered p answer # rest \<and>
        bindR (raised (ServerAuth_from_json answer)) (field_b64dec \<circ> server_ephem_pub_b64) = Inr se \<and>
        bindR (raised (ServerAuth_from_json answer)) (field_b64dec \<circ> server_challenge_b64) = Inr sc \<and>
        bindR (raised (ServerAuth_from_json answer)) (field_b64dec \<circ> auth_signature_b64) = Inr sig \<and>
        length se = 32 \<and> n_verify N (c_server_vk c) (c_ephem_pub c @ cc @ se @ sc) sig = Inr () \<and>
        n_Box N (c_ephem_priv c) se = Inr k \<and> s_box s = Some k)"

lemma timeout_scope_ok: "timeout_scope act s = (Inr x, s') \<longleftrightarrow> act s = (Inr x, s')"
  by (auto simp: timeout_scope_def split: prod.splits sum.splits sec_exn.splits)

lemma sock_recv_ok:
  "sock_recv s = (Inr x, s') \<longleftrightarrow>
     \<not> s_closed s \<and> (\<exists>r. s_arrivals s = Delivered (fst x) (snd x) # r \<and> s' = s\<lparr>s_arrivals := r\<rparr>)"
  by (cases x) (auto simp: sock_recv_def check_open_def split: list.splits arrival.splits)

lemma sock_send_ok:
  "sock_send d s = (Inr u, s') \<longleftrightarrow>
     \<not> s_closed s \<and> s_fault s (length (s_wire s)) = None \<and> s' = s\<lparr>s_wire := s_wire s @ [d]\<rparr>"
  by (auto simp: sock_send_def check_open_def split: option.splits)

lemma register_pipe_ok:
  "register_pipe p s = (Inr u, s') \<longleftrightarrow> (\<exists>q. p = Some q \<and> s_pipe s \<in> {None, Some q} \<and> s' = s\<lparr>s_pipe := Some q\<rparr>)"
  by (auto simp: register_pipe_def split: option.splits)

lemma pair_recv_ok:
  "pair_recv N s = (Inr m, s') \<longleftrightarrow>
     (\<exists>k q d r. s_box s = Some k \<and> \<not> s_closed s \<and> s_arrivals s = Delivered (Some q) d # r \<and> s_pipe s \<in> {None, Some q} \<and>
        n_decrypt N k d = Inr m \<and> s' = s\<lparr>s_arrivals := r, s_pipe := Some q\<rparr>)"
  by (auto simp: pair_recv_def bindS_eq_Inr sock_recv_ok register_pipe_ok split: option.splits)

lemmas returns = bindS_eq_Inr bindR_eq_Inr sock_recv_ok sock_send_ok register_pipe_ok pair_recv_ok set_box_def

lemma server_connect_proved:
  assumes "nacl_ok N" "SecurePairServer_connect N srv sc seed s = (Inr (), s')"
  shows "client_proved N srv sc seed (s_arrivals s) s'"
  using assms(2)
  by (auto simp: client_proved_def SecurePairServer_connect_def returns nacl_okD [OF assms(1)]
      verify_client_confirm_def make_session_box_def generate_ephemeral_keypair_def
      split: if_splits dest!: try_keys_ok)

lemma pair_handshake_proved:
  assumes "nacl_ok N" "pair_client_handshake N c cc nonce s = (Inr (), s')"
  shows "server_proved N c cc (s_arrivals s) s'"
  using assms(2)
  by (auto simp: server_proved_def pair_client_handshake_def returns nacl_okD [OF assms(1)] pair_send_def
      verify_server_auth_def make_session_box_def split: if_splits)

lemma req_handshake_proved:
  assumes "nacl_ok N" "req_client_handshake N c cc nonce s = (Inr (), s')"
  shows "server_proved N c cc (s_arrivals s) s'"
  using assms(2)
  by (auto simp: server_proved_def req_client_handshake_def req_register_pipe_def returns nacl_okD [OF assms(1)]
      verify_server_auth_def make_session_box_def split: if_splits)

section \<open>Properties\<close>

text \<open>C19: the handshake of two honest parties completes. A client that pins the server's verify
  key and a server that lists the client's, each receiving what the other sends, both return,
  hold the same session box, and the server has registered the client's pipe. Afterwards each
  decrypts what the other encrypts, in both directions.\<close>

theorem handshake_completes:
  assumes ok: "nacl_ok N" and auth: "n_verify_key N csk \<in> set vks"
  shows "\<exists>k. let ce = n_public_key N cseed; se = n_public_key N sseed;
      hello = ClientHello_to_json (make_client_hello ce cc);
      answer = ServerAuth_to_json (make_server_auth N ce cc se sc ssk);
      confirm = n_encrypt N k nonce (ClientConfirm_to_json (make_client_confirm N sc cc se ce csk));
      c = SecurePairClient_init N csk (derive_verify_key N ssk) cseed;
      srv = \<lparr>ps_authorized_vks = vks, ps_signing_key = ssk\<rparr>
    in SecurePairClient_connect N c (Inr ()) cc nonce (BaseSecurePair_init [Delivered (Some p) answer] (\<lambda>_. None)) =
         (Inr (), (BaseSecurePair_init [] (\<lambda>_. None))\<lparr>s_box := Some k, s_wire := [hello, confirm]\<rparr>) \<and>
       SecurePairServer_connect N srv sc sseed
           (BaseSecurePair_init [Delivered (Some q) hello, Delivered (Some q) confirm] (\<lambda>_. None)) =
         (Inr (), (BaseSecurePair_init [] (\<lambda>_. None))\<lparr>s_box := Some k, s_wire := [answer], s_pipe := Some q\<rparr>) \<and>
       (\<forall>data nonce' s s' r w. s_box s = Some k \<and> s_box s' = Some k \<and> \<not> s_closed s' \<and> s_pipe s' \<in> {None, Some r} \<longrightarrow>
         pair_send N nonce' data s = (Inr (), w) \<longrightarrow>
         fst (pair_recv N (s'\<lparr>s_arrivals := [Delivered (Some r) (last (s_wire w))]\<rparr>)) = Inr data)"
proof -
  let ?ce = "n_public_key N cseed" and ?se = "n_public_key N sseed"
  obtain k where k: "n_Box N cseed ?se = Inr k" using nacl_ok_box [OF ok] by metis
  then have k': "n_Box N sseed ?ce = Inr k" using nacl_okD(5) [OF ok, of sseed cseed] by simp
  note l = nacl_okD(3) [OF ok]
  note init = BaseSecurePair_init_def SecurePairClient_init_def generate_ephemeral_keypair_def derive_verify_key_def
  show ?thesis unfolding Let_def
  proof (intro exI [of _ k] conjI allI impI)
    show "SecurePairClient_connect N (SecurePairClient_init N csk (derive_verify_key N ssk) cseed) (Inr ()) cc nonce
        (BaseSecurePair_init [Delivered (Some p) (ServerAuth_to_json (make_server_auth N ?ce cc ?se sc ssk))] (\<lambda>_. None)) =
      (Inr (), (BaseSecurePair_init [] (\<lambda>_. None))\<lparr>s_box := Some k, s_wire := [ClientHello_to_json (make_client_hello ?ce cc),
         n_encrypt N k nonce (ClientConfirm_to_json (make_client_confirm N sc cc ?se ?ce csk))]\<rparr>)"
      using ok k l by (simp add: SecurePairClient_connect_def bindS_app init make_server_auth_eq nacl_okD
          client_handshake_accepts [where k = k and rest = "[]" and se = ?se and sc = sc])
    show "SecurePairServer_connect N \<lparr>ps_authorized_vks = vks, ps_signing_key = ssk\<rparr> sc sseed
        (BaseSecurePair_init [Delivered (Some q) (ClientHello_to_json (make_client_hello ?ce cc)),
           Delivered (Some q) (n_encrypt N k nonce (ClientConfirm_to_json (make_client_confirm N sc cc ?se ?ce csk)))] (\<lambda>_. None)) =
      (Inr (), (BaseSecurePair_init [] (\<lambda>_. None))\<lparr>s_box := Some k,
         s_wire := [ServerAuth_to_json (make_server_auth N ?ce cc ?se sc ssk)], s_pipe := Some q\<rparr>)"
      using ok k' l auth by (simp add: server_answers [where k = k] after_auth_accepts [where k = k] init)
  next
    fix data nonce' r w and s s' :: secure_sock
    assume "s_box s = Some k \<and> s_box s' = Some k \<and> \<not> s_closed s' \<and> s_pipe s' \<in> {None, Some r}"
      "pair_send N nonce' data s = (Inr (), w)"
    then show "fst (pair_recv N (s'\<lparr>s_arrivals := [Delivered (Some r) (last (s_wire w))]\<rparr>)) = Inr data"
      using ok by (auto simp: sock_defs bindS_app nacl_okD split: sum.splits option.splits)
  qed
qed

theorem handshake_completes_witness:
  "\<exists>k. SecurePairClient_connect reference_nacl (SecurePairClient_init reference_nacl [7] [9] [1]) (Inr ()) [3] [4]
       (BaseSecurePair_init [Delivered (Some 5) (ServerAuth_to_json (make_server_auth reference_nacl (pad32 [1]) [3] (pad32 [2]) [6] [9]))]
         (\<lambda>_. None)) =
     (Inr (), (BaseSecurePair_init [] (\<lambda>_. None))\<lparr>s_box := Some k,
        s_wire := [ClientHello_to_json (make_client_hello (pad32 [1]) [3]),
          k @ ClientConfirm_to_json (make_client_confirm reference_nacl [6] [3] (pad32 [2]) (pad32 [1]) [7])]\<rparr>)"
proof -
  have v: "n_verify_key reference_nacl [7] \<in> set [[7]]" by (simp add: reference_nacl_def)
  have i: "n_public_key reference_nacl = pad32" "n_verify_key reference_nacl = id" "\<And>k n m. n_encrypt reference_nacl k n m = k @ m"
    by (simp_all add: reference_nacl_def)
  from handshake_completes [OF reference_nacl_ok v, of "[1]" "[2]" "[3]" "[6]" "[9]" "[4]" 5 5]
  show ?thesis unfolding Let_def derive_verify_key_def i id_apply by blast
qed

text \<open>C4: nobody gets through without a valid signature. A server's handshake returns only if a
  key on its list verifies a signature over both challenges and both ephemeral keys of this
  session, sent encrypted under the session box, and a client's only if the pinned key verifies
  a signature over the client's key and challenge and the received ones; the box is the one of
  those ephemeral keys. This holds for the synchronous and asynchronous variants and for the
  client over a request socket.\<close>

theorem handshake_authenticates:
  assumes "nacl_ok N"
  shows "(SecurePairServer_connect N srv sc seed s = (Inr (), s') \<or> SecurePairServer_aconnect N srv sc seed s = (Inr (), s') \<longrightarrow>
      client_proved N srv sc seed (s_arrivals s) s') \<and>
    (SecurePairClient_connect N c dial cc nonce s = (Inr (), s') \<or> SecurePairClient_aconnect N c dial cc nonce s = (Inr (), s') \<or>
     SecureReqClient_connect N c dial cc nonce s = (Inr (), s') \<or> SecureReqClient_aconnect N c dial cc nonce s = (Inr (), s') \<longrightarrow>
      server_proved N c cc (s_arrivals s) s')"
  using server_connect_proved [OF assms] pair_handshake_proved [OF assms] req_handshake_proved [OF assms]
  by (auto simp: SecurePairServer_aconnect_def SecurePairClient_connect_def SecurePairClient_aconnect_def
      SecureReqClient_connect_def SecureReqClient_aconnect_def bindS_eq_Inr timeout_scope_ok)

lemma reference_client_run:
  "pair_client_handshake reference_nacl (SecurePairClient_init reference_nacl [7] [9] [1]) [3] [4]
     (BaseSecurePair_init [Delivered (Some 5) (ServerAuth_to_json (make_server_auth reference_nacl (pad32 [1]) [3] (pad32 [2]) [6] [9]))]
       (\<lambda>_. None)) =
   (Inr (), (BaseSecurePair_init [] (\<lambda>_. None))\<lparr>s_box := Some (map2 (+) (pad32 [1]) (pad32 [2])),
      s_wire := [ClientHello_to_json (make_client_hello (pad32 [1]) [3]),
        n_encrypt reference_nacl (map2 (+) (pad32 [1]) (pad32 [2])) [4]
          (ClientConfirm_to_json (make_client_confirm reference_nacl [6] [3] (pad32 [2]) (pad32 [1]) [7]))]\<rparr>)"
  by (subst client_handshake_accepts [OF reference_nacl_ok])
     (simp_all add: BaseSecurePair_init_def SecurePairClient_init_def generate_ephemeral_keypair_def make_server_auth_eq,
      simp_all add: reference_nacl_def)

theorem handshake_authenticates_witness:
  "\<exists>s'. server_proved reference_nacl (SecurePairClient_init reference_nacl [7] [9] [1]) [3]
     [Delivered (Some 5) (ServerAuth_to_json (make_server_auth reference_nacl (pad32 [1]) [3] (pad32 [2]) [6] [9]))] s'"
proof -
  let ?s = "BaseSecurePair_init [Delivered (Some 5) (ServerAuth_to_json
      (make_server_auth reference_nacl (pad32 [1]) [3] (pad32 [2]) [6] [9]))] (\<lambda>_. None)"
  obtain s' where "SecurePairClient_connect reference_nacl (SecurePairClient_init reference_nacl [7] [9] [1]) (Inr ()) [3] [4] ?s =
      (Inr (), s')"
    by (simp add: SecurePairClient_connect_def bindS_app reference_client_run)
  with handshake_authenticates [OF reference_nacl_ok, of undefined undefined undefined ?s s'
      "SecurePairClient_init reference_nacl [7] [9] [1]" "Inr ()" "[3]" "[4]"]
  have "server_proved reference_nacl (SecurePairClient_init reference_nacl [7] [9] [1]) [3] (s_arrivals ?s) s'" by blast
  then show ?thesis by (auto simp: BaseSecurePair_init_def)
qed

lemma server_waits:
  assumes "nacl_ok N" "length ce = 32" "n_Box N sseed ce = Inr k"
  shows "SecurePairServer_connect N srv sc sseed
      (BaseSecurePair_init [Delivered q (ClientHello_to_json (make_client_hello ce cc))] (\<lambda>_. None)) =
    (Inl Blocked, (BaseSecurePair_init [] (\<lambda>_. None))\<lparr>s_box := Some k,
       s_wire := [ServerAuth_to_json (make_server_auth N ce cc (n_public_key N sseed) sc (ps_signing_key srv))]\<rparr>)"
  using assms by (subst server_answers [where k = k and rest = "[]" and p = q and ce = ce and cc = cc])
    (simp_all add: BaseSecurePair_init_def after_auth_def bindS_app pair_recv_def sock_recv_def)

text \<open>C18: the signature of the server does not bind its ephemeral key, because the lengths of the
  challenges are not checked. Whoever relays the messages can append a public key of their own to
  the client's challenge; from the honest server's answer they build, without any secret of the
  server, an answer the client accepts, and the client then holds the session box of the relay's
  key instead of the server's.\<close>

theorem server_key_substitution:
  assumes ok: "nacl_ok N"
  shows "\<exists>k sig. let ce = n_public_key N cseed; se = n_public_key N sseed; relay = n_public_key N aseed;
      srv = \<lparr>ps_authorized_vks = vks, ps_signing_key = ssk\<rparr>;
      c = SecurePairClient_init N csk (derive_verify_key N ssk) cseed;
      altered = ClientHello_to_json (make_client_hello ce (cc @ relay));
      answer = ServerAuth_to_json
        \<lparr>server_ephem_pub_b64 = b64enc se, server_challenge_b64 = b64enc sc, auth_signature_b64 = b64enc sig\<rparr>;
      forged = ServerAuth_to_json
        \<lparr>server_ephem_pub_b64 = b64enc relay, server_challenge_b64 = b64enc (se @ sc), auth_signature_b64 = b64enc sig\<rparr>;
      s' = snd (SecurePairServer_connect N srv sc sseed (BaseSecurePair_init [Delivered q altered] (\<lambda>_. None)));
      (r, w) = SecurePairClient_connect N c (Inr ()) cc nonce (BaseSecurePair_init [Delivered p forged] (\<lambda>_. None))
    in s_wire s' = [answer] \<and> r = Inr () \<and> s_box w = Some k \<and> n_Box N aseed ce = Inr k"
proof -
  let ?ce = "n_public_key N cseed" and ?se = "n_public_key N sseed" and ?x = "n_public_key N aseed"
  let ?sig = "n_sign N ssk (?ce @ (cc @ ?x) @ ?se @ sc)"
  let ?c = "SecurePairClient_init N csk (derive_verify_key N ssk) cseed"
  let ?s = "BaseSecurePair_init [Delivered p (ServerAuth_to_json \<lparr>server_ephem_pub_b64 = b64enc ?x,
         server_challenge_b64 = b64enc (?se @ sc), auth_signature_b64 = b64enc ?sig\<rparr>)] (\<lambda>_. None)"
  obtain k k' where k: "n_Box N cseed ?x = Inr k" "n_Box N sseed ?ce = Inr k'" using nacl_ok_box [OF ok] by metis
  note l = nacl_okD(3) [OF ok]
  have "n_verify N (n_verify_key N ssk) (?ce @ cc @ ?x @ ?se @ sc) ?sig = Inr ()"
    using nacl_okD(1) [OF ok, of ssk "?ce @ (cc @ ?x) @ ?se @ sc"] by simp
  then have "\<exists>w. pair_client_handshake N ?c cc nonce ?s = (Inr (), w) \<and> s_box w = Some k"
    using k l by (subst client_handshake_accepts [OF ok, where k = k and rest = "[]" and p = p and se = ?x and sc = "?se @ sc"])
      (simp_all add: BaseSecurePair_init_def SecurePairClient_init_def generate_ephemeral_keypair_def derive_verify_key_def)
  then have client: "\<exists>w. SecurePairClient_connect N ?c (Inr ()) cc nonce ?s = (Inr (), w) \<and> s_box w = Some k"
    by (simp add: SecurePairClient_connect_def bindS_app)
  have "n_Box N aseed ?ce = Inr k" using nacl_okD(5) [OF ok, of aseed cseed] k by simp
  then show ?thesis unfolding Let_def server_waits [OF ok l k(2)]
    using client by (intro exI [of _ k] exI [of _ ?sig]) (auto simp: make_server_auth_eq)
qed

theorem server_key_substitution_witness:
  "\<exists>k sig. s_wire (snd (SecurePairServer_connect reference_nacl \<lparr>ps_authorized_vks = [], ps_signing_key = [9]\<rparr> [6] [2]
      (BaseSecurePair_init [Delivered None (ClientHello_to_json (make_client_hello (pad32 [1]) ([3] @ pad32 [8])))] (\<lambda>_. None)))) =
     [ServerAuth_to_json \<lparr>server_ephem_pub_b64 = b64enc (pad32 [2]), server_challenge_b64 = b64enc [6], auth_signature_b64 = b64enc sig\<rparr>] \<and>
   n_Box reference_nacl [8] (pad32 [1]) = Inr k"
proof -
  have i: "n_public_key reference_nacl = pad32" by (simp add: reference_nacl_def)
  from server_key_substitution [OF reference_nacl_ok, of "[1]" "[2]" "[8]" "[]" "[9]" "[7]" "[3]" "[6]" None "[4]" None]
  show ?thesis unfolding Let_def i by (auto simp: case_prod_beta)
qed

text \<open>With 32-octet challenges on both sides the signature does bind the session. If the server
  signed for a hello with a challenge of 32 octets, and a signature fits one message only, a
  client that is shown this signature in an answer with arbitrary other fields completes only if
  the server signed for this client's key and challenge, and then the box is that of the
  server's ephemeral key.\<close>

theorem signature_binds_session:
  assumes ok: "nacl_ok N" and one: "\<And>vk m m' sig. n_verify N vk m sig = Inr () \<Longrightarrow> n_verify N vk m' sig = Inr () \<Longrightarrow> m = m'"
    and len: "length ce = 32" "length cc = 32" "length (c_ephem_pub c) = 32" "length cc' = 32"
    and vk: "c_server_vk c = n_verify_key N ssk"
    and arr: "s_arrivals s = Delivered p (ServerAuth_to_json \<lparr>server_ephem_pub_b64 = a, server_challenge_b64 = b,
        auth_signature_b64 = b64enc (n_sign N ssk (ce @ cc @ n_public_key N sseed @ sc))\<rparr>) # rest"
      "list_all scalar a" "list_all scalar b"
    and run: "SecurePairClient_connect N c dial cc' nonce s = (Inr (), s')"
  shows "c_ephem_pub c = ce \<and> cc' = cc \<and> (\<exists>k. n_Box N (c_ephem_priv c) (n_public_key N sseed) = Inr k \<and> s_box s' = Some k)"
proof -
  have "pair_client_handshake N c cc' nonce s = (Inr (), s')"
    using run by (auto simp: SecurePairClient_connect_def bindS_eq_Inr)
  from pair_handshake_proved [OF ok this] arr obtain se sc' k where
    *: "length se = 32" "n_verify N (n_verify_key N ssk) (c_ephem_pub c @ cc' @ se @ sc')
          (n_sign N ssk (ce @ cc @ n_public_key N sseed @ sc)) = Inr ()"
      "n_Box N (c_ephem_priv c) se = Inr k" "s_box s' = Some k"
    by (auto simp: server_proved_def ServerAuth_roundtrip vk)
  from one [OF *(2) nacl_okD(1) [OF ok]] have "c_ephem_pub c @ cc' @ se @ sc' = ce @ cc @ n_public_key N sseed @ sc" .
  then show ?thesis using * len nacl_okD(3) [OF ok, of sseed] by (auto simp: append_eq_append_conv)
qed

theorem signature_binds_session_witness:
  "\<exists>k s'. SecurePairClient_connect reference_nacl (SecurePairClient_init reference_nacl [7] [9] [1]) (Inr ()) (pad32 [3]) [4]
       (BaseSecurePair_init [Delivered None (ServerAuth_to_json (make_server_auth reference_nacl (pad32 [1]) (pad32 [3]) (pad32 [2]) [6] [9]))]
         (\<lambda>_. None)) = (Inr (), s') \<and>
     n_Box reference_nacl [1] (pad32 [2]) = Inr k \<and> s_box s' = Some k"
proof -
  let ?c = "SecurePairClient_init reference_nacl [7] [9] [1]"
  let ?s = "BaseSecurePair_init [Delivered None (ServerAuth_to_json
      (make_server_auth reference_nacl (pad32 [1]) (pad32 [3]) (pad32 [2]) [6] [9]))] (\<lambda>_. None)"
  note init = BaseSecurePair_init_def SecurePairClient_init_def generate_ephemeral_keypair_def
  have i: "n_public_key reference_nacl = pad32" by (simp add: reference_nacl_def)
  have "\<exists>s'. pair_client_handshake reference_nacl ?c (pad32 [3]) [4] ?s = (Inr (), s')"
    by (subst client_handshake_accepts [OF reference_nacl_ok, where rest = "[]" and p = None and se = "pad32 [2]" and sc = "[6]"
          and sig = "[9] @ pad32 [1] @ pad32 [3] @ pad32 [2] @ [6]" and k = "map2 (+) (pad32 [1]) (pad32 [2])"])
       (simp_all add: init make_server_auth_eq, simp_all add: reference_nacl_def)
  then obtain s' where run: "SecurePairClient_connect reference_nacl ?c (Inr ()) (pad32 [3]) [4] ?s = (Inr (), s')"
    by (auto simp: SecurePairClient_connect_def bindS_app)
  have "c_ephem_pub ?c = pad32 [1] \<and> pad32 [3] = pad32 [3] \<and>
      (\<exists>k. n_Box reference_nacl (c_ephem_priv ?c) (n_public_key reference_nacl [2]) = Inr k \<and> s_box s' = Some k)"
  proof (rule signature_binds_session [OF reference_nacl_ok, where ssk = "[9]" and sc = "[6]" and p = None and rest = "[]"
        and a = "b64enc (pad32 [2])" and b = "b64enc [6]"])
    show "s_arrivals ?s = [Delivered None (ServerAuth_to_json \<lparr>server_ephem_pub_b64 = b64enc (pad32 [2]), server_challenge_b64 = b64enc [6],
        auth_signature_b64 = b64enc (n_sign reference_nacl [9] (pad32 [1] @ pad32 [3] @ n_public_key reference_nacl [2] @ [6]))\<rparr>)]"
      by (simp add: init make_server_auth_eq i)
    show "m = m'" if "n_verify reference_nacl vk m sig = Inr ()" "n_verify reference_nacl vk m' sig = Inr ()" for vk m m' sig
      using that by (auto simp: reference_nacl_def split: if_splits)
  qed (use run in \<open>simp_all add: init reference_nacl_def\<close>)
  then show ?thesis using run by (auto simp: i SecurePairClient_init_def generate_ephemeral_keypair_def)
qed

text \<open>The guards of the wrappers. Before the handshake sending and receiving raise
  \<open>RuntimeError\<close> and touch nothing. A message without a pipe, or from another pipe than the
  registered one, closes the socket and raises \<open>ValueError\<close> or \<open>PermissionError\<close>, and the second
  peer's pipe is closed too; a payload is only returned from the registered peer. When that peer
  goes away the socket is closed, after which every transfer raises \<open>NngClosed\<close>.\<close>

theorem wrapper_guards:
  "(s_box s = None \<longrightarrow>
      pair_send N nonce data s = (Inl (Raised (PyExn RuntimeError)), s) \<and> pair_recv N s = (Inl (Raised (PyExn RuntimeError)), s) \<and>
      req_send N nonce data s = (Inl (Raised (PyExn RuntimeError)), s) \<and> req_recv N s = (Inl (Raised (PyExn RuntimeError)), s)) \<and>
   register_pipe None s = (Inl (Raised (PyExn ValueError)), s\<lparr>s_closed := True\<rparr>) \<and>
   (s_pipe s = Some p \<and> p \<noteq> q \<longrightarrow>
      (let (r, s') = register_pipe (Some q) s in
       r = Inl (Raised (PyExn PermissionError)) \<and> s_closed s' \<and> s_pipe s' = Some p \<and> q \<in> set (s_closed_pipes s'))) \<and>
   (pair_recv N s = (Inr m, s') \<longrightarrow> (\<exists>q. s_pipe s' = Some q \<and> s_pipe s \<in> {None, Some q})) \<and>
   (s_pipe s = Some p \<longrightarrow> s_closed (handle_pipe_status True s) \<and> s_pipe (handle_pipe_status True s) = None) \<and>
   handle_pipe_status False s = s \<and>
   (s_closed s \<and> s_box s = Some k \<longrightarrow>
      pair_send N nonce data s = (Inl (Raised (NngExn NngClosed NNG_ECLOSED (Literal ''Socket is closed''))), s) \<and>
      pair_recv N s = (Inl (Raised (NngExn NngClosed NNG_ECLOSED (Literal ''Socket is closed''))), s))"
  by (auto simp: sock_defs req_send_def req_recv_def handle_pipe_status_def bindS_app check_open_def pair_recv_ok [unfolded pair_recv_def]
      split: option.splits)

theorem wrapper_guards_witness:
  "let s = (BaseSecurePair_init [Delivered (Some 2) [1]] (\<lambda>_. None))\<lparr>s_pipe := Some 1\<rparr>; (r, s') = register_pipe (Some 2) s
   in pair_recv reference_nacl s = (Inl (Raised (PyExn RuntimeError)), s) \<and>
      r = Inl (Raised (PyExn PermissionError)) \<and> s_closed s' \<and> 2 \<in> set (s_closed_pipes s')"
  using wrapper_guards [of "(BaseSecurePair_init [Delivered (Some 2) [1]] (\<lambda>_. None))\<lparr>s_pipe := Some 1\<rparr>" reference_nacl "[]" "[]" 1 2]
  by (simp add: BaseSecurePair_init_def Let_def case_prod_beta)

lemma try_keys_refused:
  "\<forall>vk \<in> set vks. n_verify N vk d sig = Inl BadSignatureError \<Longrightarrow> try_keys N vks d sig = Inl BadSignatureError"
  by (induction vks) auto

text \<open>What a client refused by the server is left with. When no authorised key verifies the
  confirmation the handshake raises \<open>BadSignatureError\<close> out of the \<open>with\<close> statement, whose body and
  exit do not run: the session box stays set and the socket open, so that sending to that client
  still works.\<close>

theorem refused_client_keeps_session:
  assumes "nacl_ok N" "length ce = 32" "n_Box N seed ce = Inr k"
    and "\<forall>vk \<in> set (ps_authorized_vks srv). n_verify N vk (sc @ cc @ n_public_key N seed @ ce) sig = Inl BadSignatureError"
  shows "let s = BaseSecurePair_init [Delivered (Some q) (ClientHello_to_json (make_client_hello ce cc)),
        Delivered (Some q) (n_encrypt N k nonce (ClientConfirm_to_json \<lparr>confirm_signature_b64 = b64enc sig\<rparr>))] (\<lambda>_. None);
      (r, s') = with_block (SecurePairServer_connect N srv sc seed) block s
    in r = Inl BadSignatureError \<and> s_box s' = Some k \<and> \<not> s_closed s' \<and> fst (pair_send N nonce' data s') = Inr ()"
proof -
  let ?c = "n_encrypt N k nonce (ClientConfirm_to_json \<lparr>confirm_signature_b64 = b64enc sig\<rparr>)"
  let ?s = "BaseSecurePair_init [Delivered (Some q) (ClientHello_to_json (make_client_hello ce cc)), Delivered (Some q) ?c] (\<lambda>_. None)"
  have "SecurePairServer_connect N srv sc seed ?s =
      (Inl BadSignatureError, (BaseSecurePair_init [] (\<lambda>_. None))\<lparr>s_box := Some k, s_pipe := Some q,
        s_wire := [ServerAuth_to_json (make_server_auth N ce cc (n_public_key N seed) sc (ps_signing_key srv))]\<rparr>)"
    using assms
    by (subst server_answers [where k = k and rest = "[Delivered (Some q) ?c]" and p = "Some q" and ce = ce and cc = cc])
       (simp_all add: BaseSecurePair_init_def after_auth_def bindS_app pair_recv_def sock_recv_def register_pipe_def nacl_okD
         ClientConfirm_roundtrip verify_client_confirm_def try_keys_refused)
  then show ?thesis by (simp add: with_block_def Let_def pair_send_def sock_send_def BaseSecurePair_init_def)
qed

theorem refused_client_keeps_session_witness:
  "\<exists>k s'. with_block (SecurePairServer_connect reference_nacl \<lparr>ps_authorized_vks = [[7]], ps_signing_key = [9]\<rparr> [6] [2]) (pair_recv reference_nacl)
     (BaseSecurePair_init [Delivered (Some 5) (ClientHello_to_json (make_client_hello (pad32 [1]) [3])),
        Delivered (Some 5) (n_encrypt reference_nacl k [4] (ClientConfirm_to_json \<lparr>confirm_signature_b64 = b64enc []\<rparr>))] (\<lambda>_. None)) =
     (Inl BadSignatureError, s') \<and> s_box s' = Some k"
proof -
  have "n_Box reference_nacl [2] (pad32 [1]) = Inr (map2 (+) (pad32 [2]) (pad32 [1]))" by (simp add: reference_nacl_def)
  moreover have "\<forall>vk \<in> set (ps_authorized_vks \<lparr>ps_authorized_vks = [[7]], ps_signing_key = [9]\<rparr>).
      n_verify reference_nacl vk ([6] @ [3] @ n_public_key reference_nacl [2] @ pad32 [1]) [] = Inl BadSignatureError"
    by (simp add: reference_nacl_def)
  ultimately show ?thesis
    using refused_client_keeps_session [OF reference_nacl_ok, where ce = "pad32 [1]" and seed = "[2]" and sc = "[6]" and cc = "[3]"
        and sig = "[]" and q = 5 and nonce = "[4]" and block = "pair_recv reference_nacl"]
    by (auto simp: Let_def case_prod_beta intro!: exI [of _ "map2 (+) (pad32 [2]) (pad32 [1])"] prod_eqI)
qed

text \<open>The client over a request socket does not read the acknowledgement of its confirmation:
  whatever octets the server replies, its error response to an unauthorised client included, the
  handshake returns and the session box is set.\<close>

theorem req_ignores_acknowledgement:
  assumes "nacl_ok N" "length se = 32" "n_Box N (c_ephem_priv c) se = Inr k"
    and "n_verify N (c_server_vk c) (c_ephem_pub c @ cc @ se @ sc) sig = Inr ()"
  shows "\<exists>s'. SecureReqClient_connect N c (Inr ()) cc nonce (BaseSecurePair_init [Delivered (Some q) (ServerAuth_to_json
       \<lparr>server_ephem_pub_b64 = b64enc se, server_challenge_b64 = b64enc sc, auth_signature_b64 = b64enc sig\<rparr>),
       Delivered (Some q) ack] (\<lambda>_. None)) = (Inr (), s') \<and> s_box s' = Some k"
  using assms unfolding SecureReqClient_connect_def
  by (simp add: bindS_app BaseSecurePair_init_def
      req_handshake_accepts [where k = k and rest = "[]" and p = q and se = se and sc = sc and sig = sig and ack = ack])

theorem req_ignores_acknowledgement_witness:
  "\<exists>s' k. SecureReqClient_connect reference_nacl (SecurePairClient_init reference_nacl [7] [9] [1]) (Inr ()) [3] [4]
     (BaseSecurePair_init [Delivered (Some 5) (ServerAuth_to_json \<lparr>server_ephem_pub_b64 = b64enc (pad32 [2]),
        server_challenge_b64 = b64enc [6], auth_signature_b64 = b64enc ([9] @ pad32 [1] @ [3] @ pad32 [2] @ [6])\<rparr>),
        Delivered (Some 5) (ErrorResponse_to_json \<lparr>reason = lit ''Unauthorized client''\<rparr>)] (\<lambda>_. None)) = (Inr (), s') \<and>
     s_box s' = Some k"
proof -
  let ?c = "SecurePairClient_init reference_nacl [7] [9] [1]"
  have "n_Box reference_nacl (c_ephem_priv ?c) (pad32 [2]) = Inr (map2 (+) (pad32 [1]) (pad32 [2]))"
    "n_verify reference_nacl (c_server_vk ?c) (c_ephem_pub ?c @ [3] @ pad32 [2] @ [6]) ([9] @ pad32 [1] @ [3] @ pad32 [2] @ [6]) = Inr ()"
    by (simp_all add: SecurePairClient_init_def generate_ephemeral_keypair_def reference_nacl_def)
  from req_ignores_acknowledgement [OF reference_nacl_ok length_pad32 this,
      of "[4]" 5 "ErrorResponse_to_json \<lparr>reason = lit ''Unauthorized client''\<rparr>"]
  show ?thesis by blast
qed

end
