(* ===== verification/SecureRep.thy ===== *)
theory SecureRep
  imports Handshake Conversation
begin

text \<open>
  The authenticated reply server (\<^verbatim>\<open>secure_sockets/secure_rep.py\<close>). Its manager, dispatch tasks
  and client table are the code of the conversation server once more and are modelled by the
  definitions of \<open>Conversation\<close>; new is the task of a client, which runs the server side of the
  handshake under a timeout before it starts the conversation with encrypted transfers.
\<close>

section \<open>Manager and server\<close>

definition secure_Manager_init :: "nat \<Rightarrow> manager" where
  "secure_Manager_init p = Manager_init p"

definition secure_dispatch :: "bytes \<Rightarrow> nat \<Rightarrow> nat \<Rightarrow> manager \<Rightarrow> (mgr_exn + unit) \<times> manager \<times> nat list" where
  "secure_dispatch data ctx reply_event m = dispatch data ctx reply_event m"

definition secure_disconnect :: "manager \<Rightarrow> (mgr_exn + unit) \<times> manager" where
  "secure_disconnect m = disconnect m"

definition secure_finally :: "manager \<Rightarrow> manager \<times> nat list" where
  "secure_finally m = execute_finally m"

definition secure_serve :: "nat \<Rightarrow> rep_server" where
  "secure_serve n_contexts = serve n_contexts"

definition secure_pipe_removed :: "nat \<Rightarrow> rep_server \<Rightarrow> rep_server" where
  "secure_pipe_removed p s = handle_pipe_removed p s"

text \<open>The loop answers a message without a pipe with an error response.\<close>

definition secure_rep_step :: "rep_server \<Rightarrow> rep_server \<Rightarrow> bool" where
  "secure_rep_step s s' \<longleftrightarrow> rep_step (ErrorResponse_to_json \<lparr>reason = lit ''No pipe''\<rparr>) s s'"

section \<open>The task of a client\<close>

text \<open>
  What the task sees of its manager: the messages dispatched to it and the sentinel of a
  disconnect in the order of the inbox, whether it has a context to reply on, the replies sent
  so far, and which replies the context fails to send. Waiting for a message that never comes is
  \<open>Blocked\<close>.
\<close>

datatype rep_input = RepMsg bytes | RepGone

record rep_task =
  rt_inbox :: "rep_input list"
  rt_ctx :: bool
  rt_out :: "bytes list"
  rt_fault :: "nat \<Rightarrow> py_exn option"

type_synonym 'a task_op = "(rep_task, sec_exn, 'a) op"

definition arecv_raw :: "bytes task_op" where
  "arecv_raw = (\<lambda>t.
     case rt_inbox t of
       [] \<Rightarrow> (Inl Blocked, t)
     | RepGone # r \<Rightarrow> (Inl (Raised (PyExn ConnectionResetError)), t\<lparr>rt_inbox := r\<rparr>)
     | RepMsg data # r \<Rightarrow> (Inr data, t\<lparr>rt_inbox := r, rt_ctx := True\<rparr>))"

definition asend_raw :: "bytes \<Rightarrow> unit task_op" where
  "asend_raw data = (\<lambda>t.
     if \<not> rt_ctx t then (Inl (Raised (PyExn RuntimeError)), t)
     else
       case rt_fault t (length (rt_out t)) of
         Some e \<Rightarrow> (Inl (Raised (if isinstance e (NngC NngError) then PyExn ConnectionResetError else e)), t\<lparr>rt_ctx := False\<rparr>)
       | None \<Rightarrow> (Inr (), t\<lparr>rt_ctx := False, rt_out := rt_out t @ [data]\<rparr>))"

text \<open>The handle passed to the conversation.\<close>

definition conv_arecv :: "nacl \<Rightarrow> bytes \<Rightarrow> bytes task_op" where
  "conv_arecv N box = bindS arecv_raw (\<lambda>raw. liftS (n_decrypt N box raw))"

definition conv_asend :: "nacl \<Rightarrow> bytes \<Rightarrow> bytes \<Rightarrow> bytes \<Rightarrow> unit task_op" where
  "conv_asend N box nonce data = asend_raw (n_encrypt N box nonce data)"

record server_config =
  sc_authorized_vks :: "bytes list"
  sc_signing_key :: bytes

text \<open>
  The handshake of \<open>_execute\<close>: the session box, or nothing when the client was refused. Only a
  bad signature is answered; everything else that goes wrong is raised.
\<close>

definition rep_handshake :: "nacl \<Rightarrow> server_config \<Rightarrow> bytes \<Rightarrow> bytes \<Rightarrow> bytes option task_op" where
  "rep_handshake N config server_challenge seed =
     timeout_scope
      (bindS arecv_raw (\<lambda>hello_msg.
       bindS (liftS (raised (ClientHello_from_json hello_msg))) (\<lambda>hello.
       bindS (liftS (bindR (field_b64dec (client_ephem_pub_b64 hello)) (n_PublicKey N))) (\<lambda>client_ephem_pub.
       bindS (liftS (field_b64dec (client_challenge_b64 hello))) (\<lambda>client_challenge.
       let (server_ephem_priv, server_ephem_pub) = generate_ephemeral_keypair N seed in
       bindS (liftS (make_session_box N server_ephem_priv client_ephem_pub)) (\<lambda>box.
       bindS (asend_raw (ServerAuth_to_json (make_server_auth N client_ephem_pub client_challenge
           server_ephem_pub server_challenge (sc_signing_key config)))) (\<lambda>_.
       bindS arecv_raw (\<lambda>raw.
       bindS (liftS (n_decrypt N box raw)) (\<lambda>raw_confirm.
       bindS (liftS (raised (ClientConfirm_from_json raw_confirm))) (\<lambda>confirm.
       case verify_client_confirm N confirm (sc_authorized_vks config) server_challenge client_challenge
              server_ephem_pub client_ephem_pub of
         Inl BadSignatureError \<Rightarrow>
           bindS (asend_raw (ErrorResponse_to_json \<lparr>reason = lit ''Unauthorized client''\<rparr>)) (\<lambda>_. returnS None)
       | Inl e \<Rightarrow> raiseS e
       | Inr _ \<Rightarrow> bindS (asend_raw (map of_char ''ok'')) (\<lambda>_. returnS (Some box))))))))))))"

definition is_reset :: "sec_exn \<Rightarrow> bool" where
  "is_reset e = (case e of Raised x \<Rightarrow> isinstance x (BuiltinC ConnectionResetError) | _ \<Rightarrow> False)"

text \<open>The whole task; \<open>conversation\<close> is the subclass's coroutine, given the session box.\<close>

definition secure_execute :: "nacl \<Rightarrow> server_config \<Rightarrow> (bytes \<Rightarrow> unit task_op) \<Rightarrow> bytes \<Rightarrow> bytes \<Rightarrow> unit task_op" where
  "secure_execute N config conversation server_challenge seed = (\<lambda>t.
     case bindS (rep_handshake N config server_challenge seed)
            (\<lambda>box. case box of None \<Rightarrow> returnS () | Some k \<Rightarrow> conversation k) t of
       (Inl e, t') \<Rightarrow> if is_reset e then (Inr (), t') else (Inl e, t')
     | (Inr _, t') \<Rightarrow> (Inr (), t'))"

section \<open>Lemmas\<close>

lemma arecv_raw_ok:
  "arecv_raw t = (Inr d, t') \<longleftrightarrow> (\<exists>r. rt_inbox t = RepMsg d # r \<and> t' = t\<lparr>rt_inbox := r, rt_ctx := True\<rparr>)"
  by (auto simp: arecv_raw_def split: list.splits rep_input.splits)

lemma asend_raw_ok:
  "asend_raw d t = (Inr u, t') \<longleftrightarrow>
     rt_ctx t \<and> rt_fault t (length (rt_out t)) = None \<and> t' = t\<lparr>rt_ctx := False, rt_out := rt_out t @ [d]\<rparr>"
  by (auto simp: asend_raw_def split: option.splits)

lemmas task_returns = bindS_eq_Inr bindR_eq_Inr arecv_raw_ok asend_raw_ok timeout_scope_ok

text \<open>
  \<open>rep_session_proved\<close>: the messages of the client make up a hello and a confirmation, the latter
  opens with the box of the ephemeral keys, and an authorised key verifies its signature over
  this session.
\<close>

definition rep_session_proved :: "nacl \<Rightarrow> server_config \<Rightarrow> bytes \<Rightarrow> bytes \<Rightarrow> rep_input list \<Rightarrow> bytes \<Rightarrow> bool" where
  "rep_session_proved N config sc seed inbox k \<longleftrightarrow>
     (\<exists>hello sealed rest ce cc m sig vk.
        inbox = RepMsg hello # RepMsg sealed # rest \<and>
        bindR (raised (ClientHello_from_json hello)) (field_b64dec \<circ> client_ephem_pub_b64) = Inr ce \<and>
        bindR (raised (ClientHello_from_json hello)) (field_b64dec \<circ> client_challenge_b64) = Inr cc \<and>
        length ce = 32 \<and> n_Box N seed ce = Inr k \<and> n_decrypt N k sealed = Inr m \<and>
        bindR (raised (ClientConfirm_from_json m)) (field_b64dec \<circ> confirm_signature_b64) = Inr sig \<and>
        vk \<in> set (sc_authorized_vks config) \<and> n_verify N vk (sc @ cc @ n_public_key N seed @ ce) sig = Inr ())"

lemma rep_handshake_proved:
  assumes ok: "nacl_ok N" and r: "rep_handshake N config sc seed t = (Inr (Some k), t')"
  shows "rep_session_proved N config sc seed (rt_inbox t) k"
  using r
  by (auto simp: rep_handshake_def rep_session_proved_def task_returns nacl_okD [OF ok] verify_client_confirm_def
      make_session_box_def generate_ephemeral_keypair_def
      split: if_splits sum.splits sec_exn.splits dest!: try_keys_ok)

lemma rep_handshake_accepts:
  assumes ok: "nacl_ok N" and t: "rt_fault t = (\<lambda>_. None)"
    and inbox: "rt_inbox t = RepMsg (ClientHello_to_json (make_client_hello ce cc)) #
      RepMsg (n_encrypt N k nonce (ClientConfirm_to_json (make_client_confirm N sc cc (n_public_key N seed) ce csk))) # rest"
    and k: "length ce = 32" "n_Box N seed ce = Inr k" and vk: "n_verify_key N csk \<in> set (sc_authorized_vks config)"
  shows "rep_handshake N config sc seed t = (Inr (Some k), t\<lparr>rt_inbox := rest, rt_ctx := False, rt_out := rt_out t @
      [ServerAuth_to_json (make_server_auth N ce cc (n_public_key N seed) sc (sc_signing_key config)), map of_char ''ok'']\<rparr>)"
proof -
  let ?se = "n_public_key N seed"
  have "try_keys N (sc_authorized_vks config) (sc @ cc @ ?se @ ce) (n_sign N csk (sc @ cc @ ?se @ ce)) = Inr ()"
    using vk nacl_okD(1,2) [OF ok] by (blast intro: try_keys_member)
  then show ?thesis using t inbox k
    by (simp add: rep_handshake_def timeout_scope_def bindS_app arecv_raw_def asend_raw_def hello_parsed nacl_okD [OF ok]
        make_session_box_def generate_ephemeral_keypair_def confirm_parsed verify_client_confirm_def)
qed

section \<open>Properties\<close>

text \<open>C26: the application never talks to an unauthenticated client. The conversation of a client is
  started only after a key on the server's list verified a signature over both challenges and
  both ephemeral keys of this session, and only with the box of those keys: replacing the
  conversation by any other coroutine changes nothing about a task whose client did not prove
  itself.\<close>

theorem conversation_only_if_authenticated:
  assumes "nacl_ok N" "\<And>k. rep_session_proved N config sc seed (rt_inbox t) k \<Longrightarrow> conv k = conv' k"
  shows "secure_execute N config conv sc seed t = secure_execute N config conv' sc seed t"
proof -
  have "bindS (rep_handshake N config sc seed) (\<lambda>box. case box of None \<Rightarrow> returnS () | Some k \<Rightarrow> conv k) t =
      bindS (rep_handshake N config sc seed) (\<lambda>box. case box of None \<Rightarrow> returnS () | Some k \<Rightarrow> conv' k) t"
    using rep_handshake_proved [OF assms(1)] assms(2)
    by (auto simp: bindS_app split: prod.splits sum.splits option.splits)
  then show ?thesis by (simp add: secure_execute_def)
qed

theorem conversation_only_if_authenticated_witness:
  "let t = \<lparr>rt_inbox = [RepMsg [1]], rt_ctx = False, rt_out = [], rt_fault = \<lambda>_. None\<rparr>;
       config = \<lparr>sc_authorized_vks = [[7]], sc_signing_key = [9]\<rparr>
   in secure_execute reference_nacl config (\<lambda>k. returnS ()) [6] [2] t =
      secure_execute reference_nacl config (\<lambda>k. asend_raw [0]) [6] [2] t"
  unfolding Let_def
  by (rule conversation_only_if_authenticated [OF reference_nacl_ok]) (simp add: rep_session_proved_def)

text \<open>Request client and reply server complete the handshake together. Each fed with what the
  other sends, the client's handshake returns and the server's task reaches the conversation,
  with the same session box; from then on the server's conversation reads exactly the request
  the client sent and the client exactly the reply.\<close>

theorem req_rep_handshake_completes:
  assumes ok: "nacl_ok N" and auth: "n_verify_key N csk \<in> set vks"
  shows "\<exists>k. let ce = n_public_key N cseed; se = n_public_key N sseed;
      hello = ClientHello_to_json (make_client_hello ce cc);
      answer = ServerAuth_to_json (make_server_auth N ce cc se sc ssk);
      confirm = n_encrypt N k nonce (ClientConfirm_to_json (make_client_confirm N sc cc se ce csk));
      ack = map of_char ''ok'';
      (c, s) = SecureReqClient_init N csk (derive_verify_key N ssk) cseed [Delivered (Some p) answer, Delivered (Some p) ack] (\<lambda>_. None);
      config = \<lparr>sc_authorized_vks = vks, sc_signing_key = ssk\<rparr>;
      t = \<lparr>rt_inbox = [RepMsg hello, RepMsg confirm], rt_ctx = False, rt_out = [], rt_fault = \<lambda>_. None\<rparr>
    in SecureReqClient_connect N c (Inr ()) cc nonce s =
         (Inr (), s\<lparr>s_box := Some k, s_pipe := Some p, s_arrivals := [], s_wire := [hello, confirm]\<rparr>) \<and>
       rep_handshake N config sc sseed t = (Inr (Some k), t\<lparr>rt_inbox := [], rt_out := [answer, ack]\<rparr>) \<and>
       (\<forall>request n s1 s2 t1. s_box s1 = Some k \<and> req_send N n request s1 = (Inr (), s2) \<longrightarrow>
         fst (conv_arecv N k (t1\<lparr>rt_inbox := [RepMsg (last (s_wire s2))]\<rparr>)) = Inr request) \<and>
       (\<forall>response n t1 t2 s1. s_box s1 = Some k \<and> \<not> s_closed s1 \<and> s_pipe s1 \<in> {None, Some p} \<and>
           conv_asend N k n response t1 = (Inr (), t2) \<longrightarrow>
         fst (req_recv N (s1\<lparr>s_arrivals := [Delivered (Some p) (last (rt_out t2))]\<rparr>)) = Inr response)"
proof -
  let ?ce = "n_public_key N cseed" and ?se = "n_public_key N sseed"
  obtain k where k: "n_Box N cseed ?se = Inr k" using nacl_ok_box [OF ok] by metis
  then have k': "n_Box N sseed ?ce = Inr k" using nacl_okD(5) [OF ok, of sseed cseed] by simp
  note l = nacl_okD(3) [OF ok]
  show ?thesis
    unfolding Let_def SecureReqClient_init_def generate_ephemeral_keypair_def derive_verify_key_def prod.case
  proof (intro exI [of _ k] conjI allI impI)
    fix request n s2 and s1 :: secure_sock and t1 :: rep_task
    assume "s_box s1 = Some k \<and> req_send N n request s1 = (Inr (), s2)"
    then show "fst (conv_arecv N k (t1\<lparr>rt_inbox := [RepMsg (last (s_wire s2))]\<rparr>)) = Inr request"
      by (auto simp: req_send_def sock_send_ok conv_arecv_def bindS_app arecv_raw_def nacl_okD [OF ok])
  next
    fix response n t2 and t1 :: rep_task and s1 :: secure_sock
    assume "s_box s1 = Some k \<and> \<not> s_closed s1 \<and> s_pipe s1 \<in> {None, Some p} \<and> conv_asend N k n response t1 = (Inr (), t2)"
    then show "fst (req_recv N (s1\<lparr>s_arrivals := [Delivered (Some p) (last (rt_out t2))]\<rparr>)) = Inr response"
      by (auto simp: conv_asend_def asend_raw_ok req_recv_def bindS_app sock_recv_def req_register_pipe_def register_pipe_def
          nacl_okD [OF ok] split: option.splits)
  qed (use ok k k' l auth in \<open>simp_all add: SecureReqClient_connect_def bindS_app make_server_auth_eq nacl_okD
       req_handshake_accepts [where k = k and rest = "[]" and p = p and se = ?se and sc = sc and ack = "map of_char ''ok''"]
       rep_handshake_accepts [where k = k and rest = "[]" and ce = ?ce and cc = cc and csk = csk and nonce = nonce]\<close>)
qed

theorem req_rep_handshake_completes_witness:
  "\<exists>k. rep_handshake reference_nacl \<lparr>sc_authorized_vks = [[7]], sc_signing_key = [9]\<rparr> [6] [2]
     \<lparr>rt_inbox = [RepMsg (ClientHello_to_json (make_client_hello (pad32 [1]) [3])),
        RepMsg (k @ ClientConfirm_to_json (make_client_confirm reference_nacl [6] [3] (pad32 [2]) (pad32 [1]) [7]))],
      rt_ctx = False, rt_out = [], rt_fault = \<lambda>_. None\<rparr> =
     (Inr (Some k), \<lparr>rt_inbox = [], rt_ctx = False,
        rt_out = [ServerAuth_to_json (make_server_auth reference_nacl (pad32 [1]) [3] (pad32 [2]) [6] [9]), map of_char ''ok''],
        rt_fault = \<lambda>_. None\<rparr>)"
proof -
  have v: "n_verify_key reference_nacl [7] \<in> set [[7]]" by (simp add: reference_nacl_def)
  have i: "n_public_key reference_nacl = pad32" "n_verify_key reference_nacl = id" "\<And>k n m. n_encrypt reference_nacl k n m = k @ m"
    by (simp_all add: reference_nacl_def)
  from req_rep_handshake_completes [OF reference_nacl_ok v, of "[1]" "[2]" "[3]" "[6]" "[9]" "[4]" 5]
  show ?thesis unfolding Let_def SecureReqClient_init_def generate_ephemeral_keypair_def i prod.case rep_task.simps by blast
qed

lemma not_reset:
  "\<not> isinstance (PyExn ValueError) (BuiltinC ConnectionResetError)" "\<not> isinstance (PyExn UnicodeError) (BuiltinC ConnectionResetError)"
  "\<not> isinstance (PyExn KeyError) (BuiltinC ConnectionResetError)" "\<not> isinstance (PyExn AttributeError) (BuiltinC ConnectionResetError)"
  "\<not> isinstance (PyExn TimeoutError) (BuiltinC ConnectionResetError)"
  by code_simp+

lemma tagged_fields_errors:
  assumes "tagged_fields tag keys data = Inl e"
  shows "e \<in> {PyExn ValueError, PyExn UnicodeError, PyExn KeyError, PyExn AttributeError}"
proof -
  have each: "eachR (\<lambda>k. case obj_get kvs (lit k) of None \<Rightarrow> Inl (PyExn KeyError) | Some x \<Rightarrow> Inr x) ks = Inl e \<Longrightarrow>
      e = PyExn KeyError" for kvs ks
    by (induction ks) (auto simp: bindR_def split: option.splits sum.splits)
  have load: "loads_bytes data = Inl e \<Longrightarrow> e = PyExn UnicodeError \<or> e = PyExn ValueError"
    by (auto simp: loads_bytes_def bytes_decode_def loads_def bindR_def split: option.splits sum.splits prod.splits if_splits)
  show ?thesis
  proof (cases "loads_bytes data")
    case (Inr v)
    then show ?thesis using assms each by (cases v) (auto simp: tagged_fields_def split: if_splits)
  qed (use assms load in \<open>auto simp: tagged_fields_def\<close>)
qed

text \<open>Any peer can end the whole service before it has authenticated. A first message that is not
  a hello, and a client that stops after its first message or sends none, make the task of that
  client raise (\<open>ValueError\<close>, \<open>KeyError\<close>, \<open>AttributeError\<close>, or \<open>TimeoutError\<close> once the handshake
  timeout has passed); nothing catches it, so the task group that runs all tasks of the server
  fails. Only a disconnect and a wrong signature end the task quietly.\<close>

theorem unauthenticated_peer_fails_server:
  assumes "ClientHello_from_json data = Inl e"
  shows "(\<exists>t'. secure_execute N config conv sc seed \<lparr>rt_inbox = RepMsg data # rest, rt_ctx = False, rt_out = [], rt_fault = f\<rparr> =
        (Inl (Raised e), t')) \<and> sv_failed (end_conv j m (Inl e) s) \<and>
    (\<exists>t'. secure_execute N config conv sc seed \<lparr>rt_inbox = [], rt_ctx = False, rt_out = [], rt_fault = f\<rparr> =
        (Inl (Raised (PyExn TimeoutError)), t')) \<and> sv_failed (end_conv j m (Inl (PyExn TimeoutError)) s) \<and>
    (\<exists>t'. secure_execute N config conv sc seed \<lparr>rt_inbox = [RepGone], rt_ctx = False, rt_out = [], rt_fault = f\<rparr> = (Inr (), t'))"
proof -
  have "e \<in> {PyExn ValueError, PyExn UnicodeError, PyExn KeyError, PyExn AttributeError}"
    using assms tagged_fields_errors by (auto simp: ClientHello_from_json_def bindR_def split: sum.splits)
  then have e: "\<not> isinstance e (BuiltinC ConnectionResetError)" using not_reset by auto
  have reset: "isinstance (PyExn ConnectionResetError) (BuiltinC ConnectionResetError)" by (simp add: isinstance_def)
  note run = secure_execute_def rep_handshake_def timeout_scope_def bindS_app arecv_raw_def is_reset_def
  have 1: "\<exists>t'. secure_execute N config conv sc seed \<lparr>rt_inbox = RepMsg data # rest, rt_ctx = False, rt_out = [], rt_fault = f\<rparr> =
        (Inl (Raised e), t')" using assms e by (simp add: run)
  have 2: "\<exists>t'. secure_execute N config conv sc seed \<lparr>rt_inbox = [], rt_ctx = False, rt_out = [], rt_fault = f\<rparr> =
        (Inl (Raised (PyExn TimeoutError)), t')" using not_reset by (simp add: run)
  have 3: "\<exists>t'. secure_execute N config conv sc seed \<lparr>rt_inbox = [RepGone], rt_ctx = False, rt_out = [], rt_fault = f\<rparr> = (Inr (), t')"
    using reset by (simp add: run)
  have 4: "sv_failed (end_conv j m (Inl x) s)" if "\<not> isinstance x (BuiltinC ConnectionResetError)" for x
    using that by (simp add: end_conv_def execute_result_def Let_def case_prod_beta)
  show ?thesis using 1 2 3 4 [OF e] 4 [OF not_reset(5)] by blast
qed

theorem unauthenticated_peer_fails_server_witness:
  "\<exists>t'. secure_execute reference_nacl \<lparr>sc_authorized_vks = [[7]], sc_signing_key = [9]\<rparr> (\<lambda>k. returnS ()) [6] [2]
     \<lparr>rt_inbox = [RepMsg [0xFF]], rt_ctx = False, rt_out = [], rt_fault = \<lambda>_. None\<rparr> = (Inl (Raised (PyExn UnicodeError)), t')"
proof -
  have "ClientHello_from_json [0xFF] = Inl (PyExn UnicodeError)" by code_simp
  from unauthenticated_peer_fails_server [OF this] show ?thesis by blast
qed

text \<open>The secure manager keeps the same contract with its dispatcher.\<close>

interpretation secure_slots: slot_owner secure_dispatch conv_do secure_finally "\<lambda>m. map snd (owed (m, Talking))" slot_wf
  using conv_slots.slot_owner_axioms unfolding secure_dispatch_def [abs_def] secure_finally_def [abs_def] .

lemma secure_slots_set_once:
  assumes "life secure_dispatch conv_do acts (secure_Manager_init p) = (m, es)" "secure_finally m = (m', es')"
  shows "mset (es @ es') = mset (handed_over acts)"
  using secure_slots.every_event_set_once [OF _ _ assms]
  by (simp add: secure_Manager_init_def Manager_init_def slot_wf_def owed.simps)

lemma secure_rep_step_ok: "secure_rep_step s s' \<Longrightarrow> server_ok s \<Longrightarrow> server_ok s'"
  unfolding secure_rep_step_def by (rule rep_step_ok)

end
