(* ===== verification/Subscription.thy ===== *)
theory Subscription
  imports SecureRep
begin

text \<open>
  The subscription service built on the secure sockets (\<^verbatim>\<open>secure_subscriber/server.py\<close> and
  \<^verbatim>\<open>client.py\<close>): a client asks for a topic over the authenticated request socket and receives
  the address of a pair socket and a token; on that pair socket both sides run the handshake
  again, the client shows the token, and the server streams events.
\<close>

section \<open>The pair sockets with a token\<close>

record ephemeral_server =
  ep_pair :: pair_server
  ep_addr :: pystr
  ep_token :: "bytes option"

definition EphemeralPairServer_init :: "pair_server \<Rightarrow> pystr \<Rightarrow> ephemeral_server" where
  "EphemeralPairServer_init srv addr = \<lparr>ep_pair = srv, ep_addr = addr, ep_token = None\<rparr>"

text \<open>\<open>port\<close> and \<open>uid\<close> are drawn by \<open>pick_pair_addr\<close>; \<open>listen\<close> is what binding the address gives.\<close>

definition find_available_addr_and_create ::
    "bytes list \<Rightarrow> bytes \<Rightarrow> pystr \<Rightarrow> bytes \<Rightarrow> nat \<Rightarrow> pystr \<Rightarrow> (pystr \<Rightarrow> unit result) \<Rightarrow> arrival list \<Rightarrow> (nat \<Rightarrow> py_exn option) \<Rightarrow>
     (ephemeral_server \<times> secure_sock) result" where
  "find_available_addr_and_create authorized_vks server_signing_key transport connection_token port uid listen incoming faults =
     bindR (pick_pair_addr transport port uid) (\<lambda>pair_addr.
     bindR (SecurePairServer_create (listen pair_addr) authorized_vks server_signing_key incoming faults) (\<lambda>(srv, s).
     Inr ((EphemeralPairServer_init srv pair_addr)\<lparr>ep_token := Some connection_token\<rparr>, s)))"

definition check_token :: "ephemeral_server \<Rightarrow> bytes \<Rightarrow> unit sock_op" where
  "check_token srv token = (\<lambda>s.
     if Some token \<noteq> ep_token srv then (Inl (Raised (PyExn PermissionError)), sock_close s) else (Inr (), s))"

definition EphemeralPairServer_connect :: "nacl \<Rightarrow> ephemeral_server \<Rightarrow> bytes \<Rightarrow> bytes \<Rightarrow> unit sock_op" where
  "EphemeralPairServer_connect N srv server_challenge seed =
     bindS (SecurePairServer_connect N (ep_pair srv) server_challenge seed) (\<lambda>_.
     bindS (pair_recv N) (\<lambda>token. check_token srv token))"

definition EphemeralPairServer_aconnect :: "nacl \<Rightarrow> ephemeral_server \<Rightarrow> bytes \<Rightarrow> bytes \<Rightarrow> unit sock_op" where
  "EphemeralPairServer_aconnect N srv server_challenge seed =
     bindS (SecurePairServer_aconnect N (ep_pair srv) server_challenge seed) (\<lambda>_.
     bindS (pair_arecv N) (\<lambda>token. check_token srv token))"

text \<open>\<open>token_nonce\<close> seals the token, \<open>nonce\<close> the confirmation before it.\<close>

definition EphemeralPairClient_connect ::
    "nacl \<Rightarrow> secure_client \<Rightarrow> bytes \<Rightarrow> unit result \<Rightarrow> bytes \<Rightarrow> bytes \<Rightarrow> bytes \<Rightarrow> unit sock_op" where
  "EphemeralPairClient_connect N c connection_token dial client_challenge nonce token_nonce =
     bindS (SecurePairClient_connect N c dial client_challenge nonce) (\<lambda>_. pair_send N token_nonce connection_token)"

definition EphemeralPairClient_aconnect ::
    "nacl \<Rightarrow> secure_client \<Rightarrow> bytes \<Rightarrow> unit result \<Rightarrow> bytes \<Rightarrow> bytes \<Rightarrow> bytes \<Rightarrow> unit sock_op" where
  "EphemeralPairClient_aconnect N c connection_token dial client_challenge nonce token_nonce =
     bindS (SecurePairClient_aconnect N c dial client_challenge nonce) (\<lambda>_. pair_asend N token_nonce connection_token)"

section \<open>Streaming\<close>

text \<open>
  The JSON text of one event. \<open>topic_text\<close> is the JSON text of the requested topic, \<open>ts\<close> the time
  stamp and \<open>val\<close> the printed number.
\<close>

definition event_json :: "pystr \<Rightarrow> nat \<Rightarrow> pystr \<Rightarrow> pystr \<Rightarrow> pystr" where
  "event_json topic_text seq ts val =
     [123] @ json_str (lit ''topic'') @ [58] @ topic_text @ [44] @ json_str (lit ''seq'') @ [58] @ decimal seq @ [44] @
     json_str (lit ''ts'') @ [58] @ json_str ts @ [44] @ json_str (lit ''value'') @ [58] @ val @ [125]"

text \<open>The first events of the endless feed; \<open>stamp\<close> and \<open>readout\<close> give time and value of each.\<close>

definition generate_events :: "pystr \<Rightarrow> (nat \<Rightarrow> pystr) \<Rightarrow> (nat \<Rightarrow> pystr) \<Rightarrow> nat \<Rightarrow> pystr list" where
  "generate_events topic_text stamp readout n = map (\<lambda>seq. event_json topic_text seq (stamp seq) (readout seq)) [1..<Suc n]"

text \<open>Sending the events, each sealed with its own nonce; after the last one the feed is awaited.\<close>

fun stream_events :: "nacl \<Rightarrow> (bytes \<times> pystr) list \<Rightarrow> unit sock_op" where
  "stream_events N [] = raiseS Blocked"
| "stream_events N ((nonce, event) # rest) =
     bindS (liftS (raised (str_encode event))) (\<lambda>binary.
     bindS (pair_asend N nonce binary) (\<lambda>_. stream_events N rest))"

text \<open>What the handlers of \<open>serve_client\<close> make of an exception.\<close>

definition serve_outcome :: "sec_exn + unit \<Rightarrow> sec_exn + unit" where
  "serve_outcome r =
     (case r of
        Inl BadSignatureError \<Rightarrow> Inr ()
      | Inl (Raised e) \<Rightarrow>
          if isinstance e (BuiltinC TimeoutError) \<or> isinstance e (BuiltinC ValueError) \<or> isinstance e (NngC NngClosed)
          then Inr () else Inl (Raised e)
      | _ \<Rightarrow> r)"

definition serve_client :: "nacl \<Rightarrow> ephemeral_server \<Rightarrow> bytes \<Rightarrow> bytes \<Rightarrow> (bytes \<times> pystr) list \<Rightarrow> unit sock_op" where
  "serve_client N srv server_challenge seed feed = (\<lambda>s.
     apfst serve_outcome (with_block (EphemeralPairServer_aconnect N srv server_challenge seed) (stream_events N feed) s))"

section \<open>The subscription conversation\<close>

text \<open>
  One turn of \<open>SubscriptionReqServer.conversation\<close>. Its random draws and the printed text of an
  exception are the fields of \<open>sub_round\<close>. The result is the pair server handed to the new
  streaming task together with the topic.
\<close>

record sub_round =
  sr_token :: bytes
  sr_port :: nat
  sr_uid :: pystr
  sr_listen :: "pystr \<Rightarrow> unit result"
  sr_nonce :: bytes
  sr_error_text :: pystr

definition subscription_turn ::
    "nacl \<Rightarrow> bytes list \<Rightarrow> bytes \<Rightarrow> pystr \<Rightarrow> bytes \<Rightarrow> sub_round \<Rightarrow> (ephemeral_server \<times> json) task_op" where
  "subscription_turn N authorized_vks signing_key transport box d =
     bindS (conv_arecv N box) (\<lambda>raw.
     case SubscribeRequest_from_json raw of
       Inl e \<Rightarrow>
         if isinstance e (BuiltinC ValueError) \<or> isinstance e (BuiltinC KeyError)
         then bindS (conv_asend N box (sr_nonce d) (ErrorResponse_to_json \<lparr>reason = sr_error_text d\<rparr>)) (\<lambda>_. raiseS (Raised e))
         else raiseS (Raised e)
     | Inr req \<Rightarrow>
         bindS (liftS (raised (find_available_addr_and_create authorized_vks signing_key transport (sr_token d)
           (sr_port d) (sr_uid d) (sr_listen d) [] (\<lambda>_. None)))) (\<lambda>(srv, s).
         bindS (conv_asend N box (sr_nonce d) (SubscribeResponse_to_json (SubscribeResponse_create (ep_addr srv) (sr_token d)))) (\<lambda>_.
         returnS (srv, topic req))))"

text \<open>The loop never returns: it ends with an exception; the streaming tasks started so far are kept
  beside the state.\<close>

fun subscription_conversation ::
    "nacl \<Rightarrow> bytes list \<Rightarrow> bytes \<Rightarrow> pystr \<Rightarrow> bytes \<Rightarrow> sub_round list \<Rightarrow> rep_task \<times> (ephemeral_server \<times> json) list \<Rightarrow>
     (sec_exn + unit) \<times> rep_task \<times> (ephemeral_server \<times> json) list" where
  "subscription_conversation N vks sk transport box [] (t, spawned) = (Inl Blocked, t, spawned)"
| "subscription_conversation N vks sk transport box (d # ds) (t, spawned) =
     (case subscription_turn N vks sk transport box d t of
        (Inl e, t') \<Rightarrow> (Inl e, t', spawned)
      | (Inr x, t') \<Rightarrow> subscription_conversation N vks sk transport box ds (t', spawned @ [x]))"

section \<open>The client\<close>

definition request_topic :: "nacl \<Rightarrow> bytes \<Rightarrow> pystr \<Rightarrow> unit sock_op" where
  "request_topic N nonce name = req_asend N nonce (SubscribeRequest_to_json \<lparr>topic = name\<rparr>)"

definition read_response :: "nacl \<Rightarrow> (json \<times> bytes) sock_op" where
  "read_response N =
     bindS (req_arecv N) (\<lambda>response_raw.
     bindS (liftS (raised (SubscribeResponse_from_json response_raw))) (\<lambda>response.
     bindS (liftS (field_b64dec (connection_token_b64 response))) (\<lambda>token.
     returnS (pair_addr response, token))))"

text \<open>
  The receiving loop of \<open>stream_topic\<close>: the events printed, until \<open>max_events\<close> have arrived (0 for
  no limit) or the feed is closed. \<open>n\<close> bounds the number of turns.
\<close>

fun stream_topic :: "nacl \<Rightarrow> nat \<Rightarrow> nat \<Rightarrow> nat \<Rightarrow> pystr list sock_op" where
  "stream_topic N max_events 0 seen = raiseS Blocked"
| "stream_topic N max_events (Suc n) seen = (\<lambda>s.
     case bindS (pair_arecv N) (\<lambda>binary. liftS (raised (bytes_decode binary))) s of
       (Inl (Raised e), s') \<Rightarrow> if isinstance e (NngC NngClosed) then (Inr [], s') else (Inl (Raised e), s')
     | (Inl e, s') \<Rightarrow> (Inl e, s')
     | (Inr event, s') \<Rightarrow>
         if max_events \<noteq> 0 \<and> max_events \<le> Suc seen then (Inr [json_str event], s')
         else bindS (stream_topic N max_events n (Suc seen)) (\<lambda>es. returnS (json_str event # es)) s')"

section \<open>Properties\<close>

lemma server_connect_arrivals:
  assumes "SecurePairServer_connect N srv sc seed s = (Inr (), s')"
  shows "\<exists>p hello q sealed. s_arrivals s = Delivered p hello # Delivered (Some q) sealed # s_arrivals s' \<and> s_pipe s' = Some q"
  using assms by (auto simp: SecurePairServer_connect_def returns generate_ephemeral_keypair_def)

lemma check_token_ok: "check_token srv token s = (Inr u, s') \<longleftrightarrow> ep_token srv = Some token \<and> s' = s"
  by (auto simp: check_token_def)

text \<open>C27: the streaming socket is opened only for the holder of the token. The handshake of the
  ephemeral server returns only if the client proved an authorised key and then, over the same
  pipe and under the session box, sent exactly the token of the subscription; a client that
  proved its key but sends another token is refused with \<open>PermissionError\<close> and the socket is
  closed.\<close>

theorem token_required:
  assumes ok: "nacl_ok N"
  shows "(EphemeralPairServer_connect N srv sc seed s = (Inr (), s') \<or> EphemeralPairServer_aconnect N srv sc seed s = (Inr (), s') \<longrightarrow>
      (\<exists>s1 k q sealed token. client_proved N (ep_pair srv) sc seed (s_arrivals s) s1 \<and> s_box s1 = Some k \<and> s_pipe s1 = Some q \<and>
         s_arrivals s1 = Delivered (Some q) sealed # s_arrivals s' \<and> n_decrypt N k sealed = Inr token \<and> ep_token srv = Some token)) \<and>
    (SecurePairServer_connect N (ep_pair srv) sc seed s = (Inr (), s1) \<and> pair_recv N s1 = (Inr token, s2) \<and> ep_token srv \<noteq> Some token \<longrightarrow>
      (\<exists>s3. EphemeralPairServer_connect N srv sc seed s = (Inl (Raised (PyExn PermissionError)), s3) \<and> s_closed s3))"
proof (intro conjI impI)
  assume "EphemeralPairServer_connect N srv sc seed s = (Inr (), s') \<or> EphemeralPairServer_aconnect N srv sc seed s = (Inr (), s')"
  then obtain s1 s2 token where 1: "SecurePairServer_connect N (ep_pair srv) sc seed s = (Inr (), s1)" and
    2: "pair_recv N s1 = (Inr token, s2)" and 3: "ep_token srv = Some token" "s' = s2"
    by (auto simp: EphemeralPairServer_connect_def EphemeralPairServer_aconnect_def SecurePairServer_aconnect_def pair_arecv_def
        bindS_eq_Inr timeout_scope_ok check_token_ok)
  from server_connect_arrivals [OF 1] 2 obtain k q sealed where
    "s_box s1 = Some k" "s_pipe s1 = Some q" "s_arrivals s1 = Delivered (Some q) sealed # s_arrivals s2" "n_decrypt N k sealed = Inr token"
    by (auto simp: pair_recv_ok)
  with server_connect_proved [OF ok 1] 3
  show "\<exists>s1 k q sealed token. client_proved N (ep_pair srv) sc seed (s_arrivals s) s1 \<and> s_box s1 = Some k \<and> s_pipe s1 = Some q \<and>
         s_arrivals s1 = Delivered (Some q) sealed # s_arrivals s' \<and> n_decrypt N k sealed = Inr token \<and> ep_token srv = Some token"
    by blast
next
  assume "SecurePairServer_connect N (ep_pair srv) sc seed s = (Inr (), s1) \<and> pair_recv N s1 = (Inr token, s2) \<and> ep_token srv \<noteq> Some token"
  then show "\<exists>s3. EphemeralPairServer_connect N srv sc seed s = (Inl (Raised (PyExn PermissionError)), s3) \<and> s_closed s3"
    by (auto simp: EphemeralPairServer_connect_def bindS_app check_token_def sock_close_def)
qed

lemma turn_answers:
  assumes ok: "nacl_ok N"
    and d: "pick_pair_addr transport (sr_port d) (sr_uid d) = Inr addr" "sr_listen d addr = Inr ()" and name: "list_all scalar name"
    and t: "rt_inbox t = [RepMsg (n_encrypt N box n1 (SubscribeRequest_to_json \<lparr>topic = name\<rparr>))]" "rt_fault t = (\<lambda>_. None)"
  shows "subscription_turn N vks ssk transport box d t =
    (Inr (\<lparr>ep_pair = \<lparr>ps_authorized_vks = vks, ps_signing_key = ssk\<rparr>, ep_addr = addr, ep_token = Some (sr_token d)\<rparr>, JStr name),
     t\<lparr>rt_inbox := [], rt_ctx := False, rt_out := rt_out t @
       [n_encrypt N box (sr_nonce d) (SubscribeResponse_to_json (SubscribeResponse_create addr (sr_token d)))]\<rparr>)"
  using assms
  by (simp add: subscription_turn_def bindS_app conv_arecv_def conv_asend_def arecv_raw_def asend_raw_def nacl_okD [OF ok]
      SubscribeRequest_roundtrip find_available_addr_and_create_def SecurePairServer_create_def EphemeralPairServer_init_def)

lemma response_read:
  assumes ok: "nacl_ok N" and s: "s_box s = Some box" "\<not> s_closed s" "s_pipe s = Some p" and addr: "list_all scalar addr"
    and arr: "s_arrivals s = [Delivered (Some p) (n_encrypt N box n (SubscribeResponse_to_json (SubscribeResponse_create addr token)))]"
  shows "fst (read_response N s) = Inr (JStr addr, token)"
  using assms
  by (simp add: read_response_def req_arecv_def req_recv_def bindS_app sock_recv_def req_register_pipe_def register_pipe_def
      nacl_okD [OF ok] SubscribeResponse_create_def SubscribeResponse_roundtrip)

lemma token_handshake:
  assumes ok: "nacl_ok N" and auth: "n_verify_key N csk \<in> set vks" and k: "n_Box N cseed (n_public_key N sseed) = Inr k"
  defines "ce \<equiv> n_public_key N cseed" and "se \<equiv> n_public_key N sseed"
  shows "s_wire (snd (EphemeralPairClient_connect N (SecurePairClient_init N csk (derive_verify_key N ssk) cseed) token (Inr ()) cc n2 n3
        (BaseSecurePair_init [Delivered (Some p) (ServerAuth_to_json (make_server_auth N ce cc se sc ssk))] (\<lambda>_. None)))) =
      [ClientHello_to_json (make_client_hello ce cc), n_encrypt N k n2 (ClientConfirm_to_json (make_client_confirm N sc cc se ce csk)),
       n_encrypt N k n3 token]"
    and "fst (EphemeralPairServer_connect N \<lparr>ep_pair = \<lparr>ps_authorized_vks = vks, ps_signing_key = ssk\<rparr>, ep_addr = addr, ep_token = Some token\<rparr>
        sc sseed (BaseSecurePair_init [Delivered (Some q) (ClientHello_to_json (make_client_hello ce cc)),
          Delivered (Some q) (n_encrypt N k n2 (ClientConfirm_to_json (make_client_confirm N sc cc se ce csk))),
          Delivered (Some q) (n_encrypt N k n3 token)] (\<lambda>_. None))) = Inr ()"
proof -
  have k': "n_Box N sseed ce = Inr k" using nacl_okD(5) [OF ok, of sseed cseed] k by (simp add: ce_def)
  have l: "length ce = 32" "length se = 32" by (simp_all add: ce_def se_def nacl_okD [OF ok])
  note init = BaseSecurePair_init_def SecurePairClient_init_def generate_ephemeral_keypair_def derive_verify_key_def
  show "s_wire (snd (EphemeralPairClient_connect N (SecurePairClient_init N csk (derive_verify_key N ssk) cseed) token (Inr ()) cc n2 n3
        (BaseSecurePair_init [Delivered (Some p) (ServerAuth_to_json (make_server_auth N ce cc se sc ssk))] (\<lambda>_. None)))) =
      [ClientHello_to_json (make_client_hello ce cc), n_encrypt N k n2 (ClientConfirm_to_json (make_client_confirm N sc cc se ce csk)),
       n_encrypt N k n3 token]"
    using ok k l unfolding se_def ce_def
    by (simp add: EphemeralPairClient_connect_def SecurePairClient_connect_def bindS_app init make_server_auth_eq nacl_okD
        client_handshake_accepts [where k = k and rest = "[]" and p = "Some p" and se = "n_public_key N sseed" and sc = sc] pair_send_def sock_send_def)
  show "fst (EphemeralPairServer_connect N \<lparr>ep_pair = \<lparr>ps_authorized_vks = vks, ps_signing_key = ssk\<rparr>, ep_addr = addr, ep_token = Some token\<rparr>
        sc sseed (BaseSecurePair_init [Delivered (Some q) (ClientHello_to_json (make_client_hello ce cc)),
          Delivered (Some q) (n_encrypt N k n2 (ClientConfirm_to_json (make_client_confirm N sc cc se ce csk))),
          Delivered (Some q) (n_encrypt N k n3 token)] (\<lambda>_. None))) = Inr ()"
    using ok k' l auth
    by (simp add: EphemeralPairServer_connect_def bindS_app init server_answers [where k = k and p = "Some q" and ce = ce and cc = cc]
        after_auth_accepts [where k = k and p = q and csk = csk and nonce = n2] se_def
        pair_recv_def sock_recv_def register_pipe_def nacl_okD check_token_def)
qed

text \<open>A subscription works from end to end. The turn of the server's conversation answers a
  client's request with the address and the token of a fresh pair server and starts streaming
  for the requested topic, the client reads exactly this address and token from the answer, and
  with that token both handshakes on the pair socket complete under one session box.\<close>

theorem subscription_completes:
  assumes ok: "nacl_ok N" and auth: "n_verify_key N csk \<in> set vks"
    and d: "pick_pair_addr transport (sr_port d) (sr_uid d) = Inr addr" "sr_listen d addr = Inr ()" "list_all scalar addr"
    and name: "list_all scalar name"
    and box: "s_box s = Some box" "\<not> s_closed s" "s_pipe s = Some p"
    and req: "request_topic N n1 name s = (Inr (), s1)"
    and t: "rt_inbox t = [RepMsg (last (s_wire s1))]" "rt_fault t = (\<lambda>_. None)"
  shows "\<exists>srv t' k. subscription_turn N vks ssk transport box d t = (Inr (srv, JStr name), t') \<and>
      ep_addr srv = addr \<and> ep_token srv = Some (sr_token d) \<and>
      fst (read_response N (s1\<lparr>s_arrivals := [Delivered (Some p) (last (rt_out t'))]\<rparr>)) = Inr (JStr addr, sr_token d) \<and>
      (let ce = n_public_key N cseed; se = n_public_key N sseed;
           hello = ClientHello_to_json (make_client_hello ce cc);
           answer = ServerAuth_to_json (make_server_auth N ce cc se sc ssk);
           confirm = n_encrypt N k n2 (ClientConfirm_to_json (make_client_confirm N sc cc se ce csk));
           c = SecurePairClient_init N csk (derive_verify_key N ssk) cseed
       in s_wire (snd (EphemeralPairClient_connect N c (sr_token d) (Inr ()) cc n2 n3
             (BaseSecurePair_init [Delivered (Some p) answer] (\<lambda>_. None)))) = [hello, confirm, n_encrypt N k n3 (sr_token d)] \<and>
          fst (EphemeralPairServer_connect N srv sc sseed (BaseSecurePair_init
             [Delivered (Some q) hello, Delivered (Some q) confirm, Delivered (Some q) (n_encrypt N k n3 (sr_token d))] (\<lambda>_. None))) = Inr ())"
proof -
  let ?srv = "\<lparr>ep_pair = \<lparr>ps_authorized_vks = vks, ps_signing_key = ssk\<rparr>, ep_addr = addr, ep_token = Some (sr_token d)\<rparr>"
  let ?out = "n_encrypt N box (sr_nonce d) (SubscribeResponse_to_json (SubscribeResponse_create addr (sr_token d)))"
  let ?t = "t\<lparr>rt_inbox := [], rt_ctx := False, rt_out := rt_out t @ [?out]\<rparr>"
  obtain k where k: "n_Box N cseed (n_public_key N sseed) = Inr k" using nacl_ok_box [OF ok] by metis
  have s1: "s1 = s\<lparr>s_wire := s_wire s @ [n_encrypt N box n1 (SubscribeRequest_to_json \<lparr>topic = name\<rparr>)]\<rparr>"
    using req box by (simp add: request_topic_def req_asend_def req_send_def sock_send_ok)
  then have turn: "subscription_turn N vks ssk transport box d t = (Inr (?srv, JStr name), ?t)"
    using t by (intro turn_answers [OF ok d(1,2) name]) simp_all
  have "fst (read_response N (s1\<lparr>s_arrivals := [Delivered (Some p) (last (rt_out ?t))]\<rparr>)) = Inr (JStr addr, sr_token d)"
    by (rule response_read [OF ok _ _ _ d(3)]) (use box s1 in simp_all)
  then show ?thesis unfolding Let_def
    by (intro exI [of _ ?srv] exI [of _ ?t] exI [of _ k] conjI token_handshake [OF ok auth k]) (simp_all add: turn)
qed

theorem subscription_completes_witness:
  "let d = \<lparr>sr_token = [42], sr_port = 0, sr_uid = [], sr_listen = (\<lambda>_. Inr ()), sr_nonce = [], sr_error_text = []\<rparr>;
       s = (BaseSecurePair_init [] (\<lambda>_. None))\<lparr>s_box := Some [5], s_pipe := Some 3\<rparr>;
       t = \<lparr>rt_inbox = [RepMsg ([5] @ SubscribeRequest_to_json \<lparr>topic = lit ''sensors''\<rparr>)], rt_ctx = False, rt_out = [], rt_fault = (\<lambda>_. None)\<rparr>
   in \<exists>srv t'. subscription_turn reference_nacl [[7]] [9] (lit ''inproc'') [5] d t = (Inr (srv, JStr (lit ''sensors'')), t') \<and>
        ep_addr srv = lit ''inproc://nng-pair-'' \<and> ep_token srv = Some [42]"
proof -
  let ?d = "\<lparr>sr_token = [42], sr_port = 0, sr_uid = [], sr_listen = (\<lambda>_. Inr ()), sr_nonce = [], sr_error_text = []\<rparr>"
  let ?s = "(BaseSecurePair_init [] (\<lambda>_. None))\<lparr>s_box := Some [5], s_pipe := Some 3\<rparr>"
  let ?m = "[5] @ SubscribeRequest_to_json \<lparr>topic = lit ''sensors''\<rparr>"
  let ?t = "\<lparr>rt_inbox = [RepMsg ?m], rt_ctx = False, rt_out = [], rt_fault = (\<lambda>_. None)\<rparr>"
  have v: "n_verify_key reference_nacl [7] \<in> set [[7]]" by (simp add: reference_nacl_def)
  have a: "pick_pair_addr (lit ''inproc'') (sr_port ?d) (sr_uid ?d) = Inr (lit ''inproc://nng-pair-'')" by (simp add: pick_pair_addr_def)
  have r: "request_topic reference_nacl [] (lit ''sensors'') ?s = (Inr (), ?s\<lparr>s_wire := [?m]\<rparr>)"
    by (simp add: request_topic_def req_asend_def req_send_def sock_send_def BaseSecurePair_init_def reference_nacl_def)
  have "sr_listen ?d (lit ''inproc://nng-pair-'') = Inr ()" "s_box ?s = Some [5]" "\<not> s_closed ?s" "s_pipe ?s = Some 3"
    "rt_inbox ?t = [RepMsg (last (s_wire (?s\<lparr>s_wire := [?m]\<rparr>)))]" "rt_fault ?t = (\<lambda>_. None)"
    by (simp_all add: BaseSecurePair_init_def)
  from subscription_completes [OF reference_nacl_ok v a this(1) scalar_lit scalar_lit this(2-4) r this(5,6), of "[9]"]
  show ?thesis unfolding Let_def sub_round.simps by blast
qed

theorem token_required_witness:
  "\<exists>s1 k sealed. client_proved reference_nacl \<lparr>ps_authorized_vks = [[7]], ps_signing_key = [9]\<rparr> [6] [2]
     [Delivered (Some 5) (ClientHello_to_json (make_client_hello (pad32 [1]) [3])),
      Delivered (Some 5) (map2 (+) (pad32 [1]) (pad32 [2]) @ ClientConfirm_to_json (make_client_confirm reference_nacl [6] [3] (pad32 [2]) (pad32 [1]) [7])),
      Delivered (Some 5) (map2 (+) (pad32 [1]) (pad32 [2]) @ [42])] s1 \<and>
     s_box s1 = Some k \<and> n_decrypt reference_nacl k sealed = Inr [42]"
proof -
  let ?k = "map2 (+) (pad32 [1]) (pad32 [2])"
  let ?srv = "\<lparr>ep_pair = \<lparr>ps_authorized_vks = [[7]], ps_signing_key = [9]\<rparr>, ep_addr = [], ep_token = Some [42]\<rparr>"
  let ?s = "BaseSecurePair_init [Delivered (Some 5) (ClientHello_to_json (make_client_hello (pad32 [1]) [3])),
      Delivered (Some 5) (?k @ ClientConfirm_to_json (make_client_confirm reference_nacl [6] [3] (pad32 [2]) (pad32 [1]) [7])),
      Delivered (Some 5) (?k @ [42])] (\<lambda>_. None)"
  have v: "n_verify_key reference_nacl [7] \<in> set [[7]]" and k: "n_Box reference_nacl [1] (n_public_key reference_nacl [2]) = Inr ?k"
    and i: "n_public_key reference_nacl = pad32" "\<And>k n m. n_encrypt reference_nacl k n m = k @ m"
    by (simp_all add: reference_nacl_def)
  obtain r s' where run: "EphemeralPairServer_connect reference_nacl ?srv [6] [2] ?s = (r, s')" by force
  then have "r = Inr ()" using token_handshake(2) [OF reference_nacl_ok v k, of "[9]" "[]" "[42]" "[6]" 5 "[3]" "[]" "[]"]
    unfolding i by simp
  with token_required [OF reference_nacl_ok, of ?srv "[6]" "[2]" ?s s'] run
  obtain s1 k q sealed token where *: "client_proved reference_nacl (ep_pair ?srv) [6] [2] (s_arrivals ?s) s1" "s_box s1 = Some k"
    "s_arrivals s1 = Delivered (Some q) sealed # s_arrivals s'" "n_decrypt reference_nacl k sealed = Inr token" "ep_token ?srv = Some token"
    by blast
  have "token = [42]" "s_arrivals ?s = [Delivered (Some 5) (ClientHello_to_json (make_client_hello (pad32 [1]) [3])),
      Delivered (Some 5) (?k @ ClientConfirm_to_json (make_client_confirm reference_nacl [6] [3] (pad32 [2]) (pad32 [1]) [7])),
      Delivered (Some 5) (?k @ [42])]" "ep_pair ?srv = \<lparr>ps_authorized_vks = [[7]], ps_signing_key = [9]\<rparr>"
    using *(5) by (simp_all add: BaseSecurePair_init_def)
  with * show ?thesis by metis
qed

text \<open>What \<open>serve_client\<close> does not handle: a refused token and a message that does not decrypt raise
  out of the streaming task into the task group.\<close>

lemma serve_outcome_unhandled:
  "serve_outcome (Inl (Raised (PyExn PermissionError))) = Inl (Raised (PyExn PermissionError))"
  "serve_outcome (Inl CryptoError) = Inl CryptoError"
proof -
  have "\<not> isinstance (PyExn PermissionError) (BuiltinC TimeoutError)" "\<not> isinstance (PyExn PermissionError) (BuiltinC ValueError)"
    "\<not> isinstance (PyExn PermissionError) (NngC NngClosed)" by code_simp+
  then show "serve_outcome (Inl (Raised (PyExn PermissionError))) = Inl (Raised (PyExn PermissionError))"
    "serve_outcome (Inl CryptoError) = Inl CryptoError" by (simp_all add: serve_outcome_def)
qed

end
