(* ===== verification/ThreadPool.thy ===== *)
theory ThreadPool
  imports Errors "HOL-Library.Multiset"
begin

text \<open>
  The thread pool over a push-pull channel (\<^verbatim>\<open>examples/PULL-PUSH/threadpool/threadpool.py\<close>):
  submission, the worker loop, cancellation, shutdown and the ordered \<open>map\<close>. Submitting threads,
  workers and the thread that shuts the pool down interleave in steps of \<open>pool_step\<close>. A future is
  named by the call id of its work item; work items and their outcomes are arbitrary, and
  \<open>runs w r\<close> says that calling the item can have the outcome \<open>r\<close> (a value or an exception).
\<close>

section \<open>The 8-octet call id\<close>

text \<open>\<open>struct.Struct("<Q")\<close>: little endian; numbers that do not fit raise \<open>struct.error\<close>.\<close>

definition id_pack :: "nat \<Rightarrow> bytes option" where
  "id_pack n = (if n < 2 ^ 64 then Some (rev (be_bytes 8 n)) else None)"

definition id_unpack :: "bytes \<Rightarrow> nat option" where
  "id_unpack bs = (if length bs = 8 then Some (be_value (rev bs)) else None)"

section \<open>Futures, workers and the pool\<close>

datatype 'r pfuture = PPending | PCancelled | PDone 'r

text \<open>\<open>Future.cancel\<close>; the pool never marks a future as running, so every unfinished one can be
  cancelled.\<close>

fun pfut_cancel :: "'r pfuture \<Rightarrow> 'r pfuture" where
  "pfut_cancel PPending = PCancelled"
| "pfut_cancel f = f"

text \<open>\<open>set_result\<close> and \<open>set_exception\<close>: \<open>None\<close> is \<open>InvalidStateError\<close>.\<close>

fun pfut_set :: "'r \<Rightarrow> 'r pfuture \<Rightarrow> 'r pfuture option" where
  "pfut_set r PPending = Some (PDone r)"
| "pfut_set r f = None"

datatype 'w worker = WIdle | WRunning nat 'w | WExited | WCrashed

text \<open>\<open>tp_work\<close> remembers the item of every call; the code does not keep it.\<close>

record ('w, 'r) pool =
  tp_next :: nat
  tp_pending :: "(nat \<times> 'w) list"
  tp_futures :: "nat \<rightharpoonup> 'r pfuture"
  tp_work :: "nat \<rightharpoonup> 'w"
  tp_sending :: "nat set"
  tp_queue :: "bytes list"
  tp_workers :: "nat \<rightharpoonup> 'w worker"
  tp_shutdown :: bool
  tp_closed :: bool

definition pool_init :: "nat \<Rightarrow> ('w, 'r) pool" where
  "pool_init num_workers =
     \<lparr>tp_next = 0, tp_pending = [], tp_futures = Map.empty, tp_work = Map.empty, tp_sending = {}, tp_queue = [],
      tp_workers = (\<lambda>i. if i < num_workers then Some WIdle else None), tp_shutdown = False, tp_closed = False\<rparr>"

text \<open>\<open>submit\<close> up to the send; \<open>None\<close> is the \<open>RuntimeError\<close> after a shutdown.\<close>

definition submit_begin :: "'w \<Rightarrow> ('w, 'r) pool \<Rightarrow> (nat \<times> ('w, 'r) pool) option" where
  "submit_begin w s =
     (if tp_shutdown s then None
      else Some (tp_next s,
        s\<lparr>tp_next := Suc (tp_next s), tp_pending := tp_pending s @ [(tp_next s, w)],
          tp_futures := (tp_futures s)(tp_next s \<mapsto> PPending), tp_work := (tp_work s)(tp_next s \<mapsto> w),
          tp_sending := insert (tp_next s) (tp_sending s)\<rparr>))"

text \<open>The rest of \<open>submit\<close>: packing, and the send on the push socket.\<close>

definition submit_send :: "nat \<Rightarrow> ('w, 'r) pool \<Rightarrow> ('w, 'r) pool" where
  "submit_send call_id s =
     (case id_pack call_id of
        Some bs \<Rightarrow> if tp_closed s then s\<lparr>tp_sending := tp_sending s - {call_id}\<rparr>
                   else s\<lparr>tp_sending := tp_sending s - {call_id}, tp_queue := tp_queue s @ [bs]\<rparr>
      | None \<Rightarrow> s\<lparr>tp_sending := tp_sending s - {call_id}\<rparr>)"

definition pop_pending :: "nat \<Rightarrow> (nat \<times> 'w) list \<Rightarrow> 'w option \<times> (nat \<times> 'w) list" where
  "pop_pending call_id p = (map_of p call_id, filter (\<lambda>x. fst x \<noteq> call_id) p)"

text \<open>A worker that received a message, up to the call of the work item.\<close>

definition worker_recv :: "nat \<Rightarrow> bytes \<Rightarrow> ('w, 'r) pool \<Rightarrow> ('w, 'r) pool" where
  "worker_recv i msg s =
     (case id_unpack msg of
        None \<Rightarrow> s\<lparr>tp_workers := (tp_workers s)(i \<mapsto> WCrashed)\<rparr>
      | Some call_id \<Rightarrow>
          (let (entry, p) = pop_pending call_id (tp_pending s); s1 = s\<lparr>tp_pending := p\<rparr> in
           case entry of
             None \<Rightarrow> s1
           | Some w \<Rightarrow>
               if tp_futures s1 call_id = Some PCancelled then s1
               else s1\<lparr>tp_workers := (tp_workers s1)(i \<mapsto> WRunning call_id w)\<rparr>))"

text \<open>
  The end of the call. \<open>set_result\<close> is inside the \<open>try\<close> block, so when it raises the handler calls
  \<open>set_exception\<close>, which raises again and ends the thread.
\<close>

definition worker_finish :: "nat \<Rightarrow> nat \<Rightarrow> 'r \<Rightarrow> ('w, 'r) pool \<Rightarrow> ('w, 'r) pool" where
  "worker_finish i call_id r s =
     (case Option.bind (tp_futures s call_id) (pfut_set r) of
        Some f \<Rightarrow> s\<lparr>tp_futures := (tp_futures s)(call_id \<mapsto> f), tp_workers := (tp_workers s)(i \<mapsto> WIdle)\<rparr>
      | None \<Rightarrow> s\<lparr>tp_workers := (tp_workers s)(i \<mapsto> WCrashed)\<rparr>)"

definition cancel_future :: "nat \<Rightarrow> ('w, 'r) pool \<Rightarrow> ('w, 'r) pool" where
  "cancel_future call_id s = s\<lparr>tp_futures := (tp_futures s)(call_id := map_option pfut_cancel (tp_futures s call_id))\<rparr>"

text \<open>The loop of \<open>shutdown(cancel_futures=True)\<close>: \<open>popitem\<close> takes the last inserted item.\<close>

function cancel_pending :: "('w, 'r) pool \<Rightarrow> ('w, 'r) pool" where
  "cancel_pending s =
     (if tp_pending s = [] then s
      else cancel_pending (cancel_future (fst (last (tp_pending s))) (s\<lparr>tp_pending := butlast (tp_pending s)\<rparr>)))"
  by pat_completeness auto
termination
  by (relation "measure (\<lambda>s. length (tp_pending s))") (auto simp: cancel_future_def)

declare cancel_pending.simps [simp del]

definition shutdown :: "bool \<Rightarrow> ('w, 'r) pool \<Rightarrow> ('w, 'r) pool" where
  "shutdown cancel_futures s =
     (if tp_shutdown s then s
      else (let s1 = s\<lparr>tp_shutdown := True\<rparr>; s2 = (if cancel_futures then cancel_pending s1 else s1) in
            s2\<lparr>tp_closed := True\<rparr>))"

text \<open>
  The interleaved steps. Once the push socket is closed, messages it still buffers may be
  dropped, and a waiting worker's receive fails, which ends its loop.
\<close>

inductive pool_step :: "('w \<Rightarrow> 'r \<Rightarrow> bool) \<Rightarrow> ('w, 'r) pool \<Rightarrow> ('w, 'r) pool \<Rightarrow> bool" for runs where
  submits: "submit_begin w s = Some (n, s') \<Longrightarrow> pool_step runs s s'"
| sends: "call_id \<in> tp_sending s \<Longrightarrow> pool_step runs s (submit_send call_id s)"
| receives: "tp_workers s i = Some WIdle \<Longrightarrow> tp_queue s = msg # q \<Longrightarrow> pool_step runs s (worker_recv i msg (s\<lparr>tp_queue := q\<rparr>))"
| finishes: "tp_workers s i = Some (WRunning call_id w) \<Longrightarrow> runs w r \<Longrightarrow> pool_step runs s (worker_finish i call_id r s)"
| cancels: "pool_step runs s (cancel_future call_id s)"
| shuts_down: "pool_step runs s (shutdown b s)"
| drops: "tp_closed s \<Longrightarrow> tp_queue s = q1 @ msg # q2 \<Longrightarrow> pool_step runs s (s\<lparr>tp_queue := q1 @ q2\<rparr>)"
| exits: "tp_closed s \<Longrightarrow> tp_workers s i = Some WIdle \<Longrightarrow> pool_step runs s (s\<lparr>tp_workers := (tp_workers s)(i \<mapsto> WExited)\<rparr>)"

inductive_cases pool_stepE: "pool_step runs s s'"

section \<open>The ordered map\<close>

text \<open>
  The generator \<open>map\<close>, on the outcomes its futures will have in submission order: what it yields,
  the exception it ends with, and the largest number of futures held at a time. \<open>q\<close> is the
  queue of futures.
\<close>

fun yield_all :: "('e + 'a) list \<Rightarrow> 'a list \<times> 'e option" where
  "yield_all [] = ([], None)"
| "yield_all (Inl e # q) = ([], Some e)"
| "yield_all (Inr x # q) = apfst ((#) x) (yield_all q)"

fun pool_map :: "nat \<Rightarrow> ('e + 'a) list \<Rightarrow> ('e + 'a) list \<Rightarrow> ('a list \<times> 'e option) \<times> nat" where
  "pool_map buffersize q [] = (yield_all q, length q)"
| "pool_map buffersize q (r # rs) =
     (let q1 = q @ [r] in
      if buffersize \<le> length q1 then
        (case hd q1 of
           Inl e \<Rightarrow> (([], Some e), length q1)
         | Inr x \<Rightarrow> (let (y, n) = pool_map buffersize (tl q1) rs in (apfst ((#) x) y, max (length q1) n)))
      else pool_map buffersize q1 rs)"

section \<open>The invariant\<close>

text \<open>\<open>open_item\<close>: the item of a call that has not finished.\<close>

definition open_item :: "('w, 'r) pool \<Rightarrow> nat \<Rightarrow> 'w \<Rightarrow> bool" where
  "open_item s n w \<longleftrightarrow> n < tp_next s \<and> tp_work s n = Some w \<and> tp_futures s n \<in> {Some PPending, Some PCancelled}"

definition on_its_way :: "('w, 'r) pool \<Rightarrow> nat \<Rightarrow> bool" where
  "on_its_way s n \<longleftrightarrow> n \<in> tp_sending s \<or> (\<exists>bs \<in> set (tp_queue s). id_pack n = Some bs) \<or> 2 ^ 64 \<le> n"

definition pool_ok :: "('w \<Rightarrow> 'r \<Rightarrow> bool) \<Rightarrow> ('w, 'r) pool \<Rightarrow> bool" where
  "pool_ok runs s \<longleftrightarrow>
     distinct (map fst (tp_pending s)) \<and>
     (\<forall>(n, w) \<in> set (tp_pending s). open_item s n w \<and> (tp_closed s \<or> on_its_way s n)) \<and>
     (\<forall>i n w. tp_workers s i = Some (WRunning n w) \<longrightarrow> open_item s n w \<and> n \<notin> fst ` set (tp_pending s)) \<and>
     (\<forall>i j n w w'. tp_workers s i = Some (WRunning n w) \<longrightarrow> tp_workers s j = Some (WRunning n w') \<longrightarrow> i = j) \<and>
     (\<forall>n r. tp_futures s n = Some (PDone r) \<longrightarrow> (\<exists>w. tp_work s n = Some w \<and> runs w r)) \<and>
     (\<forall>n. tp_futures s n \<noteq> None \<longrightarrow> n < tp_next s) \<and>
     (\<forall>bs \<in> set (tp_queue s). \<exists>n < tp_next s. id_pack n = Some bs) \<and>
     tp_sending s \<subseteq> {..<tp_next s}"

lemma pack_unpack: "id_pack n = Some bs \<Longrightarrow> id_unpack bs = Some n \<and> length bs = 8"
  by (auto simp: id_pack_def id_unpack_def be_value_be_bytes split: if_splits)

lemma pool_okD:
  assumes "pool_ok runs s"
  shows "distinct (map fst (tp_pending s))"
    and "(n, w) \<in> set (tp_pending s) \<Longrightarrow> open_item s n w \<and> (tp_closed s \<or> on_its_way s n)"
    and "tp_workers s i = Some (WRunning n w) \<Longrightarrow> open_item s n w \<and> n \<notin> fst ` set (tp_pending s)"
    and "tp_workers s i = Some (WRunning n w) \<Longrightarrow> tp_workers s j = Some (WRunning n w') \<Longrightarrow> i = j"
    and "tp_futures s n = Some (PDone r) \<Longrightarrow> \<exists>w. tp_work s n = Some w \<and> runs w r"
    and "tp_futures s n \<noteq> None \<Longrightarrow> n < tp_next s"
    and "bs \<in> set (tp_queue s) \<Longrightarrow> \<exists>n < tp_next s. id_pack n = Some bs"
    and "n \<in> tp_sending s \<Longrightarrow> n < tp_next s"
  using assms unfolding pool_ok_def by blast+

lemma pool_okI:
  assumes "distinct (map fst (tp_pending s))"
    and "\<And>n w. (n, w) \<in> set (tp_pending s) \<Longrightarrow> open_item s n w \<and> (tp_closed s \<or> on_its_way s n)"
    and "\<And>i n w. tp_workers s i = Some (WRunning n w) \<Longrightarrow> open_item s n w \<and> n \<notin> fst ` set (tp_pending s)"
    and "\<And>i j n w w'. tp_workers s i = Some (WRunning n w) \<Longrightarrow> tp_workers s j = Some (WRunning n w') \<Longrightarrow> i = j"
    and "\<And>n r. tp_futures s n = Some (PDone r) \<Longrightarrow> \<exists>w. tp_work s n = Some w \<and> runs w r"
    and "\<And>n. tp_futures s n \<noteq> None \<Longrightarrow> n < tp_next s"
    and "\<And>bs. bs \<in> set (tp_queue s) \<Longrightarrow> \<exists>n < tp_next s. id_pack n = Some bs"
    and "\<And>n. n \<in> tp_sending s \<Longrightarrow> n < tp_next s"
  shows "pool_ok runs s"
  unfolding pool_ok_def
proof (intro conjI)
  show "\<forall>(n, w) \<in> set (tp_pending s). open_item s n w \<and> (tp_closed s \<or> on_its_way s n)" using assms(2) by blast
  show "\<forall>i n w. tp_workers s i = Some (WRunning n w) \<longrightarrow> open_item s n w \<and> n \<notin> fst ` set (tp_pending s)" using assms(3) by blast
  show "\<forall>i j n w w'. tp_workers s i = Some (WRunning n w) \<longrightarrow> tp_workers s j = Some (WRunning n w') \<longrightarrow> i = j" using assms(4) by blast
  show "\<forall>n r. tp_futures s n = Some (PDone r) \<longrightarrow> (\<exists>w. tp_work s n = Some w \<and> runs w r)" using assms(5) by blast
  show "\<forall>n. tp_futures s n \<noteq> None \<longrightarrow> n < tp_next s" using assms(6) by blast
  show "\<forall>bs \<in> set (tp_queue s). \<exists>n < tp_next s. id_pack n = Some bs" using assms(7) by blast
  show "tp_sending s \<subseteq> {..<tp_next s}" using assms(8) by blast
qed (rule assms(1))

lemma submit_ok:
  assumes ok: "pool_ok runs s" and b: "submit_begin w s = Some (n, s')"
  shows "pool_ok runs s'"
proof -
  note d = pool_okD [OF ok]
  have s': "s' = s\<lparr>tp_next := Suc (tp_next s), tp_pending := tp_pending s @ [(tp_next s, w)],
      tp_futures := (tp_futures s)(tp_next s \<mapsto> PPending), tp_work := (tp_work s)(tp_next s \<mapsto> w),
      tp_sending := insert (tp_next s) (tp_sending s)\<rparr>"
    using b by (auto simp: submit_begin_def split: if_splits)
  have old: "open_item s' m v" if "open_item s m v" for m v using that by (auto simp: open_item_def s')
  have way: "on_its_way s' m" if "on_its_way s m" for m using that by (auto simp: on_its_way_def s')
  have fresh: "(tp_next s, v) \<notin> set (tp_pending s)" for v using d(2) [of "tp_next s" v] by (auto simp: open_item_def)
  show ?thesis
  proof (rule pool_okI)
    show "distinct (map fst (tp_pending s'))" using d(1) fresh by (auto simp: s')
    show "open_item s' m v \<and> (tp_closed s' \<or> on_its_way s' m)" if "(m, v) \<in> set (tp_pending s')" for m v
    proof (cases "(m, v) \<in> set (tp_pending s)")
      case True
      then show ?thesis using d(2) [OF True] old way by (auto simp: s')
    qed (use that in \<open>auto simp: s' open_item_def on_its_way_def\<close>)
    show "open_item s' m v \<and> m \<notin> fst ` set (tp_pending s')" if "tp_workers s' i = Some (WRunning m v)" for i m v
      using d(3) [of i m v] old [of m v] that by (auto simp: s' open_item_def)
    show "i = j" if "tp_workers s' i = Some (WRunning m v)" "tp_workers s' j = Some (WRunning m v')" for i j m v v'
      using d(4) that by (simp add: s')
    show "\<exists>v. tp_work s' m = Some v \<and> runs v r" if "tp_futures s' m = Some (PDone r)" for m r
      using that d(5) [of m r] by (auto simp: s' split: if_splits)
    show "m < tp_next s'" if "tp_futures s' m \<noteq> None" for m using that d(6) [of m] by (auto simp: s' less_Suc_eq)
    show "\<exists>m < tp_next s'. id_pack m = Some bs" if "bs \<in> set (tp_queue s')" for bs
      using that d(7) [of bs] by (auto simp: s' less_Suc_eq)
    show "m < tp_next s'" if "m \<in> tp_sending s'" for m using that d(8) [of m] by (auto simp: s')
  qed
qed

lemma send_ok:
  assumes ok: "pool_ok runs s" and n: "n \<in> tp_sending s"
  shows "pool_ok runs (submit_send n s)"
proof -
  note d = pool_okD [OF ok]
  have f: "tp_pending (submit_send n s) = tp_pending s" "tp_workers (submit_send n s) = tp_workers s" "tp_closed (submit_send n s) = tp_closed s"
    "tp_futures (submit_send n s) = tp_futures s" "tp_work (submit_send n s) = tp_work s" "tp_next (submit_send n s) = tp_next s"
    "tp_sending (submit_send n s) = tp_sending s - {n}"
    by (auto simp: submit_send_def split: option.splits)
  have o: "open_item (submit_send n s) = open_item s" by (intro ext) (simp add: open_item_def f)
  have q: "bs \<in> set (tp_queue (submit_send n s)) \<Longrightarrow> bs \<in> set (tp_queue s) \<or> id_pack n = Some bs" for bs
    by (auto simp: submit_send_def split: option.splits if_splits)
  have way: "on_its_way (submit_send n s) m" if "on_its_way s m" "\<not> tp_closed s" for m
    using that by (auto simp: on_its_way_def submit_send_def id_pack_def split: option.splits if_splits)
  show ?thesis
  proof (rule pool_okI)
    show "open_item (submit_send n s) m w \<and> (tp_closed (submit_send n s) \<or> on_its_way (submit_send n s) m)"
      if "(m, w) \<in> set (tp_pending (submit_send n s))" for m w
      using d(2) [of m w] that way [of m] unfolding f o by blast
    show "\<exists>m < tp_next (submit_send n s). id_pack m = Some bs" if "bs \<in> set (tp_queue (submit_send n s))" for bs
      using q [OF that] d(7) [of bs] d(8) [OF n] unfolding f by blast
    show "m < tp_next (submit_send n s)" if "m \<in> tp_sending (submit_send n s)" for m
      using that d(8) [of m] unfolding f by simp
  qed (use d(1,3,4,5,6) in \<open>(unfold f o, blast)+\<close>)
qed

lemma cancel_ok:
  assumes ok: "pool_ok runs s"
  shows "pool_ok runs (cancel_future n s)"
proof -
  note d = pool_okD [OF ok]
  let ?s = "cancel_future n s"
  have f: "tp_pending ?s = tp_pending s" "tp_workers ?s = tp_workers s" "tp_closed ?s = tp_closed s" "tp_work ?s = tp_work s"
    "tp_next ?s = tp_next s" "tp_sending ?s = tp_sending s" "tp_queue ?s = tp_queue s"
    by (simp_all add: cancel_future_def)
  have u: "tp_futures ?s m = (if m = n then map_option pfut_cancel (tp_futures s m) else tp_futures s m)" for m
    by (simp add: cancel_future_def)
  have o: "open_item ?s m w \<longleftrightarrow> open_item s m w" for m w
    by (cases "tp_futures s m" rule: option.exhaust; cases "the (tp_futures s m)") (auto simp: open_item_def f u)
  have w: "on_its_way ?s = on_its_way s" by (intro ext) (simp add: on_its_way_def f)
  have fin: "tp_futures ?s m = Some (PDone r) \<longleftrightarrow> tp_futures s m = Some (PDone r)" for m r
    by (cases "tp_futures s m" rule: option.exhaust; cases "the (tp_futures s m)") (auto simp: u)
  have none: "tp_futures ?s m \<noteq> None \<longleftrightarrow> tp_futures s m \<noteq> None" for m by (simp add: u)
  show ?thesis by (rule pool_okI; (unfold f o w fin none)?, (rule d, assumption+ | rule d(1)))
qed

lemma on_its_way_upd [simp]:
  "on_its_way (s\<lparr>tp_workers := x\<rparr>) = on_its_way s" "on_its_way (s\<lparr>tp_pending := p\<rparr>) = on_its_way s"
  "on_its_way (s\<lparr>tp_shutdown := b\<rparr>) = on_its_way s" "on_its_way (s\<lparr>tp_closed := b\<rparr>) = on_its_way s"
  by (intro ext; simp add: on_its_way_def)+

text \<open>Steps that only take items away: pending entries, messages of a closed socket, workers.\<close>

lemma shrink_ok:
  assumes ok: "pool_ok runs s"
    and f: "tp_futures s' = tp_futures s" "tp_work s' = tp_work s" "tp_next s' = tp_next s" "tp_sending s' = tp_sending s"
    and p: "set (tp_pending s') \<subseteq> set (tp_pending s)" "distinct (map fst (tp_pending s'))"
    and c: "\<And>n w. (n, w) \<in> set (tp_pending s') \<Longrightarrow> tp_closed s' \<or> on_its_way s' n"
    and q: "set (tp_queue s') \<subseteq> set (tp_queue s)"
    and w: "\<And>i n w. tp_workers s' i = Some (WRunning n w) \<Longrightarrow>
        tp_workers s i = Some (WRunning n w) \<or> (n, w) \<in> set (tp_pending s) \<and> n \<notin> fst ` set (tp_pending s') \<and>
          (\<forall>j w'. tp_workers s' j = Some (WRunning n w') \<longrightarrow> j = i)"
  shows "pool_ok runs s'"
proof -
  note d = pool_okD [OF ok]
  have o: "open_item s' = open_item s" by (intro ext) (simp add: open_item_def f)
  show ?thesis
  proof (rule pool_okI)
    show "open_item s' n v \<and> (tp_closed s' \<or> on_its_way s' n)" if "(n, v) \<in> set (tp_pending s')" for n v
      using that c [OF that] d(2) [of n v] p(1) unfolding o by blast
    show "open_item s' n v \<and> n \<notin> fst ` set (tp_pending s')" if "tp_workers s' i = Some (WRunning n v)" for i n v
      using w [OF that] d(2) [of n v] d(3) [of i n v] p(1) unfolding o by blast
    show "i = j" if "tp_workers s' i = Some (WRunning n v)" "tp_workers s' j = Some (WRunning n v')" for i j n v v'
      using w [OF that(1)] w [OF that(2)] that d(4) [of i n v j v'] by blast
    show "\<exists>n < tp_next s'. id_pack n = Some bs" if "bs \<in> set (tp_queue s')" for bs
      using that d(7) [of bs] q unfolding f by auto
  qed (use d(5,6,8) p(2) in \<open>(unfold f, blast)+\<close>)
qed

lemma recv_ok:
  assumes ok: "pool_ok runs s" and i: "tp_workers s i = Some WIdle" and q: "tp_queue s = msg # q"
  shows "pool_ok runs (worker_recv i msg (s\<lparr>tp_queue := q\<rparr>))"
proof -
  note d = pool_okD [OF ok]
  obtain n where n: "id_pack n = Some msg" using d(7) [of msg] q by auto
  have u: "id_unpack msg = Some n" using pack_unpack [OF n] by blast
  let ?p = "filter (\<lambda>x. fst x \<noteq> n) (tp_pending s)"
  have way: "tp_closed s" if "(m, w) \<in> set (tp_pending s)" "m \<noteq> n" "m \<notin> tp_sending s" "\<forall>bs \<in> set q. id_pack m \<noteq> Some bs"
    "\<not> 18446744073709551616 \<le> m" for m w
    using d(2) [OF that(1)] that(2-5) q pack_unpack [of m msg] u by (auto simp: on_its_way_def)
  have dist: "distinct (map fst ?p)" using d(1) by (simp add: distinct_map_filter)
  have run: "tp_workers s j \<noteq> Some (WRunning n w')" if "map_of (tp_pending s) n = Some w" for j w w'
    using d(3) [of j n w'] map_of_SomeD [OF that] by force
  show ?thesis
    unfolding worker_recv_def pop_pending_def u Let_def
    by (auto intro!: shrink_ok [OF ok] simp: dist q on_its_way_def i run split: option.splits if_splits dest: way map_of_SomeD)
qed

lemma finish_ok:
  assumes ok: "pool_ok runs s" and i: "tp_workers s i = Some (WRunning n w)" and r: "runs w r"
  shows "pool_ok runs (worker_finish i n r s)"
proof -
  note d = pool_okD [OF ok]
  have n: "open_item s n w" "n \<notin> fst ` set (tp_pending s)" using d(3) [OF i] by auto
  show ?thesis
  proof (cases "tp_futures s n = Some PPending")
    case True
    let ?s = "s\<lparr>tp_futures := (tp_futures s)(n \<mapsto> PDone r), tp_workers := (tp_workers s)(i \<mapsto> WIdle)\<rparr>"
    have o: "open_item ?s m v" if "open_item s m v" "m \<noteq> n" for m v using that by (simp add: open_item_def)
    have "pool_ok runs ?s"
    proof (rule pool_okI)
      show "open_item ?s m v \<and> (tp_closed ?s \<or> on_its_way ?s m)" if "(m, v) \<in> set (tp_pending ?s)" for m v
        using d(2) [of m v] that n(2) o [of m v] by (force simp: on_its_way_def)
      show "open_item ?s m v \<and> m \<notin> fst ` set (tp_pending ?s)" if "tp_workers ?s j = Some (WRunning m v)" for j m v
        using that d(3) [of j m v] d(4) [OF i, of j v] o [of m v] by (cases "m = n") (auto split: if_splits)
      show "j = k" if "tp_workers ?s j = Some (WRunning m v)" "tp_workers ?s k = Some (WRunning m v')" for j k m v v'
        using that d(4) [of j m v k v'] by (auto split: if_splits)
      show "\<exists>v. tp_work ?s m = Some v \<and> runs v x" if "tp_futures ?s m = Some (PDone x)" for m x
        using that d(5) [of m x] n(1) r by (auto simp: open_item_def split: if_splits)
      show "m < tp_next ?s" if "tp_futures ?s m \<noteq> None" for m
        using that d(6) [of m] n(1) by (auto simp: open_item_def split: if_splits)
    qed (use d(1,7,8) in \<open>simp_all add: on_its_way_def\<close>)
    then show ?thesis using True by (simp add: worker_finish_def)
  next
    case False
    then have "worker_finish i n r s = s\<lparr>tp_workers := (tp_workers s)(i \<mapsto> WCrashed)\<rparr>"
      using n(1) by (auto simp: worker_finish_def open_item_def)
    moreover have "pool_ok runs (s\<lparr>tp_workers := (tp_workers s)(i \<mapsto> WCrashed)\<rparr>)"
      by (rule shrink_ok [OF ok]) (use d(1,2) in \<open>auto split: if_splits\<close>)
    ultimately show ?thesis by simp
  qed
qed

lemma cancel_pending_props:
  "tp_pending (cancel_pending s) = [] \<and> tp_workers (cancel_pending s) = tp_workers s \<and> tp_queue (cancel_pending s) = tp_queue s \<and>
   (\<forall>n. tp_futures (cancel_pending s) n =
      (if n \<in> fst ` set (tp_pending s) then map_option pfut_cancel (tp_futures s n) else tp_futures s n))"
proof (induction s rule: cancel_pending.induct)
  case (1 s)
  have idem: "pfut_cancel (pfut_cancel f) = pfut_cancel f" for f :: "'c pfuture" by (cases f) auto
  show ?case
  proof (cases "tp_pending s = []")
    case False
    then have "set (tp_pending s) = insert (last (tp_pending s)) (set (butlast (tp_pending s)))"
      by (metis append_butlast_last_id list.set(2) rotate1.simps(2) set_rotate1)
    then show ?thesis using 1 False
      by (subst (1 2 3 4) cancel_pending.simps) (auto simp: cancel_future_def option.map_comp comp_def idem)
  qed (simp add: cancel_pending.simps)
qed

lemma cancel_pending_flags: "tp_shutdown (cancel_pending s) = tp_shutdown s"
proof (induction s rule: cancel_pending.induct)
  case (1 s)
  then show ?case by (cases "tp_pending s = []") (subst cancel_pending.simps, simp add: cancel_future_def)+
qed

lemma cancel_pending_ok: "pool_ok runs s \<Longrightarrow> pool_ok runs (cancel_pending s)"
proof (induction s rule: cancel_pending.induct)
  case (1 s)
  show ?case
  proof (cases "tp_pending s = []")
    case False
    then have p: "tp_pending s = butlast (tp_pending s) @ [last (tp_pending s)]" by simp
    have "pool_ok runs (s\<lparr>tp_pending := butlast (tp_pending s)\<rparr>)"
      using pool_okD(1,2) [OF 1(2)] p
      by (intro shrink_ok [OF 1(2)]) (auto simp: map_butlast distinct_butlast dest: in_set_butlastD)
    from 1(1) [OF False cancel_ok [OF this]] False show ?thesis by (subst cancel_pending.simps) simp
  qed (use 1 in \<open>simp add: cancel_pending.simps\<close>)
qed

lemma shutdown_ok:
  assumes ok: "pool_ok runs s"
  shows "pool_ok runs (shutdown b s)"
proof -
  have 1: "pool_ok runs (s\<lparr>tp_shutdown := True\<rparr>)"
    by (rule shrink_ok [OF ok]) (use pool_okD(1,2) [OF ok] in auto)
  have 2: "pool_ok runs (u\<lparr>tp_closed := True\<rparr>)" if "pool_ok runs u" for u :: "('a, 'b) pool"
    by (rule shrink_ok [OF that]) (use pool_okD(1) [OF that] in auto)
  show ?thesis using ok 1 2 cancel_pending_ok [OF 1] by (simp add: shutdown_def Let_def)
qed

lemma pool_step_ok:
  assumes "pool_step runs s s'" and ok: "pool_ok runs s"
  shows "pool_ok runs s'"
  using assms(1)
proof cases
  case (drops q1 msg q2)
  show ?thesis unfolding drops(1) by (rule shrink_ok [OF ok]) (use pool_okD(1) [OF ok] drops(2,3) in auto)
next
  case (exits i)
  show ?thesis unfolding exits(1)
    by (rule shrink_ok [OF ok]) (use pool_okD(1) [OF ok] exits(2,3) in \<open>auto split: if_splits\<close>)
qed (auto intro: ok submit_ok [OF ok] send_ok [OF ok] recv_ok [OF ok] finish_ok [OF ok] cancel_ok [OF ok] shutdown_ok [OF ok])

lemma pool_init_ok: "pool_ok runs (pool_init n)"
  by (rule pool_okI) (auto simp: pool_init_def split: if_splits)

lemma pool_reachable_ok: "(pool_step runs)\<^sup>*\<^sup>* (pool_init n) s \<Longrightarrow> pool_ok runs s"
  by (induction rule: rtranclp_induct) (auto intro: pool_init_ok pool_step_ok)

lemma done_kept:
  assumes "pool_step runs s s'" and ok: "pool_ok runs s" and f: "tp_futures s n = Some (PDone r)"
  shows "tp_futures s' n = Some (PDone r)"
  using assms(1)
proof cases
  case (submits w m)
  then show ?thesis using f pool_okD(6) [OF ok, of n] by (auto simp: submit_begin_def split: if_splits)
next
  case (finishes i m w x)
  then show ?thesis using f pool_okD(3) [OF ok finishes(2)] by (auto simp: worker_finish_def open_item_def split: option.splits)
next
  case (shuts_down b)
  then show ?thesis using f cancel_pending_props [of "s\<lparr>tp_shutdown := True\<rparr>"] by (simp add: shutdown_def Let_def)
qed (use f in \<open>auto simp: submit_send_def worker_recv_def pop_pending_def cancel_future_def Let_def split: option.splits if_splits\<close>)

section \<open>Properties\<close>


text \<open>A run for the witnesses: one worker, one item, up to the call of the item.\<close>

definition demo_pool :: "(nat, nat) pool" where
  "demo_pool = \<lparr>tp_next = 1, tp_pending = [], tp_futures = [0 \<mapsto> PPending], tp_work = [0 \<mapsto> 5], tp_sending = {}, tp_queue = [],
     tp_workers = [0 \<mapsto> WRunning 0 5], tp_shutdown = False, tp_closed = False\<rparr>"

lemma demo_pool_reachable: "(pool_step runs)\<^sup>*\<^sup>* (pool_init 1) demo_pool"
proof -
  obtain bs where bs: "id_pack 0 = Some bs" by (simp add: id_pack_def)
  let ?s1 = "\<lparr>tp_next = 1, tp_pending = [(0, 5)], tp_futures = [0 \<mapsto> PPending], tp_work = [0 \<mapsto> 5], tp_sending = {0}, tp_queue = [],
     tp_workers = [0 \<mapsto> WIdle], tp_shutdown = False, tp_closed = False\<rparr> :: (nat, nat) pool"
  let ?s2 = "?s1\<lparr>tp_sending := {}, tp_queue := [bs]\<rparr>"
  have w: "(\<lambda>i :: nat. if i < 1 then Some WIdle else None) = [0 \<mapsto> WIdle]" by (auto simp: fun_eq_iff)
  have "submit_begin 5 (pool_init 1) = Some (0, ?s1)" unfolding submit_begin_def pool_init_def w by simp
  then have 1: "pool_step runs (pool_init 1) ?s1" by (rule submits)
  have "pool_step runs ?s1 (submit_send 0 ?s1)" by (rule sends) simp
  moreover have "submit_send 0 ?s1 = ?s2" by (simp add: submit_send_def bs)
  ultimately have 2: "pool_step runs ?s1 ?s2" by simp
  have "pool_step runs ?s2 (worker_recv 0 bs (?s2\<lparr>tp_queue := []\<rparr>))" by (rule receives) simp_all
  moreover have "worker_recv 0 bs (?s2\<lparr>tp_queue := []\<rparr>) = demo_pool"
    using pack_unpack [OF bs] by (simp add: worker_recv_def pop_pending_def demo_pool_def)
  ultimately have 3: "pool_step runs ?s2 demo_pool" by simp
  from 1 2 3 show ?thesis by (meson converse_rtranclp_into_rtranclp r_into_rtranclp)
qed




lemma pool_map_from:
  "length q < max 1 b \<Longrightarrow> fst (pool_map b q rs) = yield_all (q @ rs) \<and> snd (pool_map b q rs) \<le> max 1 b"
proof (induction rs arbitrary: q)
  case (Cons r rs)
  obtain h t where q: "q @ [r] = h # t" by (cases q) auto
  then have l: "length t = length q" by (metis length_append_singleton length_Cons nat.inject)
  have y: "yield_all (q @ r # rs) = yield_all (h # t @ rs)" using q by (metis append_Cons append_assoc append_Nil)
  show ?case
  proof (cases "b \<le> Suc (length q)")
    case True
    have m: "Suc (length q) \<le> max 1 b" using Cons.prems by simp
    show ?thesis
    proof (cases h)
      case (Inl e)
      then have "pool_map b q (r # rs) = (([], Some e), Suc (length q))" using True q l by (simp add: Let_def)
      then show ?thesis using m y Inl by simp
    next
      case (Inr x)
      then have "pool_map b q (r # rs) = (let (y, n) = pool_map b t rs in (apfst ((#) x) y, max (Suc (length q)) n))"
        using True q l by (simp add: Let_def)
      then show ?thesis using Cons.IH [of t] Cons.prems m y Inr l by (simp add: case_prod_beta)
    qed
  next
    case False
    then have "pool_map b q (r # rs) = pool_map b (q @ [r]) rs" by (simp add: Let_def)
    then show ?thesis using Cons.IH [of "q @ [r]"] False by simp
  qed
qed simp

text \<open>\<open>map\<close> yields the results in submission order whatever the buffer size, stops at the first
  item that raised, and never holds more futures than the buffer size (one at least).\<close>

theorem map_yields_in_order:
  "fst (pool_map buffersize [] rs) = yield_all rs \<and> snd (pool_map buffersize [] rs) \<le> max 1 buffersize"
  using pool_map_from [of "[]" buffersize rs] by simp

text \<open>\<open>shutdown(cancel_futures=True)\<close> comes to an end with an empty table: every item that no worker
  had taken is cancelled unless it was already finished, other futures are untouched, and later
  submissions are refused.\<close>

theorem shutdown_cancels_pending:
  assumes "\<not> tp_shutdown s"
  shows "let s' = shutdown True s in
    tp_pending s' = [] \<and> submit_begin w s' = None \<and>
    (\<forall>n \<in> fst ` set (tp_pending s). tp_futures s' n = map_option pfut_cancel (tp_futures s n)) \<and>
    (\<forall>n. n \<notin> fst ` set (tp_pending s) \<longrightarrow> tp_futures s' n = tp_futures s n)"
  using assms cancel_pending_props [of "s\<lparr>tp_shutdown := True\<rparr>"] cancel_pending_flags [of "s\<lparr>tp_shutdown := True\<rparr>"]
  by (auto simp: shutdown_def submit_begin_def Let_def)

theorem shutdown_cancels_pending_witness:
  "let s = demo_pool\<lparr>tp_pending := [(3, 7)], tp_futures := [3 \<mapsto> PPending]\<rparr> in tp_futures (shutdown True s) 3 = Some PCancelled"
  using shutdown_cancels_pending [of "demo_pool\<lparr>tp_pending := [(3, 7)], tp_futures := [3 \<mapsto> PPending]\<rparr>" 0]
  by (simp add: demo_pool_def Let_def)

text \<open>Two ways to lose work. Cancelling the future of an item while a worker runs it makes
  \<open>set_result\<close> and then \<open>set_exception\<close> raise, and the worker thread ends for good. And a shutdown
  without \<open>cancel_futures\<close> leaves the futures of items that no worker had taken pending: once the
  workers have exited, no step but a cancellation ever completes them.\<close>

theorem pool_loses_work:
  "(tp_workers s i = Some (WRunning n w) \<and> tp_futures s n = Some PCancelled \<longrightarrow>
      tp_workers (worker_finish i n r s) i = Some WCrashed \<and> tp_futures (worker_finish i n r s) n = Some PCancelled) \<and>
   (tp_closed s \<and> tp_shutdown s \<and> tp_futures s n = Some PPending \<and> n < tp_next s \<and>
      (\<forall>j v. tp_workers s j = Some v \<longrightarrow> v \<in> {WExited, WCrashed}) \<and> (pool_step runs)\<^sup>*\<^sup>* s s' \<longrightarrow>
      tp_futures s' n \<in> {Some PPending, Some PCancelled})"
proof -
  let ?P = "\<lambda>u. tp_closed u \<and> tp_shutdown u \<and> tp_futures u n \<in> {Some PPending, Some PCancelled} \<and>
    (\<forall>j v. tp_workers u j = Some v \<longrightarrow> v \<in> {WExited, WCrashed})"
  have step: "?P v" if "pool_step runs u v" "?P u" for u v
    using that
    by (cases rule: pool_step.cases)
      (auto simp: submit_begin_def submit_send_def cancel_future_def shutdown_def split: option.splits if_splits)
  have "?P s'" if "(pool_step runs)\<^sup>*\<^sup>* s s'" "?P s"
    using that(1) that(2) by (induction rule: rtranclp_induct) (use step in blast)+
  then show ?thesis by (auto simp: worker_finish_def)
qed

theorem pool_loses_work_witness:
  "tp_workers (worker_finish 0 0 25 (cancel_future 0 demo_pool)) 0 = Some WCrashed"
  using pool_loses_work [of "cancel_future 0 demo_pool" 0 0 5 25 "\<lambda>w r. False"]
  by (simp add: cancel_future_def demo_pool_def)

end
