(* ===== verification/Discovery.thy ===== *)
theory Discovery
  imports Codec "HOL-Library.Multiset"
begin

text \<open>
  Service discovery with surveys (\<^verbatim>\<open>examples/RESPONDENT-SURVEYOR/service_discovery\<close>): the responder
  that answers surveys on several contexts of one event loop, the surveyor that collects the
  answers until the survey expires, and the program that starts the services and watches them.
  What the sockets do in one turn of a loop is an argument of that turn.
\<close>

section \<open>The responder\<close>

text \<open>
  One turn of the loop of a context: what \<open>arecv\<close> gives or raises, whether the addresses of the
  message's pipe can be printed, what \<open>asend\<close> does, and whether the pipes can be listed
  afterwards.
\<close>

record survey_turn =
  t_recv :: "bytes result"
  t_log :: "unit result"
  t_send :: "unit result"
  t_pipes :: "unit result"

datatype loop_exit = GoOn | Leave | Fails py_exn

definition is_closed :: "py_exn \<Rightarrow> bool" where
  "is_closed e \<longleftrightarrow> isinstance e (NngC NngClosed)"

definition is_nng :: "py_exn \<Rightarrow> bool" where
  "is_nng e \<longleftrightarrow> isinstance e (NngC NngError)"

text \<open>The reply to a survey, if any, and how often the main thread is interrupted.\<close>

definition answer :: "pystr \<Rightarrow> pystr \<Rightarrow> (pystr \<times> nat) option" where
  "answer identity message_text =
     (if message_text = lit ''IDENTITY'' then Some (identity, 0)
      else if message_text = lit ''TERMINATE'' then Some (lit ''terminating'', 1)
      else None)"

text \<open>After the reply was handed to \<open>asend\<close>.\<close>

definition after_send :: "survey_turn \<Rightarrow> loop_exit" where
  "after_send t =
     (case t_send t of
        Inl e \<Rightarrow> if is_closed e then Leave else if is_nng e then (case t_pipes t of Inl e' \<Rightarrow> Fails e' | Inr _ \<Rightarrow> GoOn) else Fails e
      | Inr _ \<Rightarrow> (case t_pipes t of Inl e' \<Rightarrow> Fails e' | Inr _ \<Rightarrow> GoOn))"

text \<open>How the turn ends, the reply that went out, and the interrupts.\<close>

definition context_turn :: "pystr \<Rightarrow> survey_turn \<Rightarrow> loop_exit \<times> pystr option \<times> nat" where
  "context_turn identity t =
     (case t_recv t of
        Inl e \<Rightarrow> (if is_closed e then Leave else if is_nng e then GoOn else Fails e, None, 0)
      | Inr msg \<Rightarrow>
          (case t_log t of
             Inl e \<Rightarrow> (Fails e, None, 0)
           | Inr _ \<Rightarrow>
               (case bytes_decode msg of
                  Inl e \<Rightarrow> (Fails e, None, 0)
                | Inr message_text \<Rightarrow>
                    (case answer identity message_text of
                       None \<Rightarrow> (GoOn, None, 0)
                     | Some (response, n) \<Rightarrow>
                         (after_send t, if t_send t = Inr () then Some response else None, n)))))"

text \<open>
  The tasks of the task group, one per context. The context of a task is open exactly while the
  task serves: it is closed in the \<open>finally\<close> clause, however the task ends.
\<close>

datatype ctx_task = Serving | Done | Failed py_exn | Cancelled

record responder =
  rs_identity :: pystr
  rs_tasks :: "ctx_task list"
  rs_replies :: "(nat \<times> pystr) list"
  rs_interrupts :: nat

text \<open>
  \<open>_serve\<close>: one task for each context that opens; \<open>opens\<close> is what the calls to \<open>open_context\<close> do. One
  that raises makes the task group cancel the tasks created before it.
\<close>

definition responder_serve :: "pystr \<Rightarrow> unit result list \<Rightarrow> responder" where
  "responder_serve identity opens =
     \<lparr>rs_identity = identity,
      rs_tasks = (if list_all (\<lambda>r. \<not> isl r) opens then map (\<lambda>_. Serving) opens
                  else map (\<lambda>_. Cancelled) (takeWhile (\<lambda>r. \<not> isl r) opens)),
      rs_replies = [], rs_interrupts = 0\<rparr>"

text \<open>A task that raises makes the task group cancel the others.\<close>

definition cancel_task :: "ctx_task \<Rightarrow> ctx_task" where
  "cancel_task t = (if t = Serving then Cancelled else t)"

definition end_turn :: "nat \<Rightarrow> loop_exit \<Rightarrow> ctx_task list \<Rightarrow> ctx_task list" where
  "end_turn i x tasks =
     (case x of
        GoOn \<Rightarrow> tasks
      | Leave \<Rightarrow> tasks[i := Done]
      | Fails e \<Rightarrow>
          if isinstance e (BuiltinC CancelledError) then tasks[i := Cancelled]
          else map cancel_task (tasks[i := Failed e]))"

definition context_task :: "nat \<Rightarrow> survey_turn \<Rightarrow> responder \<Rightarrow> responder" where
  "context_task ctx_id t r =
     (if ctx_id < length (rs_tasks r) \<and> rs_tasks r ! ctx_id = Serving then
        (let (x, reply, n) = context_turn (rs_identity r) t in
         r\<lparr>rs_tasks := end_turn ctx_id x (rs_tasks r),
           rs_replies := rs_replies r @ (case reply of None \<Rightarrow> [] | Some s \<Rightarrow> [(ctx_id, s)]),
           rs_interrupts := rs_interrupts r + n\<rparr>)
      else r)"

fun responder_run :: "(nat \<times> survey_turn) list \<Rightarrow> responder \<Rightarrow> responder" where
  "responder_run [] r = r"
| "responder_run ((i, t) # rest) r = responder_run rest (context_task i t r)"

text \<open>\<open>stop\<close> closes the socket: every pending \<open>arecv\<close> raises \<open>NngClosed\<close>.\<close>

definition closed_turn :: survey_turn where
  "closed_turn = \<lparr>t_recv = Inl (NngExn NngClosed NNG_ECLOSED StrError), t_log = Inr (), t_send = Inr (), t_pipes = Inr ()\<rparr>"

definition responder_stop :: "responder \<Rightarrow> responder" where
  "responder_stop r = responder_run (map (\<lambda>i. (i, closed_turn)) [0..<length (rs_tasks r)]) r"

section \<open>The surveyor\<close>

text \<open>\<open>_collect_responses\<close> over what \<open>recv\<close> gives, one element per call; \<open>None\<close> while it waits.\<close>

fun collect_responses :: "bytes result list \<Rightarrow> bytes list result option" where
  "collect_responses [] = None"
| "collect_responses (Inr msg # rest) = map_option (\<lambda>r. bindR r (\<lambda>ms. Inr (msg # ms))) (collect_responses rest)"
| "collect_responses (Inl e # rest) = Some (if isinstance e (NngC NngTimeout) then Inr [] else Inl e)"

section \<open>Starting and watching the services\<close>

text \<open>
  One round of the watch loop. \<open>remaining_procs\<close> is the list the loop runs over, so the element
  after a removed one is passed over. The reports are the number printed, the process and its code.
\<close>

function watch_pass :: "('p \<Rightarrow> int option) \<Rightarrow> nat \<Rightarrow> 'p list \<Rightarrow> 'p list \<times> (nat \<times> 'p \<times> int) list" where
  "watch_pass poll i procs =
     (if i < length procs then
        (case poll (procs ! i) of
           None \<Rightarrow> watch_pass poll (Suc i) procs
         | Some rc \<Rightarrow>
             (let (left, reports) = watch_pass poll (Suc i) (remove1 (procs ! i) procs) in
              (left, (Suc i, procs ! i, rc) # reports)))
      else (procs, []))"
  by pat_completeness auto
termination
  by (relation "measure (\<lambda>(poll, i, procs). length procs - i)") (auto simp: length_remove1)

declare watch_pass.simps [simp del]

text \<open>The loop over its rounds: the reports, and whether it returned.\<close>

fun watch_loop :: "('p \<Rightarrow> int option) list \<Rightarrow> 'p list \<Rightarrow> (nat \<times> 'p \<times> int) list \<times> bool" where
  "watch_loop [] procs = ([], False)"
| "watch_loop (poll # polls) procs =
     (let (left, reports) = watch_pass poll 0 procs in
      if left = [] then (reports, True)
      else (let (more, ended) = watch_loop polls left in (reports @ more, ended)))"

text \<open>The main loop of a service: the ticks at which it prints, once an interrupt ended it.\<close>

fun service_loop :: "nat \<Rightarrow> bool list \<Rightarrow> nat list option" where
  "service_loop tick [] = None"
| "service_loop tick (interrupted # rest) =
     (if interrupted then Some []
      else map_option (\<lambda>l. if Suc tick mod 50 = 0 then Suc tick # l else l) (service_loop (Suc tick) rest))"

section \<open>Lemmas\<close>

abbreviation serving :: "pystr \<Rightarrow> nat \<Rightarrow> responder" where
  "serving identity n \<equiv> responder_serve identity (replicate n (Inr ()))"

lemma serving_tasks [simp]:
  "rs_tasks (serving identity n) = replicate n Serving" "rs_identity (serving identity n) = identity"
  "rs_replies (serving identity n) = []" "rs_interrupts (serving identity n) = 0"
  by (simp_all add: responder_serve_def list_all_iff map_replicate_const)

lemma is_closed_ECLOSED [simp]: "is_closed (NngExn NngClosed c m)"
  by (simp add: is_closed_def isinstance_def)

definition reply_of :: "pystr \<Rightarrow> survey_turn \<Rightarrow> (pystr \<times> nat) option" where
  "reply_of identity t = (case t_recv t of Inl e \<Rightarrow> None | Inr m \<Rightarrow>
     (case bytes_decode m of Inl e \<Rightarrow> None | Inr s \<Rightarrow> answer identity s))"

text \<open>A turn in which nothing goes wrong, or in which receiving fails with another error of the library.\<close>

definition orderly :: "survey_turn \<Rightarrow> bool" where
  "orderly t \<longleftrightarrow>
     (case t_recv t of
        Inl e \<Rightarrow> is_nng e \<and> \<not> is_closed e
      | Inr m \<Rightarrow> isl (bytes_decode m) = False \<and> t_log t = Inr () \<and> t_send t = Inr () \<and> t_pipes t = Inr ())"

lemma orderly_turn:
  assumes "orderly t"
  shows "context_turn identity t =
    (GoOn, map_option fst (reply_of identity t), case reply_of identity t of None \<Rightarrow> 0 | Some (s, n) \<Rightarrow> n)"
  using assms by (auto simp: orderly_def context_turn_def reply_of_def after_send_def split: sum.splits option.splits)

lemma orderly_task:
  assumes "orderly t" "rs_tasks r = replicate n Serving" "i < n"
  shows "context_task i t r = r\<lparr>rs_replies := rs_replies r @ (case reply_of (rs_identity r) t of None \<Rightarrow> [] | Some (s, _) \<Rightarrow> [(i, s)]),
    rs_interrupts := rs_interrupts r + (case reply_of (rs_identity r) t of None \<Rightarrow> 0 | Some (s, n) \<Rightarrow> n)\<rparr>"
  using assms by (auto simp: context_task_def orderly_turn end_turn_def split: option.splits)

lemma orderly_run:
  assumes "\<forall>(i, t) \<in> set evs. i < n \<and> orderly t" "rs_tasks r = replicate n Serving"
  shows "responder_run evs r = r\<lparr>
    rs_replies := rs_replies r @ concat (map (\<lambda>(i, t). case reply_of (rs_identity r) t of None \<Rightarrow> [] | Some (s, _) \<Rightarrow> [(i, s)]) evs),
    rs_interrupts := rs_interrupts r + sum_list (map (\<lambda>(i, t). case reply_of (rs_identity r) t of None \<Rightarrow> 0 | Some (_, k) \<Rightarrow> k) evs)\<rparr>"
  using assms
proof (induction evs arbitrary: r)
  case (Cons p evs)
  obtain i t where p: "p = (i, t)" by (cases p)
  have t: "orderly t" "i < n" using Cons.prems(1) p by auto
  show ?case
    using Cons.IH [of "context_task i t r"] Cons.prems orderly_task [OF t(1) Cons.prems(2) t(2)] p
    by (auto simp: add.assoc split: option.splits)
qed simp

lemma closed_task:
  "context_task i closed_turn r =
     (if i < length (rs_tasks r) \<and> rs_tasks r ! i = Serving then r\<lparr>rs_tasks := (rs_tasks r)[i := Done]\<rparr> else r)"
  by (simp add: context_task_def context_turn_def closed_turn_def end_turn_def)

lemma stop_prefix:
  assumes "rs_tasks r = replicate n Serving" "k \<le> n"
  shows "responder_run (map (\<lambda>i. (i, closed_turn)) [0..<k]) r = r\<lparr>rs_tasks := replicate k Done @ replicate (n - k) Serving\<rparr>"
  using assms(2)
proof (induction k)
  case (Suc k)
  have run: "responder_run (xs @ ys) r = responder_run ys (responder_run xs r)" for xs ys r
    by (induction xs arbitrary: r) auto
  have "(replicate k Done @ replicate (n - k) Serving)[k := Done] = replicate (Suc k) Done @ replicate (n - Suc k) Serving"
    using Suc.prems by (cases "n - k") (auto simp: list_update_append replicate_app_Cons_same nth_append)
  with Suc show ?case by (simp add: run closed_task nth_append)
qed (use assms(1) in simp)

lemma no_serving_stable:
  assumes "Serving \<notin> set (rs_tasks r)"
  shows "responder_run evs r = r"
  using assms
proof (induction evs arbitrary: r)
  case (Cons p evs)
  obtain i t where p: "p = (i, t)" by (cases p)
  have "\<not> (i < length (rs_tasks r) \<and> rs_tasks r ! i = Serving)" using Cons.prems by (metis nth_mem)
  then have "context_task i t r = r" by (simp only: context_task_def if_False)
  with Cons p show ?case by simp
qed simp

lemma watch_pass_reports:
  "watch_pass poll i procs = (left, reports) \<Longrightarrow>
     mset procs = mset left + mset (map (\<lambda>x. fst (snd x)) reports) \<and> (\<forall>(k, p, rc) \<in> set reports. poll p = Some rc)"
proof (induction poll i procs arbitrary: left reports rule: watch_pass.induct)
  case (1 poll i procs)
  show ?case
  proof (cases "i < length procs")
    case True
    show ?thesis
    proof (cases "poll (procs ! i)")
      case None
      with "1.prems" True "1.IH"(1) [OF True None] show ?thesis by (subst (asm) watch_pass.simps) simp
    next
      case (Some rc)
      obtain l r where w: "watch_pass poll (Suc i) (remove1 (procs ! i) procs) = (l, r)" by fastforce
      with "1.prems" True Some have "left = l" "reports = (Suc i, procs ! i, rc) # r"
        by (subst (asm) watch_pass.simps, simp)+
      with "1.IH"(2) [OF True Some w] Some insert_DiffM [of "procs ! i" "mset procs"] True show ?thesis by simp
    qed
  next
    case False
    with "1.prems" show ?thesis by (subst (asm) watch_pass.simps) simp
  qed
qed

lemma watch_pass_progress:
  assumes "procs \<noteq> []" "poll (hd procs) \<noteq> None" "watch_pass poll 0 procs = (left, reports)"
  shows "length left < length procs"
proof -
  have "reports \<noteq> []" using assms by (subst (asm) watch_pass.simps) (auto simp: hd_conv_nth split: option.splits prod.splits)
  moreover have "length procs = length left + length reports"
    using arg_cong [OF conjunct1 [OF watch_pass_reports [OF assms(3)]], of size] by simp
  ultimately show ?thesis by simp
qed

section \<open>Properties\<close>

text \<open>As long as every survey is UTF-8 text and the library's other calls succeed, the responder serves
  on all its contexts under any interleaving: each \<open>IDENTITY\<close> and \<open>TERMINATE\<close> survey is answered
  once, on the context it came in on and in that order, other surveys are ignored, the main thread is
  interrupted once per \<open>TERMINATE\<close>, and \<open>stop\<close> ends every task.\<close>

theorem responder_answers_surveys:
  assumes "\<forall>(i, t) \<in> set evs. i < n \<and> orderly t"
  shows "let r = responder_run evs (serving identity n) in
    rs_tasks r = replicate n Serving \<and>
    rs_replies r = concat (map (\<lambda>(i, t). case reply_of identity t of None \<Rightarrow> [] | Some (s, _) \<Rightarrow> [(i, s)]) evs) \<and>
    rs_interrupts r = sum_list (map (\<lambda>(i, t). case reply_of identity t of None \<Rightarrow> 0 | Some (_, k) \<Rightarrow> k) evs) \<and>
    rs_tasks (responder_stop r) = replicate n Done \<and> rs_replies (responder_stop r) = rs_replies r"
proof -
  let ?r = "responder_run evs (serving identity n)"
  have r0: "rs_tasks (serving identity n) = replicate n Serving" by simp
  note run = orderly_run [OF assms r0]
  have tasks: "rs_tasks ?r = replicate n Serving" using run r0 by simp
  have "responder_stop ?r = ?r\<lparr>rs_tasks := replicate n Done\<rparr>"
    using stop_prefix [OF tasks, of n] tasks by (simp add: responder_stop_def)
  with run tasks show ?thesis by simp
qed

theorem responder_answers_surveys_witness:
  "rs_replies (responder_run [(1, \<lparr>t_recv = Inr [73, 68, 69, 78, 84, 73, 84, 89], t_log = Inr (), t_send = Inr (), t_pipes = Inr ()\<rparr>)]
     (serving [115] 2)) = [(1, [115])]"
  (is "rs_replies (responder_run [(1, ?t)] _) = _")
proof -
  have d: "bytes_decode [73, 68, 69, 78, 84, 73, 84, 89] = Inr (lit ''IDENTITY'')" by code_simp
  then have "\<forall>(i, t) \<in> set [(1, ?t)]. i < (2 :: nat) \<and> orderly t" by (simp add: orderly_def)
  from responder_answers_surveys [OF this, of "[115]"] d show ?thesis by (simp add: Let_def reply_of_def answer_def)
qed

text \<open>A single survey that is not UTF-8 silences the service. The decoding error leaves the task of its
  context, the task group cancels all others, and no later survey on any context is answered.\<close>

theorem undecodable_survey_silences_service:
  assumes "i < length (rs_tasks r)" "rs_tasks r ! i = Serving"
    and "t_recv t = Inr m" "t_log t = Inr ()" "bytes_decode m = Inl e"
  shows "let r' = responder_run evs (context_task i t r) in
    Serving \<notin> set (rs_tasks r') \<and> rs_tasks r' ! i = Failed (PyExn UnicodeError) \<and> rs_replies r' = rs_replies r"
proof -
  have e: "e = PyExn UnicodeError" using assms(5) by (auto simp: bytes_decode_def split: option.splits)
  have nc: "\<not> isinstance (PyExn UnicodeError) (BuiltinC CancelledError)" by code_simp
  have step: "context_task i t r = r\<lparr>rs_tasks := map cancel_task ((rs_tasks r)[i := Failed e])\<rparr>"
    using assms nc e by (simp add: context_task_def context_turn_def end_turn_def)
  have none: "Serving \<notin> set (rs_tasks (context_task i t r))" by (auto simp: step cancel_task_def split: if_splits)
  show ?thesis unfolding no_serving_stable [OF none] Let_def using none assms(1) by (simp add: step e cancel_task_def)
qed

theorem undecodable_survey_silences_service_witness:
  "Serving \<notin> set (rs_tasks (context_task 0 \<lparr>t_recv = Inr [255], t_log = Inr (), t_send = Inr (), t_pipes = Inr ()\<rparr> (serving [115] 3)))"
  (is "Serving \<notin> set (rs_tasks (context_task 0 ?t ?r))")
proof -
  have "bytes_decode [255] = Inl (PyExn UnicodeError)" by code_simp
  then show ?thesis
    using undecodable_survey_silences_service [of 0 ?r ?t "[255]" "PyExn UnicodeError" "[]"] by (simp add: Let_def)
qed



text \<open>Once all services have exited, the watch loop ends after at most as many rounds as there are
  services, and reports each of them exactly once.\<close>

theorem watch_loop_ends:
  assumes "\<forall>poll \<in> set polls. \<forall>p. poll p \<noteq> None" "length procs \<le> length polls" "polls \<noteq> []"
  shows "snd (watch_loop polls procs) \<and> mset (map (\<lambda>x. fst (snd x)) (fst (watch_loop polls procs))) = mset procs"
  using assms
proof (induction polls arbitrary: procs)
  case (Cons poll polls)
  obtain left reports where w: "watch_pass poll 0 procs = (left, reports)" by fastforce
  note rep = watch_pass_reports [OF w]
  show ?case
  proof (cases "left = []")
    case False
    then have "procs \<noteq> []" using rep by auto
    then have "length left < length procs" using watch_pass_progress [OF _ _ w] Cons.prems(1) by simp
    moreover have "1 \<le> length left" using False by (cases left) simp_all
    ultimately have "polls \<noteq> []" using Cons.prems(2) by auto
    with Cons.IH [of left] Cons.prems False w rep \<open>length left < length procs\<close> show ?thesis by (simp add: case_prod_beta)
  qed (use w rep in simp)
qed simp

theorem watch_loop_ends_witness:
  "snd (watch_loop [\<lambda>_. Some 0, \<lambda>_. Some 1, \<lambda>_. Some 2] ''abc'')"
  using watch_loop_ends [of "[\<lambda>_. Some 0, \<lambda>_. Some 1, \<lambda>_. Some 2]" "''abc''"] by simp

text \<open>Two neighbours that exit in the same interval are reported in different rounds, under the same
  number.\<close>

lemma watch_loop_misnumbers:
  "p \<noteq> q \<Longrightarrow> watch_loop [\<lambda>_. Some 0, \<lambda>_. Some 0] [p, q] = ([(1, p, 0), (1, q, 0)], True)"
  by (simp add: watch_pass.simps)

end
