(* ===== verification/Logging.thy ===== *)
theory Logging
  imports Codec
begin

text \<open>
  Log records over publish and subscribe (\<^verbatim>\<open>examples/PUB-SUB/logging\<close>): the handler that
  publishes a record under its level as topic, and the listener that subscribes to levels and
  rebuilds the records. The fields of a record that the \<open>logging\<close> module computes, the message and
  the formatted traceback, are given with the record.
\<close>

section \<open>Log records\<close>

text \<open>The value of a field as \<open>json.dumps(default=str)\<close> sees it: a number is given by its text.\<close>

datatype log_val = LStr pystr | LNum pystr | LNull

definition RECORD_FIELDS :: "string list" where
  "RECORD_FIELDS =
     [''name'', ''levelno'', ''levelname'', ''pathname'', ''filename'', ''module'', ''lineno'', ''funcName'', ''created'',
      ''msecs'', ''relativeCreated'', ''thread'', ''threadName'', ''process'', ''processName'', ''msg'', ''exc_text'', ''stack_info'']"

text \<open>
  \<open>lr_fields\<close> gives \<open>getattr(record, field, None)\<close>, \<open>lr_exc_info\<close> the traceback that formatting
  renders, if there is one, and \<open>lr_message\<close> the result of \<open>getMessage\<close>.
\<close>

record log_record =
  lr_levelname :: pystr
  lr_fields :: "string \<Rightarrow> log_val"
  lr_exc_info :: "pystr result option"
  lr_message :: "pystr result"

section \<open>Publishing\<close>

text \<open>\<open>self.format(record)\<close> fills in \<open>exc_text\<close> unless it is there already.\<close>

definition format_record :: "log_record \<Rightarrow> log_record result" where
  "format_record record =
     (case lr_exc_info record of
        None \<Rightarrow> Inr record
      | Some text \<Rightarrow>
          if lr_fields record ''exc_text'' \<in> {LNull, LStr []}
          then bindR text (\<lambda>s. Inr (record\<lparr>lr_fields := (lr_fields record)(''exc_text'' := LStr s)\<rparr>))
          else Inr record)"

definition json_val :: "log_val \<Rightarrow> pystr" where
  "json_val v = (case v of LStr s \<Rightarrow> json_str s | LNum t \<Rightarrow> t | LNull \<Rightarrow> lit ''null'')"

text \<open>\<open>json.dumps\<close> with its default separators.\<close>

fun dumps_members :: "(pystr \<times> log_val) list \<Rightarrow> pystr" where
  "dumps_members [] = []"
| "dumps_members [(k, v)] = json_str k @ lit '': '' @ json_val v"
| "dumps_members ((k, v) # r) = json_str k @ lit '': '' @ json_val v @ lit '', '' @ dumps_members r"

definition dumps_record :: "(pystr \<times> log_val) list \<Rightarrow> pystr" where
  "dumps_record d = 123 # dumps_members d @ [125]"

definition TOPIC_SEP :: bytes where
  "TOPIC_SEP = [10]"

text \<open>The dictionary of a record; \<open>d["msg"] = record.getMessage()\<close> keeps the place of the key.\<close>

definition record_dict :: "log_record \<Rightarrow> pystr \<Rightarrow> (pystr \<times> log_val) list" where
  "record_dict record message =
     map (\<lambda>f. (lit f, if f = ''msg'' then LStr message else lr_fields record f)) RECORD_FIELDS"

text \<open>The body of \<open>emit\<close> up to the send, and \<open>emit\<close>: an exception goes to \<open>handleError\<close> (\<open>False\<close>).\<close>

definition record_message :: "log_record \<Rightarrow> bytes result" where
  "record_message record0 =
     bindR (if lr_exc_info record0 \<noteq> None then format_record record0 else Inr record0) (\<lambda>record.
     bindR (lr_message record) (\<lambda>message.
     bindR (str_encode (lr_levelname record)) (\<lambda>level.
     bindR (str_encode (dumps_record (record_dict record message))) (\<lambda>payload.
     Inr ((level @ TOPIC_SEP) @ payload)))))"

definition emit :: "(bytes \<Rightarrow> unit result) \<Rightarrow> log_record \<Rightarrow> bool result" where
  "emit send record =
     (case bindR (record_message record) send of
        Inl e \<Rightarrow> if isinstance e (BuiltinC PyException) then Inr False else Inl e
      | Inr _ \<Rightarrow> Inr True)"

section \<open>Listening\<close>

definition ALL_LEVELS :: "pystr list" where
  "ALL_LEVELS = map lit [''DEBUG'', ''INFO'', ''WARNING'', ''ERROR'', ''CRITICAL'']"

text \<open>The subscriptions the constructor registers.\<close>

definition listener_init :: "pystr list \<Rightarrow> bytes list result" where
  "listener_init levels =
     (if \<exists>lvl \<in> set levels. lvl \<noteq> [] \<and> lvl \<notin> set ALL_LEVELS then Inl (PyExn ValueError)
      else if levels = [] \<or> levels = [[]] then Inr [[]]
      else eachR (\<lambda>lvl. bindR (str_encode lvl) (\<lambda>b. Inr (b @ TOPIC_SEP))) levels)"

text \<open>The library passes on the messages that begin with a subscribed prefix.\<close>

definition passed_on :: "bytes list \<Rightarrow> bytes \<Rightarrow> bool" where
  "passed_on subs msg \<longleftrightarrow> (\<exists>p \<in> set subs. take (length p) msg = p)"

text \<open>\<open>raw.index(sep)\<close> and the slice after it.\<close>

fun after_sep :: "bytes \<Rightarrow> bytes result" where
  "after_sep [] = Inl (PyExn ValueError)"
| "after_sep (b # r) = (if b = 10 then Inr r else after_sep r)"

text \<open>
  One message: \<open>makeLogRecord\<close> updates the attributes of a new record from a dictionary. What updating
  from another JSON value does is the argument \<open>upd\<close>.
\<close>

definition receive_record :: "(json \<Rightarrow> (pystr \<times> json) list result) \<Rightarrow> bytes \<Rightarrow> (pystr \<times> json) list result" where
  "receive_record upd raw =
     bindR (after_sep raw) (\<lambda>payload.
     bindR (loads_bytes payload) (\<lambda>d.
       case d of JObj kvs \<Rightarrow> Inr kvs | v \<Rightarrow> upd v))"

text \<open>The loop over what \<open>recv\<close> gives: the records handled, and how it ends. The socket is closed in any
  case.\<close>

datatype run_end = Interrupted | StillListening | Raises py_exn

fun listener_run :: "(json \<Rightarrow> (pystr \<times> json) list result) \<Rightarrow> bytes result list \<Rightarrow> (pystr \<times> json) list list \<times> run_end" where
  "listener_run upd [] = ([], StillListening)"
| "listener_run upd (r # rest) =
     (case bindR r (receive_record upd) of
        Inr rec \<Rightarrow> (let (recs, x) = listener_run upd rest in (rec # recs, x))
      | Inl e \<Rightarrow> ([], if isinstance e (BuiltinC KeyboardInterrupt) then Interrupted else Raises e))"

section \<open>Reading back a record\<close>

lemma while_stop:
  assumes "\<not> P c"
  shows "takeWhile P (xs @ c # r) = takeWhile P xs" "dropWhile P (xs @ c # r) = dropWhile P xs @ c # r"
  using assms by (induction xs) auto

text \<open>A number keeps its extent when a character follows that cannot continue it.\<close>

definition stops :: "nat \<Rightarrow> bool" where
  "stops c \<longleftrightarrow> c = 44 \<or> c = 125"

lemma stops_not_digit: "stops c \<Longrightarrow> \<not> is_digit c"
  by (auto simp: stops_def is_digit_def)

lemma int_part_app: "int_part t = Some (i, r0) \<Longrightarrow> stops c \<Longrightarrow> int_part (t @ c # r) = Some (i, r0 @ c # r)"
  by (cases t; cases "tl t") (auto simp: int_part_def Let_def while_stop stops_not_digit split: if_splits)

lemma frac_part_app: "frac_part s = (f, r0) \<Longrightarrow> stops c \<Longrightarrow> frac_part (s @ c # r) = (f, r0 @ c # r)"
  using stops_not_digit [of c] by (auto simp: frac_part_def stops_def while_stop split: list.splits if_splits)

lemma exp_part_app: "exp_part s = (x, r0) \<Longrightarrow> stops c \<Longrightarrow> exp_part (s @ c # r) = (x, r0 @ c # r)"
  using stops_not_digit [of c] by (auto simp: exp_part_def stops_def while_stop split: list.splits if_splits)

lemma match_number_app: "match_number t = Some (x, r0) \<Longrightarrow> stops c \<Longrightarrow> match_number (t @ c # r) = Some (x, r0 @ c # r)"
  by (auto simp: match_number_def int_part_app frac_part_app exp_part_app split: option.splits prod.splits)

fun to_json :: "log_val \<Rightarrow> json" where
  "to_json (LStr s) = JStr s"
| "to_json (LNum t) = JNum t"
| "to_json LNull = JNull"

fun val_ok :: "log_val \<Rightarrow> bool" where
  "val_ok (LStr s) \<longleftrightarrow> list_all scalar s"
| "val_ok (LNum t) \<longleftrightarrow> match_number t = Some (t, [])"
| "val_ok LNull \<longleftrightarrow> True"

lemma number_head:
  assumes "match_number t = Some (t, [])"
  obtains h u where "t = h # u" "is_digit h" | h u where "t = 45 # h # u" "is_digit h"
proof -
  from assms obtain i r where i: "int_part t = Some (i, r)" by (auto simp: match_number_def split: option.splits)
  have d: "is_digit 48" by (simp add: is_digit_def)
  show thesis
  proof (cases t)
    case (Cons h u)
    show thesis
    proof (cases "h = 45")
      case True
      with i Cons that(2) d show thesis by (cases u) (auto simp: int_part_def split: if_splits)
    next
      case False
      with i Cons that(1) d show thesis by (auto simp: int_part_def split: if_splits)
    qed
  qed (use i in \<open>simp add: int_part_def\<close>)
qed

lemma scan_value:
  assumes "val_ok v" "stops c"
  shows "scan_once (Suc n) (json_val v @ c # r) = Some (to_json v, c # r)" "skip_ws (json_val v @ c # r) = json_val v @ c # r"
proof -
  have num: "scan_once (Suc n) (t @ c # r) = Some (JNum t, c # r) \<and> skip_ws (t @ c # r) = t @ c # r"
    if t: "match_number t = Some (t, [])" for t
  proof -
    have m: "match_number (t @ c # r) = Some (t, c # r)" using match_number_app [OF t assms(2)] by simp
    have "(\<exists>h s. t @ c # r = h # s \<and> (is_digit h \<or> h = 45)) \<and> first_const json_constants (t @ c # r) = None"
      using t by (rule number_head) (auto simp: json_constants_def strip_prefix_def is_digit_def)
    with m show ?thesis by (auto simp: scan_once.simps is_digit_def)
  qed
  show "scan_once (Suc n) (json_val v @ c # r) = Some (to_json v, c # r)"
    using assms num by (cases v) (auto simp: json_val_def scan_once_str,
        simp add: scan_once.simps json_constants_def strip_prefix_def)
  show "skip_ws (json_val v @ c # r) = json_val v @ c # r"
    using assms num by (cases v) (auto simp: json_val_def json_str_def)
qed

lemma scan_record_member:
  assumes "list_all scalar k" "val_ok v" "stops c"
  shows "scan_members (Suc (Suc n)) (json_str k @ lit '': '' @ json_val v @ c # r) =
    (if c = 125 then Some ([(k, to_json v)], r)
     else map_option (apfst (Cons (k, to_json v))) (scan_members (Suc n) (skip_ws r)))"
proof -
  have k: "json_str k @ lit '': '' @ json_val v @ c # r = 34 # concat (map json_escape k) @ 34 # 58 # 32 # json_val v @ c # r"
    by (simp add: json_str_def)
  show ?thesis unfolding k using assms(1,3) scan_value(1) [OF assms(2,3), of n r] scan_value(2) [OF assms(2,3), of r]
    by (subst scan_members.simps) (auto simp: scan_json_str stops_def)
qed

lemma scan_record_members:
  assumes "kvs \<noteq> []" "length kvs < n" "\<forall>(k, v) \<in> set kvs. list_all scalar k \<and> val_ok v"
  shows "scan_members n (dumps_members kvs @ 125 # r) = Some (map (apsnd to_json) kvs, r)"
  using assms
proof (induction kvs arbitrary: n rule: dumps_members.induct)
  case (2 k v)
  then obtain n' where "n = Suc (Suc n')" by (cases n; cases "n - 1") auto
  with 2 scan_record_member [of k v 125 n' r] show ?case by (simp add: stops_def)
next
  case (3 k v kv kvs)
  then obtain n' where n: "n = Suc (Suc n')" "length (kv # kvs) < Suc n'" by (cases n; cases "n - 1") auto
  have "scan_members (Suc n') (dumps_members (kv # kvs) @ 125 # r) = Some (map (apsnd to_json) (kv # kvs), r)"
    using 3 n(2) by simp
  moreover have "skip_ws (32 # dumps_members (kv # kvs) @ 125 # r) = dumps_members (kv # kvs) @ 125 # r"
    by (cases kv; cases kvs) (auto simp: json_str_def)
  ultimately show ?case
    using 3(4) n(1) scan_record_member [of k v 44 n' "32 # dumps_members (kv # kvs) @ 125 # r"] by (simp add: stops_def)
qed simp

lemma loads_record:
  assumes "kvs \<noteq> []" "\<forall>(k, v) \<in> set kvs. list_all scalar k \<and> val_ok v"
  shows "loads (dumps_record kvs) = Inr (JObj (map (apsnd to_json) kvs))"
proof -
  have l: "length kvs \<le> length (dumps_members kvs)" for kvs
    by (induction kvs rule: dumps_members.induct) (simp_all add: json_str_def)
  obtain rest where m: "dumps_members kvs = 34 # rest"
    using assms(1) by (cases kvs; cases "hd kvs"; cases "tl kvs") (auto simp: json_str_def)
  have "scan_members (Suc (Suc (length (dumps_members kvs)))) (dumps_members kvs @ [125]) = Some (map (apsnd to_json) kvs, [])"
    using assms l [of kvs] by (intro scan_record_members) auto
  then show ?thesis by (simp add: loads_def dumps_record_def m scan_once.simps(2))
qed

text \<open>The text of a record is ASCII, so it can be encoded.\<close>

lemma number_ascii:
  assumes "match_number t = Some (t, [])"
  shows "list_all scalar t"
proof -
  have d: "is_digit x \<Longrightarrow> scalar x" for x by (auto simp: is_digit_def scalar_def)
  have tw: "list_all scalar (takeWhile is_digit s)" for s
    using d by (metis (mono_tags, lifting) list_all_iff set_takeWhileD)
  obtain i r where i: "int_part t = Some (i, r)" using assms by (auto simp: match_number_def split: option.splits)
  then have t: "t = i @ fst (frac_part r) @ fst (exp_part (snd (frac_part r)))"
    using assms by (simp add: match_number_def Let_def case_prod_beta)
  have "list_all scalar i" using i tw d
    by (auto simp: int_part_def Let_def split: list.splits if_splits) (auto simp: scalar_def)
  moreover have "list_all scalar (fst (frac_part s))" for s
    using tw d by (auto simp: frac_part_def split: list.splits) (auto simp: scalar_def)
  moreover have "list_all scalar (fst (exp_part s))" for s
    using tw d by (auto simp: exp_part_def split: list.splits) (auto simp: scalar_def)
  ultimately show ?thesis by (subst t) simp
qed

lemma json_str_scalar: "list_all scalar s \<Longrightarrow> list_all scalar (json_str s)"
  using json_escape_ascii by (fastforce simp: json_str_def list_all_iff scalar_def)

lemma dumps_record_scalar:
  assumes "\<forall>(k, v) \<in> set kvs. list_all scalar k \<and> val_ok v"
  shows "list_all scalar (dumps_record kvs)"
proof -
  have v: "list_all scalar (json_val v)" if "val_ok v" for v
    using that number_ascii json_str_scalar by (cases v) (auto simp: json_val_def, auto simp: scalar_def)
  have "list_all scalar (dumps_members kvs)" using assms
  proof (induction kvs rule: dumps_members.induct)
    case (3 k v a b)
    then show ?case using v [of v] json_str_scalar [of k] by simp (simp add: scalar_def)
  qed (use v json_str_scalar in \<open>auto, auto simp: scalar_def\<close>)
  then show ?thesis by (simp add: dumps_record_def) (simp add: scalar_def)
qed

section \<open>Properties\<close>

lemma sep_prefix:
  assumes "(10 :: byte) \<notin> set x" "10 \<notin> set y"
  shows "take (length (x @ [10])) (y @ 10 # p) = x @ [10] \<longleftrightarrow> x = y"
  using assms
proof (induction x arbitrary: y)
  case Nil
  then show ?case by (cases y) auto
next
  case (Cons a x)
  then show ?case by (cases y) auto
qed

lemma after_sep_append: "10 \<notin> set x \<Longrightarrow> after_sep (x @ 10 # p) = Inr p"
  by (induction x) auto

lemma no_newline: "list_all scalar s \<Longrightarrow> 10 \<notin> set s \<Longrightarrow> 10 \<notin> set (utf8 s)"
  using utf8_ascii [of s 10] by auto

lemma level_scalar: "lvl \<in> set ALL_LEVELS \<Longrightarrow> list_all scalar lvl \<and> 10 \<notin> set lvl"
  by (auto simp: ALL_LEVELS_def scalar_def)

lemma listener_init_levels:
  assumes "levels \<noteq> []" "[] \<notin> set levels" "set levels \<subseteq> set ALL_LEVELS"
  shows "listener_init levels = Inr (map (\<lambda>lvl. utf8 lvl @ TOPIC_SEP) levels)"
proof -
  have "eachR (\<lambda>lvl. bindR (str_encode lvl) (\<lambda>b. Inr (b @ TOPIC_SEP))) levels = Inr (map (\<lambda>lvl. utf8 lvl @ TOPIC_SEP) levels)"
    using assms(3) level_scalar by (intro eachR_total) (auto simp: encode_utf8)
  moreover have "levels \<noteq> [[]]" using assms(2) by auto
  ultimately show ?thesis using assms by (auto simp: listener_init_def)
qed

lemma record_fields_scalar: "list_all scalar (lit f)" by (rule scalar_lit)

lemma record_dict_ok:
  assumes "\<forall>f \<in> set RECORD_FIELDS. val_ok (lr_fields record f)" "list_all scalar message"
  shows "\<forall>(k, v) \<in> set (record_dict record message). list_all scalar k \<and> val_ok v"
  using assms by (auto simp: record_dict_def)

lemma record_dict_lookup:
  assumes "f \<in> set RECORD_FIELDS"
  shows "obj_get (map (apsnd to_json) (record_dict record message)) (lit f) =
    Some (to_json (if f = ''msg'' then LStr message else lr_fields record f))"
proof -
  let ?l = "map (apsnd to_json) (record_dict record message)"
  have "map fst ?l = map lit RECORD_FIELDS" by (simp add: record_dict_def)
  moreover have "distinct (map lit RECORD_FIELDS)" by (simp add: RECORD_FIELDS_def)
  ultimately have "distinct (map fst (rev ?l))" by (simp add: rev_map [symmetric])
  moreover have "(lit f, to_json (if f = ''msg'' then LStr message else lr_fields record f)) \<in> set (rev ?l)"
    using assms by (auto simp: record_dict_def image_iff)
  ultimately show ?thesis unfolding obj_get_def by (rule map_of_is_SomeI)
qed

text \<open>A log record reaches exactly the listeners of its level, unchanged. When the fields can be
  encoded and the level's name has no line break, publishing yields one message; a listener for a
  set of levels is passed this message if and only if the level is one of them; and it rebuilds
  every transmitted field, with the rendered message and traceback in place of \<open>msg\<close> and
  \<open>exc_text\<close>.\<close>

theorem log_record_delivered:
  assumes "format_record record0 = Inr record" "lr_message record = Inr message" "list_all scalar message"
    and "list_all scalar (lr_levelname record)" "10 \<notin> set (lr_levelname record)"
    and "\<forall>f \<in> set RECORD_FIELDS. val_ok (lr_fields record f)"
    and "levels \<noteq> []" "[] \<notin> set levels" "set levels \<subseteq> set ALL_LEVELS"
  shows "\<exists>m subs kvs. record_message record0 = Inr m \<and> listener_init levels = Inr subs \<and>
    (passed_on subs m \<longleftrightarrow> lr_levelname record \<in> set levels) \<and> receive_record upd m = Inr kvs \<and>
    (\<forall>f \<in> set RECORD_FIELDS. obj_get kvs (lit f) =
       Some (to_json (if f = ''msg'' then LStr message else lr_fields record f)))"
proof -
  let ?d = "record_dict record message" and ?l = "utf8 (lr_levelname record)"
  note ok = record_dict_ok [OF assms(6,3)]
  let ?p = "utf8 (dumps_record ?d)" and ?subs = "map (\<lambda>lvl. utf8 lvl @ TOPIC_SEP) levels"
  have msg: "record_message record0 = Inr (?l @ 10 # ?p)"
    using assms(1,2,4) dumps_record_scalar [OF ok]
    by (cases "lr_exc_info record0") (auto simp: record_message_def encode_utf8 TOPIC_SEP_def format_record_def)
  have nl: "10 \<notin> set ?l" using no_newline [OF assms(4,5)] .
  have "take (length (utf8 lvl @ TOPIC_SEP)) (?l @ 10 # ?p) = utf8 lvl @ TOPIC_SEP \<longleftrightarrow> lvl = lr_levelname record"
    if "lvl \<in> set levels" for lvl
    using sep_prefix [OF no_newline nl, of lvl ?p] level_scalar [of lvl] assms(4,9) that utf8_inj [of lvl "lr_levelname record"]
    by (auto simp: TOPIC_SEP_def)
  then have del: "passed_on ?subs (?l @ 10 # ?p) \<longleftrightarrow> lr_levelname record \<in> set levels"
    unfolding passed_on_def by auto
  have ne: "?d \<noteq> []" by (simp add: record_dict_def RECORD_FIELDS_def)
  have "receive_record upd (?l @ 10 # ?p) = Inr (map (apsnd to_json) ?d)"
    using after_sep_append [OF nl] decode_utf8 [OF dumps_record_scalar [OF ok]] loads_record [OF ne ok]
    by (simp add: receive_record_def loads_bytes_def)
  with msg del listener_init_levels [OF assms(7-9)] record_dict_lookup show ?thesis by blast
qed

definition demo_record :: log_record where
  "demo_record = \<lparr>lr_levelname = lit ''ERROR'', lr_fields = (\<lambda>f. if f = ''levelno'' then LNum (lit ''40'') else LNull),
     lr_exc_info = None, lr_message = Inr (lit ''hi'')\<rparr>"

theorem log_record_delivered_witness:
  "\<exists>m subs. record_message demo_record = Inr m \<and> listener_init [lit ''ERROR'', lit ''INFO''] = Inr subs \<and> passed_on subs m"
proof -
  have m: "match_number (lit ''40'') = Some (lit ''40'', [])"
    by (simp add: match_number_def int_part_def frac_part_def exp_part_def is_digit_def)
  have "\<forall>f \<in> set RECORD_FIELDS. val_ok (lr_fields demo_record f)" using m by (simp add: demo_record_def)
  from log_record_delivered [of demo_record demo_record "lit ''hi''" "[lit ''ERROR'', lit ''INFO'']" "\<lambda>_. Inr []", OF _ _ _ _ _ this]
  show ?thesis by (auto simp: demo_record_def format_record_def ALL_LEVELS_def scalar_def)
qed

text \<open>
  One malformed message ends a listener for everything: a message without the separator, or with
  a payload that is no JSON, raises out of the loop.
\<close>

lemma malformed_ends_listener:
  assumes "receive_record upd m = Inl e" "\<not> isinstance e (BuiltinC KeyboardInterrupt)"
  shows "listener_run upd (Inr m # rest) = ([], Raises e)"
  using assms by simp

text \<open>An empty level among others subscribes to the bare separator, not to everything.\<close>

lemma empty_level_among_others: "listener_init [[], lit ''INFO''] = Inr [[10], [73, 78, 70, 79, 10]]"
  by (simp add: listener_init_def ALL_LEVELS_def str_encode_def TOPIC_SEP_def scalar_def b8_def)

end
