(* ===== verification/Ready.thy ===== *)
theory Ready
  imports Endpoint
begin

text \<open>
  Readiness of a socket on an event loop (\<open>recv_fd\<close>, \<open>send_fd\<close>, \<open>arecv_ready\<close> and \<open>asend_ready\<close> of
  \<^verbatim>\<open>nng/_socket.pxi\<close>): poll descriptors, which are asked for once, and any number of readiness
  generators that share the readers of one event loop. Whether a descriptor is readable is up to
  the environment.
\<close>

section \<open>Poll descriptors\<close>

datatype poll_dir = PollRecv | PollSend

text \<open>
  A generator is either suspended at its \<open>yield\<close>, or waits for its current future, or has ended;
  \<open>w_done\<close> tells whether the current future has its result. Between these points it runs without
  interruption.
\<close>

datatype watch_pc = Yielded | Waiting | Ended

record watcher =
  w_fd :: int
  w_pc :: watch_pc
  w_done :: bool

text \<open>
  The loop keeps one callback per descriptor; \<open>rd_readers\<close> gives the generator it belongs to.
  Descriptor \<open>- 1\<close> is none.
\<close>

record ready_st =
  rd_open :: bool
  rd_fds :: "poll_dir \<Rightarrow> int"
  rd_readers :: "int \<Rightarrow> nat option"
  rd_watchers :: "watcher list"
  rd_ready :: "int \<Rightarrow> bool"

definition no_polling :: "poll_dir \<Rightarrow> py_exn" where
  "no_polling d = NngExn NngError NNG_EINTERNAL
     (Literal (case d of PollRecv \<Rightarrow> ''Socket does not support recv polling''
                       | PollSend \<Rightarrow> ''Socket does not support send polling''))"

text \<open>\<open>get_fd\<close> is the C library's answer to a request for a descriptor.\<close>

definition poll_fd :: "(poll_dir \<Rightarrow> nng_err \<times> int) \<Rightarrow> poll_dir \<Rightarrow> (ready_st, py_exn, int) op" where
  "poll_fd get_fd d = (\<lambda>s.
     if \<not> rd_open s then (Inl (obj_closed_exn KSocket), s)
     else
       let (rv, fd) = (if rd_fds s d = - 1 then get_fd d else (NNG_OK, rd_fds s d)) in
       case check_err rv of
         Inl e \<Rightarrow> (Inl e, s)
       | Inr _ \<Rightarrow> (if fd = - 1 then Inl (no_polling d) else Inr fd, s\<lparr>rd_fds := (rd_fds s)(d := fd)\<rparr>))"

section \<open>The generators\<close>

text \<open>The body of the loop up to the next suspension.\<close>

definition watch_turn :: "bool \<Rightarrow> watcher \<Rightarrow> watcher" where
  "watch_turn b w =
     (if b then w\<lparr>w_pc := Yielded\<rparr> else w\<lparr>w_pc := Waiting, w_done := False\<rparr>)"

definition run_turn :: "nat \<Rightarrow> ready_st \<Rightarrow> ready_st" where
  "run_turn i s =
     (let w = rd_watchers s ! i in s\<lparr>rd_watchers := (rd_watchers s)[i := watch_turn (rd_ready s (w_fd w)) w]\<rparr>)"

text \<open>
  The first \<open>__anext__\<close>: everything before the loop and the first round of it. \<open>add_reader\<close>
  replaces the callback of the descriptor; a loop without readers raises.
\<close>

definition watcher_start :: "bool \<Rightarrow> (poll_dir \<Rightarrow> nng_err \<times> int) \<Rightarrow> poll_dir \<Rightarrow> (ready_st, py_exn, nat) op" where
  "watcher_start has_readers get_fd d =
     bindS (poll_fd get_fd d) (\<lambda>fd s.
       if \<not> has_readers then (Inl (PyExn NotImplementedError), s)
       else
         let i = length (rd_watchers s) in
         (Inr i, run_turn i (s\<lparr>rd_readers := (rd_readers s)(fd \<mapsto> i),
                               rd_watchers := rd_watchers s @ [\<lparr>w_fd = fd, w_pc = Waiting, w_done = False\<rparr>]\<rparr>)))"

text \<open>The callback of a readable descriptor.\<close>

definition wakeup :: "int \<Rightarrow> ready_st \<Rightarrow> ready_st" where
  "wakeup fd s =
     (case rd_readers s fd of
        None \<Rightarrow> s
      | Some i \<Rightarrow> s\<lparr>rd_watchers := (rd_watchers s)[i := (rd_watchers s ! i)\<lparr>w_done := True\<rparr>]\<rparr>)"

text \<open>\<open>aclose\<close> or the cancellation of the waiting task: the \<open>finally\<close> clause.\<close>

definition watcher_close :: "nat \<Rightarrow> ready_st \<Rightarrow> ready_st" where
  "watcher_close i s =
     (let w = rd_watchers s ! i in
      s\<lparr>rd_readers := (rd_readers s)(w_fd w := None), rd_watchers := (rd_watchers s)[i := w\<lparr>w_pc := Ended\<rparr>]\<rparr>)"

definition ready_init :: ready_st where
  "ready_init = \<lparr>rd_open = True, rd_fds = (\<lambda>_. - 1), rd_readers = (\<lambda>_. None), rd_watchers = [], rd_ready = (\<lambda>_. False)\<rparr>"

abbreviation pc_of :: "ready_st \<Rightarrow> nat \<Rightarrow> watch_pc" where
  "pc_of s i \<equiv> w_pc (rd_watchers s ! i)"

abbreviation fd_of :: "ready_st \<Rightarrow> nat \<Rightarrow> int" where
  "fd_of s i \<equiv> w_fd (rd_watchers s ! i)"

text \<open>The steps of the event loop, its clients and the environment.\<close>

inductive ready_step :: "ready_st \<Rightarrow> ready_st \<Rightarrow> bool" where
  start: "snd (watcher_start has_readers get_fd d s) = s' \<Longrightarrow> ready_step s s'"
| anext: "i < length (rd_watchers s) \<Longrightarrow> pc_of s i = Yielded \<Longrightarrow> ready_step s (run_turn i s)"
| fire: "rd_ready s fd \<Longrightarrow> rd_readers s fd \<noteq> None \<Longrightarrow> ready_step s (wakeup fd s)"
| wake: "i < length (rd_watchers s) \<Longrightarrow> pc_of s i = Waiting \<Longrightarrow> w_done (rd_watchers s ! i) \<Longrightarrow> ready_step s (run_turn i s)"
| aclose: "i < length (rd_watchers s) \<Longrightarrow> pc_of s i \<noteq> Ended \<Longrightarrow> ready_step s (watcher_close i s)"
| readiness: "ready_step s (s\<lparr>rd_ready := r\<rparr>)"
| socket_close: "ready_step s (s\<lparr>rd_open := False\<rparr>)"

section \<open>Lemmas\<close>

lemma nth_update_keeps: "f x = f (xs ! i) \<Longrightarrow> f (xs[i := x] ! j) = f (xs ! j)"
  by (cases "i < length xs") (auto simp: nth_list_update not_less list_update_beyond)

lemma run_turn_simps [simp]:
  "rd_readers (run_turn i s) = rd_readers s" "rd_ready (run_turn i s) = rd_ready s"
  "length (rd_watchers (run_turn i s)) = length (rd_watchers s)"
  "fd_of (run_turn i s) j = fd_of s j"
  by (simp_all add: run_turn_def watch_turn_def Let_def nth_update_keeps)

lemma run_turn_watcher:
  "i < length (rd_watchers s) \<Longrightarrow> rd_watchers (run_turn i s) ! j =
     (if j = i then watch_turn (rd_ready s (fd_of s i)) (rd_watchers s ! i) else rd_watchers s ! j)"
  by (simp add: run_turn_def Let_def)

lemma wakeup_simps [simp]:
  "rd_readers (wakeup fd s) = rd_readers s" "rd_ready (wakeup fd s) = rd_ready s"
  "length (rd_watchers (wakeup fd s)) = length (rd_watchers s)"
  "fd_of (wakeup fd s) j = fd_of s j" "pc_of (wakeup fd s) j = pc_of s j"
  by (simp_all add: wakeup_def nth_update_keeps split: option.splits)

lemma watcher_close_simps [simp]:
  "rd_readers (watcher_close i s) = (rd_readers s)(fd_of s i := None)"
  "length (rd_watchers (watcher_close i s)) = length (rd_watchers s)"
  by (simp_all add: watcher_close_def Let_def)

lemma watcher_close_watcher:
  "i < length (rd_watchers s) \<Longrightarrow> rd_watchers (watcher_close i s) ! j =
     (if j = i then (rd_watchers s ! i)\<lparr>w_pc := Ended\<rparr> else rd_watchers s ! j)"
  by (simp add: watcher_close_def Let_def)

text \<open>Starting a generator either raises, and changes the known descriptors at most, or adds one.\<close>

lemma watcher_start_cases:
  obtains (raises) fds e where "watcher_start h g d s = (Inl e, s\<lparr>rd_fds := fds\<rparr>)"
  | (starts) fds fd w where
      "watcher_start h g d s = (Inr (length (rd_watchers s)),
         s\<lparr>rd_fds := fds, rd_readers := (rd_readers s)(fd \<mapsto> length (rd_watchers s)), rd_watchers := rd_watchers s @ [w]\<rparr>)"
      "w = watch_turn (rd_ready s fd) \<lparr>w_fd = fd, w_pc = Waiting, w_done = False\<rparr>"
proof -
  obtain r s1 where p: "poll_fd g d s = (r, s1)" by fastforce
  then obtain fds where s1: "s1 = s\<lparr>rd_fds := fds\<rparr>"
    by (auto simp: poll_fd_def Let_def split: if_splits sum.splits prod.splits)
       (metis ready_st.surjective ready_st.update_convs(2))+
  show thesis
  proof (cases r)
    case (Inl e)
    then show ?thesis using raises [of e fds] p s1 by (simp add: watcher_start_def bindS_app)
  next
    case (Inr fd)
    show ?thesis
    proof (cases h)
      case False
      then show ?thesis using raises [of "PyExn NotImplementedError" fds] p s1 Inr by (simp add: watcher_start_def bindS_app)
    next
      case True
      then show ?thesis
        using starts [where fds = fds and fd = fd] p s1 Inr by (simp add: watcher_start_def bindS_app run_turn_def Let_def)
    qed
  qed
qed

section \<open>A single generator per descriptor\<close>

text \<open>No two generators that have not ended watch the same descriptor.\<close>

definition exclusive :: "ready_st \<Rightarrow> bool" where
  "exclusive s \<longleftrightarrow> (\<forall>i j. i < length (rd_watchers s) \<longrightarrow> j < length (rd_watchers s) \<longrightarrow>
     pc_of s i \<noteq> Ended \<longrightarrow> pc_of s j \<noteq> Ended \<longrightarrow> fd_of s i = fd_of s j \<longrightarrow> i = j)"

definition excl_step :: "ready_st \<Rightarrow> ready_st \<Rightarrow> bool" where
  "excl_step s s' \<longleftrightarrow> ready_step s s' \<and> exclusive s'"

text \<open>Then the loop calls back every one of them.\<close>

definition registered :: "ready_st \<Rightarrow> bool" where
  "registered s \<longleftrightarrow> (\<forall>i < length (rd_watchers s). pc_of s i \<noteq> Ended \<longrightarrow> rd_readers s (fd_of s i) = Some i)"

lemma watch_turn_simps [simp]:
  "w_pc (watch_turn b w) \<noteq> Ended" "w_fd (watch_turn b w) = w_fd w" "w_pc (watch_turn b w) = Yielded \<longleftrightarrow> b"
  by (simp_all add: watch_turn_def)

lemma registered_step:
  assumes "ready_step s s'" "exclusive s'" "exclusive s" "registered s"
  shows "registered s'"
  using assms
proof cases
  case (start h g d)
  show ?thesis
  proof (cases rule: watcher_start_cases [of h g d s])
    case (raises fds e)
    with start have "s' = s\<lparr>rd_fds := fds\<rparr>" by simp
    with assms(4) show ?thesis by (simp add: registered_def)
  next
    case (starts fds fd w)
    let ?n = "length (rd_watchers s)"
    have s': "s' = s\<lparr>rd_fds := fds, rd_readers := (rd_readers s)(fd \<mapsto> ?n), rd_watchers := rd_watchers s @ [w]\<rparr>"
      using start starts by simp
    have "fd_of s i \<noteq> fd" if "i < ?n" "pc_of s i \<noteq> Ended" for i
      using assms(2) [unfolded exclusive_def, rule_format, of i ?n] that starts(2) by (auto simp: s' nth_append)
    with assms(4) starts(2) show ?thesis by (auto simp: registered_def s' nth_append less_Suc_eq)
  qed
next
  case (anext i)
  with assms(4) show ?thesis by (auto simp: registered_def run_turn_watcher)
next
  case (wake i)
  with assms(4) show ?thesis by (auto simp: registered_def run_turn_watcher)
next
  case (aclose i)
  have "fd_of s j \<noteq> fd_of s i" if "j < length (rd_watchers s)" "pc_of s j \<noteq> Ended" "j \<noteq> i" for j
    using assms(3) aclose that unfolding exclusive_def by blast
  with aclose assms(4) show ?thesis by (auto simp: registered_def watcher_close_watcher)
qed (auto simp: registered_def)

lemma exclusive_reachable: "excl_step\<^sup>*\<^sup>* ready_init s \<Longrightarrow> exclusive s \<and> registered s"
proof (induction rule: rtranclp_induct)
  case base
  show ?case by (simp add: ready_init_def exclusive_def registered_def)
next
  case (step s s')
  then show ?case using registered_step by (auto simp: excl_step_def)
qed

lemma watchers_grow: "ready_step s s' \<Longrightarrow> length (rd_watchers s) \<le> length (rd_watchers s')"
proof (induction rule: ready_step.induct)
  case (start h g d s s')
  then show ?case by (cases rule: watcher_start_cases [of h g d s]) auto
qed auto

text \<open>A generator without a callback of its own, that waits for its future or has ended.\<close>

definition starved :: "nat \<Rightarrow> ready_st \<Rightarrow> bool" where
  "starved i s \<longleftrightarrow> i < length (rd_watchers s) \<and> (\<forall>fd. rd_readers s fd \<noteq> Some i) \<and>
     (pc_of s i = Ended \<or> pc_of s i = Waiting \<and> \<not> w_done (rd_watchers s ! i))"

lemma starved_step:
  assumes "ready_step s s'" "starved i s"
  shows "starved i s'"
  using assms
proof cases
  case (start h g d)
  with assms(2) show ?thesis
    by (cases rule: watcher_start_cases [of h g d s]) (auto simp: starved_def nth_append split: if_splits)
next
  case (anext j)
  with assms(2) show ?thesis by (auto simp: starved_def run_turn_watcher)
next
  case (wake j)
  with assms(2) show ?thesis by (auto simp: starved_def run_turn_watcher)
next
  case (aclose j)
  with assms(2) show ?thesis by (auto simp: starved_def watcher_close_watcher)
next
  case (fire fd)
  obtain j where j: "rd_readers s fd = Some j" using fire by auto
  then have "j \<noteq> i" using assms(2) by (auto simp: starved_def)
  then have "rd_watchers s' ! i = rd_watchers s ! i" using fire(1) j by (simp add: wakeup_def)
  with fire assms(2) show ?thesis by (simp add: starved_def)
qed (auto simp: starved_def)

text \<open>A callback belongs to a generator of its descriptor.\<close>

definition readers_ok :: "ready_st \<Rightarrow> bool" where
  "readers_ok s \<longleftrightarrow> (\<forall>fd i. rd_readers s fd = Some i \<longrightarrow> i < length (rd_watchers s) \<and> fd_of s i = fd)"

lemma readers_ok_step:
  assumes "ready_step s s'" "readers_ok s"
  shows "readers_ok s'"
  using assms
proof cases
  case (start h g d)
  with assms(2) show ?thesis
    by (cases rule: watcher_start_cases [of h g d s]) (auto simp: readers_ok_def nth_append less_Suc_eq split: if_splits)
next
  case (aclose j)
  with assms(2) show ?thesis by (auto simp: readers_ok_def watcher_close_watcher)
qed (auto simp: readers_ok_def)

lemma readers_ok_reachable: "ready_step\<^sup>*\<^sup>* ready_init s \<Longrightarrow> readers_ok s"
proof (induction rule: rtranclp_induct)
  case base
  show ?case by (simp add: ready_init_def readers_ok_def)
qed (use readers_ok_step in blast)

section \<open>Properties\<close>

text \<open>A generator yields only at a moment at which its descriptor is readable.\<close>

theorem yields_when_ready:
  assumes "ready_step s s'" "i < length (rd_watchers s')" "pc_of s' i = Yielded"
    and "i < length (rd_watchers s) \<longrightarrow> pc_of s i \<noteq> Yielded"
  shows "rd_ready s' (fd_of s' i)"
  using assms(1)
proof cases
  case (start h g d)
  show ?thesis
    using assms(2-4) start
    by (cases rule: watcher_start_cases [of h g d s]) (auto simp: nth_append less_Suc_eq split: if_splits)
next
  case (anext j)
  with assms show ?thesis by (auto simp: run_turn_watcher split: if_splits)
next
  case (wake j)
  with assms show ?thesis by (auto simp: run_turn_watcher split: if_splits)
next
  case (aclose j)
  with assms show ?thesis by (auto simp: watcher_close_watcher split: if_splits)
qed (use assms in auto)

text \<open>C12: no wakeup is lost. When every descriptor is watched by at most one generator at a time, a
  generator that waits while its descriptor is readable is called back by the loop and then yields,
  whatever the clients, the loop and the environment did before; and a generator yields only when its
  descriptor is readable.\<close>

theorem no_lost_readiness:
  assumes "excl_step\<^sup>*\<^sup>* ready_init s" "i < length (rd_watchers s)" "pc_of s i = Waiting" "rd_ready s (fd_of s i)"
  shows "\<exists>s1 s2. excl_step s s1 \<and> excl_step s1 s2 \<and> pc_of s2 i = Yielded \<and>
    (\<forall>s3. ready_step s s3 \<longrightarrow> pc_of s3 i = Yielded \<longrightarrow> rd_ready s3 (fd_of s3 i))"
proof -
  from exclusive_reachable [OF assms(1)] have ex: "exclusive s" and "registered s" by auto
  then have r: "rd_readers s (fd_of s i) = Some i" using assms(2,3) by (auto simp: registered_def)
  let ?s1 = "wakeup (fd_of s i) s"
  have d: "w_done (rd_watchers ?s1 ! i)" using r assms(2) by (simp add: wakeup_def)
  have 1: "excl_step s ?s1" using ready_step.fire [of s "fd_of s i"] r assms(4) ex by (simp add: excl_step_def exclusive_def)
  have 2: "ready_step ?s1 (run_turn i ?s1)" using ready_step.wake [of i ?s1] assms(2,3) d by simp
  have "exclusive (run_turn i ?s1)" using ex assms(2,3) by (auto simp: exclusive_def run_turn_watcher split: if_splits)
  moreover have "pc_of (run_turn i ?s1) i = Yielded" using assms(2,4) by (simp add: run_turn_watcher)
  moreover have "rd_ready s3 (fd_of s3 i)" if "ready_step s s3" "pc_of s3 i = Yielded" for s3
    using yields_when_ready [OF that(1) _ that(2)] assms(2,3) watchers_grow [OF that(1)] by simp
  ultimately show ?thesis using 1 2 unfolding excl_step_def by blast
qed

text \<open>C13: two generators on one descriptor starve each other. The event loop keeps one callback per
  descriptor, so the second generator takes the callback of the first: once the first waits, it never yields
  again, however often the descriptor becomes readable, whether the second goes on or is closed.\<close>

theorem second_watcher_starves_first:
  assumes "ready_step\<^sup>*\<^sup>* ready_init s" "ready_step\<^sup>*\<^sup>* s s'" "i < length (rd_watchers s)" "pc_of s i = Waiting" "\<not> w_done (rd_watchers s ! i)"
    and "rd_readers s (fd_of s i) = Some j" "j \<noteq> i"
  shows "pc_of s' i \<noteq> Yielded"
proof -
  have "starved i s" using assms(3-) readers_ok_reachable [OF assms(1)] by (auto simp: starved_def readers_ok_def)
  with assms(2) have "starved i s'" by (induction rule: rtranclp_induct) (auto intro: starved_step)
  then show ?thesis by (auto simp: starved_def)
qed

text \<open>Two calls of \<open>arecv_ready\<close> on a socket whose descriptor 7 is not readable.\<close>

definition demo_watchers :: "nat \<Rightarrow> ready_st" where
  "demo_watchers n = ((snd \<circ> watcher_start True (\<lambda>_. (NNG_OK, 7)) PollRecv) ^^ n) ready_init"

abbreviation demo_starts :: "ready_st \<Rightarrow> ready_st" where
  "demo_starts s \<equiv> snd (watcher_start True (\<lambda>_. (NNG_OK, 7)) PollRecv s)"

lemma demo_watchers_Suc: "demo_watchers (Suc n) = demo_starts (demo_watchers n)"
  by (simp add: demo_watchers_def)

lemmas watcher_eval = watcher_start_def poll_fd_def run_turn_def watch_turn_def bindS_app Let_def

lemma demo_watchers_1:
  "rd_readers (demo_watchers 1) = [7 \<mapsto> 0]" "rd_watchers (demo_watchers 1) = [\<lparr>w_fd = 7, w_pc = Waiting, w_done = False\<rparr>]"
  "rd_open (demo_watchers 1)" "rd_fds (demo_watchers 1) PollRecv = 7" "\<not> rd_ready (demo_watchers 1) 7"
  by (simp_all add: demo_watchers_def watcher_eval ready_init_def)

lemma demo_watchers_2:
  "rd_readers (demo_watchers 2) = [7 \<mapsto> 1]"
  "rd_watchers (demo_watchers 2) = [\<lparr>w_fd = 7, w_pc = Waiting, w_done = False\<rparr>, \<lparr>w_fd = 7, w_pc = Waiting, w_done = False\<rparr>]"
  using demo_watchers_1 demo_watchers_Suc [of 1] by (simp_all add: watcher_eval numeral_2_eq_2)

lemma demo_step: "ready_step (demo_watchers n) (demo_watchers (Suc n))"
  unfolding demo_watchers_Suc by (rule ready_step.start [OF refl])

theorem no_lost_readiness_witness:
  "\<exists>s1 s2. excl_step ((demo_watchers 1)\<lparr>rd_ready := \<lambda>fd. fd = 7\<rparr>) s1 \<and> excl_step s1 s2 \<and> pc_of s2 0 = Yielded"
  (is "\<exists>s1 s2. excl_step ?s s1 \<and> _ s1 s2")
proof -
  have "excl_step (demo_watchers 0) (demo_watchers 1)"
    using demo_step [of 0] demo_watchers_1 by (simp add: excl_step_def exclusive_def)
  moreover have "excl_step (demo_watchers 1) ?s"
    using ready_step.readiness demo_watchers_1(2) by (simp add: excl_step_def exclusive_def)
  ultimately have "excl_step\<^sup>*\<^sup>* (demo_watchers 0) ?s" by (rule converse_rtranclp_into_rtranclp [OF _ r_into_rtranclp])
  then have "excl_step\<^sup>*\<^sup>* ready_init ?s" by (simp add: demo_watchers_def)
  from no_lost_readiness [OF this, of 0] demo_watchers_1(2) show ?thesis by auto
qed

theorem second_watcher_starves_first_witness:
  "pc_of (wakeup 7 ((demo_watchers 2)\<lparr>rd_ready := \<lambda>fd. fd = 7\<rparr>)) 0 \<noteq> Yielded"
  (is "pc_of (wakeup 7 ?s) 0 \<noteq> _")
proof -
  have "ready_step\<^sup>*\<^sup>* (demo_watchers 0) (demo_watchers 2)"
    using demo_step [of 0] demo_step [of 1] by (simp add: numeral_2_eq_2 converse_rtranclp_into_rtranclp)
  then have r: "ready_step\<^sup>*\<^sup>* ready_init (demo_watchers 2)" by (simp add: demo_watchers_def)
  have "ready_step (demo_watchers 2) ?s" by (rule ready_step.readiness)
  moreover have "ready_step ?s (wakeup 7 ?s)" by (rule ready_step.fire) (simp_all add: demo_watchers_2)
  ultimately have "ready_step\<^sup>*\<^sup>* (demo_watchers 2) (wakeup 7 ?s)" by (rule converse_rtranclp_into_rtranclp [OF _ r_into_rtranclp])
  from second_watcher_starves_first [OF r this, of 0 1] show ?thesis by (simp add: demo_watchers_2)
qed

text \<open>
  A generator that is suspended at its \<open>yield\<close> keeps its callback: as long as its descriptor is
  readable, as that of a socket that can send usually is, every round of the loop calls it
  without effect, so that the loop never sleeps.
\<close>

lemma yielded_watcher_spins:
  assumes "pc_of s i = Yielded" "rd_readers s (fd_of s i) = Some i" "rd_ready s (fd_of s i)" "w_done (rd_watchers s ! i)"
  shows "ready_step s s"
proof -
  have "(rd_watchers s ! i)\<lparr>w_done := True\<rparr> = rd_watchers s ! i" using assms(4) by (cases "rd_watchers s ! i") simp
  then have "wakeup (fd_of s i) s = s" using assms(2) by (simp add: wakeup_def)
  with ready_step.fire [of s "fd_of s i"] assms(2,3) show ?thesis by simp
qed

text \<open>The descriptor is asked for once: a second request gives the same one.\<close>

lemma poll_fd_cached:
  assumes "poll_fd g d s = (Inr fd, s')"
  shows "poll_fd g' d s' = (Inr fd, s')"
  using assms by (auto simp: poll_fd_def Let_def split: if_splits sum.splits prod.splits)

end
