(* ===== verification/SocketLife.thy ===== *)
theory SocketLife
  imports Pipe Aio Endpoint
begin

text \<open>
  The life of sockets (\<^verbatim>\<open>nng/_socket.pxi\<close>): construction of the protocol classes, the registry
  through which the dispatcher finds them, the managers of asynchronous operations per event loop,
  the setters of callback and filter, the pipes of a dialer or listener, and the whole of
  \<open>Socket.close\<close>, which composes \<open>Pipe\<close> and \<open>Aio\<close>.
\<close>

section \<open>Socket objects\<close>

text \<open>
  \<open>so_id\<close> is the identifier in the C library, 0 once closed. \<open>so_managers\<close> maps event loops to
  managers; \<open>so_released\<close> keeps those that \<open>close\<close> has let go.
\<close>

record socket_obj =
  so_class :: sock_class
  so_id :: nat
  so_pipes :: sock_pipes
  so_filter_obj :: "nat option"
  so_managers :: "(nat \<times> aio_mgr) list"
  so_released :: "aio_mgr list"
  so_close_on_disconnect :: bool

text \<open>
  The sockets that are open in the C library, the weak registry from identifiers to objects in
  insertion order, and all objects by number.
\<close>

record sock_world =
  sw_open :: "nat set"
  sw_registry :: "(nat \<times> nat) list"
  sw_objs :: "socket_obj list"

type_synonym 'a world_op = "(sock_world, py_exn, 'a) op"

abbreviation sock_obj :: "sock_world \<Rightarrow> nat \<Rightarrow> socket_obj" where
  "sock_obj w a \<equiv> sw_objs w ! a"

definition put_sock :: "nat \<Rightarrow> socket_obj \<Rightarrow> sock_world \<Rightarrow> sock_world" where
  "put_sock a x w = w\<lparr>sw_objs := (sw_objs w)[a := x]\<rparr>"

text \<open>Item assignment in a dictionary keeps the place of a key that is there.\<close>

definition dict_set :: "nat \<Rightarrow> nat \<Rightarrow> (nat \<times> nat) list \<Rightarrow> (nat \<times> nat) list" where
  "dict_set n a d =
     (if n \<in> fst ` set d then map (\<lambda>(k, v). (k, if k = n then a else v)) d else d @ [(n, a)])"

section \<open>Construction\<close>

fun proto_open :: "sock_class \<Rightarrow> bool \<Rightarrow> string" where
  "proto_open PairSocket v0 = (if v0 then ''nng_pair0_open'' else ''nng_pair1_open'')"
| "proto_open PubSocket _ = ''nng_pub0_open''"
| "proto_open SubSocket _ = ''nng_sub0_open''"
| "proto_open ReqSocket _ = ''nng_req0_open''"
| "proto_open RepSocket _ = ''nng_rep0_open''"
| "proto_open PushSocket _ = ''nng_push0_open''"
| "proto_open PullSocket _ = ''nng_pull0_open''"
| "proto_open SurveyorSocket _ = ''nng_surveyor0_open''"
| "proto_open RespondentSocket _ = ''nng_respondent0_open''"
| "proto_open BusSocket _ = ''nng_bus0_open''"

definition Socket_cinit :: "sock_class \<Rightarrow> nat \<Rightarrow> socket_obj" where
  "Socket_cinit cls n = \<lparr>so_class = cls, so_id = n, so_pipes = pipes_init, so_filter_obj = None, so_managers = [],
     so_released = [], so_close_on_disconnect = False\<rparr>"

text \<open>\<open>_setup_pipe_tracking\<close> after the registration: three subscriptions to pipe events.\<close>

fun notify_all :: "(pipe_ev \<Rightarrow> nng_err) \<Rightarrow> pipe_ev list \<Rightarrow> unit result" where
  "notify_all notify [] = Inr ()"
| "notify_all notify (ev # evs) = bindR (check_err (notify ev)) (\<lambda>_. notify_all notify evs)"

text \<open>
  The constructor of a protocol class: \<open>init\<close> is the outcome of \<open>check_nng_init\<close>, \<open>c_open\<close> and \<open>notify\<close>
  answer for the C library. When the tracking fails, the half-made object goes: its handle closes the
  socket and its entry leaves the registry.
\<close>

definition Socket_new ::
    "unit result \<Rightarrow> (string \<Rightarrow> nng_err \<times> nat) \<Rightarrow> (pipe_ev \<Rightarrow> nng_err) \<Rightarrow> sock_class \<Rightarrow> bool \<Rightarrow> nat world_op" where
  "Socket_new init c_open notify cls v0 =
     bindS (liftS init) (\<lambda>_ w.
       let (rv, n) = c_open (proto_open cls v0) in
       case check_err rv of
         Inl e \<Rightarrow> (Inl e, w)
       | Inr _ \<Rightarrow>
           (let a = length (sw_objs w) in
            case notify_all notify [ADD_PRE, ADD_POST, REM_POST] of
              Inl e \<Rightarrow> (Inl e, w\<lparr>sw_registry := filter (\<lambda>(k, _). k \<noteq> n) (sw_registry w)\<rparr>)
            | Inr _ \<Rightarrow>
                (Inr a, w\<lparr>sw_open := insert n (sw_open w), sw_registry := dict_set n a (sw_registry w),
                          sw_objs := sw_objs w @ [Socket_cinit cls n]\<rparr>)))"

section \<open>Using a socket\<close>

definition sock_check :: "nat \<Rightarrow> unit world_op" where
  "sock_check a = (\<lambda>w. if so_id (sock_obj w a) = 0 then (Inl (obj_closed_exn KSocket), w) else (Inr (), w))"

text \<open>\<open>get_aio_manager\<close>: \<open>loop\<close> is the running event loop, \<open>env\<close> what it grants a new manager.\<close>

definition get_aio_manager :: "nat option \<Rightarrow> aio_env \<Rightarrow> nat \<Rightarrow> aio_mgr world_op" where
  "get_aio_manager loop env a = (\<lambda>w.
     case loop of
       None \<Rightarrow> (Inl (PyExn RuntimeError), w)
     | Some l \<Rightarrow>
         (case map_of (so_managers (sock_obj w a)) l of
            Some mgr \<Rightarrow> (Inr mgr, w)
          | None \<Rightarrow>
              let mgr = mgr_create env in
              (Inr mgr, put_sock a ((sock_obj w a)\<lparr>so_managers := so_managers (sock_obj w a) @ [(l, mgr)]\<rparr>) w)))"

definition set_on_new_pipe :: "cb_arg \<Rightarrow> nat \<Rightarrow> unit world_op" where
  "set_on_new_pipe arg a =
     bindS (sock_check a) (\<lambda>_ w.
       let x = sock_obj w a; set = (\<lambda>cb. (Inr (), put_sock a (x\<lparr>so_pipes := (so_pipes x)\<lparr>on_new_pipe_cb := cb\<rparr>\<rparr>) w)) in
       case arg of
         NotCallable \<Rightarrow> (Inl (PyExn ValueError), w)
       | CbNone \<Rightarrow> set None
       | Callable k \<Rightarrow> set (Some k))"

text \<open>The argument of the \<open>pipe_filter\<close> setter: \<open>None\<close>, a filter object, or something else.\<close>

datatype filter_arg = FNone | FFilter nat pipe_filter | FOther

definition set_pipe_filter_obj :: "filter_arg \<Rightarrow> nat \<Rightarrow> unit world_op" where
  "set_pipe_filter_obj arg a =
     bindS (sock_check a) (\<lambda>_ w.
       let x = sock_obj w a;
           set = (\<lambda>obj impl. (Inr (), put_sock a (x\<lparr>so_filter_obj := obj,
             so_pipes := (so_pipes x)\<lparr>coll := set_filter impl (coll (so_pipes x))\<rparr>\<rparr>) w)) in
       case arg of
         FOther \<Rightarrow> (Inl (PyExn TypeError), w)
       | FNone \<Rightarrow> set None None
       | FFilter obj impl \<Rightarrow> set (Some obj) (Some impl))"

definition get_pipe_filter_obj :: "nat \<Rightarrow> nat option world_op" where
  "get_pipe_filter_obj a = bindS (sock_check a) (\<lambda>_ w. (Inr (so_filter_obj (sock_obj w a)), w))"

section \<open>Closing\<close>

text \<open>
  \<open>Socket.close\<close>: the pipes, the socket itself, and every manager. \<open>loop_closed\<close> tells which event
  loops are closed already.
\<close>

definition close_socket :: "(nat \<Rightarrow> bool) \<Rightarrow> nat \<Rightarrow> unit world_op" where
  "close_socket loop_closed a = (\<lambda>w.
     let x = sock_obj w a in
     if so_id x = 0 then (Inr (), w)
     else
       (Inr (), (put_sock a (x\<lparr>so_id := 0, so_filter_obj := None, so_pipes := close_pipes (so_pipes x),
           so_managers := [], so_released := so_released x @ map (\<lambda>(l, m). mgr_release (loop_closed l) m) (so_managers x)\<rparr>) w)
         \<lparr>sw_open := sw_open w - {so_id x}\<rparr>))"

text \<open>The pipes whose removal the last update reported.\<close>

definition removed_since :: "sock_pipes \<Rightarrow> sock_pipes \<Rightarrow> nat list" where
  "removed_since s s' = concat (map (\<lambda>c. case c of PipeRemoved p \<Rightarrow> [p] | _ \<Rightarrow> []) (drop (length (log s)) (log s')))"

text \<open>\<open>_on_pipe_removed\<close>: a \<open>PairSocket\<close> may close itself; an exception in it is swallowed.\<close>

definition on_pipe_removed :: "(nat \<Rightarrow> bool) \<Rightarrow> nat \<Rightarrow> nat \<Rightarrow> sock_world \<Rightarrow> sock_world" where
  "on_pipe_removed loop_closed a p w =
     (if so_class (sock_obj w a) = PairSocket \<and> so_close_on_disconnect (sock_obj w a)
      then snd (close_socket loop_closed a w) else w)"

text \<open>\<open>update_pipes\<close> with the hooks of the removed pipes.\<close>

definition sock_update :: "(nat \<Rightarrow> bool) \<Rightarrow> nat \<Rightarrow> sock_world \<Rightarrow> sock_world" where
  "sock_update loop_closed a w =
     (let x = sock_obj w a; s = update_pipes (so_pipes x) in
      fold (on_pipe_removed loop_closed a) (removed_since (so_pipes x) s) (put_sock a (x\<lparr>so_pipes := s\<rparr>) w))"

definition get_pipes :: "(nat \<Rightarrow> bool) \<Rightarrow> nat \<Rightarrow> nat list world_op" where
  "get_pipes loop_closed a =
     bindS (sock_check a) (\<lambda>_ w. let w' = sock_update loop_closed a w in (Inr (pipes (so_pipes (sock_obj w' a))), w'))"

text \<open>
  \<open>_drain_pipe_events\<close> of the dispatcher iterates over the registry. With \<open>live\<close> the iteration runs over the
  dictionary itself, as \<open>WeakValueDictionary.values\<close> does before Python 3.14: every step of it raises when the
  size of the dictionary has changed. Later versions iterate over a copy. \<open>meanwhile\<close> is what the callbacks that an
  update runs, and other threads, do to the world.
\<close>

fun drain_sockets ::
    "bool \<Rightarrow> (nat \<Rightarrow> bool) \<Rightarrow> (nat \<Rightarrow> sock_world \<Rightarrow> sock_world) \<Rightarrow> nat \<Rightarrow> (nat \<times> nat) list \<Rightarrow> unit world_op" where
  "drain_sockets live lc meanwhile used [] w =
     (if live \<and> length (sw_registry w) \<noteq> used then Inl (PyExn RuntimeError) else Inr (), w)"
| "drain_sockets live lc meanwhile used ((n, a) # rest) w =
     (if live \<and> length (sw_registry w) \<noteq> used then (Inl (PyExn RuntimeError), w)
      else case (if live then map_of (sw_registry w) n else Some a) of
             None \<Rightarrow> drain_sockets live lc meanwhile used rest w
           | Some b \<Rightarrow> drain_sockets live lc meanwhile used rest (meanwhile b (sock_update lc b w)))"

definition drain_pipe_events :: "bool \<Rightarrow> (nat \<Rightarrow> bool) \<Rightarrow> (nat \<Rightarrow> sock_world \<Rightarrow> sock_world) \<Rightarrow> unit world_op" where
  "drain_pipe_events live lc meanwhile = (\<lambda>w.
     drain_sockets live lc meanwhile (length (sw_registry w)) (sw_registry w) w)"

text \<open>
  \<open>Dialer.pipe\<close> and \<open>Listener.pipes\<close>: \<open>ep_open\<close> tells whether the endpoint is open, \<open>parent\<close> whether its
  socket object still exists.
\<close>

definition endpoint_pipes :: "(nat \<Rightarrow> bool) \<Rightarrow> obj_kind \<Rightarrow> nat \<Rightarrow> bool \<Rightarrow> nat option \<Rightarrow> nat list world_op" where
  "endpoint_pipes loop_closed k d ep_open parent =
     (if \<not> ep_open then raiseS (obj_closed_exn k)
      else (case parent of
         None \<Rightarrow> raiseS (NngExn NngClosed NNG_ECLOSED (Literal ''Parent socket has been closed''))
       | Some a \<Rightarrow> bindS (get_pipes loop_closed a) (\<lambda>ps w.
           (Inr (filter (\<lambda>p. (if k = KDialer then p_dialer else p_listener) (pobjs (so_pipes (sock_obj w a)) p) = Some d) ps), w))))"

definition dialer_pipe :: "(nat \<Rightarrow> bool) \<Rightarrow> nat \<Rightarrow> bool \<Rightarrow> nat option \<Rightarrow> nat option world_op" where
  "dialer_pipe loop_closed d ep_open parent =
     bindS (endpoint_pipes loop_closed KDialer d ep_open parent) (\<lambda>ps. returnS (case ps of [] \<Rightarrow> None | p # _ \<Rightarrow> Some p))"

section \<open>All runs\<close>

text \<open>
  Sockets are made and closed, the C library and the user act on the pipes of open sockets, the
  managers of open sockets run, event loops go. A new socket has an identifier that is in no use; an
  operation has an identifier of its own.
\<close>

inductive sock_step :: "endian \<Rightarrow> sock_world \<Rightarrow> sock_world \<Rightarrow> bool" for e :: endian where
  new: "snd (c_open (proto_open cls v0)) \<notin> insert 0 (sw_open w) \<Longrightarrow>
    sock_step e w (snd (Socket_new init c_open notify cls v0 w))"
| pipe: "a < length (sw_objs w) \<Longrightarrow> so_id (sock_obj w a) \<noteq> 0 \<Longrightarrow> pipe_step e (so_pipes (sock_obj w a)) s \<Longrightarrow>
    sock_step e w (put_sock a ((sock_obj w a)\<lparr>so_pipes := s\<rparr>) w)"
| update: "a < length (sw_objs w) \<Longrightarrow> sock_step e w (sock_update lc a w)"
| set_callback: "a < length (sw_objs w) \<Longrightarrow> sock_step e w (snd (set_on_new_pipe cb a w))"
| set_filter: "a < length (sw_objs w) \<Longrightarrow> sock_step e w (snd (set_pipe_filter_obj f a w))"
| manager: "a < length (sw_objs w) \<Longrightarrow> so_id (sock_obj w a) \<noteq> 0 \<Longrightarrow> sock_step e w (snd (get_aio_manager loop env a w))"
| manager_event: "a < length (sw_objs w) \<Longrightarrow> so_managers (sock_obj w a) = ms @ (l, m) # ms' \<Longrightarrow>
    \<forall>b i. ev = Submit b i \<longrightarrow> i \<notin> set (m_calls m @ pending m) \<Longrightarrow>
    sock_step e w (put_sock a ((sock_obj w a)\<lparr>so_managers := ms @ (l, snd (mgr_exec ev m)) # ms'\<rparr>) w)"
| loop_gone: "a < length (sw_objs w) \<Longrightarrow>
    sock_step e w (put_sock a ((sock_obj w a)\<lparr>so_managers := filter (\<lambda>(k, _). k \<noteq> l) (so_managers (sock_obj w a))\<rparr>) w)"
| disconnect_flag: "a < length (sw_objs w) \<Longrightarrow> sock_step e w (put_sock a ((sock_obj w a)\<lparr>so_close_on_disconnect := v\<rparr>) w)"
| close: "a < length (sw_objs w) \<Longrightarrow> sock_step e w (snd (close_socket lc a w))"

definition sock_init :: sock_world where
  "sock_init = \<lparr>sw_open = {}, sw_registry = [], sw_objs = []\<rparr>"

section \<open>Invariant\<close>

definition sock_ok :: "nat set \<Rightarrow> socket_obj \<Rightarrow> bool" where
  "sock_ok opens x \<longleftrightarrow> track_inv (so_pipes x) \<and> (sp_open (so_pipes x) \<longleftrightarrow> so_id x \<noteq> 0) \<and>
     (so_id x \<noteq> 0 \<longrightarrow> so_id x \<in> opens) \<and> (\<forall>(l, m) \<in> set (so_managers x). distinct (m_calls m @ pending m))"

definition sw_ok :: "sock_world \<Rightarrow> bool" where
  "sw_ok w \<longleftrightarrow> (\<forall>x \<in> set (sw_objs w). sock_ok (sw_open w) x) \<and>
     (\<forall>a b. a < length (sw_objs w) \<longrightarrow> b < length (sw_objs w) \<longrightarrow> so_id (sock_obj w a) \<noteq> 0 \<longrightarrow>
        so_id (sock_obj w a) = so_id (sock_obj w b) \<longrightarrow> a = b)"

lemma put_sock_simps [simp]:
  "sw_open (put_sock a x w) = sw_open w" "sw_registry (put_sock a x w) = sw_registry w"
  "length (sw_objs (put_sock a x w)) = length (sw_objs w)"
  "a < length (sw_objs w) \<Longrightarrow> sock_obj (put_sock a x w) a = x"
  "b \<noteq> a \<Longrightarrow> sock_obj (put_sock a x w) b = sock_obj w b"
  by (simp_all add: put_sock_def)

text \<open>Changing an object without opening it keeps the invariant.\<close>

lemma put_sock_ok:
  assumes "sw_ok w" "a < length (sw_objs w)" "sock_ok (sw_open w) x" "so_id x \<in> {0, so_id (sock_obj w a)}"
  shows "sw_ok (put_sock a x w)"
proof -
  have "sock_ok (sw_open w) y" if "y \<in> set ((sw_objs w)[a := x])" for y
    using set_update_subset_insert [of "sw_objs w" a x] that assms(1,3) by (auto simp: sw_ok_def)
  moreover have "b = c" if "b < length (sw_objs w)" "c < length (sw_objs w)" "so_id ((sw_objs w)[a := x] ! b) \<noteq> 0"
    "so_id ((sw_objs w)[a := x] ! b) = so_id ((sw_objs w)[a := x] ! c)" for b c
    using that assms(1,2,4) by (auto simp: sw_ok_def nth_list_update split: if_splits)
  ultimately show ?thesis by (simp add: sw_ok_def put_sock_def)
qed

lemma sw_okD: "sw_ok w \<Longrightarrow> a < length (sw_objs w) \<Longrightarrow> sock_ok (sw_open w) (sock_obj w a)"
  by (simp add: sw_ok_def)

lemma create_pipes_open: "create_pipes hs s = (ps, s') \<Longrightarrow> sp_open s' = sp_open s"
proof (induction hs arbitrary: s ps s')
  case (Cons h hs)
  obtain p s1 where s1: "create_pipe h s = (p, s1)" by fastforce
  obtain qs s2 where s2: "create_pipes hs s1 = (qs, s2)" by fastforce
  have "sp_open s1 = sp_open s" using s1 by (auto simp: create_pipe_def Let_def)
  with Cons.prems Cons.IH [OF s2] s1 s2 show ?case by simp
qed simp

lemma status_pass_open: "status_pass ps s = (cbs, s') \<Longrightarrow> sp_open s' = sp_open s"
proof (induction ps arbitrary: s cbs s')
  case (Cons p ps)
  obtain cb x where x: "handle_status_change (coll s) (pobjs s p) = (cb, x)" by fastforce
  obtain cs s2 where s2: "status_pass ps (s\<lparr>pobjs := (pobjs s)(p := x)\<rparr>) = (cs, s2)" by fastforce
  with Cons.prems Cons.IH [OF s2] x show ?case by simp
qed simp

lemma update_pipes_open [simp]: "sp_open (update_pipes s) = sp_open s"
proof (cases "had (coll s)")
  case True
  let ?c = "(coll s)\<lparr>had := False\<rparr>" and ?s0 = "s\<lparr>coll := (coll s)\<lparr>had := False\<rparr>\<rparr>"
  obtain act rest where m: "match_pipes (pipe_ident ?s0) (\<lambda>h. h_id (handles ?c h)) (pipes ?s0) (members ?c) = (act, rest)"
    by fastforce
  obtain new s1 where c: "create_pipes rest ?s0 = (new, s1)" by fastforce
  obtain cbs s3 where p: "status_pass (pipes ?s0) (s1\<lparr>pipes := act @ new\<rparr>) = (cbs, s3)" by fastforce
  show ?thesis
    using True m c p create_pipes_open [OF c] status_pass_open [OF p] by (simp add: update_pipes_def had_events_def)
qed (simp add: update_pipes_def had_events_def)

lemma closed_ok:
  assumes "sock_ok opens x" "so_id x \<noteq> 0"
  shows "sock_ok opens' (x\<lparr>so_id := 0, so_filter_obj := f, so_pipes := close_pipes (so_pipes x), so_managers := [], so_released := r\<rparr>)"
  using assms close_pipes_spec(6,7) [of "so_pipes x"] by (auto simp: sock_ok_def)

lemma close_socket_simps [simp]:
  "length (sw_objs (snd (close_socket lc a w))) = length (sw_objs w)" "sw_registry (snd (close_socket lc a w)) = sw_registry w"
  "b \<noteq> a \<Longrightarrow> sock_obj (snd (close_socket lc a w)) b = sock_obj w b"
  by (simp_all add: close_socket_def Let_def)

lemma close_socket_ok:
  assumes "sw_ok w" "a < length (sw_objs w)"
  shows "sw_ok (snd (close_socket lc a w))"
proof (cases "so_id (sock_obj w a) = 0")
  case False
  let ?w = "snd (close_socket lc a w)"
  have x: "so_id (sock_obj ?w a) = 0" "sock_ok (sw_open ?w) (sock_obj ?w a)" "sw_open ?w = sw_open w - {so_id (sock_obj w a)}"
    using False assms(2) closed_ok [OF sw_okD [OF assms] False] by (simp_all add: close_socket_def Let_def)
  have "sock_ok (sw_open ?w) (sock_obj ?w b)" if "b < length (sw_objs w)" for b
  proof (cases "b = a")
    case False
    then have "so_id (sock_obj w b) \<noteq> so_id (sock_obj w a)" using assms \<open>so_id (sock_obj w a) \<noteq> 0\<close> that by (auto simp: sw_ok_def)
    with False sw_okD [OF assms(1) that] x(3) show ?thesis by (auto simp: sock_ok_def)
  qed (use x in simp)
  then have "\<forall>y \<in> set (sw_objs ?w). sock_ok (sw_open ?w) y" by (auto simp: in_set_conv_nth)
  moreover have "b = c" if "b < length (sw_objs w)" "c < length (sw_objs w)" "so_id (sock_obj ?w b) \<noteq> 0"
      "so_id (sock_obj ?w b) = so_id (sock_obj ?w c)" for b c
    using that x(1) assms(1) by (cases "b = a"; cases "c = a") (auto simp: sw_ok_def)
  ultimately show ?thesis by (simp add: sw_ok_def)
qed (use assms(1) in \<open>simp add: close_socket_def\<close>)

lemma on_pipe_removed_fold:
  assumes "sw_ok w" "a < length (sw_objs w)"
  shows "sw_ok (fold (on_pipe_removed lc a) ps w) \<and> length (sw_objs (fold (on_pipe_removed lc a) ps w)) = length (sw_objs w) \<and>
    sw_registry (fold (on_pipe_removed lc a) ps w) = sw_registry w"
  using assms
proof (induction ps arbitrary: w)
  case (Cons p ps)
  have "sw_ok (on_pipe_removed lc a p w)" "length (sw_objs (on_pipe_removed lc a p w)) = length (sw_objs w)"
    "sw_registry (on_pipe_removed lc a p w) = sw_registry w"
    using Cons.prems close_socket_ok by (auto simp: on_pipe_removed_def)
  with Cons.IH [of "on_pipe_removed lc a p w"] Cons.prems show ?case by simp
qed simp

lemma sock_update_ok:
  assumes "sw_ok w" "a < length (sw_objs w)"
  shows "sw_ok (sock_update lc a w)" "length (sw_objs (sock_update lc a w)) = length (sw_objs w)"
    "sw_registry (sock_update lc a w) = sw_registry w"
proof -
  let ?x = "(sock_obj w a)\<lparr>so_pipes := update_pipes (so_pipes (sock_obj w a))\<rparr>"
  have "sock_ok (sw_open w) ?x" using sw_okD [OF assms] update_track_inv by (auto simp: sock_ok_def)
  then have "sw_ok (put_sock a ?x w)" using assms by (intro put_sock_ok) simp_all
  from on_pipe_removed_fold [OF this, of a lc] assms(2) show "sw_ok (sock_update lc a w)"
    "length (sw_objs (sock_update lc a w)) = length (sw_objs w)" "sw_registry (sock_update lc a w) = sw_registry w"
    by (simp_all add: sock_update_def Let_def)
qed

text \<open>The outcome of a constructor.\<close>

lemma Socket_new_cases:
  obtains (raises) e reg where "Socket_new init c_open notify cls v0 w = (Inl e, w\<lparr>sw_registry := reg\<rparr>)"
  | (opens) n where "c_open (proto_open cls v0) = (NNG_OK, n)"
      "Socket_new init c_open notify cls v0 w = (Inr (length (sw_objs w)),
         w\<lparr>sw_open := insert n (sw_open w), sw_registry := dict_set n (length (sw_objs w)) (sw_registry w),
           sw_objs := sw_objs w @ [Socket_cinit cls n]\<rparr>)"
proof -
  obtain rv n where o: "c_open (proto_open cls v0) = (rv, n)" by fastforce
  have id: "w\<lparr>sw_registry := sw_registry w\<rparr> = w" by simp
  show thesis
  proof (cases init)
    case (Inl e)
    then show ?thesis using raises [of e "sw_registry w"] by (simp add: Socket_new_def bindS_app id)
  next
    case (Inr u)
    show ?thesis
    proof (cases "rv = NNG_OK")
      case False
      then show ?thesis
        using raises [of _ "sw_registry w"] Inr o check_err_fails [OF False] by (simp add: Socket_new_def bindS_app id)
    next
      case True
      show ?thesis
      proof (cases "notify_all notify [ADD_PRE, ADD_POST, REM_POST]")
        case (Inl e)
        then show ?thesis using raises Inr o True by (simp add: Socket_new_def bindS_app del: notify_all.simps)
      next
        case (Inr v)
        then show ?thesis using opens \<open>init = Inr u\<close> o True by (simp add: Socket_new_def bindS_app Let_def del: notify_all.simps)
      qed
    qed
  qed
qed

lemma cinit_ok: "n \<noteq> 0 \<Longrightarrow> n \<in> opens \<Longrightarrow> sock_ok opens (Socket_cinit cls n)"
  using pipe_reach_inv [OF rtranclp.rtrancl_refl] by (simp add: sock_ok_def Socket_cinit_def pipes_init_def)

lemma pipe_step_open: "pipe_step e s s' \<Longrightarrow> sp_open s' = sp_open s"
  by (induction rule: pipe_step.induct) auto

lemma mgr_exec_distinct:
  assumes "distinct (m_calls m @ pending m)" "\<forall>b i. ev = Submit b i \<longrightarrow> i \<notin> set (m_calls m @ pending m)"
  shows "distinct (m_calls (snd (mgr_exec ev m)) @ pending (snd (mgr_exec ev m)))"
proof -
  obtain r m' where x: "mgr_exec ev m = (r, m')" by fastforce
  have "mgr_inv (set (m_calls m @ pending m)) m" using assms(1) by (simp add: mgr_inv_def)
  from mgr_exec_inv [OF this x] assms(2) x show ?thesis by (simp add: mgr_inv_def)
qed

lemma mgr_create_ok: "distinct (m_calls (mgr_create env) @ pending (mgr_create env))"
  by (simp add: mgr_create_cases pending_def mgr_cinit_def)

lemma sw_ok_new:
  assumes "sw_ok w" "snd (c_open (proto_open cls v0)) \<notin> insert 0 (sw_open w)"
  shows "sw_ok (snd (Socket_new init c_open notify cls v0 w))"
proof (cases rule: Socket_new_cases [of init c_open notify cls v0 w])
  case (raises e reg)
  with assms(1) show ?thesis by (simp add: sw_ok_def)
next
  case (opens n)
  then have n: "n \<noteq> 0" "n \<notin> sw_open w" using assms(2) by auto
  have i: "so_id (sock_obj w b) \<noteq> n" if "b < length (sw_objs w)" for b
    using sw_okD [OF assms(1) that] n by (auto simp: sock_ok_def)
  have "\<forall>x \<in> set (sw_objs w). sock_ok (insert n (sw_open w)) x" using assms(1) by (auto simp: sw_ok_def sock_ok_def)
  with opens cinit_ok [OF n(1), of "insert n (sw_open w)" cls] i assms(1) show ?thesis
    by (auto simp: sw_ok_def nth_append less_Suc_eq Socket_cinit_def dest!: bspec)
qed

lemma sw_ok_step: "sock_step e w w' \<Longrightarrow> sw_ok w \<Longrightarrow> sw_ok w'"
proof (induction rule: sock_step.induct)
  case (new c_open cls v0 w init notify)
  then show ?case by (intro sw_ok_new)
next
  case (pipe a w s)
  then show ?case using sw_okD [OF pipe.prems pipe(1)] pipe_step_inv pipe_step_open [OF pipe(3)]
    by (intro put_sock_ok) (auto simp: sock_ok_def)
next
  case (set_callback a w cb)
  then show ?case using sw_okD [OF set_callback.prems set_callback(1)]
    by (auto simp: set_on_new_pipe_def sock_check_def bindS_app Let_def sock_ok_def track_inv_def split: cb_arg.splits intro!: put_sock_ok)
next
  case (set_filter a w f)
  then show ?case using sw_okD [OF set_filter.prems set_filter(1)]
    by (auto simp: set_pipe_filter_obj_def sock_check_def bindS_app Let_def sock_ok_def track_inv_def coll_inv_def set_filter_def
        split: filter_arg.splits intro!: put_sock_ok)
next
  case (manager a w loop env)
  then show ?case using sw_okD [OF manager.prems manager(1)] mgr_create_ok [of env]
    by (auto simp: get_aio_manager_def Let_def sock_ok_def split: option.splits intro!: put_sock_ok)
next
  case (manager_event a w ms l m ms' ev)
  then show ?case using sw_okD [OF manager_event.prems manager_event(1)] mgr_exec_distinct [of m ev]
    by (intro put_sock_ok) (auto simp: sock_ok_def)
next
  case (loop_gone a w l)
  then show ?case using sw_okD [OF loop_gone.prems loop_gone(1)] by (intro put_sock_ok) (auto simp: sock_ok_def)
next
  case (disconnect_flag a w v)
  then show ?case using sw_okD [OF disconnect_flag.prems disconnect_flag(1)] by (intro put_sock_ok) (auto simp: sock_ok_def)
qed (use sock_update_ok close_socket_ok in blast)+

lemma sw_ok_reachable: "(sock_step e)\<^sup>*\<^sup>* sock_init w \<Longrightarrow> sw_ok w"
proof (induction rule: rtranclp_induct)
  case base
  show ?case by (simp add: sock_init_def sw_ok_def)
qed (use sw_ok_step in blast)

section \<open>Properties\<close>

lemma release_calls:
  "m_calls (mgr_release c m) = m_calls m @ pending m" "pending (mgr_release c m) = []"
  by (auto simp: mgr_release_def pending_def Let_def split: option.splits)

lemma closed_check: "so_id (sock_obj w a) = 0 \<Longrightarrow> sock_check a w = (Inl (obj_closed_exn KSocket), w)"
  by (simp add: sock_check_def)


text \<open>One socket with a pending operation on event loop 3.\<close>

abbreviation opens_5 :: "string \<Rightarrow> nng_err \<times> nat" where
  "opens_5 \<equiv> (\<lambda>_. (NNG_OK, 5))"

abbreviation no_error :: "pipe_ev \<Rightarrow> nng_err" where
  "no_error \<equiv> (\<lambda>_. NNG_OK)"

definition demo_socket :: sock_world where
  "demo_socket = snd (get_aio_manager (Some 3) posix_env 0 (snd (Socket_new (Inr ()) opens_5 no_error PairSocket False sock_init)))"

lemma demo_socket_eq: "demo_socket = \<lparr>sw_open = {5}, sw_registry = [(5, 0)],
    sw_objs = [(Socket_cinit PairSocket 5)\<lparr>so_managers := [(3, mgr_create posix_env)]\<rparr>]\<rparr>"
  by (simp add: demo_socket_def Socket_new_def sock_init_def get_aio_manager_def put_sock_def Socket_cinit_def dict_set_def bindS_app Let_def)

lemma demo_socket_reachable: "(sock_step e)\<^sup>*\<^sup>* sock_init demo_socket"
proof -
  let ?w = "snd (Socket_new (Inr ()) opens_5 no_error PairSocket False sock_init)"
  have "sock_step e sock_init ?w" by (rule sock_step.new) (simp add: sock_init_def)
  moreover have "sock_step e ?w demo_socket" unfolding demo_socket_def
    by (rule sock_step.manager) (simp_all add: Socket_new_def sock_init_def Socket_cinit_def bindS_app Let_def)
  ultimately show ?thesis by (rule converse_rtranclp_into_rtranclp [OF _ r_into_rtranclp])
qed


text \<open>C11: a socket made while the dispatcher goes over the live registry ends the dispatcher's round. When a
  callback that the update of a socket runs, or another thread, constructs a socket under a new identifier, the next
  step of the iteration raises \<open>RuntimeError\<close>, and the sockets after it are not updated; nothing in the
  dispatcher loop catches it. Over a copy the round goes on.\<close>

theorem new_socket_breaks_drain:
  assumes "sw_registry w = (n, a) # rest" "sw_ok w" "a < length (sw_objs w)"
    and "Socket_new init c_open notify cls v0 (sock_update lc a w) = (Inr b, w1)" "snd (c_open (proto_open cls v0)) \<notin> fst ` set (sw_registry w)"
  shows "drain_pipe_events True lc (\<lambda>_ v. snd (Socket_new init c_open notify cls v0 v)) w = (Inl (PyExn RuntimeError), w1) \<and>
    fst (drain_pipe_events False lc meanwhile w) = Inr ()"
proof -
  have r: "sw_registry (sock_update lc a w) = sw_registry w" using sock_update_ok [OF assms(2,3)] by simp
  have "length (sw_registry w1) \<noteq> length (sw_registry w)"
  proof (cases rule: Socket_new_cases [of init c_open notify cls v0 "sock_update lc a w"])
    case (raises e reg)
    with assms(4) show ?thesis by simp
  next
    case (opens m)
    with assms(4,5) r show ?thesis by (auto simp: dict_set_def)
  qed
  with assms(1,4) have "drain_pipe_events True lc (\<lambda>_ v. snd (Socket_new init c_open notify cls v0 v)) w = (Inl (PyExn RuntimeError), w1)"
    by (cases rest) (auto simp: drain_pipe_events_def)
  moreover have "fst (drain_sockets False lc meanwhile k ns v) = Inr ()" for k ns v by (induction ns arbitrary: v) auto
  ultimately show ?thesis by (simp add: drain_pipe_events_def)
qed

theorem new_socket_breaks_drain_witness:
  "fst (drain_pipe_events True (\<lambda>_. False) (\<lambda>_ v. snd (Socket_new (Inr ()) (\<lambda>_. (NNG_OK, 6)) no_error SubSocket False v)) demo_socket) =
     Inl (PyExn RuntimeError)"
proof -
  have r: "sw_registry demo_socket = [(5, 0)]" "0 < length (sw_objs demo_socket)" by (simp_all add: demo_socket_eq)
  have "\<exists>b w1. Socket_new (Inr ()) (\<lambda>_. (NNG_OK, 6)) no_error SubSocket False v = (Inr b, w1)" for v
    by (simp add: Socket_new_def bindS_app Let_def)
  then obtain b w1 where "Socket_new (Inr ()) (\<lambda>_. (NNG_OK, 6)) no_error SubSocket False (sock_update (\<lambda>_. False) 0 demo_socket) = (Inr b, w1)"
    by blast
  from new_socket_breaks_drain [OF r(1) sw_ok_reachable [OF demo_socket_reachable] r(2) this, of "\<lambda>_ v. v"]
  show ?thesis by (simp add: r(1))
qed

text \<open>A constructor either returns a new registered open socket, or raises and leaves the C library and
  all other sockets as they were.\<close>

theorem construction_all_or_nothing:
  "case Socket_new init c_open notify cls v0 w of
     (Inl _, w') \<Rightarrow> sw_open w' = sw_open w \<and> sw_objs w' = sw_objs w
   | (Inr a, w') \<Rightarrow> \<exists>n. c_open (proto_open cls v0) = (NNG_OK, n) \<and> sw_open w' = insert n (sw_open w) \<and>
       sw_objs w' = sw_objs w @ [Socket_cinit cls n] \<and> a = length (sw_objs w) \<and> map_of (sw_registry w') n = Some a"
proof (cases rule: Socket_new_cases [of init c_open notify cls v0 w])
  case (opens n)
  have "map_of (dict_set n k d) n = Some k" for k d
    by (induction d) (auto simp: dict_set_def map_of_append split: if_splits)
  with opens show ?thesis by simp
qed simp

lemma on_pipe_removed_id:
  assumes "a < length (sw_objs w)"
  shows "so_id (sock_obj (fold (on_pipe_removed lc a) ps w) a) =
    (if ps \<noteq> [] \<and> so_class (sock_obj w a) = PairSocket \<and> so_close_on_disconnect (sock_obj w a) then 0 else so_id (sock_obj w a))"
  using assms
proof (induction ps arbitrary: w)
  case (Cons p ps)
  let ?w = "on_pipe_removed lc a p w"
  have "a < length (sw_objs ?w)" using Cons.prems by (simp add: on_pipe_removed_def)
  moreover have "so_class (sock_obj ?w a) = so_class (sock_obj w a)"
    "so_close_on_disconnect (sock_obj ?w a) = so_close_on_disconnect (sock_obj w a)"
    "so_id (sock_obj ?w a) = (if so_class (sock_obj w a) = PairSocket \<and> so_close_on_disconnect (sock_obj w a) then 0 else so_id (sock_obj w a))"
    using Cons.prems by (auto simp: on_pipe_removed_def close_socket_def Let_def)
  ultimately show ?case using Cons.IH [of ?w] by auto
qed simp

text \<open>A pair socket with \<open>close_on_disconnect\<close> is closed by the first update that finds one of its pipes
  gone, and no update closes any other socket.\<close>

theorem closes_on_disconnect:
  assumes "a < length (sw_objs w)"
  shows "so_id (sock_obj (sock_update lc a w) a) =
    (if removed_since (so_pipes (sock_obj w a)) (update_pipes (so_pipes (sock_obj w a))) \<noteq> [] \<and>
        so_class (sock_obj w a) = PairSocket \<and> so_close_on_disconnect (sock_obj w a)
     then 0 else so_id (sock_obj w a))"
  using assms by (simp add: sock_update_def Let_def on_pipe_removed_id)

text \<open>The pipes an endpoint reports are live pipes of its socket that name it as their creator.\<close>

lemma endpoint_pipes_live:
  assumes "endpoint_pipes lc k d ep_open parent w = (Inr ps, w')"
  shows "ep_open \<and> (\<exists>a. parent = Some a \<and> (\<forall>p \<in> set ps. p \<in> set (pipes (so_pipes (sock_obj w' a))) \<and>
    (if k = KDialer then p_dialer else p_listener) (pobjs (so_pipes (sock_obj w' a)) p) = Some d))"
proof -
  from assms obtain a where a: "ep_open" "parent = Some a" by (auto simp: endpoint_pipes_def split: if_splits option.splits)
  obtain r w1 where g: "get_pipes lc a w = (r, w1)" by fastforce
  with assms a obtain qs where q: "r = Inr qs" "w1 = w'"
      "ps = filter (\<lambda>p. (if k = KDialer then p_dialer else p_listener) (pobjs (so_pipes (sock_obj w' a)) p) = Some d) qs"
    by (cases r) (auto simp: endpoint_pipes_def bindS_app)
  moreover have "qs = pipes (so_pipes (sock_obj w' a))"
    using g q(1,2) by (auto simp: get_pipes_def sock_check_def bindS_app Let_def split: if_splits)
  ultimately show ?thesis using a by simp
qed

text \<open>The filter reads back what was set; a wrong argument changes nothing.\<close>

lemma filter_roundtrip:
  assumes "a < length (sw_objs w)" "so_id (sock_obj w a) \<noteq> 0"
  shows "fst (get_pipe_filter_obj a (snd (set_pipe_filter_obj (FFilter obj impl) a w))) = Inr (Some obj)"
    "cfilter (coll (so_pipes (sock_obj (snd (set_pipe_filter_obj (FFilter obj impl) a w)) a))) = Some impl"
    "set_pipe_filter_obj FOther a w = (Inl (PyExn TypeError), w)"
  using assms by (simp_all add: set_pipe_filter_obj_def get_pipe_filter_obj_def sock_check_def bindS_app Let_def set_filter_def)

text \<open>A round of the dispatcher during which nobody makes a socket updates every registered socket.\<close>

lemma sock_update_other: "b \<noteq> a \<Longrightarrow> sock_obj (sock_update lc a w) b = sock_obj w b"
proof -
  assume "b \<noteq> a"
  moreover have "sock_obj (fold (on_pipe_removed lc a) ps v) b = sock_obj v b" if "b \<noteq> a" for ps v
    using that by (induction ps arbitrary: v) (auto simp: on_pipe_removed_def)
  ultimately show ?thesis by (simp add: sock_update_def Let_def)
qed

lemma drain_returns:
  assumes "sw_ok w" "\<forall>(n, a) \<in> set (sw_registry w). a < length (sw_objs w)"
  shows "fst (drain_pipe_events live lc (\<lambda>_ v. v) w) = Inr () \<and> sw_registry (snd (drain_pipe_events live lc (\<lambda>_ v. v) w)) = sw_registry w"
proof -
  have "fst (drain_sockets live lc (\<lambda>_ v. v) (length (sw_registry w)) ns v) = Inr () \<and>
      sw_registry (snd (drain_sockets live lc (\<lambda>_ v. v) (length (sw_registry w)) ns v)) = sw_registry w"
    if "sw_ok v" "sw_registry v = sw_registry w" "length (sw_objs v) = length (sw_objs w)" "set ns \<subseteq> set (sw_registry w)" for ns v
    using that
  proof (induction ns arbitrary: v)
    case (Cons p ns)
    obtain n a where p: "p = (n, a)" by (cases p)
    show ?case
    proof (cases "if live then map_of (sw_registry v) n else Some a")
      case None
      with Cons p show ?thesis by (auto split: if_splits)
    next
      case (Some b)
      then have b: "b < length (sw_objs v)"
        using Cons.prems assms(2) p by (auto split: if_splits dest!: map_of_SomeD)
      note u = sock_update_ok [OF Cons.prems(1) b, of lc]
      from Cons.IH [OF u(1)] u(2,3) Cons.prems(2-4) Some p show ?thesis by simp
    qed
  qed simp
  from this [OF assms(1) refl refl order_refl] show ?thesis by (simp add: drain_pipe_events_def)
qed

end
