(* ===== verification/AioLife.thy ===== *)
theory AioLife
  imports Aio
begin

text \<open>
  The life of operation objects (\<^verbatim>\<open>nng/_aio_async.pxi\<close>, \<^verbatim>\<open>nng/_aio_cb_sync.pxi\<close>, \<^verbatim>\<open>nng/cpp/aio.hpp\<close>):
  the completion queue carries the addresses of operations, and the memory of one that is gone is
  used again. Objects are kept by references of their callers and by the dictionary of completion
  callables; the destructor stops and frees the \<open>nng_aio\<close> before the container its callback refers to.
\<close>

section \<open>Operations\<close>

text \<open>
  \<open>Submitted\<close> is the time between the submission to the C library and the skip point, \<open>Watched\<close> an
  operation that was not complete there, \<open>Skipped\<close> one that was. \<open>ao_fired\<close> tells that the callback has
  run, \<open>ao_held\<close> that a caller refers to the object, \<open>ao_dict\<close> that it was
  given a dictionary (after a release there is none). \<open>ao_gen\<close> numbers the objects, to tell apart those that
  have lived at one address.
\<close>

datatype aio_phase = Idle | Submitted | Watched | Skipped

record aio_op =
  ao_gen :: nat
  ao_phase :: aio_phase
  ao_fired :: bool
  ao_container :: container
  ao_held :: bool
  ao_dict :: bool

text \<open>
  The objects by address, the dictionary of callables (\<open>None\<close> once the manager is released), the queue with the
  number of the operation that pushed each entry, and the operations that were completed and skipped.
\<close>

record aio_heap =
  ah_ops :: "u64 \<Rightarrow> aio_op option"
  ah_reg :: "u64 list option"
  ah_queue :: "(u64 \<times> nat) list"
  ah_next :: nat
  ah_done :: "nat list"
  ah_skipped :: "nat list"

definition put_op :: "u64 \<Rightarrow> aio_op \<Rightarrow> aio_heap \<Rightarrow> aio_heap" where
  "put_op a x w = w\<lparr>ah_ops := (ah_ops w)(a \<mapsto> x)\<rparr>"

text \<open>The factories: \<open>init\<close> and \<open>alloc_rv\<close> are the outcomes of initialisation and of \<open>nng_aio_alloc\<close>.\<close>

definition create_op :: "unit result \<Rightarrow> bool \<Rightarrow> nng_err \<Rightarrow> u64 \<Rightarrow> (aio_heap, py_exn, unit) op" where
  "create_op init has_loop alloc_rv a =
     bindS (liftS init) (\<lambda>_.
     bindS (liftS (if has_loop then Inr () else Inl (PyExn RuntimeError))) (\<lambda>_.
     bindS (liftS (check_err alloc_rv)) (\<lambda>_ w.
       (Inr (), (put_op a \<lparr>ao_gen = ah_next w, ao_phase = Idle, ao_fired = False, ao_container = container_new a, ao_held = True,
            ao_dict = (ah_reg w \<noteq> None)\<rparr> w)
          \<lparr>ah_next := Suc (ah_next w)\<rparr>))))"

text \<open>
  The first half of a submission: \<open>_prepare_submit\<close> and the call of the C library. An operation that was given the
  dictionary before a release still writes to it, where nobody looks any more.
\<close>

definition submit_op :: "u64 \<Rightarrow> aio_op \<Rightarrow> (aio_heap, py_exn, unit) op" where
  "submit_op a x = (\<lambda>w.
     if \<not> ao_dict x then (Inl (PyExn TypeError), w)
     else (Inr (), put_op a (x\<lparr>ao_phase := Submitted\<rparr>)
             (w\<lparr>ah_reg := map_option (\<lambda>d. if a \<in> set d then d else d @ [a]) (ah_reg w)\<rparr>)))"

text \<open>
  The callback on the C library's thread. With \<open>cb\<close> (the operations of the dispatcher thread, which have no
  container) it pushes the address, else it goes through the container.
\<close>

definition trampoline :: "bool \<Rightarrow> u64 \<Rightarrow> aio_op \<Rightarrow> aio_heap \<Rightarrow> aio_heap" where
  "trampoline cb a x w =
     (let (p, c) = (if cb then (Some a, ao_container x) else fire (ao_container x));
          w1 = put_op a (x\<lparr>ao_fired := True, ao_container := c\<rparr>) w
      in case p of None \<Rightarrow> w1 | Some i \<Rightarrow> w1\<lparr>ah_queue := ah_queue w1 @ [(i, ao_gen x)]\<rparr>)"

text \<open>The second half of a submission; \<open>_cancel_dispatch\<close> takes a skipped operation out of the dictionary.\<close>

definition skip_point :: "bool \<Rightarrow> u64 \<Rightarrow> aio_op \<Rightarrow> aio_heap \<Rightarrow> aio_heap" where
  "skip_point cb a x w =
     (let (skipped, c) = (if cb then (False, ao_container x) else reach_skip_point (ao_container x)) in
      if skipped
      then (put_op a (x\<lparr>ao_phase := Skipped, ao_container := c\<rparr>) w)
             \<lparr>ah_reg := map_option (filter (\<lambda>i. i \<noteq> a)) (ah_reg w), ah_skipped := ah_skipped w @ [ao_gen x]\<rparr>
      else put_op a (x\<lparr>ao_phase := Watched, ao_container := c\<rparr>) w)"

text \<open>\<open>on_future_cancel\<close> and \<open>ensure_finish\<close>: they return after the callback has run.\<close>

definition finish_op :: "bool \<Rightarrow> u64 \<Rightarrow> aio_op \<Rightarrow> aio_heap \<Rightarrow> aio_heap" where
  "finish_op cb a x w = (if ao_phase x \<noteq> Idle \<and> \<not> ao_fired x then trampoline cb a x w else w)"

text \<open>The completion callable of whatever operation is at the address; it waits for the callback.\<close>

definition complete_op :: "bool \<Rightarrow> u64 \<Rightarrow> aio_heap \<Rightarrow> aio_heap" where
  "complete_op cb a w =
     (case ah_ops w a of
        None \<Rightarrow> w
      | Some x \<Rightarrow> (finish_op cb a x w)\<lparr>ah_done := ah_done w @ [ao_gen x]\<rparr>)"

text \<open>One address off the queue.\<close>

definition dispatch_op :: "bool \<Rightarrow> aio_heap \<Rightarrow> aio_heap" where
  "dispatch_op cb w =
     (case ah_queue w of
        [] \<Rightarrow> w
      | (a, g) # q \<Rightarrow>
          (let w1 = w\<lparr>ah_queue := q\<rparr> in
           case ah_reg w of
             None \<Rightarrow> w1
           | Some d \<Rightarrow> if a \<in> set d then complete_op cb a (w1\<lparr>ah_reg := Some (filter (\<lambda>i. i \<noteq> a) d)\<rparr>) else w1))"

definition release_ops :: "bool \<Rightarrow> aio_heap \<Rightarrow> aio_heap" where
  "release_ops cb w = (case ah_reg w of None \<Rightarrow> w | Some d \<Rightarrow> fold (complete_op cb) d (w\<lparr>ah_reg := None\<rparr>))"

text \<open>\<open>AioHandle::destroy\<close>: stop, which runs the callback if the operation is busy, then free.\<close>

definition dealloc_op :: "bool \<Rightarrow> u64 \<Rightarrow> aio_op \<Rightarrow> aio_heap \<Rightarrow> aio_heap" where
  "dealloc_op cb a x w = (let w1 = finish_op cb a x w in w1\<lparr>ah_ops := (ah_ops w1)(a := None)\<rparr>)"

definition heap_init :: aio_heap where
  "heap_init = \<lparr>ah_ops = (\<lambda>_. None), ah_reg = Some [], ah_queue = [], ah_next = 0, ah_done = [], ah_skipped = []\<rparr>"

text \<open>
  The steps of callers, the C library, the dispatcher and the collector of objects nobody refers to. The
  allocator may give any address that is free. Only managers are released: the dictionary of the dispatcher
  thread is a global.
\<close>

inductive aio_step :: "bool \<Rightarrow> aio_heap \<Rightarrow> aio_heap \<Rightarrow> bool" for cb :: bool where
  create: "ah_ops w a = None \<Longrightarrow> aio_step cb w (snd (create_op init has_loop rv a w))"
| submit: "ah_ops w a = Some x \<Longrightarrow> ao_phase x = Idle \<Longrightarrow> ao_held x \<Longrightarrow> aio_step cb w (snd (submit_op a x w))"
| callback: "ah_ops w a = Some x \<Longrightarrow> ao_phase x \<noteq> Idle \<Longrightarrow> \<not> ao_fired x \<Longrightarrow> aio_step cb w (trampoline cb a x w)"
| skip: "ah_ops w a = Some x \<Longrightarrow> ao_phase x = Submitted \<Longrightarrow> ao_held x \<Longrightarrow> aio_step cb w (skip_point cb a x w)"
| cancel: "ah_ops w a = Some x \<Longrightarrow> ao_held x \<Longrightarrow> aio_step cb w (finish_op cb a x w)"
| drop: "ah_ops w a = Some x \<Longrightarrow> ao_phase x \<noteq> Submitted \<Longrightarrow> aio_step cb w (put_op a (x\<lparr>ao_held := False\<rparr>) w)"
| dispatch: "aio_step cb w (dispatch_op cb w)"
| release: "\<not> cb \<Longrightarrow> aio_step cb w (release_ops cb w)"
| collect: "ah_ops w a = Some x \<Longrightarrow> \<not> ao_held x \<Longrightarrow> \<forall>d. ah_reg w = Some d \<longrightarrow> a \<notin> set d \<Longrightarrow> aio_step cb w (dealloc_op cb a x w)"

section \<open>Invariant\<close>

text \<open>Of a dictionary that was not released: what holds of one operation, and of the queue.\<close>

definition op_ok :: "bool \<Rightarrow> aio_heap \<Rightarrow> u64 list \<Rightarrow> u64 \<Rightarrow> aio_op \<Rightarrow> bool" where
  "op_ok cb w d a x \<longleftrightarrow>
     op_id (ao_container x) = a \<and> ao_gen x < ah_next w \<and>
     (ao_phase x = Idle \<longrightarrow> \<not> ao_fired x \<and> a \<notin> set d \<and> ao_gen x \<notin> set (ah_done w)) \<and>
     (ao_phase x \<noteq> Idle \<and> \<not> ao_fired x \<longrightarrow> a \<in> set d) \<and>
     (a \<in> set d \<longrightarrow> ao_phase x \<in> {Submitted, Watched} \<and> ao_gen x \<notin> set (ah_done w)) \<and>
     (ao_phase x = Submitted \<and> \<not> cb \<longrightarrow> a \<in> set d) \<and>
     (\<not> cb \<longrightarrow> (skip_point_reached (ao_container x) = 0 \<longleftrightarrow> ao_phase x \<in> {Idle, Submitted} \<and> \<not> ao_fired x)) \<and>
     (ao_gen x \<in> set (ah_skipped w) \<longleftrightarrow> ao_phase x = Skipped) \<and>
     (ao_phase x = Skipped \<longrightarrow> ao_fired x \<and> a \<notin> set d) \<and>
     (a \<in> fst ` set (ah_queue w) \<longleftrightarrow> a \<in> set d \<and> ao_fired x \<and> (cb \<or> ao_phase x = Watched))"

definition heap_ok :: "bool \<Rightarrow> aio_heap \<Rightarrow> u64 list \<Rightarrow> bool" where
  "heap_ok cb w d \<longleftrightarrow>
     (\<forall>a x. ah_ops w a = Some x \<longrightarrow> op_ok cb w d a x) \<and> (\<forall>a \<in> set d. ah_ops w a \<noteq> None) \<and>
     distinct (map fst (ah_queue w)) \<and> (\<forall>(a, g) \<in> set (ah_queue w). \<exists>x. ah_ops w a = Some x \<and> ao_gen x = g) \<and>
     (\<forall>a b x y. ah_ops w a = Some x \<longrightarrow> ah_ops w b = Some y \<longrightarrow> ao_gen x = ao_gen y \<longrightarrow> a = b) \<and>
     (\<forall>g \<in> set (ah_done w) \<union> set (ah_skipped w). g < ah_next w) \<and>
     distinct (ah_done w) \<and> set (ah_done w) \<inter> set (ah_skipped w) = {}"

lemma heap_okD:
  assumes "heap_ok cb w d"
  shows "ah_ops w a = Some x \<Longrightarrow> op_ok cb w d a x" "a \<in> set d \<Longrightarrow> \<exists>x. ah_ops w a = Some x"
    "distinct (map fst (ah_queue w))" "(a, g) \<in> set (ah_queue w) \<Longrightarrow> \<exists>x. ah_ops w a = Some x \<and> ao_gen x = g"
    "ah_ops w a = Some x \<Longrightarrow> ah_ops w b = Some y \<Longrightarrow> ao_gen x = ao_gen y \<Longrightarrow> a = b"
    "distinct (ah_done w)" "set (ah_done w) \<inter> set (ah_skipped w) = {}"
    "h \<in> set (ah_done w) \<Longrightarrow> h < ah_next w" "h \<in> set (ah_skipped w) \<Longrightarrow> h < ah_next w"
  using assms unfolding heap_ok_def by (simp, blast | fastforce)+

text \<open>An operation is not affected by what happens to others.\<close>

lemma op_ok_frame:
  assumes "op_ok cb w d b y" "ah_next w \<le> ah_next w'" "b \<in> set d' \<longleftrightarrow> b \<in> set d"
    and "b \<in> fst ` set (ah_queue w') \<longleftrightarrow> b \<in> fst ` set (ah_queue w)"
    and "ao_gen y \<in> set (ah_done w') \<longleftrightarrow> ao_gen y \<in> set (ah_done w)"
    and "ao_gen y \<in> set (ah_skipped w') \<longleftrightarrow> ao_gen y \<in> set (ah_skipped w)"
  shows "op_ok cb w' d' b y"
  using assms unfolding op_ok_def by auto

text \<open>A step of one operation, which may push it on the queue or report it skipped.\<close>

lemma heap_ok_update:
  assumes ok: "heap_ok cb w d" and x: "ah_ops w a = Some x" "ao_gen x' = ao_gen x"
    and w': "ah_ops w' = (ah_ops w)(a \<mapsto> x')" "ah_next w' = ah_next w" "ah_done w' = ah_done w"
    and d': "\<And>b. b \<noteq> a \<Longrightarrow> b \<in> set d' \<longleftrightarrow> b \<in> set d"
    and q: "ah_queue w' = ah_queue w \<or> a \<notin> fst ` set (ah_queue w) \<and> ah_queue w' = ah_queue w @ [(a, ao_gen x)]"
    and s: "ah_skipped w' = ah_skipped w \<or> ao_gen x \<notin> set (ah_done w) \<and> ah_skipped w' = ah_skipped w @ [ao_gen x]"
    and a: "op_ok cb w' d' a x'"
  shows "heap_ok cb w' d'"
proof -
  note D = heap_okD [OF ok]
  have gen: "ao_gen y \<noteq> ao_gen x" if "ah_ops w b = Some y" "b \<noteq> a" for b y using D(5) [OF x(1) that(1)] that(2) by auto
  have 1: "op_ok cb w' d' b y" if "ah_ops w' b = Some y" for b y
  proof (cases "b = a")
    case False
    then have "ah_ops w b = Some y" using that w'(1) by simp
    note y = D(1) [OF this] gen [OF this False]
    have "b \<in> fst ` set (ah_queue w') \<longleftrightarrow> b \<in> fst ` set (ah_queue w)" using q False by auto
    moreover have "ao_gen y \<in> set (ah_skipped w') \<longleftrightarrow> ao_gen y \<in> set (ah_skipped w)" using s y(2) by auto
    ultimately show ?thesis using op_ok_frame [OF y(1) _ d' [OF False]] w'(2,3) by simp
  qed (use that w'(1) a in simp)
  have 2: "\<forall>b \<in> set d'. ah_ops w' b \<noteq> None" using D(2) d' w'(1) by auto
  have 3: "distinct (map fst (ah_queue w'))" using q D(3) by auto
  have 4: "\<forall>(b, g) \<in> set (ah_queue w'). \<exists>y. ah_ops w' b = Some y \<and> ao_gen y = g"
    using q D(4) x w'(1) by fastforce
  have 5: "b = c" if "ah_ops w' b = Some y" "ah_ops w' c = Some z" "ao_gen y = ao_gen z" for b c y z
    using that w'(1) x(2) gen [of b y] gen [of c z] D(5) [of b y c z] by (cases "b = a"; cases "c = a") auto
  have "ao_gen x < ah_next w" using D(1) [OF x(1)] by (simp add: op_ok_def)
  then have 6: "\<forall>g \<in> set (ah_done w') \<union> set (ah_skipped w'). g < ah_next w'" using D(8,9) w'(2,3) s by auto
  have 7: "distinct (ah_done w')" "set (ah_done w') \<inter> set (ah_skipped w') = {}" using D(6,7) w'(3) s by auto
  show ?thesis unfolding heap_ok_def using 1 2 3 4 5 6 7 by blast
qed

lemma ok_submit:
  assumes "heap_ok cb w d" "ah_ops w a = Some x" "ao_phase x = Idle" "ah_reg w = Some d"
  shows "\<exists>d'. ah_reg (snd (submit_op a x w)) = Some d' \<and> heap_ok cb (snd (submit_op a x w)) d'"
proof -
  have o: "op_ok cb w d a x" using heap_okD(1) [OF assms(1,2)] .
  then have n: "a \<notin> set d" using assms(3) by (simp add: op_ok_def)
  show ?thesis
  proof (cases "ao_dict x")
    case True
    have "heap_ok cb (snd (submit_op a x w)) (d @ [a])"
      by (rule heap_ok_update [OF assms(1,2), where x' = "x\<lparr>ao_phase := Submitted\<rparr>"])
         (use o n assms(3,4) True in \<open>auto simp: submit_op_def put_op_def op_ok_def\<close>)
    with n assms(4) True show ?thesis by (simp add: submit_op_def put_op_def)
  qed (use assms(1,4) in \<open>simp add: submit_op_def\<close>)
qed

lemma ok_trampoline:
  assumes "heap_ok cb w d" "ah_ops w a = Some x" "ao_phase x \<noteq> Idle" "\<not> ao_fired x"
  shows "heap_ok cb (trampoline cb a x w) d" "ah_reg (trampoline cb a x w) = ah_reg w"
proof -
  have o: "op_ok cb w d a x" using heap_okD(1) [OF assms(1,2)] .
  then have i: "a \<in> set d" "ao_phase x \<in> {Submitted, Watched}" "a \<notin> fst ` set (ah_queue w)" using assms(3,4) by (auto simp: op_ok_def)
  show "ah_reg (trampoline cb a x w) = ah_reg w"
    by (auto simp: trampoline_def put_op_def Let_def split: prod.splits option.splits if_splits)
  show "heap_ok cb (trampoline cb a x w) d"
  proof (cases "cb \<or> ao_phase x = Watched")
    case True
    have f: "fire (ao_container x) = (Some a, ao_container x)" if "\<not> cb" using that True o by (auto simp: fire_def op_ok_def)
    show ?thesis
      by (rule heap_ok_update [OF assms(1,2), where x' = "x\<lparr>ao_fired := True\<rparr>"])
         (use o i True f in \<open>auto simp: trampoline_def put_op_def op_ok_def\<close>)
  next
    case False
    have f: "fire (ao_container x) = (None, (ao_container x)\<lparr>skip_point_reached := 1\<rparr>)"
      using False i(2) assms(4) o by (auto simp: fire_def op_ok_def)
    show ?thesis
      by (rule heap_ok_update [OF assms(1,2), where x' = "x\<lparr>ao_fired := True, ao_container := (ao_container x)\<lparr>skip_point_reached := 1\<rparr>\<rparr>"])
         (use o i False f in \<open>auto simp: trampoline_def put_op_def op_ok_def\<close>)
  qed
qed

lemma ok_finish:
  assumes "heap_ok cb w d" "ah_ops w a = Some x"
  shows "heap_ok cb (finish_op cb a x w) d" "ah_reg (finish_op cb a x w) = ah_reg w"
  using ok_trampoline [OF assms] assms(1) by (simp_all add: finish_op_def)

lemma ok_skip:
  assumes "heap_ok cb w d" "ah_ops w a = Some x" "ao_phase x = Submitted" "ah_reg w = Some d"
  shows "\<exists>d'. ah_reg (skip_point cb a x w) = Some d' \<and> heap_ok cb (skip_point cb a x w) d'"
proof -
  have o: "op_ok cb w d a x" using heap_okD(1) [OF assms(1,2)] .
  show ?thesis
  proof (cases "cb \<or> \<not> ao_fired x")
    case True
    let ?c = "if cb then ao_container x else (ao_container x)\<lparr>skip_point_reached := 1\<rparr>"
    have r: "reach_skip_point (ao_container x) = (False, (ao_container x)\<lparr>skip_point_reached := 1\<rparr>)" if "\<not> cb"
      using that True o assms(3) by (auto simp: reach_skip_point_def op_ok_def)
    have "heap_ok cb (skip_point cb a x w) d"
      by (rule heap_ok_update [OF assms(1,2), where x' = "x\<lparr>ao_phase := Watched, ao_container := ?c\<rparr>"])
         (use o r True assms(3) in \<open>auto simp: skip_point_def put_op_def op_ok_def\<close>)
    moreover have "ah_reg (skip_point cb a x w) = ah_reg w" using r by (auto simp: skip_point_def put_op_def)
    ultimately show ?thesis using assms(4) by simp
  next
    case False
    have r: "reach_skip_point (ao_container x) = (True, ao_container x)"
      using False o assms(3) by (auto simp: reach_skip_point_def op_ok_def)
    have i: "a \<in> set d" "ao_gen x \<notin> set (ah_done w)" "a \<notin> fst ` set (ah_queue w)" using False o assms(3) by (auto simp: op_ok_def)
    have "heap_ok cb (skip_point cb a x w) (filter (\<lambda>i. i \<noteq> a) d)"
      by (rule heap_ok_update [OF assms(1,2), where x' = "x\<lparr>ao_phase := Skipped\<rparr>"])
         (use o r i False assms(3) in \<open>auto simp: skip_point_def put_op_def op_ok_def\<close>)
    then show ?thesis using r False assms(4) by (simp add: skip_point_def put_op_def)
  qed
qed

text \<open>The address at the front of the queue is that of the operation that pushed it.\<close>

lemma front_of_queue:
  assumes "heap_ok cb w d" "ah_queue w = (a, g) # q"
  obtains x where "ah_ops w a = Some x" "ao_gen x = g" "a \<in> set d" "ao_fired x" "g \<notin> set (ah_done w)" "g \<notin> set (ah_skipped w)"
proof -
  obtain x where x: "ah_ops w a = Some x" "ao_gen x = g" using heap_okD(4) [OF assms(1), of a g] assms(2) by auto
  have "op_ok cb w d a x" using heap_okD(1) [OF assms(1) x(1)] .
  then show thesis using that [OF x] x(2) assms(2) by (auto simp: op_ok_def)
qed

lemma ok_dispatch:
  assumes ok: "heap_ok cb w d" and "ah_reg w = Some d"
  shows "\<exists>d'. ah_reg (dispatch_op cb w) = Some d' \<and> heap_ok cb (dispatch_op cb w) d'"
proof (cases "ah_queue w")
  case (Cons p q)
  obtain a g where p: "p = (a, g)" by (cases p)
  then have aq: "ah_queue w = (a, g) # q" using Cons by simp
  from front_of_queue [OF ok aq] obtain x where x: "ah_ops w a = Some x" "ao_gen x = g" "a \<in> set d" "ao_fired x"
      "g \<notin> set (ah_done w)" "g \<notin> set (ah_skipped w)" .
  let ?d = "filter (\<lambda>i. i \<noteq> a) d" and ?w = "dispatch_op cb w"
  have w': "?w = w\<lparr>ah_queue := q, ah_reg := Some ?d, ah_done := ah_done w @ [g]\<rparr>"
    using aq assms(2) x by (simp add: dispatch_op_def complete_op_def finish_op_def)
  note D = heap_okD [OF ok]
  have gen: "ao_gen y \<noteq> g" if "ah_ops w b = Some y" "b \<noteq> a" for b y using D(5) [OF x(1) that(1)] x(2) that(2) by auto
  have aq': "a \<notin> fst ` set q" using D(3) aq by simp
  have 1: "op_ok cb ?w ?d b y" if "ah_ops ?w b = Some y" for b y
  proof (cases "b = a")
    case True
    then have "y = x" using that x(1) w' by simp
    moreover have "a \<in> fst ` set (ah_queue w)" using aq by simp
    ultimately show ?thesis using D(1) [OF x(1)] x aq' True unfolding w' op_ok_def by auto
  next
    case False
    have y: "ah_ops w b = Some y" using that w' by simp
    show ?thesis using op_ok_frame [OF D(1) [OF y], of ?w ?d] gen [OF y False] False aq by (auto simp: w')
  qed
  have "\<forall>h \<in> set (ah_done ?w) \<union> set (ah_skipped ?w). h < ah_next ?w"
    using D(8,9) D(1) [OF x(1)] x(2) by (auto simp: w' op_ok_def)
  moreover have "distinct (ah_done ?w)" "set (ah_done ?w) \<inter> set (ah_skipped ?w) = {}" using D(6,7) x(5,6) by (auto simp: w')
  moreover have "\<forall>b \<in> set ?d. ah_ops ?w b \<noteq> None" using D(2) by (fastforce simp: w')
  moreover have "distinct (map fst (ah_queue ?w))" using D(3) aq by (simp add: w')
  moreover have "\<forall>(b, h) \<in> set (ah_queue ?w). \<exists>y. ah_ops ?w b = Some y \<and> ao_gen y = h" using D(4) aq by (fastforce simp: w')
  moreover have "b = c" if "ah_ops ?w b = Some y" "ah_ops ?w c = Some z" "ao_gen y = ao_gen z" for b c y z
    using D(5) that by (simp add: w')
  ultimately have "heap_ok cb ?w ?d" unfolding heap_ok_def using 1 by blast
  then show ?thesis by (simp add: w')
qed (use assms in \<open>auto simp: dispatch_op_def\<close>)

lemma ok_create:
  assumes ok: "heap_ok cb w d" and "ah_ops w a = None"
  shows "heap_ok cb (snd (create_op init has_loop rv a w)) d" "ah_reg (snd (create_op init has_loop rv a w)) = ah_reg w"
proof -
  let ?w = "snd (create_op init has_loop rv a w)"
  let ?x = "\<lparr>ao_gen = ah_next w, ao_phase = Idle, ao_fired = False, ao_container = container_new a, ao_held = True,
    ao_dict = (ah_reg w \<noteq> None)\<rparr>"
  let ?w1 = "w\<lparr>ah_ops := (ah_ops w)(a \<mapsto> ?x), ah_next := Suc (ah_next w)\<rparr>"
  note D = heap_okD [OF ok]
  have cases: "?w = w \<or> ?w = ?w1"
    by (cases init; cases "check_err rv") (auto simp: create_op_def bindS_app put_op_def)
  then show "ah_reg ?w = ah_reg w" by auto
  have n: "a \<notin> set d" "a \<notin> fst ` set (ah_queue w)" using D(2) [of a] D(4) [of a] assms(2) by auto
  have g: "ao_gen y \<noteq> ah_next w" if "ah_ops w b = Some y" for b y using D(1) [OF that] by (auto simp: op_ok_def)
  have "op_ok cb ?w1 d b y" if "ah_ops ?w1 b = Some y" for b y
  proof (cases "b = a")
    case True
    moreover have "ah_next w \<notin> set (ah_done w)" "ah_next w \<notin> set (ah_skipped w)" using D(8,9) by blast+
    ultimately show ?thesis using that n by (auto simp: op_ok_def container_new_def)
  next
    case False
    then have y: "ah_ops w b = Some y" using that by simp
    show ?thesis by (rule op_ok_frame [OF D(1) [OF y]]) simp_all
  qed
  moreover have "b = c" if "ah_ops ?w1 b = Some y" "ah_ops ?w1 c = Some z" "ao_gen y = ao_gen z" for b c y z
    using that g [of b y] g [of c z] D(5) [of b y c z] by (cases "b = a"; cases "c = a") auto
  moreover have "\<forall>b \<in> set d. ah_ops ?w1 b \<noteq> None" using D(2) by auto
  moreover have "\<forall>(b, h) \<in> set (ah_queue ?w1). \<exists>y. ah_ops ?w1 b = Some y \<and> ao_gen y = h"
    using D(4) n(2) by (fastforce simp: image_iff)
  moreover have "\<forall>h \<in> set (ah_done ?w1) \<union> set (ah_skipped ?w1). h < ah_next ?w1" using D(8,9) by (auto simp: less_Suc_eq)
  moreover have "distinct (map fst (ah_queue ?w1))" "distinct (ah_done ?w1)" "set (ah_done ?w1) \<inter> set (ah_skipped ?w1) = {}"
    using D(3,6,7) by simp_all
  ultimately have "heap_ok cb ?w1 d" unfolding heap_ok_def by blast
  with cases ok show "heap_ok cb ?w d" by auto
qed

lemma ok_drop:
  assumes "heap_ok cb w d" "ah_ops w a = Some x"
  shows "heap_ok cb (put_op a (x\<lparr>ao_held := v\<rparr>) w) d"
  by (rule heap_ok_update [OF assms, where x' = "x\<lparr>ao_held := v\<rparr>"])
     (use heap_okD(1) [OF assms] in \<open>auto simp: put_op_def op_ok_def\<close>)

text \<open>An object that is collected has no callback to come, and its address is not on the queue.\<close>

lemma collected_op:
  assumes "heap_ok cb w d" "ah_ops w a = Some x" "a \<notin> set d"
  shows "finish_op cb a x w = w" "a \<notin> fst ` set (ah_queue w)"
  using heap_okD(1) [OF assms(1,2)] assms(3) by (auto simp: op_ok_def finish_op_def)

lemma ok_collect:
  assumes ok: "heap_ok cb w d" and x: "ah_ops w a = Some x" "a \<notin> set d"
  shows "heap_ok cb (dealloc_op cb a x w) d" "ah_reg (dealloc_op cb a x w) = ah_reg w"
proof -
  let ?w = "w\<lparr>ah_ops := (ah_ops w)(a := None)\<rparr>"
  note D = heap_okD [OF ok] and c = collected_op [OF ok x]
  have w': "dealloc_op cb a x w = ?w" by (simp add: dealloc_op_def c(1))
  then show "ah_reg (dealloc_op cb a x w) = ah_reg w" by simp
  have "op_ok cb ?w d b y" if "ah_ops ?w b = Some y" for b y
  proof (rule op_ok_frame [OF D(1)])
    show "ah_ops w b = Some y" using that by (simp split: if_splits)
  qed simp_all
  moreover have "\<forall>b \<in> set d. ah_ops ?w b \<noteq> None" using D(2) x(2) by auto
  moreover have "\<forall>(b, h) \<in> set (ah_queue ?w). \<exists>y. ah_ops ?w b = Some y \<and> ao_gen y = h"
    using D(4) c(2) by (fastforce simp: image_iff)
  moreover have "b = c" if "ah_ops ?w b = Some y" "ah_ops ?w c = Some z" "ao_gen y = ao_gen z" for b c y z
    using that D(5) by (auto split: if_splits)
  moreover have "distinct (map fst (ah_queue ?w))" "distinct (ah_done ?w)" "set (ah_done ?w) \<inter> set (ah_skipped ?w) = {}"
    "\<forall>h \<in> set (ah_done ?w) \<union> set (ah_skipped ?w). h < ah_next ?w" using D(3,6-9) by auto
  ultimately show "heap_ok cb (dealloc_op cb a x w) d" unfolding w' heap_ok_def by blast
qed

lemma complete_op_reg: "ah_reg (complete_op cb a w) = ah_reg w"
  by (auto simp: complete_op_def finish_op_def trampoline_def put_op_def Let_def split: option.splits prod.splits if_splits)

lemma release_reg: "ah_reg (release_ops cb w) = None"
proof -
  have "ah_reg (fold (complete_op cb) d v) = ah_reg v" for d v by (induction d arbitrary: v) (simp_all add: complete_op_reg)
  then show ?thesis by (simp add: release_ops_def split: option.splits)
qed

lemma released_stays_released: "aio_step cb w w' \<Longrightarrow> ah_reg w = None \<Longrightarrow> ah_reg w' = None"
proof (induction rule: aio_step.induct)
  case (create w a init has_loop rv)
  then show ?case by (cases init; cases "check_err rv") (auto simp: create_op_def bindS_app put_op_def)
qed (auto simp: submit_op_def skip_point_def finish_op_def trampoline_def put_op_def dispatch_op_def dealloc_op_def release_reg Let_def
    split: list.splits option.splits prod.splits if_splits)

lemma aio_step_ok:
  assumes "aio_step cb w w'" "ah_reg w = Some d" "heap_ok cb w d" "ah_reg w' = Some d'"
  shows "heap_ok cb w' d'"
  using assms
proof (induction rule: aio_step.induct)
  case (create w a init has_loop rv)
  then show ?case using ok_create [of cb w d a init has_loop rv] by simp
next
  case (submit w a x)
  then show ?case using ok_submit [of cb w d a x] by auto
next
  case (callback w a x)
  then show ?case using ok_trampoline [of cb w d a x] by simp
next
  case (skip w a x)
  then show ?case using ok_skip [of cb w d a x] by auto
next
  case (cancel w a x)
  then show ?case using ok_finish [of cb w d a x] by simp
next
  case (drop w a x)
  then show ?case using ok_drop [of cb w d a x False] by (simp add: put_op_def)
next
  case (dispatch w)
  then show ?case using ok_dispatch [of cb w d] by auto
next
  case (collect w a x)
  then show ?case using ok_collect [of cb w d a x] by simp
qed (simp add: release_reg)

lemma aio_reachable_ok: "(aio_step cb)\<^sup>*\<^sup>* heap_init w \<Longrightarrow> ah_reg w = Some d \<Longrightarrow> heap_ok cb w d"
proof (induction arbitrary: d rule: rtranclp_induct)
  case base
  then show ?case by (simp add: heap_init_def heap_ok_def)
next
  case (step w w')
  then obtain d0 where "ah_reg w = Some d0" using released_stays_released by (cases "ah_reg w") auto
  with step show ?case using aio_step_ok by blast
qed

section \<open>Properties\<close>

text \<open>C23: completions reach the operation they belong to, although the queue carries addresses that are used
  again. Whatever callers, the C library, the dispatcher, cancellation and the collection of objects did: an
  address on the queue is that of the operation that was there when its callback pushed it, which is alive
  and registered; an operation in flight is kept alive, so that its callback runs on live memory; the
  dispatcher completes just the operation that pushed the address; and no operation is completed twice, or
  completed and reported as skipped.\<close>

theorem completions_find_their_operation:
  assumes "(aio_step cb)\<^sup>*\<^sup>* heap_init w" "ah_reg w = Some d"
  shows "(\<forall>(a, g) \<in> set (ah_queue w). \<exists>x. ah_ops w a = Some x \<and> ao_gen x = g \<and> a \<in> set d) \<and>
    (\<forall>a x. ah_ops w a = Some x \<longrightarrow> ao_phase x \<noteq> Idle \<longrightarrow> \<not> ao_fired x \<longrightarrow> a \<in> set d) \<and>
    (\<forall>a g q. ah_queue w = (a, g) # q \<longrightarrow> ah_done (dispatch_op cb w) = ah_done w @ [g]) \<and>
    distinct (ah_done w) \<and> set (ah_done w) \<inter> set (ah_skipped w) = {}"
proof -
  have ok: "heap_ok cb w d" using aio_reachable_ok [OF assms] .
  note D = heap_okD [OF ok]
  have "\<exists>x. ah_ops w a = Some x \<and> ao_gen x = g \<and> a \<in> set d" if "(a, g) \<in> set (ah_queue w)" for a g
  proof -
    obtain x where x: "ah_ops w a = Some x" "ao_gen x = g" using D(4) [OF \<open>(a, g) \<in> set (ah_queue w)\<close>] by blast
    have "a \<in> fst ` set (ah_queue w)" using that by force
    then show ?thesis using x D(1) [OF x(1)] by (simp add: op_ok_def)
  qed
  moreover have "ah_done (dispatch_op cb w) = ah_done w @ [g]" if q: "ah_queue w = (a, g) # q" for a g q
  proof -
    from front_of_queue [OF ok q] obtain x where "ah_ops w a = Some x" "ao_gen x = g" "a \<in> set d" "ao_fired x" .
    then show ?thesis using q assms(2) by (simp add: dispatch_op_def complete_op_def finish_op_def)
  qed
  moreover have "a \<in> set d" if "ah_ops w a = Some x" "ao_phase x \<noteq> Idle" "\<not> ao_fired x" for a x
    using D(1) [OF that(1)] that(2,3) by (simp add: op_ok_def)
  ultimately show ?thesis using D(6,7) by blast
qed

text \<open>An operation at address 1 from its creation to its callback.\<close>

definition demo_heap :: "nat \<Rightarrow> aio_heap" where
  "demo_heap n = foldl (\<lambda>w f. f w) heap_init (take n
     [\<lambda>w. snd (create_op (Inr ()) True NNG_OK 1 w), \<lambda>w. snd (submit_op 1 (the (ah_ops w 1)) w),
      \<lambda>w. skip_point False 1 (the (ah_ops w 1)) w, \<lambda>w. trampoline False 1 (the (ah_ops w 1)) w])"

lemmas demo_heap_eval = demo_heap_def heap_init_def create_op_def submit_op_def skip_point_def trampoline_def put_op_def
  container_new_def reach_skip_point_def fire_def bindS_app

lemma demo_heap_reachable: "(aio_step False)\<^sup>*\<^sup>* heap_init (demo_heap 4)"
proof -
  have 0: "demo_heap 0 = heap_init" by (simp add: demo_heap_def)
  have 1: "aio_step False (demo_heap 0) (demo_heap 1)"
    using aio_step.create [of "demo_heap 0" 1 False "Inr ()" True NNG_OK] by (simp add: demo_heap_def heap_init_def)
  have 2: "aio_step False (demo_heap 1) (demo_heap 2)"
    using aio_step.submit [of "demo_heap 1" 1 "the (ah_ops (demo_heap 1) 1)" False]
    by (simp add: demo_heap_eval numeral_2_eq_2)
  have 3: "aio_step False (demo_heap 2) (demo_heap 3)"
    using aio_step.skip [of "demo_heap 2" 1 "the (ah_ops (demo_heap 2) 1)" False]
    by (simp add: demo_heap_eval numeral_2_eq_2 numeral_3_eq_3)
  have 4: "aio_step False (demo_heap 3) (demo_heap 4)"
    using aio_step.callback [of "demo_heap 3" 1 "the (ah_ops (demo_heap 3) 1)" False]
    by (simp add: demo_heap_eval numeral_3_eq_3 eval_nat_numeral)
  have "(aio_step False)\<^sup>*\<^sup>* (demo_heap 0) (demo_heap 1)" by (rule r_into_rtranclp) (rule 1)
  from rtranclp.rtrancl_into_rtrancl [OF rtranclp.rtrancl_into_rtrancl [OF rtranclp.rtrancl_into_rtrancl [OF this 2] 3] 4]
  show ?thesis by (simp only: 0)
qed

theorem completions_find_their_operation_witness:
  "ah_done (dispatch_op False (demo_heap 4)) = [0]"
proof -
  have w: "ah_reg (demo_heap 4) = Some [1]" "ah_queue (demo_heap 4) = [(1, 0)]" "ah_done (demo_heap 4) = []"
    by (simp_all add: demo_heap_eval eval_nat_numeral)
  from completions_find_their_operation [OF demo_heap_reachable w(1)] w(2,3) show ?thesis by simp
qed

text \<open>An operation created after a release raises when it is submitted, and stays as it was.\<close>

lemma submit_after_release:
  assumes "ah_reg w = None" "create_op init has_loop rv a w = (Inr (), w1)"
  shows "submit_op a (the (ah_ops w1 a)) w1 = (Inl (PyExn TypeError), w1)"
  using assms by (cases init; cases "check_err rv") (auto simp: create_op_def bindS_app put_op_def submit_op_def split: if_splits)

end
