(* ===== verification/Parallel.thy ===== *)
theory Parallel
  imports Stubs "HOL-Library.Multiset"
begin

text \<open>
  Parallel requests over contexts (\<^verbatim>\<open>REP-REQ/parallel_requests_async\<close>): the tasks of the client and of the
  server, each with a context of its own, on two event loops with the network between them. A
  request goes to whichever context of the server waits, its reply to the context that asked.
\<close>

section \<open>The two programs\<close>

text \<open>
  A task of the client is before \<open>next(request_ids)\<close>, suspended in \<open>asend\<close> or in \<open>arecv\<close>, or over. A task of
  the server waits in \<open>arecv\<close>, is suspended in \<open>process\<close> or in \<open>asend\<close> with the number of the request, the
  context that asked and the reply, is over, or was cancelled.
\<close>

datatype client_task = CNext | CSend nat | CWait nat | CDone

datatype server_task = SRecv | SWork nat nat string | SSend nat nat string | SDone | SCancelled

text \<open>
  The iterator of the client (its next value), the counter of the server, requests and replies on the
  network with the context they belong to, the event \<open>done_event\<close>, whether the server was wound up with the
  replies it had not sent, and the replies the client printed.
\<close>

record par =
  p_next :: nat
  p_clients :: "client_task list"
  p_requests :: "(nat \<times> string) list"
  p_counter :: nat
  p_servers :: "server_task list"
  p_replies :: "(nat \<times> string) list"
  p_done :: bool
  p_closed :: bool
  p_lost :: "(nat \<times> string) list"
  p_got :: "(nat \<times> nat \<times> string) list"

definition NUM_REQUESTS :: nat where
  "NUM_REQUESTS = 10"

definition NUM_PARALLEL_TASKS :: nat where
  "NUM_PARALLEL_TASKS = 3"

text \<open>\<open>Counter.next\<close>: the value it had and the one it has now.\<close>

definition Counter_next :: "nat \<Rightarrow> nat \<times> nat" where
  "Counter_next v = (v, v + 1)"

definition process_request :: "string \<Rightarrow> string" where
  "process_request request = ''echo: '' @ request"

text \<open>The text of request \<open>i\<close> of the task at index \<open>t\<close>; tasks are numbered from 1.\<close>

definition request_text :: "nat \<Rightarrow> nat \<Rightarrow> string" where
  "request_text t i = ''task-'' @ str_int (int (t + 1)) @ ''/req-'' @ str_int (int i)"

text \<open>One turn of the client's loop: the next number or the end, the send, the reply.\<close>

definition client_next :: "nat \<Rightarrow> nat \<Rightarrow> par \<Rightarrow> par" where
  "client_next n t s =
     (if p_next s \<le> n then s\<lparr>p_next := p_next s + 1, p_clients := (p_clients s)[t := CSend (p_next s)]\<rparr>
      else s\<lparr>p_clients := (p_clients s)[t := CDone]\<rparr>)"

definition client_send :: "nat \<Rightarrow> nat \<Rightarrow> par \<Rightarrow> par" where
  "client_send t i s =
     s\<lparr>p_clients := (p_clients s)[t := CWait i], p_requests := p_requests s @ [(t, request_text t i)]\<rparr>"

definition client_recv :: "nat \<Rightarrow> nat \<Rightarrow> string \<Rightarrow> par \<Rightarrow> par" where
  "client_recv t i r s =
     s\<lparr>p_clients := (p_clients s)[t := CNext], p_replies := remove1 (t, r) (p_replies s), p_got := p_got s @ [(t, i, r)]\<rparr>"

text \<open>One turn of the server's loop. The last request sets the event.\<close>

definition server_recv :: "nat \<Rightarrow> nat \<Rightarrow> string \<Rightarrow> par \<Rightarrow> par" where
  "server_recv k t m s =
     (let (j, v) = Counter_next (p_counter s)
      in s\<lparr>p_counter := v, p_requests := remove1 (t, m) (p_requests s), p_servers := (p_servers s)[k := SWork j t (process_request m)]\<rparr>)"

definition server_processed :: "nat \<Rightarrow> nat \<Rightarrow> nat \<Rightarrow> string \<Rightarrow> par \<Rightarrow> par" where
  "server_processed k j t r s = s\<lparr>p_servers := (p_servers s)[k := SSend j t r]\<rparr>"

definition server_send :: "nat \<Rightarrow> nat \<Rightarrow> nat \<Rightarrow> nat \<Rightarrow> string \<Rightarrow> par \<Rightarrow> par" where
  "server_send n k j t r s =
     (let s1 = s\<lparr>p_replies := p_replies s @ [(t, r)]\<rparr> in
      if j \<ge> n then s1\<lparr>p_done := True, p_servers := (p_servers s)[k := SDone]\<rparr>
      else s1\<lparr>p_servers := (p_servers s)[k := SRecv]\<rparr>)"

fun at_work :: "server_task \<Rightarrow> (nat \<times> string) list" where
  "at_work (SWork j t r) = [(t, r)]"
| "at_work (SSend j t r) = [(t, r)]"
| "at_work _ = []"

text \<open>\<open>main\<close> of the server: it waits for the event, then cancels the tasks and closes the socket.\<close>

definition server_shutdown :: "par \<Rightarrow> par" where
  "server_shutdown s =
     s\<lparr>p_closed := True, p_lost := concat (map at_work (p_servers s)),
       p_servers := map (\<lambda>x. if x = SDone then SDone else SCancelled) (p_servers s)\<rparr>"

definition par_init :: "nat \<Rightarrow> par" where
  "par_init p =
     \<lparr>p_next = 1, p_clients = replicate p CNext, p_requests = [], p_counter = 1, p_servers = replicate p SRecv,
      p_replies = [], p_done = False, p_closed = False, p_lost = [], p_got = []\<rparr>"

text \<open>The interleavings of the tasks, with \<open>n\<close> requests in all.\<close>

inductive par_step :: "nat \<Rightarrow> par \<Rightarrow> par \<Rightarrow> bool" for n :: nat where
  c_next: "t < length (p_clients s) \<Longrightarrow> p_clients s ! t = CNext \<Longrightarrow> par_step n s (client_next n t s)"
| c_send: "t < length (p_clients s) \<Longrightarrow> p_clients s ! t = CSend i \<Longrightarrow> par_step n s (client_send t i s)"
| c_recv: "t < length (p_clients s) \<Longrightarrow> p_clients s ! t = CWait i \<Longrightarrow> (t, r) \<in> set (p_replies s) \<Longrightarrow>
    par_step n s (client_recv t i r s)"
| s_recv: "k < length (p_servers s) \<Longrightarrow> p_servers s ! k = SRecv \<Longrightarrow> (t, m) \<in> set (p_requests s) \<Longrightarrow>
    par_step n s (server_recv k t m s)"
| s_processed: "k < length (p_servers s) \<Longrightarrow> p_servers s ! k = SWork j t r \<Longrightarrow> par_step n s (server_processed k j t r s)"
| s_send: "k < length (p_servers s) \<Longrightarrow> p_servers s ! k = SSend j t r \<Longrightarrow> par_step n s (server_send n k j t r s)"
| s_shutdown: "p_done s \<Longrightarrow> \<not> p_closed s \<Longrightarrow> par_step n s (server_shutdown s)"

abbreviation par_reachable :: "nat \<Rightarrow> nat \<Rightarrow> par \<Rightarrow> bool" where
  "par_reachable n p s \<equiv> (par_step n)\<^sup>*\<^sup>* (par_init p) s"

section \<open>Every run ends\<close>

fun client_weight :: "client_task \<Rightarrow> nat" where
  "client_weight CNext = 1"
| "client_weight (CSend i) = 7"
| "client_weight (CWait i) = 1"
| "client_weight CDone = 0"

fun server_weight :: "server_task \<Rightarrow> nat" where
  "server_weight (SWork j t r) = 4"
| "server_weight (SSend j t r) = 3"
| "server_weight _ = 0"

definition par_weight :: "nat \<Rightarrow> par \<Rightarrow> nat" where
  "par_weight n s =
     7 * (n + 1 - p_next s) + sum_list (map client_weight (p_clients s)) + 5 * length (p_requests s) +
     sum_list (map server_weight (p_servers s)) + 2 * length (p_replies s) + (if p_closed s then 0 else 1)"

text \<open>What an update of one element does to a sum and to the elements of a list of lists.\<close>

lemma sum_list_map_update:
  "k < length xs \<Longrightarrow> sum_list (map f (xs[k := v])) + f (xs ! k) = sum_list (map f xs) + (f v :: nat)"
proof (induction xs arbitrary: k)
  case (Cons x xs)
  show ?case
  proof (cases k)
    case (Suc j)
    then show ?thesis using Cons.IH [of j] Cons.prems by simp
  qed simp
qed simp

lemma mset_concat_update:
  "k < length xs \<Longrightarrow> mset (concat (map f (xs[k := v]))) + mset (f (xs ! k)) = mset (concat (map f xs)) + mset (f v)"
proof (induction xs arbitrary: k)
  case (Cons x xs)
  then show ?case by (cases k) (auto simp: ac_simps)
qed simp

lemma cancelled_weight: "sum_list (map (server_weight \<circ> (\<lambda>x. if x = SDone then SDone else SCancelled)) xs) = 0"
  by (induction xs) auto

lemma par_step_weight: "par_step n s s' \<Longrightarrow> par_weight n s' < par_weight n s"
proof (induction rule: par_step.induct)
  case (c_next t s)
  then show ?case
    using sum_list_map_update [of t "p_clients s" client_weight "CSend (p_next s)"]
      sum_list_map_update [of t "p_clients s" client_weight CDone]
    by (auto simp: client_next_def par_weight_def)
next
  case (c_send t s i)
  then show ?case using sum_list_map_update [of t "p_clients s" client_weight "CWait i"]
    by (auto simp: client_send_def par_weight_def)
next
  case (c_recv t s i r)
  then have "length (p_replies s) > 0" by (auto simp: length_pos_if_in_set)
  with c_recv show ?case using sum_list_map_update [of t "p_clients s" client_weight CNext]
    by (auto simp: client_recv_def par_weight_def length_remove1)
next
  case (s_recv k s t m)
  then obtain l where "length (p_requests s) = Suc l" by (cases "p_requests s") auto
  with s_recv show ?case
    using sum_list_map_update [of k "p_servers s" server_weight "SWork (p_counter s) t (process_request m)"]
    by (auto simp: server_recv_def Counter_next_def par_weight_def length_remove1)
next
  case (s_processed k s j t r)
  then show ?case using sum_list_map_update [of k "p_servers s" server_weight "SSend j t r"]
    by (auto simp: server_processed_def par_weight_def)
next
  case (s_send k s j t r)
  then show ?case
    using sum_list_map_update [of k "p_servers s" server_weight SDone] sum_list_map_update [of k "p_servers s" server_weight SRecv]
    by (auto simp: server_send_def par_weight_def Let_def)
next
  case (s_shutdown s)
  then show ?case by (simp add: server_shutdown_def par_weight_def cancelled_weight)
qed


section \<open>Invariant\<close>

text \<open>
  Every task of the client that waits has its reply-to-be in exactly one place: on its way to the server, at a
  task of the server, on its way back, or lost. Numbers are given out once.
\<close>

fun awaited :: "nat \<times> client_task \<Rightarrow> (nat \<times> string) list" where
  "awaited (t, CWait i) = [(t, process_request (request_text t i))]"
| "awaited _ = []"

fun number_of :: "client_task \<Rightarrow> nat list" where
  "number_of (CSend i) = [i]"
| "number_of (CWait i) = [i]"
| "number_of _ = []"

definition places :: "par \<Rightarrow> (nat \<times> string) multiset" where
  "places s =
     mset (map (\<lambda>(t, m). (t, process_request m)) (p_requests s)) + mset (concat (map at_work (p_servers s))) +
     mset (p_replies s) + mset (p_lost s)"

definition awaiting :: "par \<Rightarrow> (nat \<times> string) multiset" where
  "awaiting s = mset (concat (map awaited (enumerate 0 (p_clients s))))"

definition numbers :: "par \<Rightarrow> nat multiset" where
  "numbers s = mset (concat (map number_of (p_clients s))) + mset (map (fst \<circ> snd) (p_got s))"

definition flow_ok :: "nat \<Rightarrow> par \<Rightarrow> bool" where
  "flow_ok n s \<longleftrightarrow>
     places s = awaiting s \<and> numbers s = mset [1..<p_next s] \<and>
     (\<forall>(t, i, r) \<in> set (p_got s). r = process_request (request_text t i)) \<and>
     1 \<le> p_next s \<and> p_next s \<le> n + 1 \<and> (CDone \<in> set (p_clients s) \<longrightarrow> p_next s = n + 1)"

definition counted :: "par \<Rightarrow> bool" where
  "counted s \<longleftrightarrow>
     p_counter s = 1 + length (concat (map at_work (p_servers s))) + length (p_replies s) + length (p_lost s) + length (p_got s)"

definition serving_ok :: "nat \<Rightarrow> par \<Rightarrow> bool" where
  "serving_ok n s \<longleftrightarrow>
     (\<forall>j t r. SWork j t r \<in> set (p_servers s) \<or> SSend j t r \<in> set (p_servers s) \<longrightarrow> j < p_counter s) \<and>
     (p_done s \<longrightarrow> n < p_counter s) \<and> (SDone \<in> set (p_servers s) \<longrightarrow> p_done s) \<and>
     (if p_closed s then p_done s \<and> set (p_servers s) \<subseteq> {SDone, SCancelled} else p_lost s = [] \<and> SCancelled \<notin> set (p_servers s))"

lemma enumerate_update: "k < length xs \<Longrightarrow> enumerate n (xs[k := v]) = (enumerate n xs)[k := (n + k, v)]"
  by (auto simp: list_eq_iff_nth_eq nth_enumerate_eq nth_list_update)

lemma awaiting_update:
  assumes "t < length (p_clients s)" "p_clients s' = (p_clients s)[t := v]"
  shows "awaiting s' + mset (awaited (t, p_clients s ! t)) = awaiting s + mset (awaited (t, v))"
  using mset_concat_update [of t "enumerate 0 (p_clients s)" awaited "(t, v)"] assms
  by (simp add: awaiting_def enumerate_update nth_enumerate_eq)

lemma numbers_update:
  assumes "t < length (p_clients s)" "p_clients s' = (p_clients s)[t := v]" "p_got s' = p_got s @ g"
  shows "numbers s' + mset (number_of (p_clients s ! t)) = numbers s + mset (number_of v) + mset (map (fst \<circ> snd) g)"
  using mset_concat_update [of t "p_clients s" number_of v] assms by (simp add: numbers_def)

lemma set_update_cases: "x \<in> set (xs[k := v]) \<Longrightarrow> x = v \<or> x \<in> set xs"
  using set_update_subset_insert by fast

lemma at_work_update:
  "k < length xs \<Longrightarrow> mset (concat (map at_work (xs[k := v]))) + mset (at_work (xs ! k)) = mset (concat (map at_work xs)) + mset (at_work v)"
  "k < length xs \<Longrightarrow> length (concat (map at_work (xs[k := v]))) + length (at_work (xs ! k)) = length (concat (map at_work xs)) + length (at_work v)"
proof -
  show *: "mset (concat (map at_work (xs[k := v]))) + mset (at_work (xs ! k)) = mset (concat (map at_work xs)) + mset (at_work v)"
    if "k < length xs" using mset_concat_update [OF that] .
  show "length (concat (map at_work (xs[k := v]))) + length (at_work (xs ! k)) = length (concat (map at_work xs)) + length (at_work v)"
    if "k < length xs" using arg_cong [OF * [OF that], of size] by (simp only: size_union size_mset)
qed

text \<open>A reply on its way back is the one its task waits for.\<close>

lemma awaiting_member:
  assumes "(t, r) \<in># awaiting s"
  shows "\<exists>i. t < length (p_clients s) \<and> p_clients s ! t = CWait i \<and> r = process_request (request_text t i)"
proof -
  obtain j c where "(j, c) \<in> set (enumerate 0 (p_clients s))" "(t, r) \<in> set (awaited (j, c))"
    using assms by (auto simp: awaiting_def)
  then show ?thesis by (cases c) (auto simp: in_set_enumerate_eq)
qed

lemma reply_awaited:
  assumes "flow_ok n s" "(t, r) \<in> set (p_replies s)"
  shows "\<exists>i. t < length (p_clients s) \<and> p_clients s ! t = CWait i \<and> r = process_request (request_text t i)"
proof -
  have "(t, r) \<in># places s" using assms(2) by (simp add: places_def)
  then show ?thesis using assms(1) awaiting_member by (simp add: flow_ok_def)
qed

lemma flow_client_next:
  assumes "flow_ok n s" "t < length (p_clients s)" "p_clients s ! t = CNext"
  shows "flow_ok n (client_next n t s)"
proof -
  let ?s = "client_next n t s"
  have "awaiting ?s = awaiting s"
    using awaiting_update [OF assms(2), of ?s "CSend (p_next s)"] awaiting_update [OF assms(2), of ?s CDone] assms(3)
    by (auto simp: client_next_def split: if_splits)
  moreover have "places ?s = places s" by (simp add: places_def client_next_def)
  moreover have "numbers ?s = mset [1..<p_next ?s]"
    using numbers_update [OF assms(2), of ?s "CSend (p_next s)" "[]"] numbers_update [OF assms(2), of ?s CDone "[]"] assms(1,3)
    by (auto simp: client_next_def flow_ok_def atLeastLessThanSuc split: if_splits)
  ultimately show ?thesis using assms(1)
    by (auto simp: flow_ok_def client_next_def dest!: set_update_cases)
qed

lemma flow_client_send:
  assumes "flow_ok n s" "t < length (p_clients s)" "p_clients s ! t = CSend i"
  shows "flow_ok n (client_send t i s)"
proof -
  let ?s = "client_send t i s"
  have "awaiting ?s = add_mset (t, process_request (request_text t i)) (awaiting s)"
    using awaiting_update [OF assms(2), of ?s "CWait i"] assms(3) by (auto simp: client_send_def)
  moreover have "places ?s = add_mset (t, process_request (request_text t i)) (places s)" by (simp add: places_def client_send_def)
  moreover have "numbers ?s = numbers s"
    using numbers_update [OF assms(2), of ?s "CWait i" "[]"] assms(3) by (auto simp: client_send_def)
  ultimately show ?thesis using assms(1) by (auto simp: flow_ok_def client_send_def dest!: set_update_cases)
qed

lemma flow_client_recv:
  assumes "flow_ok n s" "t < length (p_clients s)" "p_clients s ! t = CWait i" "(t, r) \<in> set (p_replies s)"
  shows "flow_ok n (client_recv t i r s)"
proof -
  let ?s = "client_recv t i r s"
  have r: "r = process_request (request_text t i)" using reply_awaited [OF assms(1,4)] assms(3) by auto
  have "add_mset (t, r) (awaiting ?s) = awaiting s"
    using awaiting_update [OF assms(2), of ?s CNext] assms(3) r by (simp add: client_recv_def)
  moreover have "add_mset (t, r) (places ?s) = places s" using assms(4) by (simp add: places_def client_recv_def)
  moreover have "places s = awaiting s" using assms(1) by (simp add: flow_ok_def)
  ultimately have "places ?s = awaiting ?s" by (metis add_mset_remove_trivial)
  moreover have "numbers ?s = numbers s"
    using numbers_update [OF assms(2), of ?s CNext "[(t, i, r)]"] assms(3) by (simp add: client_recv_def)
  ultimately show ?thesis using assms(1) r by (auto simp: flow_ok_def client_recv_def dest!: set_update_cases)
qed

text \<open>The steps of the server move a reply-to-be from one place to another.\<close>

lemma flow_server_step:
  assumes "flow_ok n s" "places s' = places s" "p_clients s' = p_clients s" "p_got s' = p_got s" "p_next s' = p_next s"
  shows "flow_ok n s'"
  using assms by (simp add: flow_ok_def awaiting_def numbers_def)

lemma mset_map_remove1: "x \<in> set xs \<Longrightarrow> mset (map f xs) = add_mset (f x) (mset (map f (remove1 x xs)))"
  by (induction xs) auto

lemma places_server_recv:
  assumes "k < length (p_servers s)" "p_servers s ! k = SRecv" "(t, m) \<in> set (p_requests s)"
  shows "places (server_recv k t m s) = places s"
proof -
  have "mset (map (\<lambda>(t, m). (t, process_request m)) (p_requests s)) =
      add_mset (t, process_request m) (mset (map (\<lambda>(t, m). (t, process_request m)) (remove1 (t, m) (p_requests s))))"
    using mset_map_remove1 [OF assms(3), of "\<lambda>(t, m). (t, process_request m)"] by simp
  then show ?thesis
    using at_work_update(1) [OF assms(1), of "SWork (p_counter s) t (process_request m)"] assms(2)
    by (simp add: server_recv_def Counter_next_def places_def)
qed

lemma places_server_processed:
  assumes "k < length (p_servers s)" "p_servers s ! k = SWork j t r"
  shows "places (server_processed k j t r s) = places s"
  using at_work_update(1) [OF assms(1), of "SSend j t r"] assms(2) by (simp add: server_processed_def places_def)

lemma places_server_send:
  assumes "k < length (p_servers s)" "p_servers s ! k = SSend j t r"
  shows "places (server_send n k j t r s) = places s"
  using at_work_update(1) [OF assms(1), of SDone] at_work_update(1) [OF assms(1), of SRecv] assms(2)
  by (simp add: server_send_def places_def Let_def)

lemma concat_at_work_Nil: "concat (map at_work (map (\<lambda>x. if x = SDone then SDone else SCancelled) xs)) = []"
  by (induction xs) auto

lemma places_server_shutdown: "p_lost s = [] \<Longrightarrow> places (server_shutdown s) = places s"
  by (simp add: server_shutdown_def places_def concat_at_work_Nil del: map_map)

lemma par_step_flow:
  assumes "par_step n s s'" "flow_ok n s" "serving_ok n s"
  shows "flow_ok n s'"
  using assms
proof (induction rule: par_step.induct)
  case (s_recv k s t m)
  then show ?case by (intro flow_server_step [OF s_recv(4)] places_server_recv) (auto simp: server_recv_def Counter_next_def)
next
  case (s_processed k s j t r)
  then show ?case by (intro flow_server_step [OF s_processed(3)] places_server_processed) (auto simp: server_processed_def)
next
  case (s_send k s j t r)
  then show ?case by (intro flow_server_step [OF s_send(3)] places_server_send) (auto simp: server_send_def Let_def)
next
  case (s_shutdown s)
  then show ?case
    by (intro flow_server_step [OF s_shutdown(3)] places_server_shutdown) (auto simp: server_shutdown_def serving_ok_def)
qed (auto intro: flow_client_next flow_client_send flow_client_recv)

lemma par_step_counted:
  assumes "par_step n s s'" "counted s" "serving_ok n s"
  shows "counted s'"
  using assms
proof (induction rule: par_step.induct)
  case (c_recv t s i r)
  then obtain l where "length (p_replies s) = Suc l" by (cases "p_replies s") auto
  with c_recv show ?case by (simp add: client_recv_def counted_def length_remove1)
next
  case (s_recv k s t m)
  then show ?case using at_work_update(2) [OF s_recv(1), of "SWork (p_counter s) t (process_request m)"]
    by (simp add: server_recv_def Counter_next_def counted_def)
next
  case (s_processed k s j t r)
  then show ?case using at_work_update(2) [OF s_processed(1), of "SSend j t r"] by (simp add: server_processed_def counted_def)
next
  case (s_send k s j t r)
  then show ?case using at_work_update(2) [OF s_send(1), of SDone] at_work_update(2) [OF s_send(1), of SRecv]
    by (simp add: server_send_def counted_def Let_def)
next
  case (s_shutdown s)
  then show ?case by (simp add: server_shutdown_def counted_def serving_ok_def concat_at_work_Nil del: map_map)
qed (simp_all add: client_next_def client_send_def counted_def)

lemma par_step_serving:
  assumes "par_step n s s'" "serving_ok n s"
  shows "serving_ok n s'"
  using assms
proof (induction rule: par_step.induct)
  case (s_recv k s t m)
  then have "SRecv \<in> set (p_servers s)" by (metis nth_mem)
  with s_recv show ?case
    by (auto simp: server_recv_def Counter_next_def serving_ok_def less_Suc_eq dest!: set_update_cases split: if_splits)
next
  case (s_processed k s j t r)
  then have "SWork j t r \<in> set (p_servers s)" by (metis nth_mem)
  with s_processed show ?case
    by (auto simp: server_processed_def serving_ok_def dest!: set_update_cases split: if_splits)
next
  case (s_send k s j t r)
  then have "SSend j t r \<in> set (p_servers s)" by (metis nth_mem)
  with s_send show ?case
    by (fastforce simp: server_send_def serving_ok_def Let_def dest!: set_update_cases split: if_splits)
next
  case (s_shutdown s)
  then show ?case by (auto simp: server_shutdown_def serving_ok_def)
qed (simp_all add: client_next_def client_send_def client_recv_def serving_ok_def)

lemma par_reachable_ok: "par_reachable n p s \<Longrightarrow> flow_ok n s \<and> counted s \<and> serving_ok n s"
proof (induction rule: rtranclp_induct)
  case base
  have "concat (map awaited (enumerate 0 (replicate p CNext))) = []" by (auto simp: in_set_enumerate_eq)
  then show ?case by (simp add: par_init_def flow_ok_def counted_def serving_ok_def places_def awaiting_def numbers_def)
next
  case (step s s')
  then show ?case using par_step_flow par_step_counted par_step_serving by blast
qed

section \<open>Properties\<close>

lemma par_run_bound: "(par_step n ^^ m) s s' \<Longrightarrow> m + par_weight n s' \<le> par_weight n s"
proof (induction m arbitrary: s')
  case (Suc m)
  then obtain s1 where "(par_step n ^^ m) s s1" "par_step n s1 s'" by auto
  then show ?case using Suc.IH [of s1] par_step_weight [of n s1 s'] by simp
qed simp

text \<open>A state in which nothing can happen, with no reply lost.\<close>

lemma stuck_complete:
  assumes ok: "flow_ok n s" "counted s" "serving_ok n s" and "p_servers s \<noteq> []"
    and stuck: "\<nexists>s'. par_step n s s'" and lost: "p_lost s = []"
  shows "set (p_clients s) \<subseteq> {CDone} \<and> mset (map (fst \<circ> snd) (p_got s)) = mset [1..<p_next s] "
proof -
  have c: "p_clients s ! t = CDone \<or> (\<exists>i. p_clients s ! t = CWait i)" if "t < length (p_clients s)" for t
    using stuck that by (cases "p_clients s ! t") (blast intro: par_step.intros)+
  have w: "at_work x = []" if "x \<in> set (p_servers s)" for x
    using stuck that by (cases x) (auto simp: in_set_conv_nth intro: par_step.intros)
  have rep: "p_replies s = []"
  proof (rule ccontr)
    assume "p_replies s \<noteq> []"
    then obtain t r where r: "(t, r) \<in> set (p_replies s)" by (cases "p_replies s") auto
    with reply_awaited [OF ok(1) r] stuck show False by (blast intro: par_step.c_recv)
  qed
  have work: "concat (map at_work (p_servers s)) = []" using w by simp
  have "p_requests s = []"
  proof (cases "p_closed s")
    case True
    have "length (p_got s) \<ge> n" using ok(2,3) True work rep lost by (auto simp: counted_def serving_ok_def)
    moreover have "size (numbers s) \<le> n" using ok(1) by (auto simp: flow_ok_def)
    moreover have "size (places s) \<le> length (concat (map number_of (p_clients s)))"
    proof -
      have "length (awaited (t, x)) \<le> length (number_of x)" for t x by (cases x) auto
      then have "length (concat (map awaited (enumerate k xs))) \<le> length (concat (map number_of xs))" for k xs
        by (induction xs arbitrary: k) (auto intro: add_mono)
      then show ?thesis using ok(1) by (simp add: flow_ok_def awaiting_def del: length_concat)
    qed
    ultimately have "size (places s) \<le> 0" unfolding numbers_def size_union size_mset length_map by linarith
    then show ?thesis by (simp add: places_def)
  next
    case False
    have "\<not> p_done s" using stuck False par_step.s_shutdown by blast
    then have "p_servers s ! 0 = SRecv"
      using ok(3) False w [of "p_servers s ! 0"] assms(4) nth_mem [of 0 "p_servers s"]
      by (cases "p_servers s ! 0") (auto simp: serving_ok_def)
    show ?thesis
    proof (rule ccontr)
      assume "p_requests s \<noteq> []"
      then obtain t m where "(t, m) \<in> set (p_requests s)" by (cases "p_requests s") auto
      with par_step.s_recv [of 0 s t m n] \<open>p_servers s ! 0 = SRecv\<close> assms(4) stuck show False by auto
    qed
  qed
  then have a: "awaiting s = {#}" using ok(1) rep lost work by (simp add: flow_ok_def places_def)
  have d: "p_clients s ! t = CDone" if l: "t < length (p_clients s)" for t
  proof (rule ccontr)
    assume "p_clients s ! t \<noteq> CDone"
    then obtain i where "(t, CWait i) \<in> set (enumerate 0 (p_clients s))" using c [OF l] l by (auto simp: in_set_enumerate_eq)
    then have "(t, process_request (request_text t i)) \<in># awaiting s" unfolding awaiting_def by force
    then show False using a by simp
  qed
  then have s: "set (p_clients s) \<subseteq> {CDone}" by (auto simp: in_set_conv_nth)
  then have "concat (map number_of (p_clients s)) = []" by auto
  then have "mset (map (fst \<circ> snd) (p_got s)) = numbers s" by (simp only: numbers_def mset.simps(1) add_0)
  also have "\<dots> = mset [1..<p_next s]" using ok(1) by (simp only: flow_ok_def)
  finally show ?thesis using s by simp
qed

lemma par_lengths: "par_reachable n p s \<Longrightarrow> length (p_clients s) = p \<and> length (p_servers s) = p"
proof (induction rule: rtranclp_induct)
  case (step s s')
  from step(2,3) show ?case
    by (induction rule: par_step.induct)
       (auto simp: client_next_def client_send_def client_recv_def server_recv_def Counter_next_def server_processed_def
          server_send_def server_shutdown_def Let_def)
qed (simp add: par_init_def)


section \<open>The end of the server\<close>

lemma awaited_distinct:
  "distinct (map fst (concat (map awaited (enumerate k xs)))) \<and> (\<forall>x \<in> fst ` set (concat (map awaited (enumerate k xs))). k \<le> x)"
proof (induction xs arbitrary: k)
  case (Cons x xs)
  from Cons [of "Suc k"] show ?case by (cases x) force+
qed simp

lemma lost_stays:
  assumes ok: "flow_ok n s" "serving_ok n s" and "(t, r) \<in> set (p_lost s)" and step: "par_step n s s'"
    and w: "t < length (p_clients s)" "p_clients s ! t = CWait i"
  shows "p_clients s' ! t = CWait i \<and> p_lost s' = p_lost s \<and> length (p_clients s') = length (p_clients s)"
proof -
  have c: "p_closed s" using ok(2) assms(3) by (auto simp: serving_ok_def split: if_splits)
  have no: "(t, r') \<notin> set (p_replies s)" for r'
  proof
    assume "(t, r') \<in> set (p_replies s)"
    then obtain X Y where "mset (p_replies s) = add_mset (t, r') X" "mset (p_lost s) = add_mset (t, r) Y"
      using assms(3) by (metis multi_member_split set_mset_mset)
    then have "1 < count (image_mset fst (places s)) t" by (simp add: places_def)
    moreover have "image_mset fst (places s) = mset (map fst (concat (map awaited (enumerate 0 (p_clients s)))))"
      using ok(1) by (simp add: flow_ok_def awaiting_def)
    moreover have "count (mset (map fst (concat (map awaited (enumerate 0 (p_clients s)))))) t \<le> 1"
      using awaited_distinct [of 0 "p_clients s"] unfolding distinct_count_atmost_1 by simp
    ultimately show False by simp
  qed
  from step show ?thesis
    using w no c
    by (cases rule: par_step.cases)
       (auto simp: client_next_def client_send_def client_recv_def server_recv_def Counter_next_def server_processed_def
          server_send_def Let_def nth_list_update)
qed

text \<open>Rounds of the first task of each side, one request after the other.\<close>

definition quiet :: "nat \<Rightarrow> nat \<Rightarrow> (nat \<times> nat \<times> string) list \<Rightarrow> par" where
  "quiet p k g = (par_init p)\<lparr>p_next := k + 1, p_counter := k + 1, p_got := g\<rparr>"

lemmas par_eval = quiet_def par_init_def client_next_def client_send_def client_recv_def server_recv_def Counter_next_def
  server_processed_def server_send_def server_shutdown_def

lemma quiet_round:
  assumes "k + 1 < n" "0 < p"
  shows "\<exists>g'. (par_step n)\<^sup>*\<^sup>* (quiet p k g) (quiet p (k + 1) g')"
proof -
  let ?m = "request_text 0 (k + 1)"
  let ?r = "process_request ?m"
  define s1 where "s1 = client_next n 0 (quiet p k g)"
  define s2 where "s2 = client_send 0 (k + 1) s1"
  define s3 where "s3 = server_recv 0 0 ?m s2"
  define s4 where "s4 = server_processed 0 (k + 1) 0 ?r s3"
  define s5 where "s5 = server_send n 0 (k + 1) 0 ?r s4"
  define s6 where "s6 = client_recv 0 (k + 1) ?r s5"
  note eqs = s1_def s2_def s3_def s4_def s5_def s6_def par_eval
  have "par_step n (quiet p k g) s1" unfolding s1_def by (rule par_step.c_next) (use assms in \<open>simp_all add: par_eval\<close>)
  moreover have "par_step n s1 s2" unfolding s2_def by (rule par_step.c_send) (use assms in \<open>simp_all add: eqs\<close>)
  moreover have "par_step n s2 s3" unfolding s3_def by (rule par_step.s_recv) (use assms in \<open>simp_all add: eqs\<close>)
  moreover have "par_step n s3 s4" unfolding s4_def by (rule par_step.s_processed) (use assms in \<open>simp_all add: eqs\<close>)
  moreover have "par_step n s4 s5" unfolding s5_def by (rule par_step.s_send) (use assms in \<open>simp_all add: eqs\<close>)
  moreover have "par_step n s5 s6" unfolding s6_def by (rule par_step.c_recv) (use assms in \<open>simp_all add: eqs Let_def\<close>)
  ultimately have "(par_step n)\<^sup>*\<^sup>* (quiet p k g) s6" by (meson converse_rtranclp_into_rtranclp rtranclp.rtrancl_refl)
  moreover have "s6 = quiet p (k + 1) (g @ [(0, k + 1, ?r)])"
    using assms by (simp add: eqs Let_def list_update_same_conv)
  ultimately show ?thesis by auto
qed

lemma quiet_reachable:
  assumes "0 < p"
  shows "k < n \<Longrightarrow> \<exists>g. par_reachable n p (quiet p k g)"
proof (induction k)
  case 0
  have "quiet p 0 [] = par_init p" by (simp add: quiet_def par_init_def)
  then show ?case by (metis rtranclp.rtrancl_refl)
next
  case (Suc k)
  then obtain g where "par_reachable n p (quiet p k g)" by auto
  moreover obtain g' where "(par_step n)\<^sup>*\<^sup>* (quiet p k g) (quiet p (Suc k) g')" using quiet_round [of k n p g] Suc.prems assms by auto
  ultimately show ?case by (meson rtranclp_trans)
qed

text \<open>The last two requests are served at once, and the last one is done first.\<close>

lemma overtaking:
  assumes "k + 2 = n" "1 < p"
  shows "\<exists>s. (par_step n)\<^sup>*\<^sup>* (quiet p k g) s \<and> p_closed s \<and> p_clients s ! 0 = CWait (k + 1) \<and> p_lost s \<noteq> [] \<and> fst (hd (p_lost s)) = 0"
proof -
  let ?m = "\<lambda>t. request_text t (k + 1 + t)"
  let ?r = "process_request (?m 1)"
  define s1 where "s1 = client_next n 0 (quiet p k g)"
  define s2 where "s2 = client_next n 1 s1"
  define s3 where "s3 = client_send 0 (k + 1) s2"
  define s4 where "s4 = client_send 1 (k + 2) s3"
  define s5 where "s5 = server_recv 0 0 (?m 0) s4"
  define s6 where "s6 = server_recv 1 1 (?m 1) s5"
  define s7 where "s7 = server_processed 1 (k + 2) 1 ?r s6"
  define s8 where "s8 = server_send n 1 (k + 2) 1 ?r s7"
  define s9 where "s9 = server_shutdown s8"
  note eqs = s1_def s2_def s3_def s4_def s5_def s6_def s7_def s8_def s9_def par_eval
  define q where "q = p - 2"
  then have p: "p = Suc (Suc q)" using assms(2) by simp
  have "par_step n (quiet p k g) s1" unfolding s1_def by (rule par_step.c_next) (use assms in \<open>simp_all add: par_eval\<close>)
  moreover have "par_step n s1 s2" unfolding s2_def by (rule par_step.c_next) (use assms in \<open>simp_all add: eqs\<close>)
  moreover have "par_step n s2 s3" unfolding s3_def by (rule par_step.c_send) (use assms in \<open>simp_all add: eqs\<close>)
  moreover have "par_step n s3 s4" unfolding s4_def by (rule par_step.c_send) (use assms in \<open>simp_all add: eqs\<close>)
  moreover have "par_step n s4 s5" unfolding s5_def by (rule par_step.s_recv) (use assms in \<open>simp_all add: eqs\<close>)
  moreover have "par_step n s5 s6" unfolding s6_def by (rule par_step.s_recv) (use assms in \<open>simp_all add: eqs\<close>)
  moreover have "par_step n s6 s7" unfolding s7_def by (rule par_step.s_processed) (use assms in \<open>simp_all add: eqs\<close>)
  moreover have "par_step n s7 s8" unfolding s8_def by (rule par_step.s_send) (use assms in \<open>simp_all add: eqs\<close>)
  moreover have "par_step n s8 s9" unfolding s9_def by (rule par_step.s_shutdown) (use assms in \<open>simp_all add: eqs Let_def\<close>)
  ultimately have "(par_step n)\<^sup>*\<^sup>* (quiet p k g) s9" by (meson converse_rtranclp_into_rtranclp rtranclp.rtrancl_refl)
  moreover have "p_closed s9" by (simp add: s9_def server_shutdown_def)
  moreover have "p_clients s9 ! 0 = CWait (k + 1)" using assms by (simp add: eqs Let_def)
  moreover have "p_servers s8 = SWork (k + 1) 0 (process_request (?m 0)) # SDone # replicate q SRecv"
    using assms p by (simp add: eqs Let_def)
  then have "p_lost s9 \<noteq> [] \<and> fst (hd (p_lost s9)) = 0" by (simp add: s9_def server_shutdown_def)
  ultimately show ?thesis by blast
qed

text \<open>C35: the server may end before it has answered. With two or more requests and tasks there is a run in which the
  task that serves the last request finishes before another one has sent its reply: it sets the event, the
  other is cancelled and its reply is lost, and the task of the client that made the request waits for ever.\<close>

theorem shutdown_loses_reply:
  assumes "2 \<le> n" "2 \<le> p"
  shows "\<exists>s t i. par_reachable n p s \<and> p_closed s \<and> t < p \<and> p_lost s \<noteq> [] \<and>
    (\<forall>s'. (par_step n)\<^sup>*\<^sup>* s s' \<longrightarrow> p_clients s' ! t = CWait i)"
proof -
  obtain k where k: "k + 2 = n" using assms(1) by (metis le_add_diff_inverse2)
  obtain g where "par_reachable n p (quiet p k g)" using quiet_reachable [of p k n] k assms(2) by auto
  moreover obtain s where s: "(par_step n)\<^sup>*\<^sup>* (quiet p k g) s" "p_closed s" "p_clients s ! 0 = CWait (k + 1)" "p_lost s \<noteq> []" "fst (hd (p_lost s)) = 0"
    using overtaking [OF k, of p g] assms(2) by auto
  ultimately have reach: "par_reachable n p s" by (meson rtranclp_trans)
  define r where "r = snd (hd (p_lost s))"
  have r: "(0, r) \<in> set (p_lost s)" using s(4,5) by (cases "p_lost s") (auto simp: r_def)
  have "p_clients s' ! 0 = CWait (k + 1) \<and> p_lost s' = p_lost s \<and> par_reachable n p s'" if "(par_step n)\<^sup>*\<^sup>* s s'" for s'
    using that
  proof (induction rule: rtranclp_induct)
    case (step y z)
    then have y: "par_reachable n p y" "p_clients y ! 0 = CWait (k + 1)" "(0, r) \<in> set (p_lost y)" using r by auto
    from lost_stays [OF _ _ y(3) step(2) _ y(2)] par_reachable_ok [OF y(1)] par_lengths [OF y(1)] assms(2)
    have "p_clients z ! 0 = CWait (k + 1) \<and> p_lost z = p_lost y" by auto
    with step y(1) show ?case by (auto intro: rtranclp.rtrancl_into_rtrancl)
  qed (use s reach in auto)
  then have "\<forall>s'. (par_step n)\<^sup>*\<^sup>* s s' \<longrightarrow> p_clients s' ! 0 = CWait (k + 1)" by simp
  moreover have "0 < p" using assms(2) by simp
  ultimately show ?thesis using reach s(2,4) by blast
qed


theorem shutdown_loses_reply_witness:
  "\<exists>s t i. par_reachable NUM_REQUESTS NUM_PARALLEL_TASKS s \<and> p_closed s \<and> t < NUM_PARALLEL_TASKS \<and> p_lost s \<noteq> [] \<and>
    (\<forall>s'. (par_step NUM_REQUESTS)\<^sup>*\<^sup>* s s' \<longrightarrow> p_clients s' ! t = CWait i)"
  by (rule shutdown_loses_reply) (simp_all add: NUM_REQUESTS_def NUM_PARALLEL_TASKS_def)

end
