(* ===== verification/Impostors.thy ===== *)
theory Impostors
  imports Subscription
begin

text \<open>
  The programs around the subscription service (\<^verbatim>\<open>secure_subscriber/gen_keys.py\<close>, \<^verbatim>\<open>client.py\<close>,
  \<^verbatim>\<open>server.py\<close>, \<^verbatim>\<open>fake_client.py\<close>, \<^verbatim>\<open>fake_server.py\<close>, \<^verbatim>\<open>bench_overhead.py\<close>): the key files, the keys each program
  trusts, and what the genuine and the rogue programs make of each other.
\<close>

section \<open>Key files\<close>

text \<open>\<open>bytes.hex\<close>.\<close>

definition hex_text :: "bytes \<Rightarrow> pystr" where
  "hex_text bs = concat (map (\<lambda>b. [hex_digit (unat b div 16), hex_digit (unat b mod 16)]) bs)"

definition key_parties :: "string list" where
  "key_parties = [''server'', ''client'', ''fake_server'', ''fake_client'']"

text \<open>
  \<open>generate_all\<close>: the files written, by name, and the verify keys printed. \<open>seeds\<close> are what
  \<open>SigningKey.generate\<close> draws.
\<close>

definition generate_all :: "nacl \<Rightarrow> (string \<Rightarrow> bytes) \<Rightarrow> (string \<times> pystr \<times> pystr) list" where
  "generate_all N seeds =
     map (\<lambda>name. (name @ ''_sign.key'', hex_text (seeds name) @ [10], hex_text (n_verify_key N (seeds name)))) key_parties"

section \<open>The keys the programs trust\<close>

text \<open>\<open>nacl.signing.VerifyKey(bytes.fromhex(...))\<close> of a literal.\<close>

definition verify_key_literal :: "string \<Rightarrow> bytes" where
  "verify_key_literal s = (case fromhex (lit s) of Inr bs \<Rightarrow> bs | Inl _ \<Rightarrow> [])"

definition client_SERVER_VERIFY_KEY :: bytes where
  "client_SERVER_VERIFY_KEY = verify_key_literal ''a9517420c135a993b6c91017717e362724c5a6d01b1b127282dfdbd03c74db57''"

definition server_AUTHORIZED_CLIENT_KEYS :: "bytes list" where
  "server_AUTHORIZED_CLIENT_KEYS = [verify_key_literal ''bebe88ef6e5bd5979834368d85481483c78a13107167c4d440b97325535e7064'']"

definition fake_client_SERVER_VERIFY_KEY :: bytes where
  "fake_client_SERVER_VERIFY_KEY = verify_key_literal ''979c768f74094eb2ca38abc866375c3399b325a9c85cb787c7155e52317b239f''"

definition fake_server_AUTHORIZED_CLIENT_KEYS :: "bytes list" where
  "fake_server_AUTHORIZED_CLIENT_KEYS =
     [verify_key_literal ''bebe88ef6e5bd5979834368d85481483c78a13107167c4d440b97325535e7064'',
      verify_key_literal ''621d87476029430aaae9b466425db8f86d991d569cd82f8614507776ca1bd471'']"

definition bench_SERVER_VERIFY_KEY :: bytes where
  "bench_SERVER_VERIFY_KEY = verify_key_literal ''a9517420c135a993b6c91017717e362724c5a6d01b1b127282dfdbd03c74db57''"

definition bench_AUTHORIZED_CLIENT_KEYS :: "bytes list" where
  "bench_AUTHORIZED_CLIENT_KEYS = [verify_key_literal ''bebe88ef6e5bd5979834368d85481483c78a13107167c4d440b97325535e7064'']"

section \<open>The programs\<close>

text \<open>The configurations the two servers start with, from the text of their key file.\<close>

definition server_main :: "pystr \<Rightarrow> server_config result" where
  "server_main key_text =
     bindR (load_signing_key key_text) (\<lambda>sk. Inr \<lparr>sc_authorized_vks = server_AUTHORIZED_CLIENT_KEYS, sc_signing_key = sk\<rparr>)"

definition fake_server_main :: "pystr \<Rightarrow> server_config result" where
  "fake_server_main key_text =
     bindR (load_signing_key key_text) (\<lambda>sk. Inr \<lparr>sc_authorized_vks = fake_server_AUTHORIZED_CLIENT_KEYS, sc_signing_key = sk\<rparr>)"

text \<open>\<open>FakeRepServer.conversation\<close> logs and returns.\<close>

definition fake_conversation :: "bytes \<Rightarrow> unit task_op" where
  "fake_conversation box = returnS ()"

text \<open>
  \<open>fake_client.py\<close> with the server key \<open>pin\<close>: its exit status and what it has sent. \<open>incoming\<close> is what arrives on its
  socket.
\<close>

definition fake_client_run :: "bytes \<Rightarrow> nacl \<Rightarrow> pystr \<Rightarrow> bytes \<Rightarrow> unit result \<Rightarrow> bytes \<Rightarrow> bytes \<Rightarrow> arrival list \<Rightarrow> nat \<times> bytes list" where
  "fake_client_run pin N key_text seed dial challenge nonce incoming =
     (case load_signing_key key_text of
        Inl e \<Rightarrow> (1, [])
      | Inr sk \<Rightarrow>
          (let (c, s) = SecureReqClient_init N sk pin seed incoming (\<lambda>_. None) in
           case with_block (SecureReqClient_aconnect N c dial challenge nonce) (returnS ()) s of
             (Inl e, s') \<Rightarrow> (1, s_wire s')
           | (Inr _, s') \<Rightarrow> (0, s_wire s')))"

definition fake_client_main :: "nacl \<Rightarrow> pystr \<Rightarrow> bytes \<Rightarrow> unit result \<Rightarrow> bytes \<Rightarrow> bytes \<Rightarrow> arrival list \<Rightarrow> nat \<times> bytes list" where
  "fake_client_main = fake_client_run fake_client_SERVER_VERIFY_KEY"

text \<open>
  The subscriptions of \<open>client.py\<close>: a request and its response for each topic; the responses go to
  streaming tasks.
\<close>

fun subscribe_topics :: "nacl \<Rightarrow> (bytes \<times> pystr) list \<Rightarrow> json SubscribeResponse list sock_op" where
  "subscribe_topics N [] = returnS []"
| "subscribe_topics N ((nonce, name) # rest) =
     bindS (request_topic N nonce name) (\<lambda>_.
     bindS (req_arecv N) (\<lambda>response_raw.
     bindS (liftS (raised (SubscribeResponse_from_json response_raw))) (\<lambda>response.
     bindS (subscribe_topics N rest) (\<lambda>rs. returnS (response # rs)))))"

definition client_body ::
    "nacl \<Rightarrow> pystr \<Rightarrow> bytes \<Rightarrow> unit result \<Rightarrow> bytes \<Rightarrow> bytes \<Rightarrow> (bytes \<times> pystr) list \<Rightarrow> arrival list \<Rightarrow>
     (sec_exn + json SubscribeResponse list) \<times> bytes list" where
  "client_body N key_text seed dial challenge nonce topics incoming =
     (case load_signing_key key_text of
        Inl e \<Rightarrow> (Inl (Raised e), [])
      | Inr sk \<Rightarrow>
          (let (c, s) = SecureReqClient_init N sk client_SERVER_VERIFY_KEY seed incoming (\<lambda>_. None);
               (r, s') = with_block (SecureReqClient_aconnect N c dial challenge nonce) (subscribe_topics N topics) s
           in (r, s_wire s')))"

text \<open>
  \<open>async with asyncio.TaskGroup()\<close>: exceptions of the body and of the tasks (\<open>failed\<close>) leave it in an
  \<open>ExceptionGroup\<close>.
\<close>

datatype main_exn = Plain sec_exn | Group "sec_exn list"

definition task_group :: "sec_exn + 'a \<Rightarrow> sec_exn list \<Rightarrow> main_exn + 'a" where
  "task_group r failed =
     (case r of
        Inl e \<Rightarrow> Inl (Group (e # failed))
      | Inr x \<Rightarrow> if failed = [] then Inr x else Inl (Group failed))"

datatype client_end = Finished | ConnectionClosed | Rejected | IdentityFailed | Waits

text \<open>The \<open>except\<close> clauses of \<open>main\<close> in their order.\<close>

fun client_handlers :: "main_exn \<Rightarrow> client_end" where
  "client_handlers (Plain (Raised e)) =
     (if isinstance e (NngC NngClosed) then ConnectionClosed
      else if isinstance e (BuiltinC PermissionError) then Rejected
      else IdentityFailed)"
| "client_handlers (Plain e) = IdentityFailed"
| "client_handlers (Group es) = IdentityFailed"

definition client_main ::
    "nacl \<Rightarrow> pystr \<Rightarrow> bytes \<Rightarrow> unit result \<Rightarrow> bytes \<Rightarrow> bytes \<Rightarrow> (bytes \<times> pystr) list \<Rightarrow> arrival list \<Rightarrow> sec_exn list \<Rightarrow>
     client_end \<times> bytes list" where
  "client_main N key_text seed dial challenge nonce topics incoming failed =
     (case client_body N key_text seed dial challenge nonce topics incoming of
        (Inl Blocked, w) \<Rightarrow> (Waits, w)
      | (r, w) \<Rightarrow> (case task_group r failed of Inl e \<Rightarrow> (client_handlers e, w) | Inr _ \<Rightarrow> (Finished, w)))"

section \<open>Lemmas\<close>

lemma hex_digit_range: "d < 16 \<Longrightarrow> \<not> str_space (hex_digit d) \<and> \<not> ascii_space (hex_digit d)"
  by (auto simp: str_space_def ascii_space_def)

lemma fromhex_hex_text: "fromhex (hex_text bs) = Inr bs"
proof (induction bs)
  case (Cons b bs)
  have "unat b < 256" by (rule unat_byte_less)
  then have d: "unat b div 16 < 16" "unat b mod 16 < 16" by simp_all
  have "b8 (unat b div 16 * 16 + unat b mod 16) = b" by (simp add: b8_unat)
  then show ?case using Cons d
    by (simp add: hex_text_def hex_value_digit hex_digit_range del: hex_digit.simps)
qed (simp add: hex_text_def)

lemma hex_text_no_space: "c \<in> set (hex_text bs) \<Longrightarrow> \<not> str_space c"
proof -
  have "unat b div 16 < 16" for b :: byte using unat_byte_less [of b] by simp
  then show "c \<in> set (hex_text bs) \<Longrightarrow> \<not> str_space c"
    by (auto simp: hex_text_def hex_digit_range simp del: hex_digit.simps)
qed

lemma strip_line:
  assumes "\<And>c. c \<in> set s \<Longrightarrow> \<not> str_space c"
  shows "str_strip (s @ [10]) = s"
proof -
  have nl: "str_space 10" by (simp add: str_space_def ascii_space_def)
  have "dropWhile str_space (rev s) = rev s" using assms by (cases s rule: rev_cases) auto
  moreover have "dropWhile str_space (s @ [10]) = (if s = [] then [] else s @ [10])" using assms nl by (cases s) auto
  ultimately show ?thesis using nl by (auto simp: str_strip_def)
qed

lemma strip_hex_text: "str_strip (hex_text bs @ [10]) = hex_text bs"
  by (rule strip_line) (rule hex_text_no_space)

lemma pins_differ: "client_SERVER_VERIFY_KEY \<noteq> fake_client_SERVER_VERIFY_KEY"
  by code_simp

lemma bench_keys: "bench_SERVER_VERIFY_KEY = client_SERVER_VERIFY_KEY" "bench_AUTHORIZED_CLIENT_KEYS = server_AUTHORIZED_CLIENT_KEYS"
  by (simp_all add: bench_SERVER_VERIFY_KEY_def client_SERVER_VERIFY_KEY_def bench_AUTHORIZED_CLIENT_KEYS_def server_AUTHORIZED_CLIENT_KEYS_def)

text \<open>\<open>own\<close>: a signature made with a key verifies under no other verify key.\<close>

definition own :: "nacl \<Rightarrow> bool" where
  "own N \<longleftrightarrow> (\<forall>vk sk m m'. n_verify N vk m (n_sign N sk m') = Inr () \<longrightarrow> vk = n_verify_key N sk)"

lemma req_handshake_refuses:
  assumes "nacl_ok N" "own N" "n_verify_key N ssk \<noteq> c_server_vk c" "\<not> s_closed s" "s_fault s = (\<lambda>_. None)" "s_pipe s = None"
    and "s_arrivals s = Delivered (Some p) (ServerAuth_to_json (make_server_auth N ce cc' se sc ssk)) # rest"
  shows "req_client_handshake N c cc nonce s =
    (Inl BadSignatureError, s\<lparr>s_pipe := Some p, s_arrivals := rest,
       s_wire := s_wire s @ [ClientHello_to_json (make_client_hello (c_ephem_pub c) cc)]\<rparr>)"
proof -
  have "n_verify N (c_server_vk c) m (n_sign N ssk m') = Inl BadSignatureError" for m m'
    using nacl_okD(2) [OF assms(1)] assms(2,3) unfolding own_def by (metis insertE singletonD)
  then show ?thesis using assms(1,4-7)
    by (auto simp: req_client_handshake_def bindS_app sock_defs req_register_pipe_def make_server_auth_eq auth_parsed verify_server_auth_def
        nacl_okD)
qed

lemma rep_handshake_refuses:
  assumes ok: "nacl_ok N" "own N" and k: "n_Box N seed ce = Inr k" "length ce = 32"
    and vk: "n_verify_key N csk \<notin> set (sc_authorized_vks config)"
  shows "rep_handshake N config sc seed \<lparr>rt_inbox = [RepMsg (ClientHello_to_json (make_client_hello ce cc)),
        RepMsg (n_encrypt N k nonce (ClientConfirm_to_json (make_client_confirm N sc cc (n_public_key N seed) ce csk)))],
        rt_ctx = False, rt_out = [], rt_fault = \<lambda>_. None\<rparr> =
      (Inr None, \<lparr>rt_inbox = [], rt_ctx = False,
         rt_out = [ServerAuth_to_json (make_server_auth N ce cc (n_public_key N seed) sc (sc_signing_key config)),
           ErrorResponse_to_json \<lparr>reason = lit ''Unauthorized client''\<rparr>], rt_fault = \<lambda>_. None\<rparr>)"
proof -
  let ?se = "n_public_key N seed"
  have "\<forall>v \<in> set (sc_authorized_vks config). n_verify N v m (n_sign N csk m') = Inl BadSignatureError" for m m'
    using nacl_okD(2) [OF ok(1)] ok(2) vk unfolding own_def by (metis insertE singletonD)
  then have "try_keys N (sc_authorized_vks config) (sc @ cc @ ?se @ ce) (n_sign N csk (sc @ cc @ ?se @ ce)) = Inl BadSignatureError"
    by (blast intro: try_keys_refused)
  then show ?thesis using k
    by (simp add: rep_handshake_def timeout_scope_def bindS_app arecv_raw_def asend_raw_def hello_parsed nacl_okD [OF ok(1)]
        make_session_box_def generate_ephemeral_keypair_def confirm_parsed verify_client_confirm_def)
qed

section \<open>Properties\<close>

text \<open>The key files round trip. Every key \<open>gen_keys.py\<close> writes is read back by \<open>load_signing_key\<close>, and the verify key
  printed for it, pasted into a program, is the key the handshake of its owner is checked against.\<close>

theorem key_files_roundtrip:
  assumes "\<forall>name \<in> set key_parties. length (seeds name) = 32"
  shows "\<forall>(file, content, vk_hex) \<in> set (generate_all N seeds).
    \<exists>name \<in> set key_parties. file = name @ ''_sign.key'' \<and> load_signing_key content = Inr (seeds name) \<and>
      fromhex vk_hex = Inr (derive_verify_key N (seeds name))"
  using assms by (auto simp: generate_all_def load_signing_key_def strip_hex_text fromhex_hex_text derive_verify_key_def)

theorem key_files_roundtrip_witness:
  "load_signing_key (hex_text (replicate 32 171) @ [10]) = Inr (replicate 32 171)"
proof -
  have "(''server_sign.key'', hex_text (replicate 32 171) @ [10], hex_text (replicate 32 171)) \<in>
      set (generate_all reference_nacl (\<lambda>_. replicate 32 171))"
    by (simp add: generate_all_def key_parties_def reference_nacl_def)
  with key_files_roundtrip [of "\<lambda>_. replicate 32 171" reference_nacl] show ?thesis by fastforce
qed

text \<open>C37: the program that is to show how the server rejects an unauthorised client does not show it. It pins another
  key than the genuine client, so with the server that client accepts it gives up itself, before it has sent the
  confirmation the server would refuse. With the right key it would be told "Unauthorized client", take that for
  the acknowledgement and end as a success: the last part says that this is what the server answers.\<close>

theorem fake_client_rejects_server:
  assumes ok: "nacl_ok N" "own N" 
    and genuine: "server_main server_text = Inr config" "n_verify_key N (sc_signing_key config) = client_SERVER_VERIFY_KEY"
    and key: "load_signing_key key_text = Inr fsk" "n_verify_key N fsk \<notin> set server_AUTHORIZED_CLIENT_KEYS"
  shows "\<exists>k. let ce = n_public_key N cseed; se = n_public_key N sseed;
      hello = ClientHello_to_json (make_client_hello ce cc);
      answer = ServerAuth_to_json (make_server_auth N ce cc se sc (sc_signing_key config));
      confirm = n_encrypt N k nonce (ClientConfirm_to_json (make_client_confirm N sc cc se ce fsk));
      refusal = ErrorResponse_to_json \<lparr>reason = lit ''Unauthorized client''\<rparr>;
      incoming = [Delivered (Some p) answer, Delivered (Some p) refusal]
    in fake_client_main N key_text cseed (Inr ()) cc nonce incoming = (1, [hello]) \<and>
       fake_client_run client_SERVER_VERIFY_KEY N key_text cseed (Inr ()) cc nonce incoming = (0, [hello, confirm]) \<and>
       (let (v, t) = rep_handshake N config sc sseed
              \<lparr>rt_inbox = [RepMsg hello, RepMsg confirm], rt_ctx = False, rt_out = [], rt_fault = \<lambda>_. None\<rparr>
        in v = Inr None \<and> rt_out t = [answer, refusal])"
proof -
  let ?ce = "n_public_key N cseed" and ?se = "n_public_key N sseed"
  obtain k where k: "n_Box N cseed ?se = Inr k" using nacl_ok_box [OF ok(1)] by metis
  let ?ssk = "sc_signing_key config"
  have k': "n_Box N sseed ?ce = Inr k" using nacl_okD(5) [OF ok(1), of sseed cseed] k by simp
  have v: "n_verify N client_SERVER_VERIFY_KEY m (n_sign N ?ssk m) = Inr ()" for m using nacl_okD(1) [OF ok(1), of ?ssk] genuine(2) by simp
  have pin: "n_verify_key N ?ssk \<noteq> fake_client_SERVER_VERIFY_KEY" using genuine(2) pins_differ by simp
  note run = fake_client_run_def SecureReqClient_init_def generate_ephemeral_keypair_def with_block_def SecureReqClient_aconnect_def
    bindS_app timeout_scope_def Let_def key(1) sock_close_def
  have "fake_client_main N key_text cseed (Inr ()) cc nonce
      [Delivered (Some p) (ServerAuth_to_json (make_server_auth N ?ce cc ?se sc ?ssk)), Delivered (Some p) ack] =
      (1, [ClientHello_to_json (make_client_hello ?ce cc)])" for ack
    using ok pin by (simp add: fake_client_main_def run req_handshake_refuses [where ssk = ?ssk and p = p and ce = ?ce and cc' = cc and se = ?se and sc = sc])
  moreover have "fake_client_run client_SERVER_VERIFY_KEY N key_text cseed (Inr ()) cc nonce
      [Delivered (Some p) (ServerAuth_to_json (make_server_auth N ?ce cc ?se sc ?ssk)), Delivered (Some p) ack] =
      (0, [ClientHello_to_json (make_client_hello ?ce cc),
           n_encrypt N k nonce (ClientConfirm_to_json (make_client_confirm N sc cc ?se ?ce fsk))])" for ack
    using ok(1) k v nacl_okD(3) [OF ok(1)]
    by (simp add: run make_server_auth_eq
        req_handshake_accepts [where k = k and rest = "[]" and p = p and se = ?se and sc = sc and ack = ack])
  moreover have "rep_handshake N config sc sseed \<lparr>rt_inbox = [RepMsg (ClientHello_to_json (make_client_hello ?ce cc)),
        RepMsg (n_encrypt N k nonce (ClientConfirm_to_json (make_client_confirm N sc cc ?se ?ce fsk)))],
        rt_ctx = False, rt_out = [], rt_fault = \<lambda>_. None\<rparr> =
      (Inr None, \<lparr>rt_inbox = [], rt_ctx = False, rt_out = [ServerAuth_to_json (make_server_auth N ?ce cc ?se sc ?ssk),
         ErrorResponse_to_json \<lparr>reason = lit ''Unauthorized client''\<rparr>], rt_fault = \<lambda>_. None\<rparr>)"
  proof (rule rep_handshake_refuses [OF ok k'])
    show "n_verify_key N fsk \<notin> set (sc_authorized_vks config)" using key(2) genuine(1) by (auto simp: server_main_def bindR_eq_Inr)
  qed (rule nacl_okD(3) [OF ok(1)])
  ultimately show ?thesis unfolding Let_def by auto
qed

text \<open>An instance in which signatures carry their key, delimited.\<close>

definition keyed_nacl :: nacl where
  "keyed_nacl = reference_nacl
     \<lparr>n_sign := \<lambda>sk m. replicate (length sk) 1 @ 0 # sk @ m,
      n_verify := \<lambda>vk m sig. if sig = replicate (length vk) 1 @ 0 # vk @ m then Inr () else Inl BadSignatureError\<rparr>"

lemma delimited_inject: "replicate n (1 :: byte) @ 0 # x = replicate n' 1 @ 0 # y \<Longrightarrow> n = n' \<and> x = y"
proof (induction n arbitrary: n')
  case 0
  then show ?case by (cases n') auto
next
  case (Suc n)
  then show ?case by (cases n') auto
qed

lemma keyed_nacl_ok: "nacl_ok keyed_nacl" "own keyed_nacl"
proof -
  show "nacl_ok keyed_nacl" using reference_nacl_ok by (auto simp: nacl_ok_def keyed_nacl_def reference_nacl_def)
  show "own keyed_nacl"
    by (auto simp: own_def keyed_nacl_def reference_nacl_def split: if_splits dest!: delimited_inject)
qed

lemma demo_key: "load_signing_key (hex_text (replicate 32 171) @ [10]) = Inr (replicate 32 171)"
  by (simp add: load_signing_key_def strip_hex_text fromhex_hex_text)

theorem fake_client_rejects_server_witness:
  "fst (fake_client_main keyed_nacl (hex_text (replicate 32 171) @ [10]) [1] (Inr ()) [3] [4]
     [Delivered (Some 5) (ServerAuth_to_json (make_server_auth keyed_nacl (pad32 [1]) [3] (pad32 [2]) [6] client_SERVER_VERIFY_KEY)),
      Delivered (Some 5) (ErrorResponse_to_json \<lparr>reason = lit ''Unauthorized client''\<rparr>)]) = 1"
proof -
  let ?config = "\<lparr>sc_authorized_vks = server_AUTHORIZED_CLIENT_KEYS, sc_signing_key = client_SERVER_VERIFY_KEY\<rparr>"
  have i: "n_public_key keyed_nacl = pad32" "n_verify_key keyed_nacl x = x" for x
    by (simp_all add: keyed_nacl_def reference_nacl_def)
  have "length client_SERVER_VERIFY_KEY = 32" by code_simp
  then have s: "server_main (hex_text client_SERVER_VERIFY_KEY @ [10]) = Inr ?config"
    by (simp add: server_main_def load_signing_key_def strip_hex_text fromhex_hex_text)
  have "replicate 32 171 \<notin> set server_AUTHORIZED_CLIENT_KEYS" by code_simp
  then have "n_verify_key keyed_nacl (replicate 32 171) \<notin> set server_AUTHORIZED_CLIENT_KEYS" unfolding i(2) .
  from fake_client_rejects_server [OF keyed_nacl_ok s _ demo_key this, of "[1]" "[2]" "[3]" "[6]" "[4]" 5]
  show ?thesis unfolding Let_def i by auto
qed

text \<open>C38: the client refuses an impostor, and reports everything as one. With a server that signs with another key than
  the pinned one the client sends nothing but its hello and reports a failed identity check. But because all
  exceptions leave the task group as a group, the clauses for a closed connection and a rejected subscription
  never apply: whatever goes wrong is reported as a possible rogue server.\<close>

theorem client_reports_rogue_server:
  assumes ok: "nacl_ok N" "own N"
  shows "(fake_server_main rogue_text = Inr config \<and> n_verify_key N (sc_signing_key config) \<noteq> client_SERVER_VERIFY_KEY \<and> load_signing_key key_text = Inr csk \<longrightarrow>
      client_main N key_text cseed (Inr ()) cc nonce topics
        (Delivered (Some p) (ServerAuth_to_json (make_server_auth N (n_public_key N cseed) cc se sc (sc_signing_key config))) # rest) failed =
      (IdentityFailed, [ClientHello_to_json (make_client_hello (n_public_key N cseed) cc)])) \<and>
    fst (client_main N key_text cseed dial cc nonce topics incoming failed) \<in> {Finished, IdentityFailed, Waits} \<and>
    (\<forall>e w. client_body N key_text cseed dial cc nonce topics incoming = (Inl e, w) \<and> e \<noteq> Blocked \<longrightarrow>
      client_main N key_text cseed dial cc nonce topics incoming failed = (IdentityFailed, w)) \<and>
    client_handlers (Plain (Raised (err_from_code NNG_ECLOSED))) = ConnectionClosed \<and>
    client_handlers (Plain (Raised (PyExn PermissionError))) = Rejected"
proof -
  have 1: "client_main N key_text cseed (Inr ()) cc nonce topics
        (Delivered (Some p) (ServerAuth_to_json (make_server_auth N (n_public_key N cseed) cc se sc (sc_signing_key config))) # rest) failed =
      (IdentityFailed, [ClientHello_to_json (make_client_hello (n_public_key N cseed) cc)])"
    if "n_verify_key N (sc_signing_key config) \<noteq> client_SERVER_VERIFY_KEY" "load_signing_key key_text = Inr csk"
    using ok that
    by (simp add: client_main_def client_body_def task_group_def SecureReqClient_init_def generate_ephemeral_keypair_def with_block_def
        SecureReqClient_aconnect_def bindS_app timeout_scope_def
        req_handshake_refuses [where ssk = "sc_signing_key config" and p = p and ce = "n_public_key N cseed" and cc' = cc and se = se and sc = sc])
  have 2: "fst (client_main N key_text cseed dial cc nonce topics incoming failed) \<in> {Finished, IdentityFailed, Waits}"
    by (auto simp: client_main_def task_group_def split: prod.splits sum.splits sec_exn.splits)
  have 3: "client_main N key_text cseed dial cc nonce topics incoming failed = (IdentityFailed, w)"
    if "client_body N key_text cseed dial cc nonce topics incoming = (Inl e, w)" "e \<noteq> Blocked" for e w
    using that by (cases e) (simp_all add: client_main_def task_group_def)
  have 4: "isinstance (err_from_code NNG_ECLOSED) (NngC NngClosed)" "\<not> isinstance (PyExn PermissionError) (NngC NngClosed)"
    "isinstance (PyExn PermissionError) (BuiltinC PermissionError)" by code_simp+
  show ?thesis using 1 2 3 4 by simp
qed

theorem client_reports_rogue_server_witness:
  "fst (client_main keyed_nacl (hex_text (replicate 32 171) @ [10]) [1] (Inr ()) [3] [4] []
     [Delivered (Some 5) (ServerAuth_to_json (make_server_auth keyed_nacl (pad32 [1]) [3] (pad32 [2]) [6] (replicate 32 171)))] []) = IdentityFailed"
proof -
  let ?config = "\<lparr>sc_authorized_vks = fake_server_AUTHORIZED_CLIENT_KEYS, sc_signing_key = replicate 32 171\<rparr>"
  have i: "n_public_key keyed_nacl = pad32" "n_verify_key keyed_nacl x = x" for x by (simp_all add: keyed_nacl_def reference_nacl_def)
  have "fake_server_main (hex_text (replicate 32 171) @ [10]) = Inr ?config" by (simp add: fake_server_main_def demo_key)
  moreover have "replicate 32 171 \<noteq> client_SERVER_VERIFY_KEY" by code_simp
  ultimately show ?thesis
    using client_reports_rogue_server [OF keyed_nacl_ok, of "hex_text (replicate 32 171) @ [10]" ?config "hex_text (replicate 32 171) @ [10]"
        "replicate 32 171" "[1]" "[3]" "[4]" "[]" 5 "pad32 [2]" "[6]" "[]" "[]" "Inr ()" "[]"] demo_key
    unfolding i by simp
qed

end
