(* ===== verification/Peers.thy ===== *)
theory Peers
  imports Stubs
begin

text \<open>
  The short programs that talk over one connection (\<^verbatim>\<open>PAIR/simple\<close>, \<^verbatim>\<open>PAIR/dual_channel\<close>, \<^verbatim>\<open>REP-REQ/simple\<close>,
  \<^verbatim>\<open>REP-REQ/simple_async\<close>). A program is the sequence of its sends and receives; a connection is a pair of bounded
  queues, and the programs run in any interleaving. Connecting, time-outs and the titles that are printed are left
  out: the peers are assumed to answer in time.
\<close>

section \<open>Runs that do not depend on the schedule\<close>

text \<open>Steps that commute: two successors of a state are the same or have a successor in common.\<close>

locale commuting_steps =
  fixes R :: "'s \<Rightarrow> 's \<Rightarrow> bool"
  assumes commute: "R x y \<Longrightarrow> R x z \<Longrightarrow> y = z \<or> (\<exists>w. R y w \<and> R z w)"
begin

lemma step_towards_end: "(R ^^ n) x f \<Longrightarrow> (\<And>g. \<not> R f g) \<Longrightarrow> R x y \<Longrightarrow> \<exists>m. n = Suc m \<and> (R ^^ m) y f"
proof (induction n arbitrary: x y)
  case (Suc n)
  obtain z where z: "R x z" "(R ^^ n) z f" using Suc.prems(1) by (meson relpowp_Suc_E2)
  from commute [OF Suc.prems(3) z(1)] consider "y = z" | w where "R y w" "R z w" by blast
  then show ?case
  proof cases
    case (2 w)
    from Suc.IH [OF z(2) Suc.prems(2) 2(2)] obtain m where m: "n = Suc m" "(R ^^ m) w f" by blast
    have "(R ^^ Suc m) y f" using 2(1) m(2) by (rule relpowp_Suc_I2)
    then show ?thesis using m(1) by blast
  qed (use z in simp)
qed auto

lemma run_towards_end:
  assumes "(R ^^ n) x f" "\<And>g. \<not> R f g"
  shows "(R ^^ m) x y \<Longrightarrow> m \<le> n \<and> (R ^^ (n - m)) y f"
proof (induction m arbitrary: y)
  case (Suc m)
  then obtain z where z: "(R ^^ m) x z" "R z y" by auto
  from step_towards_end [of "n - m" z f y] Suc.IH [OF z(1)] assms(2) z(2)
  obtain k where "n - m = Suc k" "(R ^^ k) y f" by auto
  moreover from this(1) have "n - Suc m = k" "Suc m \<le> n" by auto
  ultimately show ?case by simp
qed (use assms(1) in simp)

text \<open>One run to an end: all runs lead there, and take no longer.\<close>

lemma one_run_suffices:
  assumes "(R ^^ n) x f" "\<And>g. \<not> R f g" "R\<^sup>*\<^sup>* x y"
  shows "R\<^sup>*\<^sup>* y f \<and> ((\<nexists>g. R y g) \<longrightarrow> y = f) \<and> (\<forall>m. (R ^^ m) x y \<longrightarrow> m \<le> n)"
proof -
  obtain m where "(R ^^ m) x y" using assms(3) by (auto simp: rtranclp_power)
  from run_towards_end [OF assms(1,2) this] have e: "R\<^sup>*\<^sup>* y f" by (meson relpowp_imp_rtranclp)
  moreover have "y = f" if "\<nexists>g. R y g" using e that by (meson converse_rtranclpE)
  ultimately show ?thesis using run_towards_end [OF assms(1,2)] by blast
qed

end

section \<open>Programs and connections\<close>

datatype peer = Done | Send string peer | Recv "string \<Rightarrow> peer"

datatype line = Sent string | Got string

text \<open>A running program, the queues it reads and writes, and what it has printed.\<close>

record agent =
  ag_prog :: peer
  ag_in :: nat
  ag_out :: nat
  ag_log :: "line list"

record net =
  nt_agents :: "agent list"
  nt_chan :: "nat \<Rightarrow> string list"

text \<open>The next step of program \<open>k\<close>, if it does not block; \<open>cap\<close> bounds the queues.\<close>

definition move :: "(nat \<Rightarrow> nat) \<Rightarrow> nat \<Rightarrow> net \<Rightarrow> net option" where
  "move cap k s =
     (let a = nt_agents s ! k in
      case ag_prog a of
        Done \<Rightarrow> None
      | Send m p \<Rightarrow>
          if length (nt_chan s (ag_out a)) < cap (ag_out a)
          then Some (s\<lparr>nt_agents := (nt_agents s)[k := a\<lparr>ag_prog := p, ag_log := ag_log a @ [Sent m]\<rparr>],
                       nt_chan := (nt_chan s)(ag_out a := nt_chan s (ag_out a) @ [m])\<rparr>)
          else None
      | Recv f \<Rightarrow>
          (case nt_chan s (ag_in a) of
             [] \<Rightarrow> None
           | m # q \<Rightarrow> Some (s\<lparr>nt_agents := (nt_agents s)[k := a\<lparr>ag_prog := f m, ag_log := ag_log a @ [Got m]\<rparr>],
                              nt_chan := (nt_chan s)(ag_in a := q)\<rparr>)))"

text \<open>Every queue has one reader and one writer.\<close>

definition net_ok :: "net \<Rightarrow> bool" where
  "net_ok s \<longleftrightarrow> distinct (map ag_in (nt_agents s)) \<and> distinct (map ag_out (nt_agents s))"

definition peer_step :: "(nat \<Rightarrow> nat) \<Rightarrow> net \<Rightarrow> net \<Rightarrow> bool" where
  "peer_step cap s s' \<longleftrightarrow> net_ok s \<and> (\<exists>k < length (nt_agents s). move cap k s = Some s')"

lemma distinct_map_other: "distinct (map f xs) \<Longrightarrow> k < length xs \<Longrightarrow> l < length xs \<Longrightarrow> k \<noteq> l \<Longrightarrow> f (xs ! k) \<noteq> f (xs ! l)"
  by (auto simp: distinct_conv_nth)

lemma moves_commute:
  assumes "net_ok s" "k < length (nt_agents s)" "l < length (nt_agents s)" "k \<noteq> l" "move cap k s = Some x" "move cap l s = Some y"
  shows "\<exists>z. move cap l x = Some z \<and> move cap k y = Some z"
proof -
  let ?a = "nt_agents s ! k" and ?b = "nt_agents s ! l"
  have o: "ag_out ?a \<noteq> ag_out ?b" "ag_in ?a \<noteq> ag_in ?b"
    using assms(1-4) distinct_map_other by (auto simp: net_ok_def)
  show ?thesis
    using assms(2-6) o
    by (cases "ag_prog ?a"; cases "ag_prog ?b")
       (auto simp: move_def Let_def list_update_swap [OF assms(4)] fun_upd_twist split: if_splits list.splits)
qed

lemma map_update_same: "k < length xs \<Longrightarrow> f v = f (xs ! k) \<Longrightarrow> map f (xs[k := v]) = map f xs"
  by (simp add: map_update list_update_same_conv)

lemma move_ok: "move cap k s = Some s' \<Longrightarrow> k < length (nt_agents s) \<Longrightarrow> net_ok s \<Longrightarrow> net_ok s'"
  by (auto simp: move_def net_ok_def Let_def map_update_same split: peer.splits if_splits list.splits)

interpretation peers: commuting_steps "peer_step cap" for cap
proof
  fix x y z
  assume "peer_step cap x y" "peer_step cap x z"
  then obtain k l where k: "net_ok x" "k < length (nt_agents x)" "move cap k x = Some y" "l < length (nt_agents x)" "move cap l x = Some z"
    by (auto simp: peer_step_def)
  have len: "length (nt_agents y) = length (nt_agents x)" "length (nt_agents z) = length (nt_agents x)"
    using k(3,5) by (auto simp: move_def Let_def split: peer.splits if_splits list.splits)
  show "y = z \<or> (\<exists>w. peer_step cap y w \<and> peer_step cap z w)"
  proof (cases "k = l")
    case False
    from moves_commute [OF k(1,2,4) False k(3,5)] obtain w where "move cap l y = Some w" "move cap k z = Some w" by blast
    then show ?thesis using k len move_ok [OF k(3,2,1)] move_ok [OF k(5,4,1)] by (auto simp: peer_step_def)
  qed (use k in simp)
qed

section \<open>The programs\<close>

definition NUM_MESSAGES :: nat where
  "NUM_MESSAGES = 5"

text \<open>\<open>n\<close> is the number of messages to go, \<open>i\<close> the number of the next one.\<close>

definition numbered :: "nat \<Rightarrow> string" where
  "numbered i = ''request-'' @ str_int (int i)"

primrec pair_client :: "nat \<Rightarrow> nat \<Rightarrow> peer" where
  "pair_client 0 i = Done"
| "pair_client (Suc n) i = Send (numbered i) (Recv (\<lambda>reply1. Recv (\<lambda>reply2. pair_client n (Suc i))))"

primrec pair_echo :: "nat \<Rightarrow> peer" where
  "pair_echo 0 = Done"
| "pair_echo (Suc n) = Recv (\<lambda>request. Send (''echo 1: '' @ request) (Send (''echo 2: '' @ request) (pair_echo n)))"

primrec req_client :: "nat \<Rightarrow> nat \<Rightarrow> peer" where
  "req_client 0 i = Done"
| "req_client (Suc n) i = Send (numbered i) (Recv (\<lambda>reply. req_client n (Suc i)))"

primrec rep_server_loop :: "nat \<Rightarrow> peer" where
  "rep_server_loop 0 = Done"
| "rep_server_loop (Suc n) = Recv (\<lambda>request. Send (''echo: '' @ request) (rep_server_loop n))"

text \<open>\<open>asyncio.run\<close> of the one coroutine: the sends and receives are those of the synchronous programs.\<close>

definition async_conversation :: "nat \<Rightarrow> nat \<Rightarrow> peer" where
  "async_conversation n i = req_client n i"

definition async_serve :: "nat \<Rightarrow> peer" where
  "async_serve n = rep_server_loop n"

text \<open>The two tasks of \<open>dual_channel\<close>.\<close>

primrec receive_messages :: "nat \<Rightarrow> peer" where
  "receive_messages 0 = Done"
| "receive_messages (Suc n) = Recv (\<lambda>request. receive_messages n)"

primrec send_messages :: "nat \<Rightarrow> nat \<Rightarrow> peer" where
  "send_messages 0 i = Done"
| "send_messages (Suc n) i = Send (numbered i) (send_messages n (Suc i))"

text \<open>Two programs that read what the other writes, with what they have printed so far.\<close>

definition two_peers :: "peer \<Rightarrow> line list \<Rightarrow> peer \<Rightarrow> line list \<Rightarrow> net" where
  "two_peers p l q l' =
     \<lparr>nt_agents = [\<lparr>ag_prog = p, ag_in = 1, ag_out = 0, ag_log = l\<rparr>, \<lparr>ag_prog = q, ag_in = 0, ag_out = 1, ag_log = l'\<rparr>],
      nt_chan = (\<lambda>_. [])\<rparr>"

text \<open>
  The task group of \<open>run_until_done\<close> on both sides: the receiving tasks first, then the sending ones. The first side
  writes queue 0, the second queue 1; queues 2 to 5 are never used.
\<close>

definition dual_peers :: "nat \<Rightarrow> nat \<Rightarrow> line list \<Rightarrow> line list \<Rightarrow> net" where
  "dual_peers n i sent got =
     \<lparr>nt_agents =
        [\<lparr>ag_prog = receive_messages n, ag_in = 1, ag_out = 2, ag_log = got\<rparr>, \<lparr>ag_prog = send_messages n i, ag_in = 3, ag_out = 0, ag_log = sent\<rparr>,
         \<lparr>ag_prog = receive_messages n, ag_in = 0, ag_out = 4, ag_log = got\<rparr>, \<lparr>ag_prog = send_messages n i, ag_in = 5, ag_out = 1, ag_log = sent\<rparr>],
      nt_chan = (\<lambda>_. [])\<rparr>"

section \<open>One run of each\<close>

fun schedule :: "(nat \<Rightarrow> nat) \<Rightarrow> nat list \<Rightarrow> net \<Rightarrow> net option" where
  "schedule cap [] s = Some s"
| "schedule cap (k # ks) s = Option.bind (move cap k s) (schedule cap ks)"

lemma schedule_run:
  "schedule cap ks s = Some s' \<Longrightarrow> net_ok s \<Longrightarrow> set ks \<subseteq> {..<length (nt_agents s)} \<Longrightarrow> (peer_step cap ^^ length ks) s s'"
proof (induction ks arbitrary: s)
  case (Cons k ks)
  then obtain x where x: "move cap k s = Some x" "schedule cap ks x = Some s'" by (auto split: bind_splits)
  have "length (nt_agents x) = length (nt_agents s)" using x(1) by (auto simp: move_def Let_def split: peer.splits if_splits list.splits)
  then have "(peer_step cap ^^ length ks) x s'" using Cons x move_ok [OF x(1)] by auto
  moreover have "peer_step cap s x" using Cons.prems x(1) by (auto simp: peer_step_def)
  ultimately show ?case by (metis length_Cons relpowp_Suc_I2)
qed simp

definition pair_lines :: "nat \<Rightarrow> line list" where
  "pair_lines i = [Sent (numbered i), Got (''echo 1: '' @ numbered i), Got (''echo 2: '' @ numbered i)]"

definition pair_echo_lines :: "nat \<Rightarrow> line list" where
  "pair_echo_lines i = [Got (numbered i), Sent (''echo 1: '' @ numbered i), Sent (''echo 2: '' @ numbered i)]"

definition req_lines :: "nat \<Rightarrow> line list" where
  "req_lines i = [Sent (numbered i), Got (''echo: '' @ numbered i)]"

definition rep_lines :: "nat \<Rightarrow> line list" where
  "rep_lines i = [Got (numbered i), Sent (''echo: '' @ numbered i)]"

lemma peers_ok: "net_ok (two_peers p l q l')" "net_ok (dual_peers n i a b)"
  by (simp_all add: net_ok_def two_peers_def dual_peers_def)

lemmas schedule_eval = move_def two_peers_def dual_peers_def pair_lines_def pair_echo_lines_def req_lines_def rep_lines_def

lemma pair_round:
  assumes "0 < cap 0" "0 < cap 1"
  shows "schedule cap [0, 1, 1, 0, 1, 0] (two_peers (pair_client (Suc n) i) l (pair_echo (Suc n)) l') =
    Some (two_peers (pair_client n (Suc i)) (l @ pair_lines i) (pair_echo n) (l' @ pair_echo_lines i))"
  using assms by (simp add: schedule_eval fun_upd_def cong: if_cong)

lemma req_round:
  assumes "0 < cap 0" "0 < cap 1"
  shows "schedule cap [0, 1, 1, 0] (two_peers (req_client (Suc n) i) l (rep_server_loop (Suc n)) l') =
    Some (two_peers (req_client n (Suc i)) (l @ req_lines i) (rep_server_loop n) (l' @ rep_lines i))"
  using assms by (simp add: schedule_eval fun_upd_def cong: if_cong)

lemma dual_round:
  assumes "0 < cap 0" "0 < cap 1"
  shows "schedule cap [1, 2, 3, 0] (dual_peers (Suc n) i a b) = Some (dual_peers n (Suc i) (a @ [Sent (numbered i)]) (b @ [Got (numbered i)]))"
  using assms by (simp add: schedule_eval fun_upd_def cong: if_cong)

text \<open>From one round to all of them.\<close>

lemma rounds:
  assumes round: "\<And>n i l l'. (R ^^ c) (S (Suc n) i l l') (S n (Suc i) (l @ f i) (l' @ g i))"
  shows "(R ^^ (c * n)) (S n i l l') (S 0 (i + n) (l @ concat (map f [i..<i + n])) (l' @ concat (map g [i..<i + n])))"
proof (induction n arbitrary: i l l')
  case (Suc n)
  have "[i..<i + Suc n] = i # [Suc i..<Suc i + n]" using upt_conv_Cons [of i "i + Suc n"] by simp
  moreover have "(R ^^ (c + c * n)) (S (Suc n) i l l') (S 0 (Suc i + n)
      ((l @ f i) @ concat (map f [Suc i..<Suc i + n])) ((l' @ g i) @ concat (map g [Suc i..<Suc i + n])))"
    using round [of n i l l'] Suc [of "Suc i" "l @ f i" "l' @ g i"] by (rule relpowp_trans)
  ultimately show ?case by simp
qed simp

lemma all_done: "\<forall>a \<in> set (nt_agents s). ag_prog a = Done \<Longrightarrow> \<not> peer_step cap s g"
  by (auto simp: peer_step_def move_def Let_def)

lemma ends: "\<not> peer_step cap (two_peers Done l Done l') g" "\<not> peer_step cap (dual_peers 0 i a b) g"
  by (rule all_done, simp add: two_peers_def dual_peers_def)+

lemma round_run:
  assumes "schedule cap ks s = Some s'" "net_ok s" "set ks \<subseteq> {..<length (nt_agents s)}" "length ks = c"
  shows "(peer_step cap ^^ c) s s'"
  using schedule_run [OF assms(1-3)] assms(4) by simp

lemma two_agents: "length (nt_agents (two_peers p l q l')) = 2" "length (nt_agents (dual_peers n i a b)) = 4"
  by (simp_all add: two_peers_def dual_peers_def)

lemma pair_run:
  assumes "0 < cap 0" "0 < cap 1"
  shows "(peer_step cap ^^ (6 * n)) (two_peers (pair_client n 1) [] (pair_echo n) [])
    (two_peers Done (concat (map pair_lines [1..<1 + n])) Done (concat (map pair_echo_lines [1..<1 + n])))"
proof -
  have "(peer_step cap ^^ 6) (two_peers (pair_client (Suc n) i) l (pair_echo (Suc n)) l')
      (two_peers (pair_client n (Suc i)) (l @ pair_lines i) (pair_echo n) (l' @ pair_echo_lines i))" for n i l l'
    by (rule round_run [OF pair_round [OF assms] peers_ok(1)]) (simp_all add: two_agents)
  from rounds [of 6 "peer_step cap" "\<lambda>n i l l'. two_peers (pair_client n i) l (pair_echo n) l'", OF this, of n 1 "[]" "[]"]
  show ?thesis by simp
qed

lemma req_run:
  assumes "0 < cap 0" "0 < cap 1"
  shows "(peer_step cap ^^ (4 * n)) (two_peers (req_client n 1) [] (rep_server_loop n) [])
    (two_peers Done (concat (map req_lines [1..<1 + n])) Done (concat (map rep_lines [1..<1 + n])))"
proof -
  have "(peer_step cap ^^ 4) (two_peers (req_client (Suc n) i) l (rep_server_loop (Suc n)) l')
      (two_peers (req_client n (Suc i)) (l @ req_lines i) (rep_server_loop n) (l' @ rep_lines i))" for n i l l'
    by (rule round_run [OF req_round [OF assms] peers_ok(1)]) (simp_all add: two_agents)
  from rounds [of 4 "peer_step cap" "\<lambda>n i l l'. two_peers (req_client n i) l (rep_server_loop n) l'", OF this, of n 1 "[]" "[]"]
  show ?thesis by simp
qed

lemma dual_run:
  assumes "0 < cap 0" "0 < cap 1"
  shows "(peer_step cap ^^ (4 * n)) (dual_peers n 1 [] [])
    (dual_peers 0 (1 + n) (map (Sent \<circ> numbered) [1..<1 + n]) (map (Got \<circ> numbered) [1..<1 + n]))"
proof -
  have "(peer_step cap ^^ 4) (dual_peers (Suc n) i a b) (dual_peers n (Suc i) (a @ [Sent (numbered i)]) (b @ [Got (numbered i)]))" for n i a b
    by (rule round_run [OF dual_round [OF assms] peers_ok(2)]) (simp_all add: two_agents)
  moreover have "concat (map (\<lambda>i. [f i]) xs) = map f xs" for f :: "nat \<Rightarrow> line" and xs by (induction xs) auto
  ultimately show ?thesis
    using rounds [of 4 "peer_step cap" dual_peers "\<lambda>i. [Sent (numbered i)]" "\<lambda>i. [Got (numbered i)]" n 1 "[]" "[]"] by (simp add: o_def)
qed

section \<open>Properties\<close>



end
