(* ===== verification/Farm.thy ===== *)
theory Farm
  imports Parallel
begin

text \<open>
  Many clients and many servers (\<^verbatim>\<open>REP-REQ/multi_clients_servers\<close>): the C library hands each request to any server
  that is ready and brings the reply back to the client that asked. Time-outs (thirty seconds without a
  message) and the start of processes are left out.
\<close>

section \<open>The programs\<close>

text \<open>A worker: the number of its next request, whether it waits in \<open>recv\<close>, the replies it has logged.\<close>

record farm_worker =
  w_next :: nat
  w_waits :: bool
  w_log :: "string list"

text \<open>A server: requests counted, and the request it is about to answer with the client it came from.\<close>

record rep_proc =
  f_count :: nat
  f_request :: "(nat \<times> string) option"

text \<open>Requests on their way with the client, replies with the client, the server and the request they answer.\<close>

record farm =
  f_workers :: "farm_worker list"
  f_requests :: "(nat \<times> string) list"
  f_servers :: "rep_proc list"
  f_replies :: "(nat \<times> nat \<times> string) list"

definition worker_text :: "nat \<Rightarrow> nat \<Rightarrow> string" where
  "worker_text client_id k = ''client-'' @ str_int (int client_id) @ ''/req-'' @ str_int (int k)"

definition ack_text :: "nat \<Rightarrow> string \<Rightarrow> string" where
  "ack_text server_id request = ''ack from server-'' @ str_int (int server_id) @ '': ['' @ request @ '']''"

definition worker_send :: "nat \<Rightarrow> farm \<Rightarrow> farm" where
  "worker_send t s =
     (let w = f_workers s ! t
      in s\<lparr>f_workers := (f_workers s)[t := w\<lparr>w_waits := True\<rparr>], f_requests := f_requests s @ [(t, worker_text t (w_next w))]\<rparr>)"

definition farm_worker_recv :: "nat \<Rightarrow> nat \<Rightarrow> string \<Rightarrow> farm \<Rightarrow> farm" where
  "farm_worker_recv t j m s =
     (let w = f_workers s ! t
      in s\<lparr>f_workers := (f_workers s)[t := \<lparr>w_next = w_next w + 1, w_waits = False, w_log = w_log w @ [ack_text j m]\<rparr>],
           f_replies := remove1 (t, j, m) (f_replies s)\<rparr>)"

definition rep_recv :: "nat \<Rightarrow> nat \<Rightarrow> string \<Rightarrow> farm \<Rightarrow> farm" where
  "rep_recv j t m s =
     s\<lparr>f_requests := remove1 (t, m) (f_requests s),
       f_servers := (f_servers s)[j := \<lparr>f_count = f_count (f_servers s ! j) + 1, f_request = Some (t, m)\<rparr>]\<rparr>"

definition rep_reply :: "nat \<Rightarrow> nat \<Rightarrow> string \<Rightarrow> farm \<Rightarrow> farm" where
  "rep_reply j t m s =
     s\<lparr>f_replies := f_replies s @ [(t, j, m)], f_servers := (f_servers s)[j := (f_servers s ! j)\<lparr>f_request := None\<rparr>]\<rparr>"

text \<open>\<open>run\<close> of \<^verbatim>\<open>main.py\<close>: \<open>M\<close> servers and \<open>N\<close> clients.\<close>

definition farm_start :: "nat \<Rightarrow> nat \<Rightarrow> farm" where
  "farm_start M N =
     \<lparr>f_workers = replicate N \<lparr>w_next = 0, w_waits = False, w_log = []\<rparr>, f_requests = [],
      f_servers = replicate M \<lparr>f_count = 0, f_request = None\<rparr>, f_replies = []\<rparr>"

text \<open>The interleavings, with \<open>K\<close> requests of each client.\<close>

inductive farm_step :: "nat \<Rightarrow> farm \<Rightarrow> farm \<Rightarrow> bool" for K :: nat where
  w_send: "t < length (f_workers s) \<Longrightarrow> \<not> w_waits (f_workers s ! t) \<Longrightarrow> w_next (f_workers s ! t) < K \<Longrightarrow> farm_step K s (worker_send t s)"
| w_recv: "t < length (f_workers s) \<Longrightarrow> w_waits (f_workers s ! t) \<Longrightarrow> (t, j, m) \<in> set (f_replies s) \<Longrightarrow> farm_step K s (farm_worker_recv t j m s)"
| s_recv: "j < length (f_servers s) \<Longrightarrow> f_request (f_servers s ! j) = None \<Longrightarrow> (t, m) \<in> set (f_requests s) \<Longrightarrow> farm_step K s (rep_recv j t m s)"
| s_reply: "j < length (f_servers s) \<Longrightarrow> f_request (f_servers s ! j) = Some (t, m) \<Longrightarrow> farm_step K s (rep_reply j t m s)"

text \<open>The addresses, and the number of clients that failed.\<close>

definition server_urls :: "nat \<Rightarrow> bool \<Rightarrow> string \<Rightarrow> nat \<Rightarrow> string list" where
  "server_urls M ipc tmpdir base_port =
     (if ipc then map (\<lambda>i. ''ipc://'' @ tmpdir @ ''/server-'' @ str_int (int i) @ ''.ipc'') [0..<M]
      else map (\<lambda>i. ''tcp://127.0.0.1:'' @ str_int (int (base_port + i))) [0..<M])"

definition failed_clients :: "int list \<Rightarrow> nat" where
  "failed_clients returncodes = length (filter (\<lambda>rc. rc \<noteq> 0) returncodes)"

section \<open>Invariant\<close>

fun owed_to :: "nat \<times> farm_worker \<Rightarrow> (nat \<times> string) list" where
  "owed_to (t, w) = (if w_waits w then [(t, worker_text t (w_next w))] else [])"

definition in_hand :: "rep_proc \<Rightarrow> (nat \<times> string) list" where
  "in_hand p = (case f_request p of None \<Rightarrow> [] | Some x \<Rightarrow> [x])"

definition on_the_way :: "farm \<Rightarrow> (nat \<times> string) multiset" where
  "on_the_way s = mset (f_requests s) + mset (concat (map in_hand (f_servers s))) + mset (map (\<lambda>(t, j, m). (t, m)) (f_replies s))"

definition worker_ok :: "nat \<Rightarrow> nat \<Rightarrow> nat \<Rightarrow> farm_worker \<Rightarrow> bool" where
  "worker_ok K M t w \<longleftrightarrow>
     w_next w \<le> K \<and> (w_waits w \<longrightarrow> w_next w < K) \<and> length (w_log w) = w_next w \<and>
     (\<forall>i < w_next w. \<exists>j < M. w_log w ! i = ack_text j (worker_text t i))"

definition farm_ok :: "nat \<Rightarrow> nat \<Rightarrow> farm \<Rightarrow> bool" where
  "farm_ok K M s \<longleftrightarrow>
     on_the_way s = mset (concat (map owed_to (enumerate 0 (f_workers s)))) \<and>
     (\<forall>t < length (f_workers s). worker_ok K M t (f_workers s ! t)) \<and>
     length (f_servers s) = M \<and> (\<forall>(t, j, m) \<in> set (f_replies s). j < M) \<and>
     sum_list (map f_count (f_servers s)) =
       sum_list (map w_next (f_workers s)) + length (concat (map in_hand (f_servers s))) + length (f_replies s)"

lemma owed_update:
  assumes "t < length ws"
  shows "mset (concat (map owed_to (enumerate 0 (ws[t := v])))) + mset (owed_to (t, ws ! t)) =
    mset (concat (map owed_to (enumerate 0 ws))) + mset (owed_to (t, v))"
  using mset_concat_update [of t "enumerate 0 ws" owed_to "(t, v)"] assms by (simp add: enumerate_update nth_enumerate_eq)

lemma in_hand_update:
  assumes "j < length ps"
  shows "mset (concat (map in_hand (ps[j := v]))) + mset (in_hand (ps ! j)) = mset (concat (map in_hand ps)) + mset (in_hand v)"
    "length (concat (map in_hand (ps[j := v]))) + length (in_hand (ps ! j)) = length (concat (map in_hand ps)) + length (in_hand v)"
proof -
  show *: "mset (concat (map in_hand (ps[j := v]))) + mset (in_hand (ps ! j)) = mset (concat (map in_hand ps)) + mset (in_hand v)"
    using mset_concat_update [OF assms] .
  show "length (concat (map in_hand (ps[j := v]))) + length (in_hand (ps ! j)) = length (concat (map in_hand ps)) + length (in_hand v)"
    using arg_cong [OF *, of size] by (simp only: size_union size_mset)
qed

lemma owed_member:
  assumes "(t, m) \<in># mset (concat (map owed_to (enumerate 0 ws)))"
  shows "t < length ws \<and> w_waits (ws ! t) \<and> m = worker_text t (w_next (ws ! t))"
  using assms by (auto simp: in_set_enumerate_eq split: if_splits)

lemma reply_owed:
  assumes "farm_ok K M s" "(t, j, m) \<in> set (f_replies s)"
  shows "t < length (f_workers s) \<and> w_waits (f_workers s ! t) \<and> m = worker_text t (w_next (f_workers s ! t)) \<and> j < M"
proof -
  have "(t, m) \<in># on_the_way s" using assms(2) by (force simp: on_the_way_def)
  then show ?thesis using assms owed_member [of t m "f_workers s"] by (auto simp: farm_ok_def)
qed

lemma farm_okI:
  assumes "on_the_way s = mset (concat (map owed_to (enumerate 0 (f_workers s))))"
    "\<And>t. t < length (f_workers s) \<Longrightarrow> worker_ok K M t (f_workers s ! t)" "length (f_servers s) = M"
    "\<And>t j m. (t, j, m) \<in> set (f_replies s) \<Longrightarrow> j < M"
    "sum_list (map f_count (f_servers s)) =
       sum_list (map w_next (f_workers s)) + length (concat (map in_hand (f_servers s))) + length (f_replies s)"
  shows "farm_ok K M s"
  unfolding farm_ok_def using assms by blast

lemma farm_okD:
  assumes "farm_ok K M s"
  shows "on_the_way s = mset (concat (map owed_to (enumerate 0 (f_workers s))))"
    "t < length (f_workers s) \<Longrightarrow> worker_ok K M t (f_workers s ! t)" "length (f_servers s) = M"
    "(t, j, m) \<in> set (f_replies s) \<Longrightarrow> j < M"
    "sum_list (map f_count (f_servers s)) =
       sum_list (map w_next (f_workers s)) + length (concat (map in_hand (f_servers s))) + length (f_replies s)"
  using assms unfolding farm_ok_def by blast+

lemma ok_worker_send:
  assumes ok: "farm_ok K M s" and t: "t < length (f_workers s)" "\<not> w_waits (f_workers s ! t)" "w_next (f_workers s ! t) < K"
  shows "farm_ok K M (worker_send t s)"
proof (rule farm_okI)
  note D = farm_okD [OF ok]
  let ?w = "(f_workers s ! t)\<lparr>w_waits := True\<rparr>"
  show "on_the_way (worker_send t s) = mset (concat (map owed_to (enumerate 0 (f_workers (worker_send t s)))))"
    using owed_update [OF t(1), of ?w] D(1) t(2) by (simp add: worker_send_def Let_def on_the_way_def)
  show "worker_ok K M u (f_workers (worker_send t s) ! u)" if "u < length (f_workers (worker_send t s))" for u
    using D(2) [of u] that t by (auto simp: worker_send_def Let_def worker_ok_def nth_list_update)
  show "sum_list (map f_count (f_servers (worker_send t s))) = sum_list (map w_next (f_workers (worker_send t s))) +
      length (concat (map in_hand (f_servers (worker_send t s)))) + length (f_replies (worker_send t s))"
    using D(5) sum_list_map_update [OF t(1), of w_next ?w] by (simp add: worker_send_def Let_def)
qed (use farm_okD(3,4) [OF ok] in \<open>auto simp: worker_send_def Let_def\<close>)

lemma ok_farm_worker_recv:
  assumes ok: "farm_ok K M s" and t: "t < length (f_workers s)" "(t, j, m) \<in> set (f_replies s)"
  shows "farm_ok K M (farm_worker_recv t j m s)"
proof (rule farm_okI)
  note D = farm_okD [OF ok]
  let ?v = "f_workers s ! t"
  let ?w = "\<lparr>w_next = w_next ?v + 1, w_waits = False, w_log = w_log ?v @ [ack_text j m]\<rparr>"
  have m: "w_waits ?v" "m = worker_text t (w_next ?v)" "j < M" using reply_owed [OF ok t(2)] by auto
  have r: "mset (map (\<lambda>(t, j, m). (t, m)) (f_replies s)) = add_mset (t, m) (mset (map (\<lambda>(t, j, m). (t, m)) (remove1 (t, j, m) (f_replies s))))"
    using mset_map_remove1 [OF t(2), of "\<lambda>(t, j, m). (t, m)"] by simp
  show "on_the_way (farm_worker_recv t j m s) = mset (concat (map owed_to (enumerate 0 (f_workers (farm_worker_recv t j m s)))))"
  proof -
    have "add_mset (t, m) (mset (concat (map owed_to (enumerate 0 (f_workers (farm_worker_recv t j m s)))))) =
        mset (concat (map owed_to (enumerate 0 (f_workers s))))"
      using owed_update [OF t(1), of ?w] m by (simp add: farm_worker_recv_def Let_def)
    moreover have "add_mset (t, m) (on_the_way (farm_worker_recv t j m s)) = on_the_way s"
      by (simp only: on_the_way_def farm_worker_recv_def Let_def r farm.simps) simp
    ultimately show ?thesis using D(1) by (metis add_mset_remove_trivial)
  qed
  show "worker_ok K M u (f_workers (farm_worker_recv t j m s) ! u)" if "u < length (f_workers (farm_worker_recv t j m s))" for u
    using D(2) [of u] that t m by (auto simp: farm_worker_recv_def Let_def worker_ok_def nth_list_update nth_append less_Suc_eq)
  obtain l where "length (f_replies s) = Suc l" using t(2) by (cases "f_replies s") auto
  then show "sum_list (map f_count (f_servers (farm_worker_recv t j m s))) = sum_list (map w_next (f_workers (farm_worker_recv t j m s))) +
      length (concat (map in_hand (f_servers (farm_worker_recv t j m s)))) + length (f_replies (farm_worker_recv t j m s))"
    using D(5) sum_list_map_update [OF t(1), of w_next ?w] t(2) by (simp add: farm_worker_recv_def Let_def length_remove1)
qed (use farm_okD(3,4) [OF ok] in \<open>auto simp: farm_worker_recv_def Let_def dest: notin_set_remove1\<close>)

lemma ok_rep_recv:
  assumes ok: "farm_ok K M s" and j: "j < length (f_servers s)" "f_request (f_servers s ! j) = None" "(t, m) \<in> set (f_requests s)"
  shows "farm_ok K M (rep_recv j t m s)"
proof (rule farm_okI)
  note D = farm_okD [OF ok]
  let ?p = "\<lparr>f_count = f_count (f_servers s ! j) + 1, f_request = Some (t, m)\<rparr>"
  show "on_the_way (rep_recv j t m s) = mset (concat (map owed_to (enumerate 0 (f_workers (rep_recv j t m s)))))"
  proof -
    have "mset (concat (map in_hand ((f_servers s)[j := ?p]))) = add_mset (t, m) (mset (concat (map in_hand (f_servers s))))"
      using in_hand_update(1) [OF j(1), of ?p] j(2) by (simp add: in_hand_def)
    moreover have "mset (f_requests s) = add_mset (t, m) (mset (remove1 (t, m) (f_requests s)))" using j(3) by simp
    ultimately have "on_the_way (rep_recv j t m s) = on_the_way s" by (simp only: on_the_way_def rep_recv_def farm.simps) simp
    then show ?thesis using D(1) by (simp add: rep_recv_def)
  qed
  show "sum_list (map f_count (f_servers (rep_recv j t m s))) = sum_list (map w_next (f_workers (rep_recv j t m s))) +
      length (concat (map in_hand (f_servers (rep_recv j t m s)))) + length (f_replies (rep_recv j t m s))"
    using D(5) sum_list_map_update [OF j(1), of f_count ?p] in_hand_update(2) [OF j(1), of ?p] j(2) by (simp add: rep_recv_def in_hand_def)
qed (use farm_okD(2-4) [OF ok] in \<open>auto simp: rep_recv_def\<close>)

lemma ok_rep_reply:
  assumes ok: "farm_ok K M s" and j: "j < length (f_servers s)" "f_request (f_servers s ! j) = Some (t, m)"
  shows "farm_ok K M (rep_reply j t m s)"
proof (rule farm_okI)
  note D = farm_okD [OF ok]
  let ?p = "(f_servers s ! j)\<lparr>f_request := None\<rparr>"
  show "on_the_way (rep_reply j t m s) = mset (concat (map owed_to (enumerate 0 (f_workers (rep_reply j t m s)))))"
  proof -
    have "mset (concat (map in_hand (f_servers s))) = add_mset (t, m) (mset (concat (map in_hand ((f_servers s)[j := ?p]))))"
      using in_hand_update(1) [OF j(1), of ?p] j(2) by (simp add: in_hand_def)
    then have "on_the_way (rep_reply j t m s) = on_the_way s" by (simp only: on_the_way_def rep_reply_def farm.simps) simp
    then show ?thesis using D(1) by (simp add: rep_reply_def)
  qed
  show "sum_list (map f_count (f_servers (rep_reply j t m s))) = sum_list (map w_next (f_workers (rep_reply j t m s))) +
      length (concat (map in_hand (f_servers (rep_reply j t m s)))) + length (f_replies (rep_reply j t m s))"
    using D(5) sum_list_map_update [OF j(1), of f_count ?p] in_hand_update(2) [OF j(1), of ?p] j(2) by (simp add: rep_reply_def in_hand_def)
qed (use farm_okD(2-4) [OF ok] j in \<open>auto simp: rep_reply_def\<close>)

lemma farm_step_ok: "farm_step K s s' \<Longrightarrow> farm_ok K M s \<Longrightarrow> farm_ok K M s'"
  by (induction rule: farm_step.induct) (auto intro: ok_worker_send ok_farm_worker_recv ok_rep_recv ok_rep_reply)

lemma farm_start_ok: "farm_ok K M (farm_start M N)"
proof (rule farm_okI)
  have "concat (map owed_to (enumerate 0 (f_workers (farm_start M N)))) = []" by (auto simp: farm_start_def in_set_enumerate_eq)
  moreover have "concat (map in_hand (f_servers (farm_start M N))) = []" by (auto simp: farm_start_def in_hand_def)
  ultimately show "on_the_way (farm_start M N) = mset (concat (map owed_to (enumerate 0 (f_workers (farm_start M N)))))"
    by (simp only: on_the_way_def) (simp add: farm_start_def)
qed (auto simp: farm_start_def worker_ok_def in_hand_def sum_list_replicate)

lemma farm_reachable_ok: "(farm_step K)\<^sup>*\<^sup>* (farm_start M N) s \<Longrightarrow> farm_ok K M s \<and> length (f_workers s) = N"
proof (induction rule: rtranclp_induct)
  case base
  then show ?case using farm_start_ok by (simp add: farm_start_def)
next
  case (step s s')
  then have "length (f_workers s') = length (f_workers s)"
    by (auto simp: farm_step.simps worker_send_def farm_worker_recv_def rep_recv_def rep_reply_def Let_def)
  with step farm_step_ok show ?case by auto
qed

section \<open>Runs\<close>

definition worker_weight :: "nat \<Rightarrow> farm_worker \<Rightarrow> nat" where
  "worker_weight K w = 4 * (K - w_next w) - (if w_waits w then 4 else 0)"

definition farm_weight :: "nat \<Rightarrow> farm \<Rightarrow> nat" where
  "farm_weight K s =
     sum_list (map (worker_weight K) (f_workers s)) + 3 * length (f_requests s) + 2 * length (concat (map in_hand (f_servers s))) +
     length (f_replies s)"

lemma farm_step_weight: "farm_step K s s' \<Longrightarrow> farm_weight K s' < farm_weight K s"
proof (induction rule: farm_step.induct)
  case (w_send t s)
  then show ?case using sum_list_map_update [OF w_send(1), of "worker_weight K" "(f_workers s ! t)\<lparr>w_waits := True\<rparr>"]
    by (simp add: worker_send_def farm_weight_def worker_weight_def Let_def)
next
  case (w_recv t s j m)
  then obtain l where l: "length (f_replies s) = Suc l" by (cases "f_replies s") auto
  let ?w = "\<lparr>w_next = w_next (f_workers s ! t) + 1, w_waits = False, w_log = w_log (f_workers s ! t) @ [ack_text j m]\<rparr>"
  show ?case using sum_list_map_update [OF w_recv(1), of "worker_weight K" ?w] w_recv(2,3) l
    by (simp add: farm_worker_recv_def farm_weight_def worker_weight_def Let_def length_remove1)
next
  case (s_recv j s t m)
  then obtain l where l: "length (f_requests s) = Suc l" by (cases "f_requests s") auto
  let ?p = "\<lparr>f_count = f_count (f_servers s ! j) + 1, f_request = Some (t, m)\<rparr>"
  show ?case using in_hand_update(2) [OF s_recv(1), of ?p] s_recv(2,3) l
    by (simp add: rep_recv_def farm_weight_def in_hand_def length_remove1)
next
  case (s_reply j s t m)
  then show ?case using in_hand_update(2) [OF s_reply(1), of "(f_servers s ! j)\<lparr>f_request := None\<rparr>"]
    by (simp add: rep_reply_def farm_weight_def in_hand_def)
qed

lemma farm_run_bound: "(farm_step K ^^ n) s s' \<Longrightarrow> n + farm_weight K s' \<le> farm_weight K s"
proof (induction n arbitrary: s')
  case (Suc n)
  then obtain s1 where "(farm_step K ^^ n) s s1" "farm_step K s1 s'" by auto
  then show ?case using Suc.IH [of s1] farm_step_weight [of K s1 s'] by simp
qed simp

lemma farm_stuck:
  assumes ok: "farm_ok K M s" and M: "0 < M" and stuck: "\<nexists>s'. farm_step K s s'"
  shows "(\<forall>w \<in> set (f_workers s). w_next w = K \<and> \<not> w_waits w) \<and> f_replies s = [] \<and> concat (map in_hand (f_servers s)) = []"
proof -
  note D = farm_okD [OF ok]
  have h: "f_request (f_servers s ! j) = None" if "j < length (f_servers s)" for j
    using stuck that by (cases "f_request (f_servers s ! j)") (auto intro: farm_step.s_reply)
  then have c: "concat (map in_hand (f_servers s)) = []" by (auto simp: in_hand_def in_set_conv_nth)
  have q: "f_requests s = []"
  proof (rule ccontr)
    assume "f_requests s \<noteq> []"
    then obtain t m where "(t, m) \<in> set (f_requests s)" by (cases "f_requests s") auto
    with farm_step.s_recv [of 0 s t m K] h [of 0] D(3) M stuck show False by auto
  qed
  have r: "f_replies s = []"
  proof (rule ccontr)
    assume "f_replies s \<noteq> []"
    then obtain t j m where x: "(t, j, m) \<in> set (f_replies s)" by (cases "f_replies s") auto
    with reply_owed [OF ok x] stuck show False by (blast intro: farm_step.w_recv)
  qed
  have none: "concat (map owed_to (enumerate 0 (f_workers s))) = []" using D(1) q r c by (simp add: on_the_way_def)
  have w: "\<not> w_waits (f_workers s ! t)" if "t < length (f_workers s)" for t
  proof -
    have "(t, f_workers s ! t) \<in> set (enumerate 0 (f_workers s))" using that by (simp add: in_set_enumerate_eq)
    moreover have "\<forall>x \<in> set (enumerate 0 (f_workers s)). owed_to x = []" using none by simp
    ultimately have "owed_to (t, f_workers s ! t) = []" by blast
    then show ?thesis by (simp split: if_splits)
  qed
  have "w_next (f_workers s ! t) = K" if "t < length (f_workers s)" for t
    using w [OF that] D(2) [OF that] stuck farm_step.w_send [OF that] by (auto simp: worker_ok_def order.order_iff_strict)
  then show ?thesis using w r c by (auto simp: in_set_conv_nth)
qed

section \<open>Properties\<close>

text \<open>The load is balanced without losing or mixing up a reply. With \<open>M\<close> servers and \<open>N\<close> clients that make \<open>K\<close> requests
  each, in every interleaving and however the library distributes the requests, the \<open>i\<close>-th reply a client logs
  acknowledges its \<open>i\<close>-th request; a run takes at most \<open>4 N K\<close> steps; and when nothing can happen any more every client
  has its \<open>K\<close> replies and the servers have counted \<open>N K\<close> requests between them.\<close>

theorem farm_serves_all:
  assumes "(farm_step K)\<^sup>*\<^sup>* (farm_start M N) s" "0 < M"
  shows "(\<forall>t < N. \<forall>i < length (w_log (f_workers s ! t)). \<exists>j < M. w_log (f_workers s ! t) ! i = ack_text j (worker_text t i)) \<and>
    (\<forall>n. (farm_step K ^^ n) (farm_start M N) s \<longrightarrow> n \<le> 4 * N * K) \<and>
    ((\<nexists>s'. farm_step K s s') \<longrightarrow>
       (\<forall>t < N. length (w_log (f_workers s ! t)) = K) \<and> sum_list (map f_count (f_servers s)) = N * K)"
proof -
  have ok: "farm_ok K M s" and len: "length (f_workers s) = N" using farm_reachable_ok [OF assms(1)] by auto
  note D = farm_okD [OF ok]
  have "farm_weight K (farm_start M N) = 4 * N * K"
    by (auto simp: farm_weight_def farm_start_def worker_weight_def in_hand_def sum_list_replicate)
  then have "n \<le> 4 * N * K" if "(farm_step K ^^ n) (farm_start M N) s" for n using farm_run_bound [OF that] by simp
  moreover have "(\<forall>t < N. length (w_log (f_workers s ! t)) = K) \<and> sum_list (map f_count (f_servers s)) = N * K"
    if "\<nexists>s'. farm_step K s s'"
  proof -
    note e = farm_stuck [OF ok assms(2) that]
    have "length (w_log (f_workers s ! t)) = K" if "t < N" for t
    proof -
      have "w_next (f_workers s ! t) = K" using e len nth_mem [of t "f_workers s"] \<open>t < N\<close> by simp
      then show ?thesis using D(2) [of t] len \<open>t < N\<close> by (simp add: worker_ok_def)
    qed
    moreover have "map w_next (f_workers s) = replicate N K" using e len by (intro replicate_eqI) auto
    ultimately show ?thesis using D(5) e by (simp add: sum_list_replicate)
  qed
  ultimately show ?thesis using D(2) len by (auto simp: worker_ok_def)
qed

theorem farm_serves_all_witness:
  "sum_list (map f_count (f_servers (rep_reply 1 0 (worker_text 0 0) (rep_recv 1 0 (worker_text 0 0) (worker_send 0 (farm_start 2 1)))))) = 1 \<and>
   (\<forall>n. (farm_step 1 ^^ n) (farm_start 2 1)
      (rep_reply 1 0 (worker_text 0 0) (rep_recv 1 0 (worker_text 0 0) (worker_send 0 (farm_start 2 1)))) \<longrightarrow> n \<le> 4)"
proof -
  let ?m = "worker_text 0 0"
  let ?s1 = "worker_send 0 (farm_start 2 1)"
  let ?s2 = "rep_recv 1 0 ?m ?s1"
  let ?s3 = "rep_reply 1 0 ?m ?s2"
  have "farm_step 1 (farm_start 2 1) ?s1" by (rule farm_step.w_send) (simp_all add: farm_start_def)
  moreover have "farm_step 1 ?s1 ?s2" by (rule farm_step.s_recv) (simp_all add: farm_start_def worker_send_def)
  moreover have "farm_step 1 ?s2 ?s3" by (rule farm_step.s_reply) (simp_all add: farm_start_def worker_send_def rep_recv_def)
  ultimately have "(farm_step 1)\<^sup>*\<^sup>* (farm_start 2 1) ?s3" by (meson converse_rtranclp_into_rtranclp rtranclp.rtrancl_refl)
  with farm_serves_all [of 1 2 1 ?s3] show ?thesis by (simp add: farm_start_def worker_send_def rep_recv_def rep_reply_def numeral_2_eq_2)
qed

text \<open>Every server has an address of its own.\<close>

primrec decimal_value :: "nat \<Rightarrow> string \<Rightarrow> nat" where
  "decimal_value a [] = a"
| "decimal_value a (c # cs) = decimal_value (10 * a + (of_char c - 48)) cs"

lemma decimal_value_append: "decimal_value a (xs @ ys) = decimal_value (decimal_value a xs) ys"
  by (induction xs arbitrary: a) simp_all

lemma digits_value: "n < k \<Longrightarrow> decimal_value 0 (digits k n) = n"
proof (induction k arbitrary: n)
  case (Suc k)
  show ?case
  proof (cases "n < 10")
    case False
    then have "n div 10 < k" using Suc.prems by simp
    then show ?thesis using False Suc.IH [of "n div 10"] by (simp add: decimal_value_append of_char_of)
  qed (simp add: of_char_of)
qed simp

lemma str_int_inject: "str_int (int m) = str_int (int n) \<longleftrightarrow> m = n"
proof
  assume "str_int (int m) = str_int (int n)"
  then have "digits (Suc m) m = digits (Suc n) n" by (simp add: str_int_def del: digits.simps)
  then show "m = n" using digits_value [of m "Suc m"] digits_value [of n "Suc n"] by (metis lessI)
qed simp

lemma server_urls_distinct: "distinct (server_urls M ipc tmpdir base_port) \<and> length (server_urls M ipc tmpdir base_port) = M"
  by (auto simp: server_urls_def distinct_map inj_on_def str_int_inject simp flip: of_nat_add)

end
