(* ===== verification/TlsDemo.thy ===== *)
theory TlsDemo
  imports Tls Codec
begin

text \<open>
  The TLS examples (\<^verbatim>\<open>TLS/_pki.py\<close>, \<^verbatim>\<open>one_way.py\<close>, \<^verbatim>\<open>mtls.py\<close>, \<^verbatim>\<open>rejected.py\<close>) and the certificates and
  configurations of \<^verbatim>\<open>bench_overhead.py\<close>: which certificates are made, how the factories of \<open>Tls\<close> are called, and which
  connections a TLS engine then accepts. The libraries that make and check certificates are arguments;
  \<open>engine_verifies\<close> names what is documented of the check.
\<close>

section \<open>Certificates\<close>

datatype general_name = DNSName string | IPAddress string

text \<open>What is certified; keys are numbers, one number for the two halves.\<close>

record x509 =
  x_subject :: string
  x_issuer :: string
  x_public_key :: nat
  x_serial :: nat
  x_not_before :: int
  x_not_after :: int
  x_ca :: bool
  x_san :: "general_name list"
  x_signed_by :: nat

record Pki =
  ca_pem :: pystr
  srv_cert_pem :: pystr
  srv_key_pem :: pystr
  cli_cert_pem :: pystr
  cli_key_pem :: pystr

text \<open>How the library prints certificates and keys.\<close>

record pem_lib =
  pem_cert :: "x509 \<Rightarrow> pystr"
  pem_key :: "nat \<Rightarrow> pystr"

text \<open>
  The three certificates of \<open>build_pki\<close>: \<open>now i\<close> is the \<open>i\<close>-th reading of the clock, in seconds, and \<open>ca_key\<close>, \<open>srv_key\<close>,
  \<open>cli_key\<close> are the fresh keys.
\<close>

definition ca_certificate :: "string \<Rightarrow> int \<Rightarrow> int \<Rightarrow> (nat \<Rightarrow> int) \<Rightarrow> nat \<Rightarrow> x509" where
  "ca_certificate name skew life now ca_key =
     \<lparr>x_subject = name, x_issuer = name, x_public_key = ca_key, x_serial = 1, x_not_before = now 0 - skew, x_not_after = now 1 + life,
      x_ca = True, x_san = [], x_signed_by = ca_key\<rparr>"

definition srv_certificate :: "x509 \<Rightarrow> int \<Rightarrow> int \<Rightarrow> (nat \<Rightarrow> int) \<Rightarrow> nat \<Rightarrow> nat \<Rightarrow> x509" where
  "srv_certificate ca skew life now ca_key srv_key =
     \<lparr>x_subject = ''localhost'', x_issuer = x_subject ca, x_public_key = srv_key, x_serial = 2, x_not_before = now 2 - skew,
      x_not_after = now 3 + life, x_ca = False, x_san = [DNSName ''localhost'', IPAddress ''127.0.0.1''], x_signed_by = ca_key\<rparr>"

definition cli_certificate :: "x509 \<Rightarrow> string \<Rightarrow> int \<Rightarrow> int \<Rightarrow> (nat \<Rightarrow> int) \<Rightarrow> nat \<Rightarrow> nat \<Rightarrow> x509" where
  "cli_certificate ca name skew life now ca_key cli_key =
     \<lparr>x_subject = name, x_issuer = x_subject ca, x_public_key = cli_key, x_serial = 3, x_not_before = now 4 - skew,
      x_not_after = now 5 + life, x_ca = False, x_san = [], x_signed_by = ca_key\<rparr>"

type_synonym pki_keys = "nat \<times> nat \<times> nat"

definition demo_certs :: "(nat \<Rightarrow> int) \<Rightarrow> pki_keys \<Rightarrow> x509 \<times> x509 \<times> x509" where
  "demo_certs now keys =
     (let (k, s, c) = keys; ca = ca_certificate ''Demo CA'' 5 86400 now k
      in (ca, srv_certificate ca 5 86400 now k s, cli_certificate ca ''demo-client'' 5 86400 now k c))"

definition bench_certs :: "(nat \<Rightarrow> int) \<Rightarrow> pki_keys \<Rightarrow> x509 \<times> x509 \<times> x509" where
  "bench_certs now keys =
     (let (k, s, c) = keys; ca = ca_certificate ''Bench CA'' 1 86400 now k
      in (ca, srv_certificate ca 1 86400 now k s, cli_certificate ca ''bench-client'' 1 86400 now k c))"

definition print_pki :: "pem_lib \<Rightarrow> pki_keys \<Rightarrow> x509 \<times> x509 \<times> x509 \<Rightarrow> Pki" where
  "print_pki lib keys certs =
     (let (k, s, c) = keys; (ca, srv, cli) = certs
      in \<lparr>ca_pem = pem_cert lib ca, srv_cert_pem = pem_cert lib srv, srv_key_pem = pem_key lib s,
          cli_cert_pem = pem_cert lib cli, cli_key_pem = pem_key lib c\<rparr>)"

definition build_pki :: "pem_lib \<Rightarrow> (nat \<Rightarrow> int) \<Rightarrow> pki_keys \<Rightarrow> Pki" where
  "build_pki lib now keys = print_pki lib keys (demo_certs now keys)"

definition bench_build_pki :: "pem_lib \<Rightarrow> (nat \<Rightarrow> int) \<Rightarrow> pki_keys \<Rightarrow> Pki" where
  "bench_build_pki lib now keys = print_pki lib keys (bench_certs now keys)"

section \<open>The engine\<close>

text \<open>
  How it reads PEM text, its clock, and the outcome of dialling with the two configurations (server, then client).
\<close>

record tls_peer =
  en_cert :: "bytes \<Rightarrow> x509 option"
  en_key :: "bytes \<Rightarrow> nat option"
  en_now :: int
  en_handshake :: "tls_call list \<Rightarrow> tls_call list \<Rightarrow> nng_err"

text \<open>The certificate a side presents (with the key that belongs to it), the one it trusts, its mode and its expected name.\<close>

fun presented :: "tls_peer \<Rightarrow> tls_call list \<Rightarrow> x509 option" where
  "presented E [] = None"
| "presented E (OwnCert c k p # xs) =
     (case (en_cert E c, en_key E k) of
        (Some x, Some key) \<Rightarrow> if x_public_key x = key then Some x else None
      | _ \<Rightarrow> None)"
| "presented E (_ # xs) = presented E xs"

fun trusted :: "tls_peer \<Rightarrow> tls_call list \<Rightarrow> x509 option" where
  "trusted E [] = None"
| "trusted E (CaChain c crl # xs) = en_cert E c"
| "trusted E (_ # xs) = trusted E xs"

fun mode_of :: "auth_mode \<Rightarrow> tls_call list \<Rightarrow> auth_mode" where
  "mode_of d [] = d"
| "mode_of d (AuthMode m # xs) = m"
| "mode_of d (_ # xs) = mode_of d xs"

fun name_of :: "tls_call list \<Rightarrow> bytes option" where
  "name_of [] = None"
| "name_of (ServerName n # xs) = Some n"
| "name_of (_ # xs) = name_of xs"

fun versions_of :: "tls_call list \<Rightarrow> (tls_version \<times> tls_version) option" where
  "versions_of [] = None"
| "versions_of (Version a b # xs) = Some (a, b)"
| "versions_of (_ # xs) = versions_of xs"

definition valid_now :: "tls_peer \<Rightarrow> x509 \<Rightarrow> bool" where
  "valid_now E x \<longleftrightarrow> x_not_before x \<le> en_now E \<and> en_now E \<le> x_not_after x"

definition chains :: "tls_peer \<Rightarrow> x509 option \<Rightarrow> x509 option \<Rightarrow> bool" where
  "chains E ca x =
     (case (ca, x) of
        (Some ca, Some x) \<Rightarrow> x_ca ca \<and> x_issuer x = x_subject ca \<and> x_signed_by x = x_public_key ca \<and> valid_now E ca \<and> valid_now E x
      | _ \<Rightarrow> False)"

text \<open>\<open>name\<close> is a host name of the certificate.\<close>

definition names :: "x509 option \<Rightarrow> bytes option \<Rightarrow> bool" where
  "names x name = (case (x, name) of (Some x, Some n) \<Rightarrow> list_ex (\<lambda>g. case g of DNSName d \<Rightarrow> cstr (lit d) = n | _ \<Rightarrow> False) (x_san x) | _ \<Rightarrow> name = None)"

definition client_verifies :: "tls_peer \<Rightarrow> tls_call list \<Rightarrow> tls_call list \<Rightarrow> bool" where
  "client_verifies E srv cli \<longleftrightarrow>
     mode_of AUTH_REQUIRED cli = AUTH_NONE \<or> chains E (trusted E cli) (presented E srv) \<and> names (presented E srv) (name_of cli)"

definition server_verifies :: "tls_peer \<Rightarrow> tls_call list \<Rightarrow> tls_call list \<Rightarrow> bool" where
  "server_verifies E srv cli \<longleftrightarrow> mode_of AUTH_NONE srv \<noteq> AUTH_REQUIRED \<or> chains E (trusted E srv) (presented E cli)"

text \<open>
  For sides that agree on the versions, the connection is made just when each side that checks finds what it
  asks for, and else the dialler sees an authentication or a crypto error.
\<close>

definition engine_verifies :: "tls_peer \<Rightarrow> bool" where
  "engine_verifies E \<longleftrightarrow>
     (\<forall>srv cli. versions_of srv = versions_of cli \<longrightarrow>
        (if client_verifies E srv cli \<and> server_verifies E srv cli \<and> presented E srv \<noteq> None then en_handshake E srv cli = NNG_OK
         else en_handshake E srv cli \<in> {NNG_EPEERAUTH, NNG_ECRYPTO}))"

section \<open>The programs\<close>

definition no_args :: cert_args where
  "no_args = \<lparr>a_server_name = None, a_ca_pem = None, a_crl_pem = None, a_ca_file = None, a_cert_pem = None, a_key_pem = None,
     a_cert_file = None, a_password = None, a_auth_mode = None, a_min_version = None, a_max_version = None\<rparr>"

definition localhost :: pystr where
  "localhost = lit ''localhost''"

definition one_way_server :: "Pki \<Rightarrow> cert_args" where
  "one_way_server pki = no_args\<lparr>a_cert_pem := Some (srv_cert_pem pki), a_key_pem := Some (srv_key_pem pki)\<rparr>"

definition one_way_client :: "Pki \<Rightarrow> cert_args" where
  "one_way_client pki = no_args\<lparr>a_server_name := Some localhost, a_ca_pem := Some (ca_pem pki)\<rparr>"

definition mtls_server :: "Pki \<Rightarrow> cert_args" where
  "mtls_server pki = no_args\<lparr>a_cert_pem := Some (srv_cert_pem pki), a_key_pem := Some (srv_key_pem pki), a_ca_pem := Some (ca_pem pki),
     a_auth_mode := Some AUTH_REQUIRED\<rparr>"

definition mtls_client :: "Pki \<Rightarrow> cert_args" where
  "mtls_client pki = no_args\<lparr>a_server_name := Some localhost, a_ca_pem := Some (ca_pem pki),
     a_cert_pem := Some (cli_cert_pem pki), a_key_pem := Some (cli_key_pem pki)\<rparr>"

text \<open>\<open>_make_tls_configs\<close> of the benchmark.\<close>

definition bench_tls_args :: "Pki \<Rightarrow> cert_args \<times> cert_args" where
  "bench_tls_args pki = ((mtls_server pki)\<lparr>a_min_version := Some TLS_1_3\<rparr>, (mtls_client pki)\<lparr>a_min_version := Some TLS_1_3\<rparr>)"

datatype demo_exn = SystemExit | AssertionError | Failed py_exn

definition make_config :: "(tls_st, py_exn, bool \<times> tls_call list) op \<Rightarrow> demo_exn + tls_call list" where
  "make_config factory = (case fst (factory \<lparr>applied = [], configs = 0\<rparr>) of Inl e \<Rightarrow> Inl (Failed e) | Inr (server, calls) \<Rightarrow> Inr calls)"

definition dial_tls :: "tls_peer \<Rightarrow> tls_call list \<Rightarrow> tls_call list \<Rightarrow> demo_exn + unit" where
  "dial_tls E srv cli = map_sum Failed id (check_err (en_handshake E srv cli))"

text \<open>
  The body of \<open>one_way.py\<close> and of \<open>mtls.py\<close>: the reply to \<open>msg\<close>. \<open>engine\<close> tells whether TLS is compiled in; \<open>notified\<close>
  whether the dispatcher thread has run \<open>_on_new_pipe\<close> for the accepted pipe when \<open>pipe_accepted\<close> is read.
\<close>

definition tls_round_trip :: "bool \<Rightarrow> tls_env \<Rightarrow> tls_peer \<Rightarrow> bool \<Rightarrow> cert_args \<Rightarrow> cert_args \<Rightarrow> string \<Rightarrow> demo_exn + string" where
  "tls_round_trip engine env E notified srv_args cli_args msg =
     (if \<not> engine then Inl SystemExit
      else bindR (make_config (for_server env srv_args)) (\<lambda>srv_cfg.
           bindR (make_config (for_client env cli_args)) (\<lambda>cli_cfg.
           bindR (dial_tls E srv_cfg cli_cfg) (\<lambda>_.
           let reply = ''echo: '' @ msg in if notified then Inr reply else Inl AssertionError))))"

definition one_way_main :: "bool \<Rightarrow> tls_env \<Rightarrow> tls_peer \<Rightarrow> bool \<Rightarrow> Pki \<Rightarrow> demo_exn + string" where
  "one_way_main engine env E notified pki =
     tls_round_trip engine env E notified (one_way_server pki) (one_way_client pki) ''hello over TLS''"

definition mtls_main :: "bool \<Rightarrow> tls_env \<Rightarrow> tls_peer \<Rightarrow> bool \<Rightarrow> Pki \<Rightarrow> demo_exn + string" where
  "mtls_main engine env E notified pki =
     tls_round_trip engine env E notified (mtls_server pki) (mtls_client pki) ''hello over mTLS''"

text \<open>
  A scenario that expects a rejection: whether it was rejected, and \<open>pipe_count\<close> when it is compared.
  Other errors than the two of \<open>_TLS_HANDSHAKE_ERRORS\<close> are raised.
\<close>

definition reject_scenario :: "tls_peer \<Rightarrow> bool \<Rightarrow> tls_call list \<Rightarrow> tls_call list \<Rightarrow> nat \<Rightarrow> demo_exn + bool \<times> nat" where
  "reject_scenario E notified srv cli pipe_count =
     (case dial_tls E srv cli of
        Inr _ \<Rightarrow> Inr (False, pipe_count + (if notified then 1 else 0))
      | Inl (Failed e) \<Rightarrow>
          if isinstance e (NngC NngAuthError) \<or> isinstance e (NngC NngCryptoError) then Inr (True, pipe_count) else Inl (Failed e)
      | Inl e \<Rightarrow> Inl e)"

text \<open>\<open>rejected.py\<close>: the two rejections, the reply of the last scenario and the final count; \<open>notified i\<close> belongs to the \<open>i\<close>-th scenario.\<close>

definition rejected_main :: "bool \<Rightarrow> tls_env \<Rightarrow> tls_peer \<Rightarrow> (nat \<Rightarrow> bool) \<Rightarrow> Pki \<Rightarrow> Pki \<Rightarrow> demo_exn + bool \<times> bool \<times> string \<times> nat" where
  "rejected_main engine env E notified pki foreign_pki =
     (if \<not> engine then Inl SystemExit
      else bindR (make_config (for_server env (mtls_server pki))) (\<lambda>srv_cfg.
           bindR (make_config (for_client env (mtls_client foreign_pki))) (\<lambda>foreign_cli_cfg.
           bindR (reject_scenario E (notified 0) srv_cfg foreign_cli_cfg 0) (\<lambda>(a, n1).
           bindR (make_config (for_client env (one_way_client pki))) (\<lambda>no_cert_cli_cfg.
           bindR (reject_scenario E (notified 1) srv_cfg no_cert_cli_cfg n1) (\<lambda>(b, n2).
           bindR (make_config (for_client env (mtls_client pki))) (\<lambda>valid_cli_cfg.
           bindR (dial_tls E srv_cfg valid_cli_cfg) (\<lambda>_.
           Inr (a, b, ''echo: hello from valid client'', n2 + (if notified 2 then 1 else 0))))))))))"

text \<open>The configurations of the benchmark and its connection.\<close>

definition bench_tls_connect :: "tls_env \<Rightarrow> tls_peer \<Rightarrow> Pki \<Rightarrow> demo_exn + unit" where
  "bench_tls_connect env E pki =
     (let (srv_args, cli_args) = bench_tls_args pki in
      bindR (make_config (for_server env srv_args)) (\<lambda>srv_cfg.
      bindR (make_config (for_client env cli_args)) (\<lambda>cli_cfg. dial_tls E srv_cfg cli_cfg)))"

section \<open>Lemmas\<close>

lemma for_client_outcome:
  "factory_ok (can_alloc env False \<and> engine_accepts (te_engine env) \<and> cert_args_ok a)
     (False, name_calls a @ ca_calls a @ ca_file_calls a @ own_cert_calls a @ mode_calls a @ version_calls (a_min_version a) (a_max_version a))
     s (for_client env a s)"
  unfolding for_client_def by (intro configured_outcome makes_bind makes_rules) auto

lemma for_server_outcome:
  "factory_ok (can_alloc env True \<and> engine_accepts (te_engine env) \<and> cert_args_ok a)
     (True, own_cert_calls a @ ca_calls a @ ca_file_calls a @ mode_calls a @ version_calls (a_min_version a) (a_max_version a))
     s (for_server env a s)"
  unfolding for_server_def by (intro configured_outcome makes_bind makes_rules) auto

definition env_ok :: "tls_env \<Rightarrow> bool" where
  "env_ok env \<longleftrightarrow> can_alloc env True \<and> can_alloc env False \<and> engine_accepts (te_engine env)"

lemma make_client_config:
  "env_ok env \<Longrightarrow> cert_args_ok a \<Longrightarrow> make_config (for_client env a) =
     Inr (name_calls a @ ca_calls a @ ca_file_calls a @ own_cert_calls a @ mode_calls a @ version_calls (a_min_version a) (a_max_version a))"
  using for_client_outcome [of env a "\<lparr>applied = [], configs = 0\<rparr>"]
  by (auto simp: make_config_def factory_ok_def env_ok_def split: prod.splits sum.splits)

lemma make_server_config:
  "env_ok env \<Longrightarrow> cert_args_ok a \<Longrightarrow> make_config (for_server env a) =
     Inr (own_cert_calls a @ ca_calls a @ ca_file_calls a @ mode_calls a @ version_calls (a_min_version a) (a_max_version a))"
  using for_server_outcome [of env a "\<lparr>applied = [], configs = 0\<rparr>"]
  by (auto simp: make_config_def factory_ok_def env_ok_def split: prod.splits sum.splits)

text \<open>The engine reads what the library has printed.\<close>

definition reads_pki :: "pem_lib \<Rightarrow> tls_peer \<Rightarrow> pki_keys \<Rightarrow> x509 \<times> x509 \<times> x509 \<Rightarrow> bool" where
  "reads_pki lib E keys certs \<longleftrightarrow>
     (let (k, s, c) = keys; (ca, srv, cli) = certs
      in (\<forall>x \<in> {ca, srv, cli}. list_all scalar (pem_cert lib x) \<and> en_cert E (cstr (pem_cert lib x)) = Some x) \<and>
         (\<forall>y \<in> {s, c}. list_all scalar (pem_key lib y) \<and> en_key E (cstr (pem_key lib y)) = Some y))"

definition clock_ok :: "tls_peer \<Rightarrow> (nat \<Rightarrow> int) \<Rightarrow> bool" where
  "clock_ok E now \<longleftrightarrow> (\<forall>i. now i \<le> en_now E \<and> en_now E \<le> now i + 86400)"

lemma dial_ok: "engine_verifies E \<Longrightarrow> versions_of srv = versions_of cli \<Longrightarrow> client_verifies E srv cli \<Longrightarrow> server_verifies E srv cli \<Longrightarrow>
    presented E srv \<noteq> None \<Longrightarrow> dial_tls E srv cli = Inr ()"
  by (auto simp: engine_verifies_def dial_tls_def check_err_def)

lemma dial_refused:
  assumes "engine_verifies E" "versions_of srv = versions_of cli" "\<not> (client_verifies E srv cli \<and> server_verifies E srv cli)"
  shows "reject_scenario E b srv cli n = Inr (True, n)"
proof -
  have "en_handshake E srv cli \<in> {NNG_EPEERAUTH, NNG_ECRYPTO}" using assms unfolding engine_verifies_def by (smt (verit))
  then show ?thesis by (auto simp: reject_scenario_def dial_tls_def check_err_def isinstance_err_from_code ERR_MAP_def)
qed

lemma lit_scalar [simp]: "list_all scalar (lit s)"
  by (induction s) (auto simp: scalar_def of_char_def)

lemma localhost_scalar [simp]: "list_all scalar localhost"
  unfolding localhost_def by (rule lit_scalar)

lemma demo_args_ok:
  assumes "reads_pki lib E keys certs"
  shows "cert_args_ok (one_way_server (print_pki lib keys certs))" "cert_args_ok (one_way_client (print_pki lib keys certs))"
    "cert_args_ok (mtls_server (print_pki lib keys certs))" "cert_args_ok (mtls_client (print_pki lib keys certs))"
  using assms
  by (auto simp: reads_pki_def print_pki_def one_way_server_def one_way_client_def mtls_server_def mtls_client_def no_args_def cert_args_ok_def text_ok_def
      split: prod.splits)

text \<open>The calls of the three kinds of client and of the two kinds of server.\<close>

lemmas demo_calls_simps = one_way_server_def one_way_client_def mtls_server_def mtls_client_def no_args_def version_calls_def

lemma demo_configs:
  assumes "env_ok env" "reads_pki lib E keys certs"
  defines "pki \<equiv> print_pki lib keys certs"
  shows "make_config (for_server env (one_way_server pki)) = Inr [OwnCert (cstr (srv_cert_pem pki)) (cstr (srv_key_pem pki)) None]"
    "make_config (for_client env (one_way_client pki)) = Inr [ServerName (cstr localhost), CaChain (cstr (ca_pem pki)) None]"
    "make_config (for_server env (mtls_server pki)) =
       Inr [OwnCert (cstr (srv_cert_pem pki)) (cstr (srv_key_pem pki)) None, CaChain (cstr (ca_pem pki)) None, AuthMode AUTH_REQUIRED]"
    "make_config (for_client env (mtls_client pki)) =
       Inr [ServerName (cstr localhost), CaChain (cstr (ca_pem pki)) None, OwnCert (cstr (cli_cert_pem pki)) (cstr (cli_key_pem pki)) None]"
  using make_server_config [OF assms(1) demo_args_ok(1) [OF assms(2)]] make_client_config [OF assms(1) demo_args_ok(2) [OF assms(2)]]
    make_server_config [OF assms(1) demo_args_ok(3) [OF assms(2)]] make_client_config [OF assms(1) demo_args_ok(4) [OF assms(2)]]
  by (simp_all add: pki_def demo_calls_simps)

text \<open>What the engine reads of the certificates of one build.\<close>

lemma reads_pkiD:
  assumes "reads_pki lib E (k, s, c) (ca, srv, cli)"
  defines "pki \<equiv> print_pki lib (k, s, c) (ca, srv, cli)"
  shows "en_cert E (cstr (ca_pem pki)) = Some ca" "en_cert E (cstr (srv_cert_pem pki)) = Some srv" "en_key E (cstr (srv_key_pem pki)) = Some s"
    "en_cert E (cstr (cli_cert_pem pki)) = Some cli" "en_key E (cstr (cli_key_pem pki)) = Some c"
  using assms(1) by (simp_all add: reads_pki_def pki_def print_pki_def)

lemma bench_configs:
  assumes "env_ok env" "reads_pki lib E keys certs"
  defines "pki \<equiv> print_pki lib keys certs"
  shows "make_config (for_server env (fst (bench_tls_args pki))) =
       Inr [OwnCert (cstr (srv_cert_pem pki)) (cstr (srv_key_pem pki)) None, CaChain (cstr (ca_pem pki)) None, AuthMode AUTH_REQUIRED,
            Version TLS_1_3 TLS_1_3]"
    "make_config (for_client env (snd (bench_tls_args pki))) =
       Inr [ServerName (cstr localhost), CaChain (cstr (ca_pem pki)) None, OwnCert (cstr (cli_cert_pem pki)) (cstr (cli_key_pem pki)) None,
            Version TLS_1_3 TLS_1_3]"
proof -
  have "cert_args_ok (fst (bench_tls_args pki))" "cert_args_ok (snd (bench_tls_args pki))"
    using demo_args_ok [OF assms(2)] by (simp_all add: pki_def bench_tls_args_def cert_args_ok_def)
  from make_server_config [OF assms(1) this(1)] make_client_config [OF assms(1) this(2)]
  show "make_config (for_server env (fst (bench_tls_args pki))) =
       Inr [OwnCert (cstr (srv_cert_pem pki)) (cstr (srv_key_pem pki)) None, CaChain (cstr (ca_pem pki)) None, AuthMode AUTH_REQUIRED,
            Version TLS_1_3 TLS_1_3]"
    "make_config (for_client env (snd (bench_tls_args pki))) =
       Inr [ServerName (cstr localhost), CaChain (cstr (ca_pem pki)) None, OwnCert (cstr (cli_cert_pem pki)) (cstr (cli_key_pem pki)) None,
            Version TLS_1_3 TLS_1_3]"
    by (simp_all add: bench_tls_args_def demo_calls_simps)
qed

text \<open>A leaf certificate of a build chains to the authority of that build and to no other; the server's has its host name.\<close>

lemma leaf_chains:
  fixes n now k sk
  defines "ca \<equiv> ca_certificate n sk 86400 now k"
  assumes "clock_ok E now" "0 \<le> sk"
  shows "chains E (Some ca) (Some (srv_certificate ca sk 86400 now k s))" "chains E (Some ca) (Some (cli_certificate ca m sk 86400 now k c))"
proof -
  have *: "now i - sk \<le> en_now E \<and> en_now E \<le> now i + 86400" for i
    using assms(2) [unfolded clock_ok_def, rule_format, of i] assms(3) by linarith
  show "chains E (Some ca) (Some (srv_certificate ca sk 86400 now k s))" "chains E (Some ca) (Some (cli_certificate ca m sk 86400 now k c))"
    by (simp_all add: * chains_def valid_now_def ca_def ca_certificate_def srv_certificate_def cli_certificate_def)
qed

lemma foreign_chain: "k' \<noteq> k \<Longrightarrow> \<not> chains E (Some (ca_certificate n sk' life' now' k')) (Some (srv_certificate ca sk life now k s))"
  by (simp add: chains_def ca_certificate_def srv_certificate_def)

lemma srv_named: "names (Some (srv_certificate ca sk life now k s)) (Some (cstr localhost))"
  by (simp add: names_def srv_certificate_def localhost_def)

lemma leaf_keys [simp]: "x_public_key (srv_certificate ca sk life now k s) = s" "x_public_key (cli_certificate ca m sk life now k c) = c"
  by (simp_all add: srv_certificate_def cli_certificate_def)

definition fit :: "tls_peer \<Rightarrow> pki_keys \<Rightarrow> x509 \<times> x509 \<times> x509 \<Rightarrow> bool" where
  "fit E keys certs \<longleftrightarrow>
     (let (k, s, c) = keys; (ca, srv, cli) = certs
      in chains E (Some ca) (Some srv) \<and> chains E (Some ca) (Some cli) \<and> names (Some srv) (Some (cstr localhost)) \<and>
         x_public_key srv = s \<and> x_public_key cli = c)"

lemma demo_fit: "clock_ok E now \<Longrightarrow> fit E keys (demo_certs now keys)"
  by (cases keys) (simp add: fit_def demo_certs_def leaf_chains srv_named Let_def)

lemma bench_fit: "clock_ok E now \<Longrightarrow> fit E keys (bench_certs now keys)"
  by (cases keys) (simp add: fit_def bench_certs_def leaf_chains srv_named Let_def)

lemma demo_foreign: "fst keys' \<noteq> fst keys \<Longrightarrow> \<not> chains E (Some (fst (demo_certs now' keys'))) (Some (fst (snd (demo_certs now keys))))"
  by (cases keys; cases keys') (simp add: demo_certs_def foreign_chain Let_def)

text \<open>The two sides with certificates \<open>srv\<close> and \<open>cli\<close> of one authority \<open>ca\<close>, in the configurations of the programs.\<close>

lemma connections:
  assumes E: "engine_verifies E" and rd: "reads_pki lib E keys certs" and fit: "fit E keys certs"
  defines "pki \<equiv> print_pki lib keys certs"
  shows "dial_tls E [OwnCert (cstr (srv_cert_pem pki)) (cstr (srv_key_pem pki)) None] [ServerName (cstr localhost), CaChain (cstr (ca_pem pki)) None] = Inr ()"
    "versions_of vs = versions_of ws \<Longrightarrow>
       dial_tls E (OwnCert (cstr (srv_cert_pem pki)) (cstr (srv_key_pem pki)) None # CaChain (cstr (ca_pem pki)) None # AuthMode AUTH_REQUIRED # vs)
       (ServerName (cstr localhost) # CaChain (cstr (ca_pem pki)) None # OwnCert (cstr (cli_cert_pem pki)) (cstr (cli_key_pem pki)) None # ws) = Inr ()"
    "reject_scenario E b [OwnCert (cstr (srv_cert_pem pki)) (cstr (srv_key_pem pki)) None, CaChain (cstr (ca_pem pki)) None, AuthMode AUTH_REQUIRED]
       [ServerName (cstr localhost), CaChain (cstr (ca_pem pki)) None] i = Inr (True, i)"
proof -
  obtain k s c ca srv cli where [simp]: "keys = (k, s, c)" "certs = (ca, srv, cli)" by (cases keys; cases certs) auto
  note r = reads_pkiD [OF rd [simplified]]
  show "dial_tls E [OwnCert (cstr (srv_cert_pem pki)) (cstr (srv_key_pem pki)) None] [ServerName (cstr localhost), CaChain (cstr (ca_pem pki)) None] = Inr ()"
    using fit r by (auto simp: pki_def fit_def client_verifies_def server_verifies_def intro!: dial_ok [OF E])
  show "versions_of vs = versions_of ws \<Longrightarrow>
       dial_tls E (OwnCert (cstr (srv_cert_pem pki)) (cstr (srv_key_pem pki)) None # CaChain (cstr (ca_pem pki)) None # AuthMode AUTH_REQUIRED # vs)
       (ServerName (cstr localhost) # CaChain (cstr (ca_pem pki)) None # OwnCert (cstr (cli_cert_pem pki)) (cstr (cli_key_pem pki)) None # ws) = Inr ()"
    using fit r by (auto simp: pki_def fit_def client_verifies_def server_verifies_def intro!: dial_ok [OF E])
  show "reject_scenario E b [OwnCert (cstr (srv_cert_pem pki)) (cstr (srv_key_pem pki)) None, CaChain (cstr (ca_pem pki)) None, AuthMode AUTH_REQUIRED]
       [ServerName (cstr localhost), CaChain (cstr (ca_pem pki)) None] i = Inr (True, i)"
    using r by (intro dial_refused [OF E]) (auto simp: pki_def server_verifies_def chains_def)
qed

lemma foreign_refused:
  assumes E: "engine_verifies E" and rd: "reads_pki lib E keys certs" "reads_pki lib E keys' certs'" and fit: "fit E keys certs"
    and foreign: "\<not> chains E (Some (fst certs')) (Some (fst (snd certs)))"
  defines "pki \<equiv> print_pki lib keys certs" and "pki' \<equiv> print_pki lib keys' certs'"
  shows "reject_scenario E b [OwnCert (cstr (srv_cert_pem pki)) (cstr (srv_key_pem pki)) None, CaChain (cstr (ca_pem pki)) None, AuthMode AUTH_REQUIRED]
       [ServerName (cstr localhost), CaChain (cstr (ca_pem pki')) None, OwnCert (cstr (cli_cert_pem pki')) (cstr (cli_key_pem pki')) None] i = Inr (True, i)"
proof -
  obtain k s c ca srv cli k' s' c' ca' srv' cli' where
    [simp]: "keys = (k, s, c)" "certs = (ca, srv, cli)" "keys' = (k', s', c')" "certs' = (ca', srv', cli')"
    by (cases keys; cases certs; cases keys'; cases certs') auto
  show ?thesis using fit foreign reads_pkiD [OF rd(1) [simplified]] reads_pkiD [OF rd(2) [simplified]]
    by (intro dial_refused [OF E]) (auto simp: pki_def pki'_def fit_def client_verifies_def)
qed

section \<open>Properties\<close>


text \<open>
  A library that prints a certificate as one character, its key, and a key as another one, and an engine that
  reads these and does no more than the checks above.
\<close>

definition table_lib :: pem_lib where
  "table_lib = \<lparr>pem_cert = (\<lambda>x. [x_public_key x]), pem_key = (\<lambda>k. [64 + k])\<rparr>"

definition table_certs :: "x509 list" where
  "table_certs =
     (let all = (\<lambda>(ca, srv, cli). [ca, srv, cli]) in
      all (demo_certs (\<lambda>_. 0) (1, 2, 3)) @ all (demo_certs (\<lambda>_. 0) (4, 5, 6)) @ all (bench_certs (\<lambda>_. 0) (7, 8, 9)))"

definition table_reader :: tls_peer where
  "table_reader =
     \<lparr>en_cert = map_of (map (\<lambda>x. (cstr [x_public_key x], x)) table_certs),
      en_key = map_of (map (\<lambda>k. (cstr [64 + k], k)) [1, 2, 3, 4, 5, 6, 7, 8, 9]),
      en_now = 60, en_handshake = (\<lambda>_ _. NNG_OK)\<rparr>"

definition checker :: "tls_peer \<Rightarrow> tls_peer" where
  "checker E = E\<lparr>en_handshake := (\<lambda>srv cli.
     if client_verifies E srv cli \<and> server_verifies E srv cli \<and> presented E srv \<noteq> None then NNG_OK else NNG_EPEERAUTH)\<rparr>"

lemma checker_reads [simp]: "en_cert (checker E) = en_cert E" "en_key (checker E) = en_key E" "en_now (checker E) = en_now E"
  by (simp_all add: checker_def)

lemma checker_presented [simp]: "presented (checker E) xs = presented E xs"
  by (induction E xs rule: presented.induct) auto

lemma checker_trusted [simp]: "trusted (checker E) xs = trusted E xs"
  by (induction E xs rule: trusted.induct) auto

lemma checker_verifies: "engine_verifies (checker E)"
proof -
  have "chains (checker E) = chains E"
    by (intro ext) (simp add: chains_def valid_now_def split: option.splits)
  then have "client_verifies (checker E) = client_verifies E" "server_verifies (checker E) = server_verifies E"
    by (intro ext, simp add: client_verifies_def server_verifies_def)+
  moreover have "en_handshake (checker E) srv cli =
      (if client_verifies E srv cli \<and> server_verifies E srv cli \<and> presented E srv \<noteq> None then NNG_OK else NNG_EPEERAUTH)" for srv cli
    by (simp add: checker_def)
  ultimately show ?thesis by (auto simp: engine_verifies_def)
qed

lemmas table_simps = reads_pki_def table_reader_def table_certs_def table_lib_def demo_certs_def bench_certs_def ca_certificate_def
  srv_certificate_def cli_certificate_def cstr_def c_string_def utf8_def b8_def scalar_def


end
