(* ===== verification/Bench.thy ===== *)
theory Bench
  imports TlsDemo
begin

text \<open>
  The overhead benchmark of the secure sockets (\<^verbatim>\<open>PAIR/secure_subscriber/bench_overhead.py\<close>): the payload size read from the
  command line, the echo loop of the servers, the measuring loop, the six benchmarks with what they leave open when
  something fails, and the table of runs. The clock, the outcome of every exchange and the sockets are arguments.
\<close>

section \<open>Sizes\<close>

text \<open>The zeros of the decimal digits of Unicode 15 (Python 3.12 and 3.13), which \<open>\d\<close> matches and \<open>int\<close> reads.\<close>

definition decimal_zeros :: "nat list" where
  "decimal_zeros =
     [0x30, 0x660, 0x6F0, 0x7C0, 0x966, 0x9E6, 0xA66, 0xAE6, 0xB66, 0xBE6, 0xC66, 0xCE6,
      0xD66, 0xDE6, 0xE50, 0xED0, 0xF20, 0x1040, 0x1090, 0x17E0, 0x1810, 0x1946, 0x19D0, 0x1A80,
      0x1A90, 0x1B50, 0x1BB0, 0x1C40, 0x1C50, 0xA620, 0xA8D0, 0xA900, 0xA9D0, 0xA9F0, 0xAA50, 0xABF0,
      0xFF10, 0x104A0, 0x10D30, 0x11066, 0x110F0, 0x11136, 0x111D0, 0x112F0, 0x11450, 0x114D0, 0x11650, 0x116C0,
      0x11730, 0x118E0, 0x11950, 0x11C50, 0x11D50, 0x11DA0, 0x11F50, 0x16A60, 0x16AC0, 0x16B50, 0x1D7CE, 0x1D7D8,
      0x1D7E2, 0x1D7EC, 0x1D7F6, 0x1E140, 0x1E2F0, 0x1E4F0, 0x1E950, 0x1FBF0]"

definition is_decimal :: "nat \<Rightarrow> bool" where
  "is_decimal c \<longleftrightarrow> list_ex (\<lambda>z. z \<le> c \<and> c < z + 10) decimal_zeros"

text \<open>The digit is the distance to the zero of its block.\<close>

definition decimal_digit :: "nat \<Rightarrow> nat" where
  "decimal_digit c = (case find (\<lambda>z. z \<le> c \<and> c < z + 10) decimal_zeros of Some z \<Rightarrow> c - z | None \<Rightarrow> 0)"

definition int_value :: "pystr \<Rightarrow> nat" where
  "int_value ds = foldl (\<lambda>a c. 10 * a + decimal_digit c) 0 ds"

datatype size_exn = ArgumentTypeError | SizeValueError | SizeKeyError

text \<open>
  \<open>[BKMG]\<close> and \<open>B\<close>, ignoring case: the sign of the kelvin folds to the letter K.
\<close>

definition unit_char :: "nat \<Rightarrow> bool" where
  "unit_char c \<longleftrightarrow> c \<in> {66, 75, 77, 71, 98, 107, 109, 103, 0x212A}"

definition b_char :: "nat \<Rightarrow> bool" where
  "b_char c \<longleftrightarrow> c = 66 \<or> c = 98"

text \<open>\<open>str.upper\<close> on these characters.\<close>

definition upper_char :: "nat \<Rightarrow> nat" where
  "upper_char c = (if 97 \<le> c \<and> c \<le> 122 then c - 32 else c)"

text \<open>The two groups of the regular expression; an absent second group is empty.\<close>

definition match_size :: "pystr \<Rightarrow> (pystr \<times> pystr) option" where
  "match_size v =
     (let ds = takeWhile is_decimal v; suf = dropWhile str_space (dropWhile is_decimal v)
      in if ds = [] then None
         else case suf of
             [] \<Rightarrow> Some (ds, [])
           | [c] \<Rightarrow> if unit_char c then Some (ds, [c]) else None
           | [c, b] \<Rightarrow> if unit_char c \<and> b_char b then Some (ds, [c, b]) else None
           | _ \<Rightarrow> None)"

definition rstrip_B :: "pystr \<Rightarrow> pystr" where
  "rstrip_B s = rev (dropWhile (\<lambda>c. c = 66) (rev s))"

definition multipliers :: "(pystr \<times> nat) list" where
  "multipliers = [([66], 1), ([75], 1024), ([77], 1024 ^ 2), ([71], 1024 ^ 3)]"

text \<open>\<open>int\<close> refuses more than 4300 digits.\<close>

definition parse_size :: "pystr \<Rightarrow> size_exn + nat" where
  "parse_size v =
     (case match_size (str_strip v) of
        None \<Rightarrow> Inl ArgumentTypeError
      | Some (ds, group2) \<Rightarrow>
          if 4300 < length ds then Inl SizeValueError
          else
            let suffix = rstrip_B (map upper_char (if group2 = [] then [66] else group2));
                suffix = (if suffix = [] then [66] else suffix)
            in case map_of multipliers suffix of None \<Rightarrow> Inl SizeKeyError | Some m \<Rightarrow> Inr (int_value ds * m))"

text \<open>What the documentation lists, in capital letters, with the factors.\<close>

definition documented_units :: "(pystr \<times> nat) list" where
  "documented_units =
     [([], 1), ([66], 1), ([75], 1024), ([75, 66], 1024), ([77], 1024 ^ 2), ([77, 66], 1024 ^ 2), ([71], 1024 ^ 3), ([71, 66], 1024 ^ 3)]"

text \<open>No digit is near a space or a letter of a unit.\<close>

lemma decimal_ranges:
  assumes "is_decimal c"
  shows "48 \<le> c \<and> c < 58 \<or> 0x660 \<le> c \<and> c < 0x1100 \<or> 0x17E0 \<le> c \<and> c < 0x2000 \<or> 0xA620 \<le> c"
proof -
  have "list_all (\<lambda>z. z = 48 \<or> 0x660 \<le> z \<and> z + 10 \<le> 0x1100 \<or> 0x17E0 \<le> z \<and> z + 10 \<le> 0x2000 \<or> 0xA620 \<le> z) decimal_zeros"
    by (simp add: decimal_zeros_def)
  moreover from assms obtain z where "z \<in> set decimal_zeros" "z \<le> c" "c < z + 10" by (auto simp: is_decimal_def list_ex_iff)
  ultimately show ?thesis by (auto simp: list_all_iff)
qed

lemma decimal_not_space: "is_decimal c \<Longrightarrow> \<not> str_space c"
  using decimal_ranges [of c] by (auto simp: str_space_def ascii_space_def)

lemma unit_char_not: "unit_char c \<Longrightarrow> \<not> str_space c \<and> \<not> is_decimal c"
  using decimal_ranges [of c] by (auto simp: unit_char_def str_space_def ascii_space_def)

lemma str_strip_trims:
  assumes "list_all str_space w" "list_all str_space w'" "x \<noteq> []" "\<not> str_space (hd x)" "\<not> str_space (last x)"
  shows "str_strip (w @ x @ w') = x"
proof -
  have drop: "dropWhile str_space (u @ y) = y" if "list_all str_space u" "y \<noteq> []" "\<not> str_space (hd y)" for u y
    using that by (induction u) (auto simp: neq_Nil_conv)
  have "dropWhile str_space (w @ x @ w') = x @ w'" using assms by (intro drop) auto
  moreover have "dropWhile str_space (rev w' @ rev x) = rev x" using assms by (intro drop) (auto simp: list_all_iff hd_rev)
  ultimately show ?thesis by (simp add: str_strip_def)
qed

lemma str_strip_split: "\<exists>w w'. v = w @ str_strip v @ w' \<and> list_all str_space w \<and> list_all str_space w'"
proof -
  let ?u = "dropWhile str_space v"
  have "v = takeWhile str_space v @ ?u" by simp
  also have "?u = str_strip v @ rev (takeWhile str_space (rev ?u))"
    by (metis rev_append rev_rev_ident str_strip_def takeWhile_dropWhile_id)
  finally show ?thesis
    by (intro exI [of _ "takeWhile str_space v"] exI [of _ "rev (takeWhile str_space (rev ?u))"])
      (auto simp: list_all_iff dest: set_takeWhileD)
qed

text \<open>
  The reference: spaces, digits, spaces, a unit with an optional B, spaces.
\<close>

definition suffix_ok :: "pystr \<Rightarrow> bool" where
  "suffix_ok suf \<longleftrightarrow> (case suf of [] \<Rightarrow> True | [c] \<Rightarrow> unit_char c | [c, b] \<Rightarrow> unit_char c \<and> b_char b | _ \<Rightarrow> False)"

definition size_form :: "pystr \<Rightarrow> pystr \<Rightarrow> pystr \<Rightarrow> bool" where
  "size_form v ds suf \<longleftrightarrow>
     (\<exists>w sp w'. v = w @ ds @ sp @ suf @ w' \<and> list_all str_space w \<and> list_all str_space sp \<and> list_all str_space w' \<and>
        ds \<noteq> [] \<and> list_all is_decimal ds \<and> suffix_ok suf)"

lemma match_size_form:
  assumes "ds \<noteq> []" "list_all is_decimal ds" "list_all str_space sp" "suffix_ok suf"
  shows "match_size (ds @ sp @ suf) = Some (ds, suf)"
proof -
  have first: "suf = [] \<or> unit_char (hd suf)" using assms(4) by (auto simp: suffix_ok_def split: list.splits)
  then have "sp @ suf = [] \<or> \<not> is_decimal (hd (sp @ suf))"
    using assms(3) unit_char_not decimal_not_space by (cases sp) auto
  then have t: "takeWhile is_decimal (ds @ sp @ suf) = ds" "dropWhile is_decimal (ds @ sp @ suf) = sp @ suf"
    using assms(2) by (cases "sp @ suf"; auto simp: list_all_iff takeWhile_append dropWhile_append)+
  have "dropWhile str_space (sp @ suf) = suf"
    using assms(3) first unit_char_not by (cases suf) (auto simp: list_all_iff dropWhile_append)
  with t assms(1,4) show ?thesis by (auto simp: match_size_def suffix_ok_def split: list.splits)
qed

lemma match_form:
  assumes "size_form v ds suf"
  shows "match_size (str_strip v) = Some (ds, suf)"
proof -
  obtain w sp w' where v: "v = w @ ds @ sp @ suf @ w'" "list_all str_space w" "list_all str_space sp" "list_all str_space w'"
    and ds: "ds \<noteq> []" "list_all is_decimal ds" and suf: "suffix_ok suf"
    using assms by (auto simp: size_form_def)
  have hd: "\<not> str_space (hd ds)" "\<not> str_space (last ds)" using ds decimal_not_space by (auto simp: list_all_iff)
  show ?thesis
  proof (cases "suf = []")
    case True
    then have "str_strip v = ds" using v ds hd str_strip_trims [of w "sp @ w'" ds] by simp
    then show ?thesis using match_size_form [of ds "[]" suf] ds suf True by simp
  next
    case False
    then have "\<not> str_space (last suf)" using suf unit_char_not
      by (auto simp: suffix_ok_def b_char_def str_space_def ascii_space_def split: list.splits)
    then have "str_strip v = ds @ sp @ suf" using v ds hd False str_strip_trims [of w w' "ds @ sp @ suf"] by simp
    then show ?thesis using match_size_form ds v(3) suf by simp
  qed
qed

lemma match_sound:
  assumes "match_size (str_strip v) = Some (ds, suf)"
  shows "size_form v ds suf"
proof -
  let ?x = "str_strip v"
  let ?r = "dropWhile is_decimal ?x"
  obtain w w' where v: "v = w @ ?x @ w'" "list_all str_space w" "list_all str_space w'" using str_strip_split [of v] by auto
  obtain suf' where suf': "suf' = dropWhile str_space ?r" by simp
  have m: "ds = takeWhile is_decimal ?x" "suf = dropWhile str_space ?r" "ds \<noteq> []" "suffix_ok suf"
    using assms unfolding match_size_def Let_def suf' [symmetric] by (auto simp: suffix_ok_def split: if_splits list.splits)
  then have "v = w @ ds @ takeWhile str_space ?r @ suf @ w'" using v(1) by (metis append.assoc takeWhile_dropWhile_id)
  then show ?thesis unfolding size_form_def using v m
    by (intro exI [of _ w] exI [of _ "takeWhile str_space ?r"] exI [of _ w']) (auto simp: list_all_iff dest: set_takeWhileD)
qed

definition unit_factor :: "pystr \<Rightarrow> nat option" where
  "unit_factor suf = (if map upper_char suf = [66, 66] then Some 1 else map_of documented_units (map upper_char suf))"

text \<open>There are 28 suffixes, so a statement on them is checked one by one.\<close>

definition all_suffixes :: "pystr list" where
  "all_suffixes = (let us = [66, 75, 77, 71, 98, 107, 109, 103, 0x212A] in [] # map (\<lambda>c. [c]) us @ map (\<lambda>c. [c, 66]) us @ map (\<lambda>c. [c, 98]) us)"

lemma suffix_listed: "suffix_ok suf \<Longrightarrow> suf \<in> set all_suffixes"
  by (auto simp: suffix_ok_def unit_char_def b_char_def all_suffixes_def Let_def split: list.splits)

lemma for_suffixes: "suffix_ok suf \<Longrightarrow> list_all P all_suffixes \<Longrightarrow> P suf"
  using suffix_listed by (auto simp: list_all_iff)

lemma factor_of_suffix:
  assumes "suffix_ok suf"
  shows "map_of multipliers (let x = rstrip_B (map upper_char (if suf = [] then [66] else suf)) in if x = [] then [66] else x) = unit_factor suf"
  by (rule for_suffixes [OF assms])
    (simp add: all_suffixes_def upper_char_def rstrip_B_def multipliers_def unit_factor_def documented_units_def)

lemma unit_factor_None: "suffix_ok suf \<Longrightarrow> unit_factor suf = None \<longleftrightarrow> suf \<noteq> [] \<and> hd suf = 0x212A"
  by (rule for_suffixes [of suf], assumption) (simp add: all_suffixes_def upper_char_def unit_factor_def documented_units_def)

section \<open>The echo loop\<close>

text \<open>
  One round of \<open>_echo_until_closed\<close>: the outcome of \<open>arecv\<close> and then of \<open>asend\<close>. The loop returns when the socket is closed,
  goes on after a timeout and lets other errors out; \<open>None\<close> is a loop that still waits. The echoes that went out come first.
\<close>

type_synonym echo_round = "bytes result \<times> unit result"

definition echo_round :: "echo_round \<Rightarrow> bytes list \<times> unit result" where
  "echo_round r = (case fst r of Inl e \<Rightarrow> ([], Inl e) | Inr msg \<Rightarrow> (case snd r of Inl e \<Rightarrow> ([], Inl e) | Inr _ \<Rightarrow> ([msg], Inr ())))"

primrec echo_until_closed :: "echo_round list \<Rightarrow> bytes list \<times> unit result option" where
  "echo_until_closed [] = ([], None)"
| "echo_until_closed (r # rs) =
     (let (out, res) = echo_round r; (outs, end) = echo_until_closed rs
      in case res of
           Inl e \<Rightarrow> if isinstance e (NngC NngClosed) then (out, Some (Inr ()))
                    else if isinstance e (NngC NngTimeout) then (out @ outs, end)
                    else (out, Some (Inl e))
         | Inr _ \<Rightarrow> (out @ outs, end))"

section \<open>Measuring\<close>

definition WARMUP_OPS :: nat where
  "WARMUP_OPS = 200"

text \<open>Three seconds, in nanoseconds.\<close>

definition DURATION_NS :: int where
  "DURATION_NS = 3 * 10 ^ 9"

text \<open>\<open>xchg i\<close> is the outcome of the \<open>i\<close>-th \<open>await send(PAYLOAD); await recv()\<close>.\<close>

fun warm_up :: "(nat \<Rightarrow> unit result) \<Rightarrow> nat \<Rightarrow> unit result" where
  "warm_up xchg 0 = Inr ()"
| "warm_up xchg (Suc n) = bindR (warm_up xchg n) (\<lambda>_. xchg n)"

text \<open>The timed loop may not end: \<open>clock i\<close> is the \<open>i\<close>-th reading, the first one sets the deadline.\<close>

partial_function (option) timed_loop :: "(nat \<Rightarrow> int) \<Rightarrow> (nat \<Rightarrow> unit result) \<Rightarrow> int \<Rightarrow> nat \<Rightarrow> nat result option" where
  "timed_loop clock xchg deadline count =
     (if clock (Suc count) < deadline
      then (case xchg (WARMUP_OPS + count) of
              Inl e \<Rightarrow> Some (Inl e)
            | Inr _ \<Rightarrow> timed_loop clock xchg deadline (count + 1))
      else Some (Inr count))"

text \<open>\<open>_measure\<close>; \<open>rate\<close> divides by the duration.\<close>

definition measure_ops :: "(nat \<Rightarrow> 'f) \<Rightarrow> (nat \<Rightarrow> int) \<Rightarrow> (nat \<Rightarrow> unit result) \<Rightarrow> 'f result option" where
  "measure_ops rate clock xchg =
     (case warm_up xchg WARMUP_OPS of
        Inl e \<Rightarrow> Some (Inl e)
      | Inr _ \<Rightarrow> map_option (map_sum id rate) (timed_loop clock xchg (clock 0 + DURATION_NS) 0))"

lemma warm_up_outcome:
  "case warm_up xchg n of
     Inr _ \<Rightarrow> \<forall>i < n. xchg i = Inr ()
   | Inl e \<Rightarrow> \<exists>j < n. xchg j = Inl e \<and> (\<forall>i < j. xchg i = Inr ())"
proof (induction n)
  case (Suc n)
  then show ?case
    by (cases "warm_up xchg n"; cases "xchg n") (auto simp: bindR_def less_Suc_eq)
qed simp

text \<open>What the measuring loop promises of its result.\<close>

definition measured :: "(nat \<Rightarrow> int) \<Rightarrow> (nat \<Rightarrow> unit result) \<Rightarrow> int \<Rightarrow> nat result \<Rightarrow> bool" where
  "measured clock xchg deadline r \<longleftrightarrow>
     (case r of
        Inr n \<Rightarrow> deadline \<le> clock (Suc n) \<and> (\<forall>i < n. clock (Suc i) < deadline) \<and> (\<forall>i < WARMUP_OPS + n. xchg i = Inr ())
      | Inl e \<Rightarrow> \<exists>j. xchg j = Inl e \<and> (\<forall>i < j. xchg i = Inr ()))"

lemma timed_loop_returns:
  assumes "deadline \<le> clock (Suc m)" "c \<le> m" "\<forall>i < c. clock (Suc i) < deadline" "\<forall>i < WARMUP_OPS + c. xchg i = Inr ()"
  shows "\<exists>r. timed_loop clock xchg deadline c = Some r \<and> measured clock xchg deadline r"
  using assms
proof (induction "m - c" arbitrary: c)
  case 0
  then show ?case by (subst timed_loop.simps) (auto simp: measured_def)
next
  case (Suc d)
  show ?case
  proof (cases "clock (Suc c) < deadline \<and> xchg (WARMUP_OPS + c) = Inr ()")
    case True
    with Suc have "\<exists>r. timed_loop clock xchg deadline (c + 1) = Some r \<and> measured clock xchg deadline r"
      by (intro Suc.hyps(1)) (auto simp: less_Suc_eq)
    with True show ?thesis by (subst timed_loop.simps) simp
  next
    case False
    with Suc.prems show ?thesis
      by (subst timed_loop.simps) (cases "xchg (WARMUP_OPS + c)"; auto simp: measured_def)
  qed
qed

text \<open>Closed at last and with no error but timeouts before, the loop returns, and it has echoed what it could receive and send.\<close>

lemma echo_returns:
  assumes "\<forall>r \<in> set rs. case snd (echo_round r) of Inl e \<Rightarrow> isinstance e (NngC NngTimeout) \<and> \<not> isinstance e (NngC NngClosed) | Inr _ \<Rightarrow> True"
    and "isinstance e (NngC NngClosed)"
  shows "echo_until_closed (rs @ (Inl e, sent) # rs') = (concat (map (fst \<circ> echo_round) rs), Some (Inr ()))"
  using assms by (induction rs) (auto simp: echo_round_def split: prod.splits sum.splits)

section \<open>The benchmarks\<close>

text \<open>
  What a benchmark has acquired and not released itself: a socket it drops is closed later, when the object is collected or its
  peer goes away, and a task it drops ends with its socket. The outcomes of its steps are arguments; \<open>b_dial\<close> is \<open>start(block=True)\<close>, or the whole of \<open>__aenter__\<close>.
\<close>

datatype resource = ServerSocket | ServeTask | ClientSocket

datatype bench_exn = Plain py_exn | ExceptionGroup py_exn

record 'f bench_env =
  b_configs :: "unit result"
  b_keys :: "unit result"
  b_server :: "unit result"
  b_listen :: "unit result"
  b_client :: "unit result"
  b_dial :: "unit result"
  b_measure :: "'f result"
  b_serve :: "unit result"

type_synonym 'a bench_op = "(resource list, bench_exn, 'a) op"

definition stepB :: "'a result \<Rightarrow> 'a bench_op" where
  "stepB r = liftS (map_sum Plain id r)"

definition acquire :: "unit result \<Rightarrow> resource \<Rightarrow> unit bench_op" where
  "acquire r x = bindS (stepB r) (\<lambda>_ s. (Inr (), s @ [x]))"

definition release_res :: "resource \<Rightarrow> unit bench_op" where
  "release_res x = (\<lambda>s. (Inr (), filter (\<lambda>y. y \<noteq> x) s))"

text \<open>\<open>try: body finally: cleanup\<close>; an error of the cleanup replaces the outcome.\<close>

definition finallyS :: "('s, 'e, 'a) op \<Rightarrow> ('s, 'e, unit) op \<Rightarrow> ('s, 'e, 'a) op" where
  "finallyS body cleanup = (\<lambda>s. case body s of (r, s1) \<Rightarrow> (case cleanup s1 of (Inl e, s2) \<Rightarrow> (Inl e, s2) | (Inr _, s2) \<Rightarrow> (r, s2)))"

text \<open>\<open>await serve_task\<close> after the server socket is closed: the task has ended.\<close>

definition await_serve :: "'f bench_env \<Rightarrow> unit bench_op" where
  "await_serve E = bindS (release_res ServeTask) (\<lambda>_. stepB (b_serve E))"

definition bench_plain_reqrep :: "'f bench_env \<Rightarrow> 'f bench_op" where
  "bench_plain_reqrep E =
     bindS (acquire (b_server E) ServerSocket) (\<lambda>_.
     bindS (stepB (b_listen E)) (\<lambda>_.
     bindS (acquire (Inr ()) ServeTask) (\<lambda>_.
     bindS (acquire (b_client E) ClientSocket) (\<lambda>_.
     finallyS
       (finallyS (bindS (stepB (b_dial E)) (\<lambda>_. stepB (b_measure E)))
          (bindS (release_res ServerSocket) (\<lambda>_. await_serve E)))
       (release_res ClientSocket)))))"

definition bench_plain_pair :: "'f bench_env \<Rightarrow> 'f bench_op" where
  "bench_plain_pair E =
     bindS (acquire (b_server E) ServerSocket) (\<lambda>_.
     bindS (stepB (b_listen E)) (\<lambda>_.
     bindS (acquire (Inr ()) ServeTask) (\<lambda>_.
     finallyS
       (bindS (acquire (b_client E) ClientSocket) (\<lambda>_.
        bindS (stepB (b_dial E)) (\<lambda>_.
        finallyS (stepB (b_measure E)) (release_res ClientSocket))))
       (bindS (release_res ServerSocket) (\<lambda>_. await_serve E)))))"

text \<open>The TLS variants make the configurations first; then they take the same steps on other addresses.\<close>

definition bench_tls_reqrep :: "'f bench_env \<Rightarrow> 'f bench_op" where
  "bench_tls_reqrep E = bindS (stepB (b_configs E)) (\<lambda>_. bench_plain_reqrep E)"

definition bench_tls_pair :: "'f bench_env \<Rightarrow> 'f bench_op" where
  "bench_tls_pair E = bindS (stepB (b_configs E)) (\<lambda>_. bench_plain_pair E)"

text \<open>\<open>async with\<close> of a secure client: when entering fails, nothing leaves it.\<close>

definition with_client :: "'f bench_env \<Rightarrow> 'f bench_op" where
  "with_client E =
     bindS (acquire (b_client E) ClientSocket) (\<lambda>_.
     bindS (stepB (b_dial E)) (\<lambda>_.
     finallyS (stepB (b_measure E)) (release_res ClientSocket)))"

definition bench_secure_pair :: "'f bench_env \<Rightarrow> 'f bench_op" where
  "bench_secure_pair E =
     bindS (stepB (b_keys E)) (\<lambda>_.
     bindS (acquire (b_server E) ServerSocket) (\<lambda>_.
     bindS (stepB (b_listen E)) (\<lambda>_.
     bindS (acquire (Inr ()) ServeTask) (\<lambda>_.
     bindS (with_client E) (\<lambda>result.
     bindS (release_res ServerSocket) (\<lambda>_.
     bindS (await_serve E) (\<lambda>_. returnS result)))))))"

text \<open>\<open>async with asyncio.TaskGroup()\<close>: an error cancels the tasks and leaves the block in a group, and so does one of a task.\<close>

definition task_group_block :: "'a bench_op \<Rightarrow> unit result \<Rightarrow> 'a bench_op" where
  "task_group_block body tasks = (\<lambda>s.
     case body s of
       (Inl (Plain e), s1) \<Rightarrow> (Inl (ExceptionGroup e), snd (release_res ServeTask s1))
     | (Inl g, s1) \<Rightarrow> (Inl g, snd (release_res ServeTask s1))
     | (Inr x, s1) \<Rightarrow> (case tasks of Inl e \<Rightarrow> Inl (ExceptionGroup e) | Inr _ \<Rightarrow> Inr x, snd (release_res ServeTask s1)))"

definition bench_secure_reqrep :: "'f bench_env \<Rightarrow> 'f bench_op" where
  "bench_secure_reqrep E =
     bindS (stepB (b_keys E)) (\<lambda>_.
     task_group_block
       (bindS (acquire (b_server E) ServerSocket) (\<lambda>_.
        bindS (stepB (b_listen E)) (\<lambda>_.
        bindS (acquire (Inr ()) ServeTask) (\<lambda>_.
        bindS (with_client E) (\<lambda>result.
        bindS (release_res ServerSocket) (\<lambda>_. returnS result))))))
       (b_serve E))"

section \<open>The table of runs\<close>

datatype bench_kind = Plain_reqrep | Secure_reqrep | Tls_reqrep | Plain_pair | Secure_pair | Tls_pair

datatype transport = Inproc | Ipc | Tcp

definition configs_table :: "bool \<Rightarrow> (bench_kind \<times> transport \<times> bool) list" where
  "configs_table tls =
     [(Plain_reqrep, Inproc, True), (Plain_reqrep, Ipc, True), (Plain_reqrep, Tcp, True),
      (Secure_reqrep, Inproc, True), (Secure_reqrep, Ipc, True), (Secure_reqrep, Tcp, True),
      (Tls_reqrep, Tcp, tls),
      (Plain_pair, Inproc, True), (Plain_pair, Ipc, True), (Plain_pair, Tcp, True),
      (Secure_pair, Inproc, True), (Secure_pair, Ipc, True), (Secure_pair, Tcp, True),
      (Tls_pair, Tcp, tls)]"

definition bench_fn :: "bench_kind \<Rightarrow> 'f bench_env \<Rightarrow> 'f bench_op" where
  "bench_fn k = (case k of Plain_reqrep \<Rightarrow> bench_plain_reqrep | Secure_reqrep \<Rightarrow> bench_secure_reqrep | Tls_reqrep \<Rightarrow> bench_tls_reqrep
     | Plain_pair \<Rightarrow> bench_plain_pair | Secure_pair \<Rightarrow> bench_secure_pair | Tls_pair \<Rightarrow> bench_tls_pair)"

text \<open>The loop of \<open>_run_all\<close>: the lines printed, with \<open>None\<close> for \<open>(skipped)\<close>, and how it ends; \<open>env i\<close> is what the \<open>i\<close>-th run meets.\<close>

fun run_rows :: "(nat \<Rightarrow> 'f bench_env) \<Rightarrow> nat \<Rightarrow> (bench_kind \<times> transport \<times> bool) list \<Rightarrow> resource list \<Rightarrow>
    (bench_kind \<times> transport \<times> 'f option) list \<times> (bench_exn + unit) \<times> resource list" where
  "run_rows env i [] s = ([], Inr (), s)"
| "run_rows env i ((k, t, enabled) # rows) s =
     (if \<not> enabled then (let (out, r) = run_rows env (Suc i) rows s in ((k, t, None) # out, r))
      else case bench_fn k (env i) s of
          (Inl e, s1) \<Rightarrow> ([], Inl e, s1)
        | (Inr ops, s1) \<Rightarrow> (let (out, r) = run_rows env (Suc i) rows s1 in ((k, t, Some ops) # out, r)))"

definition run_all :: "bool \<Rightarrow> (nat \<Rightarrow> 'f bench_env) \<Rightarrow>
    (bench_kind \<times> transport \<times> 'f option) list \<times> (bench_exn + unit) \<times> resource list" where
  "run_all tls env = run_rows env 0 (configs_table tls) []"

lemmas bench_defs = bench_plain_reqrep_def bench_plain_pair_def bench_tls_reqrep_def bench_tls_pair_def bench_secure_pair_def
  bench_secure_reqrep_def with_client_def await_serve_def finallyS_def task_group_block_def acquire_def release_res_def stepB_def

definition all_well :: "'f bench_env \<Rightarrow> bool" where
  "all_well E \<longleftrightarrow> b_configs E = Inr () \<and> b_keys E = Inr () \<and> b_server E = Inr () \<and> b_listen E = Inr () \<and> b_client E = Inr () \<and>
     b_dial E = Inr () \<and> \<not> isl (b_measure E) \<and> b_serve E = Inr ()"

lemma bench_well: "all_well E \<Longrightarrow> bench_fn k E [] = (Inr (projr (b_measure E)), [])"
  by (cases "b_measure E"; cases k) (simp_all add: bench_fn_def all_well_def bench_defs bindS_app)

lemma run_rows_well:
  "\<forall>i. all_well (env i) \<Longrightarrow> run_rows env i rows [] =
     (map (\<lambda>(j, k, t, enabled). (k, t, if enabled then Some (projr (b_measure (env j))) else None)) (enumerate i rows), Inr (), [])"
  by (induction env i rows "[] :: resource list" rule: run_rows.induct) (simp_all add: bench_well)

section \<open>Properties\<close>



text \<open>A measurement ends. When some reading of the clock is three seconds after the first, \<open>_measure\<close> returns the rate
  for the number of exchanges that were started before the deadline, all of which and the 200 of the warm-up were
  answered, or it raises the error of the first exchange that failed, all those before it having been answered.\<close>

theorem measure_returns:
  assumes "clock 0 + DURATION_NS \<le> clock (Suc m)"
  shows "\<exists>r. measure_ops rate clock xchg = Some (map_sum id rate r) \<and> measured clock xchg (clock 0 + DURATION_NS) r"
proof (cases "warm_up xchg WARMUP_OPS")
  case (Inl e)
  with warm_up_outcome [where xchg = xchg and n = WARMUP_OPS] show ?thesis
    by (intro exI [of _ "Inl e"]) (auto simp: measure_ops_def measured_def)
next
  case (Inr u)
  with warm_up_outcome [where xchg = xchg and n = WARMUP_OPS] have "\<forall>i < WARMUP_OPS + 0. xchg i = Inr ()" by simp
  from timed_loop_returns [of _ clock m 0 xchg, OF assms _ _ this] Inr show ?thesis by (auto simp: measure_ops_def)
qed

theorem measure_returns_witness:
  "\<exists>r. measure_ops id (\<lambda>i. int i * 10 ^ 9) (\<lambda>i. if i < 201 then Inr () else Inl (PyExn ValueError)) = Some (map_sum id id r) \<and>
     measured (\<lambda>i. int i * 10 ^ 9) (\<lambda>i. if i < 201 then Inr () else Inl (PyExn ValueError)) DURATION_NS r"
  using measure_returns [of "\<lambda>i. int i * 10 ^ 9" 3 id] by (simp add: DURATION_NS_def)

text \<open>What the benchmarks release. When nothing fails, \<open>_run_all\<close> prints its fourteen rows in order, the two TLS
  rows as skipped when TLS is not available, and everything has been closed and awaited. When the server is up and
  something fails later, the request-reply benchmarks over plain sockets and over TLS still close everything. The pair
  benchmarks return without closing the client's socket when its dialer fails; the secure ones, without closing the
  client when its handshake fails, and without closing the server whenever the client or the measurement fails, over
  PAIR without awaiting its task either.\<close>

theorem bench_cleanup:
  "((\<forall>i. all_well (env i)) \<longrightarrow>
      run_all tls env = (map (\<lambda>(i, k, t, enabled). (k, t, if enabled then Some (projr (b_measure (env i))) else None)) (enumerate 0 (configs_table tls)),
        Inr (), [])) \<and>
   (b_configs E = Inr () \<and> b_keys E = Inr () \<and> b_server E = Inr () \<and> b_listen E = Inr () \<and> b_client E = Inr () \<longrightarrow>
      snd (bench_plain_reqrep E []) = [] \<and> snd (bench_tls_reqrep E []) = [] \<and>
      snd (bench_plain_pair E []) = (if isl (b_dial E) then [ClientSocket] else []) \<and>
      snd (bench_tls_pair E []) = (if isl (b_dial E) then [ClientSocket] else []) \<and>
      snd (bench_secure_reqrep E []) =
        (if isl (b_dial E) then [ServerSocket, ClientSocket] else if isl (b_measure E) then [ServerSocket] else []) \<and>
      snd (bench_secure_pair E []) =
        (if isl (b_dial E) then [ServerSocket, ServeTask, ClientSocket] else if isl (b_measure E) then [ServerSocket, ServeTask] else []))"
proof (intro conjI impI)
  show "run_all tls env = (map (\<lambda>(i, k, t, enabled). (k, t, if enabled then Some (projr (b_measure (env i))) else None))
      (enumerate 0 (configs_table tls)), Inr (), [])" if "\<forall>i. all_well (env i)"
    unfolding run_all_def by (rule run_rows_well [OF that])
qed (cases "b_dial E"; cases "b_measure E"; cases "b_serve E"; simp add: bench_defs bindS_app)+

theorem bench_cleanup_witness:
  "let E = \<lparr>b_configs = Inr (), b_keys = Inr (), b_server = Inr (), b_listen = Inr (), b_client = Inr (), b_dial = Inr (),
       b_measure = Inr (9000 :: nat), b_serve = Inr ()\<rparr>
   in snd (bench_secure_pair (E\<lparr>b_dial := Inl (PyExn ValueError)\<rparr>) []) = [ServerSocket, ServeTask, ClientSocket] \<and>
      fst (snd (run_all False (\<lambda>_. E))) = Inr () \<and> length (fst (run_all False (\<lambda>_. E))) = 14"
proof -
  let ?E = "\<lparr>b_configs = Inr (), b_keys = Inr (), b_server = Inr (), b_listen = Inr (), b_client = Inr (), b_dial = Inr (),
       b_measure = Inr (9000 :: nat), b_serve = Inr ()\<rparr>"
  have "all_well ?E" by (simp add: all_well_def)
  then show ?thesis
    using bench_cleanup [of "\<lambda>_. ?E" False "?E\<lparr>b_dial := Inl (PyExn ValueError)\<rparr>"] by (simp add: Let_def configs_table_def)
qed

end
