(* ===== verification/Spec2Isabelle.thy ===== *)
theory Spec2Isabelle
  imports PipeFilter Mutex Ownership Stubs Aio Pipe Transfers Endpoint Tls CalcClient Subscription ThreadPool
    Discovery Logging Ready SocketLife AioLife Parallel Impostors Peers Farm TlsDemo Bench
begin

text \<open>
  Verification of the Python bindings for the nng messaging library.

  \<^bold>\<open>The program.\<close> The extension module \<^verbatim>\<open>nng/_nng.pyx\<close> is assembled from Cython
  fragments (\<^verbatim>\<open>nng/_*.pxi\<close>) over C++ helpers (\<^verbatim>\<open>nng/cpp/*.hpp\<close>) that own the C
  library's objects. A socket, context, dialer or listener wraps a handle; messages travel as
  \<open>Message\<close> objects that own an \<open>nng_msg\<close> until a send takes it; completions of the C library
  run on its own threads, which must not take the interpreter lock, and therefore only push an
  identifier on a queue. A dispatcher thread, or a callback on the event loop, takes
  identifiers off the queue and completes the Python future registered under them. Pipes
  (connections) are created and destroyed by the C library, pass the socket's filter, and are
  mirrored as Python objects by the dispatcher. \<^verbatim>\<open>stubs/generate_stubs.py\<close> prints the type
  stubs of the module.

  \<^bold>\<open>The theories.\<close>

  \<^item> \<open>Prelude\<close>: machine integers, byte strings and their big-endian coding, results that may
    be a raised exception (\<open>Inl\<close>), and the combinators and lemmas all components share.
  \<^item> \<open>Errors\<close> (\<^verbatim>\<open>_errors.pxi\<close>): error codes, the exception hierarchy with its built-in
    bases, \<open>check_err\<close>. Shown: which class each code raises, which codes \<open>except OSError\<close>
    catches.
  \<^item> \<open>PipeFilter\<close> (\<^verbatim>\<open>cpp/pipe_filter.hpp\<close>, \<^verbatim>\<open>_pipe_filter.pxi\<close>): socket addresses and every
    filter. Shown: bit-prefix semantics of \<open>IpFilter\<close>, what \<open>PortFilter\<close> compares on hosts of
    either byte order, laws of the composites, the anchoring of \<open>FirstWinsFilter\<close>.
  \<^item> \<open>Mutex\<close> (\<^verbatim>\<open>_mutex.pxd\<close>, \<open>lock_gil_friendly\<close> of \<^verbatim>\<open>_nng.pyx\<close>): the re-entrant mutex and
    a step relation for threads that hold the interpreter lock and want the mutex. Shown:
    mutual exclusion, and that a state in which some thread waits always has a step.
  \<^item> \<open>Utf8\<close>: the codec behind \<open>str.encode\<close> and \<open>bytes.decode\<close>, with its round trip.
  \<^item> \<open>Message\<close> (\<^verbatim>\<open>_message.pxi\<close>, \<^verbatim>\<open>cpp/message.hpp\<close>): all operations of a message over a heap
    of \<open>nng_msg\<close>; the C functions are a record of functions with the documented laws as a
    locale, interpreted on a reference library. Shown: the effect of every mutator on the body
    and header, zero fill on growth, the guard of exported buffers, the integer round trips.
  \<^item> \<open>Ownership\<close>: any number of \<open>Message\<close> objects, views and in-flight sends over one heap.
    Shown: every reachable state has exactly one owner per live message, so there is no double
    free, no use after free and no leak.
  \<^item> \<open>Dispatch\<close> (\<^verbatim>\<open>cpp/dispatch.hpp\<close>, \<^verbatim>\<open>cpp/platform.hpp\<close>, \<^verbatim>\<open>_nng.pyx\<close>): both queues behind
    one locale, the dispatcher loop, the wakeup protocol of the socket-pair queue,
    initialisation of the library. Shown: first-in first-out delivery, no lost completion, no
    lost wakeup, at most one dispatcher thread.
  \<^item> \<open>Aio\<close> (\<^verbatim>\<open>_aio_cb_sync.pxi\<close>, \<^verbatim>\<open>_aio_async.pxi\<close>): completion of concurrent and asyncio
    futures and the per-loop manager. Shown: each operation completes its future once, both
    completion paths agree, the manager completes each registered operation exactly once by
    its release.
  \<^item> \<open>AioLife\<close> (\<^verbatim>\<open>_aio_async.pxi\<close>, \<^verbatim>\<open>_aio_cb_sync.pxi\<close>, \<^verbatim>\<open>cpp/aio.hpp\<close>): the life of the operation objects,
    whose addresses travel on the queue and are used again. Shown: every completion finds the live operation that
    pushed it, and none is completed twice.
  \<^item> \<open>Pipe\<close> (\<^verbatim>\<open>cpp/pipe.hpp\<close>, \<^verbatim>\<open>_socket.pxi\<close>): handle snapshots, the collection fed by the
    C library, pipe objects, \<open>update_pipes\<close> and the pipe part of \<open>close\<close>. Shown: the list of
    pipes mirrors the collection in every interleaving, callbacks run exactly for what
    changed, refused pipes stay invisible, closing is silent.
  \<^item> \<open>Stubs\<close> (\<^verbatim>\<open>stubs/generate_stubs.py\<close>, \<^verbatim>\<open>nng/__init__.py\<close>): the tables and emitters of the
    stub generator and the export list of the package. Shown: signatures read back, members
    are listed once, the exception table agrees with \<open>Errors\<close>, which exported names are
    missing.

  \<^item> \<open>Transfers\<close> (\<^verbatim>\<open>_socket.pxi\<close>, \<^verbatim>\<open>_context.pxi\<close>): sending and receiving on sockets and
    contexts, synchronous, asyncio and with concurrent futures. Shown: on every path a sent
    message is either handed to the library or still the caller's, a received one reaches the
    caller or is freed, and the paths of the asyncio methods on which a message is lost.
  \<^item> \<open>Endpoint\<close> (\<^verbatim>\<open>_socket.pxi\<close>, \<^verbatim>\<open>_dialer.pxi\<close>, \<^verbatim>\<open>_listener.pxi\<close>, \<^verbatim>\<open>_context.pxi\<close>,
    \<^verbatim>\<open>cpp/dialer.hpp\<close>, \<^verbatim>\<open>cpp/factory.hpp\<close>): creating, starting and closing dialers, listeners and
    contexts and the options of all classes, over a C library behind a locale. Shown: no two open
    objects share an endpoint whatever a program calls, closing a socket leaves none, options read
    back, and which endpoints and errors the code loses.
  \<^item> \<open>SocketLife\<close> (\<^verbatim>\<open>_socket.pxi\<close>, \<^verbatim>\<open>_nng.pyx\<close>): construction of the socket classes, the registry, managers
    per event loop, filters and callbacks, and the whole of \<open>Socket.close\<close> over \<open>Pipe\<close> and \<open>Aio\<close>, for any
    number of sockets. Shown: closing winds up everything a socket has and nothing else, construction is all or
    nothing, and how a socket made meanwhile breaks the dispatcher's round.
  \<^item> \<open>Ready\<close> (\<^verbatim>\<open>_socket.pxi\<close>): poll descriptors and the readiness generators on one event loop. Shown: with
    one generator per descriptor no readiness is lost; a second one starves the first.
  \<^item> \<open>Tls\<close> (\<^verbatim>\<open>_tls.pxi\<close>, \<^verbatim>\<open>cpp/tls_config.hpp\<close>): the factories of TLS configurations and the
    attributes of certificates, over a TLS engine that is a parameter. Shown: exactly the settings
    asked for are made, a failing factory frees its configuration, and how the list of alternative
    names is cached.

  The programs under \<^verbatim>\<open>examples\<close> that carry their own protocol:

  \<^item> \<open>Codec\<close> (\<^verbatim>\<open>secure_sockets/protocol_utils.py\<close>, \<^verbatim>\<open>common.py\<close>): base64, hexadecimal keys and
    the JSON messages of the secure sockets, with the decoders of the standard library the
    parsers rely on. Shown: every message reads back, and what a parser accepts and raises.
  \<^item> \<open>Handshake\<close> (\<^verbatim>\<open>security_utils.py\<close>, \<^verbatim>\<open>secure_pair.py\<close>, \<^verbatim>\<open>secure_req.py\<close>): the mutually
    authenticated handshake over a cryptographic library that is a parameter. Shown: honest
    parties complete it, nobody completes it without a signature that verifies, the signed text
    does not delimit its fields, and with challenges of 32 octets it does bind the session.
  \<^item> \<open>Conversation\<close> (\<^verbatim>\<open>REP-REQ/conversation/server.py\<close>): one manager per client, dispatch
    tasks and the client table as a step relation. Shown: the invariant of the server, that
    every dispatch slot is freed exactly once and none waits for ever.
  \<^item> \<open>Calculator\<close> (the same file): the command interpreter of the demo server.
  \<^item> \<open>CalcClient\<close> (\<^verbatim>\<open>REP-REQ/conversation/client.py\<close>): the session of its client, composed with the
    server's conversation. Shown: a session shows what the command interpreter computes.
  \<^item> \<open>SecureRep\<close> (\<^verbatim>\<open>secure_rep.py\<close>): the authenticated reply server. Shown: the conversation
    of a client starts only after its handshake, and what a peer that fails it does.
  \<^item> \<open>Subscription\<close> (\<^verbatim>\<open>secure_subscriber/server.py\<close>, \<^verbatim>\<open>client.py\<close>): tokens and the streaming
    of events. Shown: an honest client gets its events, and nothing is streamed without the
    token.
  \<^item> \<open>ThreadPool\<close> (\<^verbatim>\<open>PULL-PUSH/threadpool/threadpool.py\<close>): submitters, workers, cancellation
    and shutdown as a step relation. Shown: an item runs at most once, results are yielded in
    the order of the inputs, shutdown cancels what is pending, the bounds of call ids, and the
    interleaving in which the pool loses work.
  \<^item> \<open>Discovery\<close> (\<^verbatim>\<open>RESPONDENT-SURVEYOR/service_discovery\<close>): the responder's tasks, the surveyor
    and the program that watches the services. Shown: a survey finds every service, one malformed
    survey silences a service, the watch loop ends.
  \<^item> \<open>Logging\<close> (\<^verbatim>\<open>PUB-SUB/logging\<close>): log records published under their level. Shown: a record
    reaches exactly the listeners of its level and reads back.
  \<^item> \<open>Parallel\<close> (\<^verbatim>\<open>REP-REQ/parallel_requests_async\<close>): the tasks of client and server on their contexts. Shown: every
    run ends, and without an early shutdown every request is answered; how the shutdown loses replies.
  \<^item> \<open>Farm\<close> (\<^verbatim>\<open>REP-REQ/multi_clients_servers\<close>): any number of workers and servers. Shown: every run ends with
    each request acknowledged, whatever the routing.
  \<^item> \<open>Peers\<close> (\<^verbatim>\<open>PAIR/simple\<close>, \<^verbatim>\<open>PAIR/dual_channel\<close>, \<^verbatim>\<open>REP-REQ/simple\<close>, \<^verbatim>\<open>REP-REQ/simple_async\<close>): processes over
    bounded queues, with a locale for steps that commute. Shown: all schedules of each program end in the same state.
  \<^item> \<open>Impostors\<close> (\<^verbatim>\<open>secure_subscriber/gen_keys.py\<close>, \<^verbatim>\<open>fake_client.py\<close>, \<^verbatim>\<open>fake_server.py\<close>, the main programs): key
    files, pinned keys and the programs that pose as another party. Shown: key files read back, no subscription with a
    rogue server, and how the programs report it.
  \<^item> \<open>TlsDemo\<close> (\<^verbatim>\<open>TLS/*.py\<close>): the certificates and configurations of the TLS examples, over an engine that checks
    certificates as documented. Shown: which connections succeed and which are refused.
  \<^item> \<open>Bench\<close> (\<^verbatim>\<open>secure_subscriber/bench_overhead.py\<close>): the payload size, the echo and measuring loops, the benchmarks
    and their table. Shown: the grammar of sizes, that a measurement ends, and what each benchmark releases.

  \<^bold>\<open>Modelling.\<close> Cython methods are HOL functions over records; an exception is the left of a
  sum. Threads are step relations over a shared state, and the claims about them hold for
  every interleaving of the atomic sections the locks delimit. Functions of the C library are
  parameters: records of functions with their documented behaviour as locale assumptions, or
  return codes and snapshots passed to the operation. Widths are kept where the code keeps
  them (ports, octets, C integers); Python integers are \<open>int\<close>. Loops recurse on lists or on a
  decreasing measure, and the loops of threads and tasks are steps of a relation. The JSON
  decoder recurses on fuel: the parser starts it with one more than the length of the text,
  which parses whatever any fuel parses (\<open>loads_bound_enough\<close>). The sockets of the examples read from a script of arrivals;
  a call that finds it empty is \<open>Blocked\<close>, which is a value of its own and no exception. The
  events streamed in one run are counted by an argument, because the loop of the source ends
  only with the connection.

  \<^bold>\<open>Not modelled.\<close> Subscriptions of sockets and contexts and the statistics of the C library, which are single calls
  forwarded to it; the programs under \<^verbatim>\<open>benchmarks\<close>, which only measure; parsing of command lines, starting of
  processes, printing and logging in the examples. Numbers that a program only prints (rates, megabytes) and the
  rounding of floating-point clocks are left out, as are \<open>repr\<close> methods and the text of error messages throughout.
\<close>

end
